(* ===== verification/Agg_Prelude.thy ===== *)
theory Agg_Prelude
  imports Main "HOL-Library.Word" "HOL-Library.Monad_Syntax"
begin

text \<open>
  Shared vocabulary of the development.

  Machine integers are words of their width; \<open>usize\<close>, byte counts and points in time are
  natural numbers.  A Rust panic (a failed \<open>assert!\<close>, an \<open>unwrap\<close> of nothing, an index out of
  range, an arithmetic underflow) is the value \<open>None\<close> of an option, so that an operation that
  may panic has type \<open>'a option\<close> and is written with the do-notation of
  \<open>HOL-Library.Monad_Syntax\<close>.  A \<open>Result\<close> is a sum whose left side is the error.
\<close>

section \<open>Machine types\<close>

type_synonym u8 = "8 word"
type_synonym u16 = "16 word"
type_synonym u32 = "32 word"
type_synonym u64 = "64 word"
type_synonym u128 = "128 word"
type_synonym bytes = "u8 list"
type_synonym usize = nat
type_synonym instant = nat
type_synonym duration = nat

text \<open>The constants of \<open>std::time::Duration\<close> in nanoseconds.\<close>

definition from_millis :: "nat \<Rightarrow> duration" where
  "from_millis n = n * 1000000"

definition from_secs :: "nat \<Rightarrow> duration" where
  "from_secs n = n * 1000000000"

text \<open>\<open>Instant::elapsed\<close> at time \<open>now\<close>; the standard library saturates at zero.\<close>

definition elapsed :: "instant \<Rightarrow> instant \<Rightarrow> duration" where
  "elapsed now t = now - t"

section \<open>Errors\<close>

datatype error_kind =
    InvalidData | InvalidInput | UnexpectedEof | ConnectionAborted | ConnectionReset
  | ConnectionRefused | BrokenPipe | TimedOut | AddrInUse | NotFound | AddrNotAvailable
  | OtherError | OtherKind nat

datatype io_error = IoError (err_kind: error_kind) (err_msg: string)

type_synonym 'a io_result = "io_error + 'a"

definition protocol_err :: "string \<Rightarrow> io_error" where
  "protocol_err msg = IoError InvalidData msg"

section \<open>Panics\<close>

definition assert_that :: "bool \<Rightarrow> unit option" where
  "assert_that b = (if b then Some () else None)"

definition checked_sub :: "nat \<Rightarrow> nat \<Rightarrow> nat option" where
  "checked_sub a b = (if b \<le> a then Some (a - b) else None)"

definition nth_opt :: "'a list \<Rightarrow> nat \<Rightarrow> 'a option" where
  "nth_opt xs i = (if i < length xs then Some (xs ! i) else None)"

lemma assert_that_Some [simp]: "assert_that b = Some u \<longleftrightarrow> b"
  by (simp add: assert_that_def)

lemma assert_that_True [simp]: "assert_that True = Some ()"
  by (simp add: assert_that_def)

lemma bind_assert_Some [simp]:
  "Option.bind (assert_that b) f = Some r \<longleftrightarrow> b \<and> f () = Some r"
  by (simp add: assert_that_def)

lemma checked_sub_Some [simp]: "checked_sub a b = Some c \<longleftrightarrow> b \<le> a \<and> c = a - b"
  by (auto simp: checked_sub_def)

lemma checked_sub_le: "b \<le> a \<Longrightarrow> checked_sub a b = Some (a - b)"
  by simp

lemma nth_opt_Some [simp]: "nth_opt xs i = Some x \<longleftrightarrow> i < length xs \<and> xs ! i = x"
  by (auto simp: nth_opt_def)

lemma nth_opt_less: "i < length xs \<Longrightarrow> nth_opt xs i = Some (xs ! i)"
  by simp

lemma bind_Some_iff: "Option.bind x f = Some r \<longleftrightarrow> (\<exists>a. x = Some a \<and> f a = Some r)"
  by (cases x) auto

section \<open>Lists\<close>

lemma nth_list_update_if:
  "i < length xs \<Longrightarrow> xs[i := x] ! j = (if i = j then x else xs ! j)"
  by auto

lemma sum_list_filter_split:
  "(\<Sum>x\<leftarrow>xs. f x) = (\<Sum>x\<leftarrow>filter P xs. f x) + (\<Sum>x\<leftarrow>filter (\<lambda>x. \<not> P x) xs. f x :: nat)"
  by (induction xs) auto

lemma sum_list_map_update:
  assumes "i < length xs"
  shows "(\<Sum>x\<leftarrow>xs[i := y]. f x) + f (xs ! i) = (\<Sum>x\<leftarrow>xs. f x) + (f y :: nat)"
  using assms
proof (induction xs arbitrary: i)
  case Nil
  then show ?case by simp
next
  case (Cons x xs)
  then show ?case by (cases i) fastforce+
qed

lemma sum_list_member_le: "x \<in> set xs \<Longrightarrow> f x \<le> (\<Sum>x\<leftarrow>xs. f x :: nat)"
  by (induction xs) auto

section \<open>Collections of facts\<close>

named_theorems codec_simps \<open>byte-level encoders and decoders\<close>

section \<open>Runs of a step relation\<close>

text \<open>
  The interface between a step relation and what is shown of all its runs: an invariant that every
  step keeps, and a relation between the states before and after that every step respects.
\<close>

locale step_system =
  fixes step :: "'s \<Rightarrow> 's \<Rightarrow> bool" and inv :: "'s \<Rightarrow> bool" and moves :: "'s \<Rightarrow> 's \<Rightarrow> bool"
  assumes step_inv: "inv s \<Longrightarrow> step s s' \<Longrightarrow> inv s'"
    and step_moves: "inv s \<Longrightarrow> step s s' \<Longrightarrow> moves s s'"
    and moves_refl: "moves s s"
    and moves_trans: "moves s s' \<Longrightarrow> moves s' s'' \<Longrightarrow> moves s s''"
begin

lemma run_inv:
  assumes "step\<^sup>*\<^sup>* s s'" and "inv s"
  shows "inv s'"
  using assms by (induction rule: rtranclp_induct) (blast intro: step_inv)+

lemma run_moves:
  assumes "step\<^sup>*\<^sup>* s s'" and "inv s"
  shows "moves s s'"
  using assms
proof (induction rule: rtranclp_induct)
  case base
  show ?case by (rule moves_refl)
next
  case (step y z)
  then show ?case using run_inv [OF step.hyps(1) step.prems] by (blast intro: moves_trans step_moves)
qed

end

end
