(* ===== verification/Ids.thy ===== *)
theory Ids
  imports Agg_Prelude
begin

text \<open>
  Identifiers (\<open>aggligator/src/id.rs\<close>) and the big-endian byte order of the wire format.
  Connection identifiers travel encrypted: they are combined by exclusive or with the first 16
  bytes of the Diffie-Hellman secret of the link.  The key exchange itself is third-party code;
  the secret is an argument of the definitions.
\<close>

unbundle bit_operations_syntax

section \<open>Big-endian integers\<close>

primrec nat_to_be :: "nat \<Rightarrow> nat \<Rightarrow> bytes" where
  "nat_to_be 0 x = []"
| "nat_to_be (Suc n) x = nat_to_be n (x div 256) @ [of_nat x]"

definition be_to_nat :: "bytes \<Rightarrow> nat" where
  "be_to_nat bs = foldl (\<lambda>acc b. acc * 256 + unat b) 0 bs"

lemma length_nat_to_be [simp, codec_simps]: "length (nat_to_be n x) = n"
  by (induction n arbitrary: x) simp_all

lemma be_to_nat_snoc [simp]: "be_to_nat (bs @ [b]) = be_to_nat bs * 256 + unat b"
  by (simp add: be_to_nat_def)

lemma be_to_nat_to_be: "be_to_nat (nat_to_be n x) = x mod 256 ^ n"
proof (induction n arbitrary: x)
  case 0
  then show ?case by (simp add: be_to_nat_def)
next
  case (Suc n)
  have "x mod 256 ^ Suc n = x div 256 mod 256 ^ n * 256 + x mod 256"
    by (simp add: mod_mult2_eq mult.commute)
  then show ?case by (simp add: Suc unat_of_nat)
qed

lemma be_to_nat_unat:
  fixes w :: "'a::len word"
  assumes "LENGTH('a) \<le> 8 * n"
  shows "of_nat (be_to_nat (nat_to_be n (unat w))) = w"
proof -
  have "unat w < 2 ^ LENGTH('a)" by simp
  also have "(2::nat) ^ LENGTH('a) \<le> 2 ^ (8 * n)" using assms by (rule power_increasing) simp
  finally have "unat w < 256 ^ n" by (simp add: power_mult)
  then show ?thesis by (simp add: be_to_nat_to_be)
qed

section \<open>Exclusive or\<close>

lemma xor_cancel [simp]: "(a :: 'a::len word) XOR (a XOR x) = x"
  by (simp add: xor.assoc [symmetric])

lemma xor_twice_iff: "(b :: 'a::len word) XOR (a XOR x) = x \<longleftrightarrow> a = b"
proof
  assume "b XOR (a XOR x) = x"
  then have "b XOR (b XOR (a XOR x)) = b XOR x" by simp
  then have "x XOR (x XOR a) = x XOR (x XOR b)" by (simp add: xor.commute)
  then show "a = b" by simp
qed simp

section \<open>Identifiers\<close>

datatype conn_id = ConnId (conn_raw: u128)
datatype encrypted_conn_id = EncryptedConnId (enc_raw: u128)
datatype link_id = LinkId (link_raw: u128)
datatype server_id = ServerId (server_raw: u128)

text \<open>A server identifier holds a \<open>NonZeroU128\<close>.\<close>

definition server_id_ok :: "server_id \<Rightarrow> bool" where
  "server_id_ok s \<longleftrightarrow> server_raw s \<noteq> 0"

definition read_u128 :: "bytes \<Rightarrow> u128" where
  "read_u128 bs = of_nat (be_to_nat (take 16 bs))"

definition enc_new :: "conn_id \<Rightarrow> bytes \<Rightarrow> encrypted_conn_id" where
  "enc_new cid secret = (let key = read_u128 secret in EncryptedConnId (key XOR conn_raw cid))"

definition enc_decrypt :: "encrypted_conn_id \<Rightarrow> bytes \<Rightarrow> conn_id" where
  "enc_decrypt e secret = (let key = read_u128 secret in ConnId (key XOR enc_raw e))"

text \<open>Connection, link and server identifiers are ordered by their numbers.\<close>

instantiation conn_id :: linorder
begin

definition less_eq_conn_id :: "conn_id \<Rightarrow> conn_id \<Rightarrow> bool" where
  "less_eq_conn_id a b \<longleftrightarrow> conn_raw a \<le> conn_raw b"

definition less_conn_id :: "conn_id \<Rightarrow> conn_id \<Rightarrow> bool" where
  "less_conn_id a b \<longleftrightarrow> conn_raw a < conn_raw b"

instance
  by standard (auto simp: less_eq_conn_id_def less_conn_id_def conn_id.expand)

end

instantiation link_id :: linorder
begin

definition less_eq_link_id :: "link_id \<Rightarrow> link_id \<Rightarrow> bool" where
  "less_eq_link_id a b \<longleftrightarrow> link_raw a \<le> link_raw b"

definition less_link_id :: "link_id \<Rightarrow> link_id \<Rightarrow> bool" where
  "less_link_id a b \<longleftrightarrow> link_raw a < link_raw b"

instance
  by standard (auto simp: less_eq_link_id_def less_link_id_def link_id.expand)

end

section \<open>Properties\<close>

text \<open>
  Decrypting an encrypted connection identifier with the same secret gives the identifier
  back, and with secrets whose first 16 bytes differ it gives another one.
\<close>

lemma conn_id_round_trip:
  "enc_decrypt (enc_new cid secret) secret' = cid \<longleftrightarrow> read_u128 secret = read_u128 secret'"
  by (cases cid) (simp add: enc_decrypt_def enc_new_def Let_def xor_twice_iff)

end
