(* ===== verification/Cfg.thy ===== *)
theory Cfg
  imports Ids
begin

text \<open>
  Connection and link configuration (\<open>aggligator/src/cfg.rs\<close>), the readers and writers of
  integers in network byte order, and the part of the configuration that is exchanged with the
  remote endpoint.
\<close>

section \<open>Readers\<close>

text \<open>
  A reader of a byte buffer (\<open>std::io::Read\<close> for a slice or a cursor): the value read and
  what is left, or an error.  \<open>read_exact\<close> on a buffer that is too short fails with
  \<open>UnexpectedEof\<close>.
\<close>

type_synonym 'a reader = "bytes \<Rightarrow> ('a \<times> bytes) io_result"

definition rd_return :: "'a \<Rightarrow> 'a reader" where
  "rd_return x bs = Inr (x, bs)"

definition rd_fail :: "io_error \<Rightarrow> 'a reader" where
  "rd_fail e bs = Inl e"

definition rd_bind :: "'a reader \<Rightarrow> ('a \<Rightarrow> 'b reader) \<Rightarrow> 'b reader" where
  "rd_bind r f bs = (case r bs of Inl e \<Rightarrow> Inl e | Inr (x, rest) \<Rightarrow> f x rest)"

definition read_exact :: "nat \<Rightarrow> bytes reader" where
  "read_exact n bs =
     (if length bs < n then Inl (IoError UnexpectedEof ''failed to fill whole buffer'')
      else Inr (take n bs, drop n bs))"

definition read_be :: "nat \<Rightarrow> nat reader" where
  "read_be n = rd_bind (read_exact n) (\<lambda>bs. rd_return (be_to_nat bs))"

definition rd_u8 :: "u8 reader" where
  "rd_u8 = rd_bind (read_be 1) (\<lambda>n. rd_return (of_nat n))"

definition rd_u16 :: "u16 reader" where
  "rd_u16 = rd_bind (read_be 2) (\<lambda>n. rd_return (of_nat n))"

definition rd_u32 :: "u32 reader" where
  "rd_u32 = rd_bind (read_be 4) (\<lambda>n. rd_return (of_nat n))"

definition rd_u128 :: "u128 reader" where
  "rd_u128 = rd_bind (read_be 16) (\<lambda>n. rd_return (of_nat n))"

definition wr_u8 :: "u8 \<Rightarrow> bytes" where
  "wr_u8 w = nat_to_be 1 (unat w)"

definition wr_u16 :: "u16 \<Rightarrow> bytes" where
  "wr_u16 w = nat_to_be 2 (unat w)"

definition wr_u32 :: "u32 \<Rightarrow> bytes" where
  "wr_u32 w = nat_to_be 4 (unat w)"

definition wr_u128 :: "u128 \<Rightarrow> bytes" where
  "wr_u128 w = nat_to_be 16 (unat w)"

section \<open>Configuration\<close>

datatype link_ping = Periodic duration | WhenIdle duration | WhenTimedOut

record unacked_increase =
  consecutive :: u32
  percent :: u32

record link_cfg =
  io_packet_size :: usize
  ack_timeout_min :: duration
  ack_timeout_roundtrip_factor :: u32
  ack_timeout_resent_factor :: u32
  ack_timeout_unreliable_factor :: u32
  ack_timeout_max :: duration
  unacked_init :: usize
  unacked_limit :: usize
  unacked_increases :: "unacked_increase list"
  unacked_increase_single_link :: u32
  ping :: link_ping
  ping_timeout :: duration
  max_ping :: "duration option"
  test_data_limit :: usize
  test_after_ack_timeout :: bool
  retest_interval :: duration
  non_working_timeout :: duration
  flush_delay :: duration
  flush_interval :: "duration option"
  ack_flush_interval :: "duration option"
  unflushed_limit :: "usize option"

record cfg =
  io_write_size :: usize
  ignore_flush :: bool
  send_buffer :: u32
  send_queue :: usize
  recv_buffer :: u32
  recv_queue :: usize
  link_max_ping_spread :: "u32 option"
  no_link_timeout :: duration
  termination_timeout :: duration
  connect_queue :: usize
  disconnect_on_server_id_mismatch :: bool
  stats_intervals :: "duration list"
  cfg_link :: link_cfg

definition default_link_cfg :: link_cfg where
  "default_link_cfg = \<lparr>
     io_packet_size = 65536,
     ack_timeout_min = from_secs 1,
     ack_timeout_roundtrip_factor = 3,
     ack_timeout_resent_factor = 3,
     ack_timeout_unreliable_factor = 3,
     ack_timeout_max = from_secs 30,
     unacked_init = 8192,
     unacked_limit = 134217728,
     unacked_increases =
       [\<lparr>consecutive = 0, percent = 101\<rparr>,
        \<lparr>consecutive = 10, percent = 102\<rparr>,
        \<lparr>consecutive = 25, percent = 105\<rparr>,
        \<lparr>consecutive = 50, percent = 110\<rparr>,
        \<lparr>consecutive = 100, percent = 120\<rparr>],
     unacked_increase_single_link = 200,
     ping = WhenIdle (from_secs 15),
     ping_timeout = from_secs 40,
     max_ping = None,
     test_data_limit = 65536,
     test_after_ack_timeout = False,
     retest_interval = from_secs 3,
     non_working_timeout = from_secs 20,
     flush_delay = from_millis 50,
     flush_interval = None,
     ack_flush_interval = Some (from_millis 50),
     unflushed_limit = Some 131072\<rparr>"

definition default_cfg :: cfg where
  "default_cfg = \<lparr>
     io_write_size = 8192,
     ignore_flush = False,
     send_buffer = 134217728,
     send_queue = 16,
     recv_buffer = 134217728,
     recv_queue = 16,
     link_max_ping_spread = Some 5,
     no_link_timeout = from_secs 120,
     termination_timeout = from_secs 300,
     connect_queue = 32,
     disconnect_on_server_id_mismatch = True,
     stats_intervals = [from_millis 100, from_secs 1, from_secs 5, from_secs 10],
     cfg_link = default_link_cfg\<rparr>"

text \<open>What the \<open>NonZero\<close> types of the source guarantee.\<close>

definition link_cfg_ok :: "link_cfg \<Rightarrow> bool" where
  "link_cfg_ok c \<longleftrightarrow> 0 < io_packet_size c \<and> 0 < ack_timeout_roundtrip_factor c \<and>
     0 < ack_timeout_resent_factor c \<and> 0 < ack_timeout_unreliable_factor c \<and>
     0 < unacked_init c \<and> 0 < unacked_limit c \<and> unflushed_limit c \<noteq> Some 0"

definition cfg_ok :: "cfg \<Rightarrow> bool" where
  "cfg_ok c \<longleftrightarrow> 0 < io_write_size c \<and> 0 < send_buffer c \<and> 0 < send_queue c \<and>
     0 < recv_buffer c \<and> 0 < recv_queue c \<and> link_max_ping_spread c \<noteq> Some 0 \<and>
     0 < connect_queue c \<and> link_cfg_ok (cfg_link c)"

record exchanged_cfg =
  x_recv_buffer :: u32

definition exchanged_cfg_ok :: "exchanged_cfg \<Rightarrow> bool" where
  "exchanged_cfg_ok c \<longleftrightarrow> x_recv_buffer c \<noteq> 0"

definition exchanged_write :: "exchanged_cfg \<Rightarrow> bytes" where
  "exchanged_write c = wr_u32 (x_recv_buffer c)"

definition exchanged_read :: "exchanged_cfg reader" where
  "exchanged_read = rd_bind rd_u32 (\<lambda>v.
     if v = 0 then rd_fail (protocol_err ''recv_buffer must not be zero'')
     else rd_return \<lparr>x_recv_buffer = v\<rparr>)"

definition exchanged_from_cfg :: "cfg \<Rightarrow> exchanged_cfg" where
  "exchanged_from_cfg c = \<lparr>x_recv_buffer = recv_buffer c\<rparr>"

section \<open>What a reader consumes\<close>

text \<open>
  \<open>consumes r xs v\<close>: the reader takes exactly the bytes \<open>xs\<close> off the front of any buffer and
  returns \<open>v\<close>, and on every proper prefix of \<open>xs\<close> it fails with \<open>UnexpectedEof\<close>.
\<close>

definition consumes :: "'a reader \<Rightarrow> bytes \<Rightarrow> 'a \<Rightarrow> bool" where
  "consumes r xs v \<longleftrightarrow> (\<forall>ys. r (xs @ ys) = Inr (v, ys)) \<and>
     (\<forall>k < length xs. \<exists>msg. r (take k xs) = Inl (IoError UnexpectedEof msg))"

lemma consumes_return [simp, intro]: "consumes (rd_return v) [] v"
  by (simp add: consumes_def rd_return_def)

lemma consumes_bind:
  assumes r: "consumes r xs v" and f: "consumes (f v) ys w"
  shows "consumes (rd_bind r f) (xs @ ys) w"
  unfolding consumes_def
proof (intro conjI allI impI)
  fix zs
  show "rd_bind r f ((xs @ ys) @ zs) = Inr (w, zs)"
    using r f by (simp add: consumes_def rd_bind_def)
next
  fix k assume k: "k < length (xs @ ys)"
  show "\<exists>msg. rd_bind r f (take k (xs @ ys)) = Inl (IoError UnexpectedEof msg)"
  proof (cases "k < length xs")
    case True
    with r obtain msg where "r (take k xs) = Inl (IoError UnexpectedEof msg)"
      by (auto simp: consumes_def)
    with True show ?thesis by (simp add: rd_bind_def)
  next
    case False
    with k have "k - length xs < length ys" by simp
    with f obtain msg where "f v (take (k - length xs) ys) = Inl (IoError UnexpectedEof msg)"
      by (auto simp: consumes_def)
    moreover have "r (xs @ take (k - length xs) ys) = Inr (v, take (k - length xs) ys)"
      using r by (simp add: consumes_def)
    ultimately show ?thesis using False by (simp add: rd_bind_def)
  qed
qed

lemma consumes_bind_return: "consumes r xs v \<Longrightarrow> consumes (rd_bind r (\<lambda>x. rd_return (g x))) xs (g v)"
  using consumes_bind [of r xs v "\<lambda>x. rd_return (g x)" "[]" "g v"] by auto

lemma consumes_exact [intro]: "length xs = n \<Longrightarrow> consumes (read_exact n) xs xs"
  by (auto simp: consumes_def read_exact_def)

lemma consumes_be: "consumes (read_be n) (nat_to_be n x) (x mod 256 ^ n)"
  using consumes_bind_return [OF consumes_exact, of "nat_to_be n x" n be_to_nat]
  by (simp add: read_be_def be_to_nat_to_be)

lemma consumes_word:
  fixes w :: "'a::len word"
  assumes "LENGTH('a) \<le> 8 * n"
  shows "consumes (rd_bind (read_be n) (\<lambda>m. rd_return (of_nat m))) (nat_to_be n (unat w)) w"
  using consumes_bind_return [OF consumes_be [of n "unat w"], of "of_nat :: nat \<Rightarrow> 'a word"]
    be_to_nat_unat [OF assms, of w]
  by (simp add: be_to_nat_to_be)

lemma consumes_u8 [simp, intro]: "consumes rd_u8 (wr_u8 w) w"
  unfolding rd_u8_def wr_u8_def by (rule consumes_word) simp

lemma consumes_u16 [simp, intro]: "consumes rd_u16 (wr_u16 w) w"
  unfolding rd_u16_def wr_u16_def by (rule consumes_word) simp

lemma consumes_u32 [simp, intro]: "consumes rd_u32 (wr_u32 w) w"
  unfolding rd_u32_def wr_u32_def by (rule consumes_word) simp

lemma consumes_u128 [simp, intro]: "consumes rd_u128 (wr_u128 w) w"
  unfolding rd_u128_def wr_u128_def by (rule consumes_word) simp

lemma length_wr [simp, codec_simps]:
  "length (wr_u8 a) = 1" "length (wr_u16 b) = 2" "length (wr_u32 c) = 4" "length (wr_u128 d) = 16"
  by (simp_all add: wr_u8_def wr_u16_def wr_u32_def wr_u128_def)

lemma consumes_exchanged:
  assumes "exchanged_cfg_ok c"
  shows "consumes exchanged_read (exchanged_write c) c"
proof -
  have "consumes (rd_bind rd_u32 (\<lambda>v. if v = 0
      then rd_fail (protocol_err ''recv_buffer must not be zero'')
      else rd_return \<lparr>x_recv_buffer = v\<rparr>)) (wr_u32 (x_recv_buffer c) @ []) c"
    using assms by (cases c, intro consumes_bind [OF consumes_u32]) (simp add: exchanged_cfg_ok_def)
  then show ?thesis by (simp add: exchanged_read_def exchanged_write_def)
qed

lemma default_cfg_ok: "cfg_ok default_cfg"
  by (simp add: cfg_ok_def link_cfg_ok_def default_cfg_def default_link_cfg_def)

end
