(* ===== verification/Seq_Num.thy ===== *)
theory Seq_Num
  imports Agg_Prelude
begin

text \<open>
  Sequence numbers (\<open>aggligator/src/seq.rs\<close>): 32-bit numbers that wrap around, with an order
  that looks at the quarter of the number space the two numbers lie in.  The file ends with the
  interface \<open>wrap_numbering\<close> that the clients of sequence numbers use: as long as the numbers in
  use span a bounded window, they behave like natural numbers.
\<close>

section \<open>Definitions\<close>

datatype seq = Seq (raw: u32)

datatype ordering = Less | Equal | Greater

definition ZERO :: seq where
  "ZERO = Seq 0"

definition MINUS_ONE :: seq where
  "MINUS_ONE = Seq (0 - 1)"

definition ONE_QUARTER :: u32 where
  "ONE_QUARTER = (-1) div 4"

definition THREE_QUARTERS :: u32 where
  "THREE_QUARTERS = ONE_QUARTER * 3"

definition USABLE_INTERVAL :: int where
  "USABLE_INTERVAL = 65536"

definition seq_add_u32 :: "seq \<Rightarrow> u32 \<Rightarrow> seq" where
  "seq_add_u32 s rhs = Seq (raw s + rhs)"

definition seq_add_i32 :: "seq \<Rightarrow> int \<Rightarrow> seq" where
  "seq_add_i32 s rhs = Seq (raw s + word_of_int rhs)"

definition seq_sub :: "seq \<Rightarrow> seq \<Rightarrow> int" where
  "seq_sub s rhs = sint (raw s - raw rhs)"

definition seq_sub_u32 :: "seq \<Rightarrow> u32 \<Rightarrow> seq" where
  "seq_sub_u32 s rhs = Seq (raw s - rhs)"

definition seq_sub_i32 :: "seq \<Rightarrow> int \<Rightarrow> seq" where
  "seq_sub_i32 s rhs = Seq (raw s - word_of_int rhs)"

text \<open>\<open>usize\<close> is first converted to \<open>u32\<close>, which panics out of range.\<close>

definition seq_sub_usize :: "seq \<Rightarrow> usize \<Rightarrow> seq option" where
  "seq_sub_usize s rhs = (if rhs < 2 ^ 32 then Some (seq_sub_u32 s (of_nat rhs)) else None)"

definition u32_cmp :: "u32 \<Rightarrow> u32 \<Rightarrow> ordering" where
  "u32_cmp a b = (if a < b then Less else if a = b then Equal else Greater)"

definition seq_cmp :: "seq \<Rightarrow> seq \<Rightarrow> ordering" where
  "seq_cmp s other =
     (if raw s < ONE_QUARTER \<and> raw other \<ge> THREE_QUARTERS then Greater
      else if raw other < ONE_QUARTER \<and> raw s \<ge> THREE_QUARTERS then Less
      else u32_cmp (raw s) (raw other))"

definition seq_partial_cmp :: "seq \<Rightarrow> seq \<Rightarrow> ordering option" where
  [simp]: "seq_partial_cmp a b = Some (seq_cmp a b)"

text \<open>
  The comparison operators, which the language derives from \<open>partial_cmp\<close>.  Only the operators are
  instantiated: the order is not transitive over the whole number space, so \<open>seq\<close> is no instance
  of \<open>linorder\<close>.
\<close>

instantiation seq :: ord
begin

definition less_seq :: "seq \<Rightarrow> seq \<Rightarrow> bool" where
  "less_seq a b \<longleftrightarrow> seq_partial_cmp a b = Some Less"

definition less_eq_seq :: "seq \<Rightarrow> seq \<Rightarrow> bool" where
  "less_eq_seq a b \<longleftrightarrow> seq_partial_cmp a b \<in> {Some Less, Some Equal}"

instance ..

end

text \<open>The sequence number of the \<open>n\<close>-th message of a connection.\<close>

definition seq_of :: "nat \<Rightarrow> seq" where
  "seq_of n = Seq (of_nat n)"

section \<open>Arithmetic\<close>

lemma ONE_QUARTER_eq: "ONE_QUARTER = 0x3FFFFFFF"
  by (simp add: ONE_QUARTER_def)

lemma THREE_QUARTERS_eq: "THREE_QUARTERS = 0xBFFFFFFD"
  by (simp add: THREE_QUARTERS_def ONE_QUARTER_eq)

text \<open>The compile-time assertion of the source.\<close>

lemma USABLE_INTERVAL_le_ONE_QUARTER: "word_of_int USABLE_INTERVAL \<le> ONE_QUARTER"
  by (simp add: USABLE_INTERVAL_def ONE_QUARTER_eq)

lemma seq_add_0 [simp]: "seq_add_u32 s 0 = s"
  by (simp add: seq_add_u32_def)

lemma seq_add_add [simp]: "seq_add_u32 (seq_add_u32 s a) b = seq_add_u32 s (a + b)"
  by (simp add: seq_add_u32_def add.assoc)

lemma seq_add_inj [simp]: "seq_add_u32 s a = seq_add_u32 s b \<longleftrightarrow> a = b"
  by (simp add: seq_add_u32_def)

lemma seq_sub_self [simp]: "seq_sub s s = 0"
  by (simp add: seq_sub_def)

lemma seq_of_0: "seq_of 0 = ZERO"
  by (simp add: seq_of_def ZERO_def)

lemma seq_of_add: "seq_add_u32 (seq_of n) (of_nat k) = seq_of (n + k)"
  by (simp add: seq_add_u32_def seq_of_def)

lemma seq_of_Suc [simp]: "seq_add_u32 (seq_of n) 1 = seq_of (Suc n)"
  using seq_of_add [of n 1] by simp

lemma seq_sub_of_nat:
  assumes "k < 2 ^ 31"
  shows "seq_sub (seq_add_u32 s (of_nat k)) s = int k"
proof -
  have "sint (of_nat k :: u32) = int k"
    using assms by (simp add: signed_of_nat signed_take_bit_int_eq_self_iff)
  then show ?thesis by (simp add: seq_sub_def seq_add_u32_def)
qed

lemma seq_add_sub:
  assumes "0 \<le> seq_sub a b"
  shows "seq_add_u32 b (of_nat (nat (seq_sub a b))) = a"
proof -
  have "(of_nat (nat (seq_sub a b)) :: u32) = of_int (sint (raw a - raw b))"
    using assms by (simp add: seq_sub_def)
  also have "\<dots> = raw a - raw b" by simp
  finally show ?thesis by (simp add: seq_add_u32_def)
qed

section \<open>The order\<close>

lemma raw_seq_of_add: "raw (seq_add_u32 s (of_nat k)) = raw s + of_nat k"
  by (simp add: seq_add_u32_def)

lemma unat_eq_iff_eq: "unat (a :: 'a::len word) = unat b \<longleftrightarrow> a = b"
  by (simp add: word_unat_eq_iff)

lemma seq_cmp_unat:
  "seq_cmp a b =
     (let x = unat (raw a); y = unat (raw b) in
      if x < 0x3FFFFFFF \<and> y \<ge> 0xBFFFFFFD then Greater
      else if y < 0x3FFFFFFF \<and> x \<ge> 0xBFFFFFFD then Less
      else if x < y then Less else if x = y then Equal else Greater)"
  by (auto simp: seq_cmp_def u32_cmp_def ONE_QUARTER_eq THREE_QUARTERS_eq word_less_nat_alt
      word_le_nat_alt Let_def unat_eq_iff_eq)

lemma unat_add_of_nat_u32:
  fixes a :: u32
  shows "unat (a + of_nat k) = (unat a + k) mod 2 ^ 32"
  by (simp add: unat_word_ariths unat_of_nat mod_add_right_eq)

lemma seq_cmp_ahead:
  assumes "0 < k" and "k \<le> 0x3FFFFFFF"
  shows "seq_cmp s (seq_add_u32 s (of_nat k)) = Less"
    and "seq_cmp (seq_add_u32 s (of_nat k)) s = Greater"
proof -
  define x where "x = unat (raw s)"
  define y where "y = unat (raw (seq_add_u32 s (of_nat k)))"
  have "x < 2 ^ 32" unfolding x_def using unsigned_less [of "raw s"] by simp
  moreover have "y = (x + k) mod 2 ^ 32"
    unfolding x_def y_def raw_seq_of_add by (rule unat_add_of_nat_u32)
  ultimately have "y = (if x + k < 2 ^ 32 then x + k else x + k - 2 ^ 32)"
    using assms by (auto simp: mod_if)
  then have xy: "x + k < 2 ^ 32 \<and> y = x + k \<or> x + k \<ge> 2 ^ 32 \<and> y + 2 ^ 32 = x + k"
    by (auto split: if_splits)
  then have "(if x < 0x3FFFFFFF \<and> y \<ge> 0xBFFFFFFD then Greater
      else if y < 0x3FFFFFFF \<and> x \<ge> 0xBFFFFFFD then Less
      else if x < y then Less else if x = y then Equal else Greater) = Less"
    and "(if y < 0x3FFFFFFF \<and> x \<ge> 0xBFFFFFFD then Greater
      else if x < 0x3FFFFFFF \<and> y \<ge> 0xBFFFFFFD then Less
      else if y < x then Less else if y = x then Equal else Greater) = Greater"
    using assms \<open>x < 2 ^ 32\<close> by auto
  then show "seq_cmp s (seq_add_u32 s (of_nat k)) = Less"
    and "seq_cmp (seq_add_u32 s (of_nat k)) s = Greater"
    unfolding seq_cmp_unat Let_def x_def y_def by blast+
qed

lemma seq_cmp_refl [simp]: "seq_cmp s s = Equal"
  by (simp add: seq_cmp_unat Let_def)

lemma seq_cmp_Equal [simp]: "seq_cmp a b = Equal \<longleftrightarrow> a = b"
  by (cases a; cases b) (auto simp: seq_cmp_unat Let_def unat_eq_iff_eq)

lemma seq_cmp_swap:
  "seq_cmp b a = (case seq_cmp a b of Less \<Rightarrow> Greater | Equal \<Rightarrow> Equal | Greater \<Rightarrow> Less)"
  by (auto simp: seq_cmp_unat Let_def)

lemma seq_less_irrefl [simp]: "\<not> (s :: seq) < s"
  by (simp add: less_seq_def)

lemma seq_le_refl [simp]: "(s :: seq) \<le> s"
  by (simp add: less_eq_seq_def)

lemma seq_not_less: "\<not> (a :: seq) < b \<longleftrightarrow> b \<le> a"
  by (simp add: less_seq_def less_eq_seq_def seq_cmp_swap [of b a] split: ordering.split)

lemma seq_less_ahead: "0 < k \<Longrightarrow> k \<le> 0x3FFFFFFF \<Longrightarrow> s < seq_add_u32 s (of_nat k)"
  by (simp add: less_seq_def seq_cmp_ahead)

lemma seq_not_less_ahead: "k \<le> 0x3FFFFFFF \<Longrightarrow> \<not> seq_add_u32 s (of_nat k) < s"
  by (cases "k = 0") (simp_all add: less_seq_def seq_cmp_ahead)

section \<open>The interface of sequence numbers\<close>

text \<open>
  What the link task relies on: numbers handed out in order, the signed difference and the
  comparison agree with those of the message indices as long as the indices are at most \<open>W\<close>
  apart.
\<close>

locale wrap_numbering =
  fixes num :: "nat \<Rightarrow> 'q"
    and succ :: "'q \<Rightarrow> 'q"
    and diff :: "'q \<Rightarrow> 'q \<Rightarrow> int"
    and lt :: "'q \<Rightarrow> 'q \<Rightarrow> bool"
    and W :: nat
  assumes succ_num: "succ (num n) = num (Suc n)"
    and diff_num: "m \<le> n + W \<Longrightarrow> n \<le> m + W \<Longrightarrow> diff (num m) (num n) = int m - int n"
    and lt_num: "m \<le> n + W \<Longrightarrow> n \<le> m + W \<Longrightarrow> lt (num m) (num n) \<longleftrightarrow> m < n"
begin

lemma num_inj: "m \<le> n + W \<Longrightarrow> n \<le> m + W \<Longrightarrow> num m = num n \<longleftrightarrow> m = n"
  using diff_num [of m n] diff_num [of n n] by auto

lemma num_distinct: "k \<le> Suc W \<Longrightarrow> distinct (map num [n..<n + k])"
  by (auto simp: distinct_map inj_on_def num_inj)

lemma num_sorted: "k \<le> Suc W \<Longrightarrow> sorted_wrt lt (map num [n..<n + k])"
  by (auto simp: sorted_wrt_iff_nth_less lt_num)

lemma lt_trans_window:
  "i \<in> {n..n + W} \<Longrightarrow> j \<in> {n..n + W} \<Longrightarrow> k \<in> {n..n + W} \<Longrightarrow>
     lt (num i) (num j) \<Longrightarrow> lt (num j) (num k) \<Longrightarrow> lt (num i) (num k)"
  using lt_num [of i j] lt_num [of j k] lt_num [of i k] by auto

end

lemma seq_of_offset: "seq_of (n + k) = seq_add_u32 (seq_of n) (of_nat k)"
  by (simp add: seq_of_add)

lemma seq_sub_swap_small:
  assumes "k < 2 ^ 31"
  shows "seq_sub s (seq_add_u32 s (of_nat k)) = - int k"
proof -
  have "word_of_int (- int k) = (- of_nat k :: u32)" by simp
  moreover have "sint (word_of_int (- int k) :: u32) = - int k"
    unfolding signed_of_int of_int_eq_id id_apply
    by (rule signed_take_bit_int_eq_self) (use assms in simp_all)
  ultimately show ?thesis by (simp add: seq_sub_def seq_add_u32_def)
qed

interpretation sq: wrap_numbering seq_of "\<lambda>s. seq_add_u32 s 1" seq_sub "(<)" "0x3FFFFFFF"
proof
  fix m n :: nat
  show "seq_add_u32 (seq_of n) 1 = seq_of (Suc n)" by simp
  assume mn: "m \<le> n + 0x3FFFFFFF" "n \<le> m + 0x3FFFFFFF"
  show "seq_sub (seq_of m) (seq_of n) = int m - int n"
    and "seq_of m < seq_of n \<longleftrightarrow> m < n"
  proof (atomize (full), cases "m \<le> n")
    case True
    then obtain k where k: "n = m + k" by (auto simp: le_iff_add)
    with mn show "seq_sub (seq_of m) (seq_of n) = int m - int n \<and> (seq_of m < seq_of n) = (m < n)"
      using seq_sub_swap_small [of k] seq_less_ahead [of k]
      by (cases "k = 0") (simp_all add: seq_of_offset)
  next
    case False
    then obtain k where k: "m = n + k" by (metis le_iff_add nat_le_linear)
    with mn show "seq_sub (seq_of m) (seq_of n) = int m - int n \<and> (seq_of m < seq_of n) = (m < n)"
      using seq_sub_of_nat [of k] seq_not_less_ahead [of k] by (simp add: seq_of_offset)
  qed
qed

section \<open>Properties\<close>

text \<open>
  C15. Sequence numbers of messages at most a quarter of the number space apart compare like
  the message indices, across the wrap-around at 2 ^ 32 as well, and their signed difference is
  the difference of the indices.
\<close>

theorem seq_window_order:
  assumes "i \<le> j + unat ONE_QUARTER" and "j \<le> i + unat ONE_QUARTER"
  shows "seq_cmp (seq_of i) (seq_of j) = (if i < j then Less else if i = j then Equal else Greater) \<and>
    seq_sub (seq_of i) (seq_of j) = int i - int j"
proof
  have ij: "i \<le> j + 0x3FFFFFFF" "j \<le> i + 0x3FFFFFFF"
    using assms by (simp_all add: ONE_QUARTER_eq)
  show "seq_sub (seq_of i) (seq_of j) = int i - int j" by (rule sq.diff_num [OF ij])
  have "seq_of i < seq_of j \<longleftrightarrow> i < j" "seq_of i = seq_of j \<longleftrightarrow> i = j"
    using sq.lt_num [OF ij] sq.num_inj [OF ij] by simp_all
  then show "seq_cmp (seq_of i) (seq_of j) =
      (if i < j then Less else if i = j then Equal else Greater)"
    by (cases "seq_cmp (seq_of i) (seq_of j)") (auto simp: less_seq_def)
qed

theorem seq_window_order_witness:
  "seq_cmp (seq_of 4294967295) (seq_of 4294967301) = Less \<and>
   seq_sub (seq_of 4294967295) (seq_of 4294967301) = - 6"
  using seq_window_order [of 4294967295 4294967301] by (simp add: ONE_QUARTER_eq)

text \<open>
  The quarter is the largest window on which that holds: one step further the order can
  already be reversed, and over the whole number space it has cycles, so it is no linear order.
\<close>

theorem seq_order_bounded:
  "(\<exists>s. seq_cmp s (seq_add_u32 s (ONE_QUARTER + 1)) = Greater) \<and>
   (\<exists>a b c :: seq. a < b \<and> b < c \<and> c < a)"
proof
  show "\<exists>s. seq_cmp s (seq_add_u32 s (ONE_QUARTER + 1)) = Greater"
    by (rule exI [of _ "Seq 0xFFFFFFFF"]) (simp add: seq_cmp_def seq_add_u32_def u32_cmp_def
        ONE_QUARTER_eq THREE_QUARTERS_eq)
  have "Seq 0 < Seq 0x50000000" "Seq 0x50000000 < Seq 0xC0000000" "Seq 0xC0000000 < Seq 0"
    by (simp_all add: less_seq_def seq_cmp_def u32_cmp_def ONE_QUARTER_eq THREE_QUARTERS_eq)
  then show "\<exists>a b c :: seq. a < b \<and> b < c \<and> c < a" by blast
qed

end
