(* ===== verification/Wire_Msg.thy ===== *)
theory Wire_Msg
  imports Cfg Seq_Num
begin

text \<open>
  Protocol messages (\<open>aggligator/src/msg.rs\<close>): the link messages with their wire format, and the
  reliable messages that the link task numbers, acknowledges and resends.  Constructors of link
  messages that carry a reliable message are prefixed with \<open>L\<close>, because both enumerations of the
  source use the same names.
\<close>

section \<open>Reasons for refusal\<close>

datatype refused_reason = Closed | NotListening | ConnRefused | LinkRefused

fun refused_to_u8 :: "refused_reason \<Rightarrow> u8" where
  "refused_to_u8 Closed = 1"
| "refused_to_u8 NotListening = 2"
| "refused_to_u8 ConnRefused = 3"
| "refused_to_u8 LinkRefused = 4"

definition refused_of_u8 :: "u8 \<Rightarrow> refused_reason io_result" where
  "refused_of_u8 v =
     (if v = 1 then Inr Closed
      else if v = 2 then Inr NotListening
      else if v = 3 then Inr ConnRefused
      else if v = 4 then Inr LinkRefused
      else Inl (protocol_err ''unknown refused reason''))"

section \<open>Link messages\<close>

datatype link_msg =
    Welcome u32 bytes server_id bytes exchanged_cfg
  | Connect u32 bytes "server_id option" encrypted_conn_id bool bytes exchanged_cfg
  | Accepted
  | Refused refused_reason
  | Ping
  | Pong
  | LData seq
  | Ack seq
  | LConsumed seq u32
  | LSendFinish seq
  | LReceiveClose seq
  | LReceiveFinish seq
  | TestData usize
  | SetBlock bool
  | Goodbye
  | Terminate

definition PROTOCOL_VERSION :: u8 where
  "PROTOCOL_VERSION = 4"

text \<open>The magic identifier is the string LIAG followed by a zero byte.\<close>

definition MAGIC :: bytes where
  "MAGIC = [0x4C, 0x49, 0x41, 0x47, 0]"

definition bool_to_u8 :: "bool \<Rightarrow> u8" where
  "bool_to_u8 b = (if b then 1 else 0)"

text \<open>The length prefix of user data; more than 65535 bytes are an error.\<close>

definition write_user_data :: "bytes \<Rightarrow> bytes io_result" where
  "write_user_data ud =
     (if length ud < 2 ^ 16 then Inr (wr_u16 (of_nat (length ud)) @ ud)
      else Inl (IoError InvalidData ''user data is too long''))"

fun msg_write :: "link_msg \<Rightarrow> bytes io_result" where
  "msg_write (Welcome extensions public_key sid user_data xc) =
     map_sum id (\<lambda>ud. wr_u8 1 @ MAGIC @ wr_u8 PROTOCOL_VERSION @ wr_u32 extensions @ public_key @
         wr_u128 (server_raw sid) @ ud @ exchanged_write xc)
       (write_user_data user_data)"
| "msg_write (Connect extensions public_key sid cid existing user_data xc) =
     map_sum id (\<lambda>ud. wr_u8 2 @ MAGIC @ wr_u8 PROTOCOL_VERSION @ wr_u32 extensions @ public_key @
         wr_u128 (case sid of Some s \<Rightarrow> server_raw s | None \<Rightarrow> 0) @ wr_u128 (enc_raw cid) @
         wr_u8 (bool_to_u8 existing) @ ud @ exchanged_write xc)
       (write_user_data user_data)"
| "msg_write Accepted = Inr (wr_u8 3)"
| "msg_write (Refused reason) = Inr (wr_u8 4 @ wr_u8 (refused_to_u8 reason))"
| "msg_write Ping = Inr (wr_u8 5)"
| "msg_write Pong = Inr (wr_u8 6)"
| "msg_write (LData s) = Inr (wr_u8 7 @ wr_u32 (raw s))"
| "msg_write (Ack received) = Inr (wr_u8 8 @ wr_u32 (raw received))"
| "msg_write (LConsumed s consumed) = Inr (wr_u8 9 @ wr_u32 (raw s) @ wr_u32 consumed)"
| "msg_write (LSendFinish s) = Inr (wr_u8 10 @ wr_u32 (raw s))"
| "msg_write (LReceiveClose s) = Inr (wr_u8 11 @ wr_u32 (raw s))"
| "msg_write (LReceiveFinish s) = Inr (wr_u8 12 @ wr_u32 (raw s))"
| "msg_write (TestData sz) = Inr (wr_u8 13 @ concat (map (\<lambda>n. wr_u8 (of_nat n)) [0..<sz]))"
| "msg_write (SetBlock blocked) = Inr (wr_u8 14 @ wr_u8 (bool_to_u8 blocked))"
| "msg_write Goodbye = Inr (wr_u8 15)"
| "msg_write Terminate = Inr (wr_u8 16)"

definition nonzero_u128 :: "u128 \<Rightarrow> u128 option" where
  "nonzero_u128 v = (if v = 0 then None else Some v)"

definition read_magic_version :: "unit reader" where
  "read_magic_version =
     rd_bind (read_exact (length MAGIC)) (\<lambda>magic.
     if magic \<noteq> MAGIC then rd_fail (protocol_err ''invalid magic'')
     else rd_bind rd_u8 (\<lambda>version.
     if version \<noteq> PROTOCOL_VERSION then rd_fail (protocol_err ''unexpected protocol version'')
     else rd_return ()))"

definition read_user_data :: "bytes reader" where
  "read_user_data = rd_bind rd_u16 (\<lambda>len. read_exact (unat len))"

definition read_welcome :: "link_msg reader" where
  "read_welcome =
     rd_bind read_magic_version (\<lambda>_.
     rd_bind rd_u32 (\<lambda>extensions.
     rd_bind (read_exact 32) (\<lambda>public_key.
     rd_bind rd_u128 (\<lambda>sid.
     case nonzero_u128 sid of
       None \<Rightarrow> rd_fail (protocol_err ''server id must not be zero'')
     | Some s \<Rightarrow>
         rd_bind read_user_data (\<lambda>user_data.
         rd_bind exchanged_read (\<lambda>xc.
         rd_return (Welcome extensions public_key (ServerId s) user_data xc)))))))"

definition read_connect :: "link_msg reader" where
  "read_connect =
     rd_bind read_magic_version (\<lambda>_.
     rd_bind rd_u32 (\<lambda>extensions.
     rd_bind (read_exact 32) (\<lambda>public_key.
     rd_bind rd_u128 (\<lambda>sid.
     rd_bind rd_u128 (\<lambda>cid.
     rd_bind rd_u8 (\<lambda>existing.
     rd_bind read_user_data (\<lambda>user_data.
     rd_bind exchanged_read (\<lambda>xc.
     rd_return (Connect extensions public_key (map_option ServerId (nonzero_u128 sid))
       (EncryptedConnId cid) (existing \<noteq> 0) user_data xc)))))))))"

definition read_seq :: "seq reader" where
  "read_seq = rd_bind rd_u32 (\<lambda>v. rd_return (Seq v))"

text \<open>Counting the remaining bytes exhausts the reader.\<close>

definition read_count :: "nat reader" where
  "read_count bs = Inr (length bs, [])"

definition read_refused :: "link_msg reader" where
  "read_refused = rd_bind rd_u8 (\<lambda>v.
     case refused_of_u8 v of Inl e \<Rightarrow> rd_fail e | Inr reason \<Rightarrow> rd_return (Refused reason))"

definition msg_read_from :: "link_msg reader" where
  "msg_read_from = rd_bind rd_u8 (\<lambda>tag.
     if tag = 1 then read_welcome
     else if tag = 2 then read_connect
     else if tag = 3 then rd_return Accepted
     else if tag = 4 then read_refused
     else if tag = 5 then rd_return Ping
     else if tag = 6 then rd_return Pong
     else if tag = 7 then rd_bind read_seq (\<lambda>s. rd_return (LData s))
     else if tag = 8 then rd_bind read_seq (\<lambda>s. rd_return (Ack s))
     else if tag = 9 then
       rd_bind read_seq (\<lambda>s. rd_bind rd_u32 (\<lambda>consumed. rd_return (LConsumed s consumed)))
     else if tag = 10 then rd_bind read_seq (\<lambda>s. rd_return (LSendFinish s))
     else if tag = 11 then rd_bind read_seq (\<lambda>s. rd_return (LReceiveClose s))
     else if tag = 12 then rd_bind read_seq (\<lambda>s. rd_return (LReceiveFinish s))
     else if tag = 13 then rd_bind read_count (\<lambda>n. rd_return (TestData n))
     else if tag = 14 then rd_bind rd_u8 (\<lambda>b. rd_return (SetBlock (b \<noteq> 0)))
     else if tag = 15 then rd_return Goodbye
     else if tag = 16 then rd_return Terminate
     else rd_fail (protocol_err ''invalid message id''))"

text \<open>\<open>LinkMsg::read\<close> returns the message only; bytes after it are ignored.\<close>

definition msg_read :: "bytes \<Rightarrow> link_msg io_result" where
  "msg_read bs = map_sum id fst (msg_read_from bs)"

text \<open>\<open>LinkMsg::encode\<close> unwraps the result of writing.\<close>

definition msg_encode :: "link_msg \<Rightarrow> bytes option" where
  "msg_encode m = (case msg_write m of Inl _ \<Rightarrow> None | Inr bs \<Rightarrow> Some bs)"

text \<open>\<open>LinkMsg::recv\<close> on the next item of the receive stream.\<close>

definition msg_recv :: "bytes io_result option \<Rightarrow> link_msg io_result" where
  "msg_recv item =
     (case item of
        None \<Rightarrow> Inl (IoError UnexpectedEof ''message too short'')
      | Some (Inl e) \<Rightarrow> Inl e
      | Some (Inr buf) \<Rightarrow> msg_read buf)"

section \<open>Reliable messages\<close>

datatype reliable_msg = Data bytes | Consumed u32 | SendFinish | ReceiveClose | ReceiveFinish

fun to_link_msg :: "reliable_msg \<Rightarrow> seq \<Rightarrow> link_msg \<times> bytes option" where
  "to_link_msg (Data d) s = (LData s, Some d)"
| "to_link_msg (Consumed n) s = (LConsumed s n, None)"
| "to_link_msg SendFinish s = (LSendFinish s, None)"
| "to_link_msg ReceiveClose s = (LReceiveClose s, None)"
| "to_link_msg ReceiveFinish s = (LReceiveFinish s, None)"

fun from_link_msg :: "link_msg \<Rightarrow> bytes option \<Rightarrow> (reliable_msg \<times> seq) option" where
  "from_link_msg (LData s) d = map_option (\<lambda>d. (Data d, s)) d"
| "from_link_msg (LConsumed s consumed) d = Some (Consumed consumed, s)"
| "from_link_msg (LSendFinish s) d = Some (SendFinish, s)"
| "from_link_msg (LReceiveClose s) d = Some (ReceiveClose, s)"
| "from_link_msg (LReceiveFinish s) d = Some (ReceiveFinish, s)"
| "from_link_msg _ d = None"

text \<open>The number of payload bytes of a reliable message.\<close>

fun msg_size :: "reliable_msg \<Rightarrow> nat" where
  "msg_size (Data d) = length d"
| "msg_size _ = 0"

section \<open>Well-formed messages\<close>

text \<open>
  What the types of the source guarantee of the fields of a message (a key is an array of 32
  bytes, server identifiers and buffer sizes are not zero) and the bound on user data that
  \<open>Control::add\<close> and \<open>Server::add_incoming\<close> assert.
\<close>

fun msg_ok :: "link_msg \<Rightarrow> bool" where
  "msg_ok (Welcome _ key sid ud xc) \<longleftrightarrow>
     length key = 32 \<and> server_id_ok sid \<and> length ud < 2 ^ 16 \<and> exchanged_cfg_ok xc"
| "msg_ok (Connect _ key sid _ _ ud xc) \<longleftrightarrow>
     length key = 32 \<and> (\<forall>s \<in> set_option sid. server_id_ok s) \<and> length ud < 2 ^ 16 \<and>
     exchanged_cfg_ok xc"
| "msg_ok _ \<longleftrightarrow> True"

definition user_data_of :: "link_msg \<Rightarrow> bytes" where
  "user_data_of m =
     (case m of Welcome _ _ _ ud _ \<Rightarrow> ud | Connect _ _ _ _ _ ud _ \<Rightarrow> ud | _ \<Rightarrow> [])"

section \<open>Reading back what was written\<close>

lemma refused_of_to [simp]: "refused_of_u8 (refused_to_u8 r) = Inr r"
  by (cases r) (simp_all add: refused_of_u8_def)

lemma consumes_seq [simp, intro]: "consumes read_seq (wr_u32 (raw s)) s"
  using consumes_bind_return [OF consumes_u32 [of "raw s"], of Seq] by (simp add: read_seq_def)

lemma consumes_magic_version: "consumes read_magic_version (MAGIC @ wr_u8 PROTOCOL_VERSION) ()"
proof -
  have "consumes read_magic_version (MAGIC @ wr_u8 PROTOCOL_VERSION @ []) ()"
    unfolding read_magic_version_def
    by (rule consumes_bind [OF consumes_exact [OF refl]], simp del: append_Nil2,
        rule consumes_bind [OF consumes_u8], simp)
  then show ?thesis by simp
qed

lemma consumes_user_data:
  assumes "length ud < 2 ^ 16"
  shows "consumes read_user_data (wr_u16 (of_nat (length ud)) @ ud) ud"
  unfolding read_user_data_def
  by (rule consumes_bind [OF consumes_u16], rule consumes_exact)
    (use assms in \<open>simp add: unat_of_nat\<close>)

lemma write_user_data_ok:
  "length ud < 2 ^ 16 \<Longrightarrow> write_user_data ud = Inr (wr_u16 (of_nat (length ud)) @ ud)"
  by (simp add: write_user_data_def)

lemma consumes_welcome:
  assumes "msg_ok (Welcome ext key sid ud xc)"
  shows "consumes read_welcome (MAGIC @ wr_u8 PROTOCOL_VERSION @ wr_u32 ext @ key @
    wr_u128 (server_raw sid) @ (wr_u16 (of_nat (length ud)) @ ud) @ exchanged_write xc)
    (Welcome ext key sid ud xc)"
proof -
  have ok: "length key = 32" "nonzero_u128 (server_raw sid) = Some (server_raw sid)"
    "length ud < 2 ^ 16" "exchanged_cfg_ok xc"
    using assms by (auto simp: nonzero_u128_def server_id_ok_def)
  have "consumes read_welcome ((MAGIC @ wr_u8 PROTOCOL_VERSION) @ wr_u32 ext @ key @
    wr_u128 (server_raw sid) @ (wr_u16 (of_nat (length ud)) @ ud) @ exchanged_write xc @ [])
    (Welcome ext key sid ud xc)"
    unfolding read_welcome_def
    apply (rule consumes_bind [OF consumes_magic_version])
    apply (rule consumes_bind [OF consumes_u32])
    apply (rule consumes_bind [OF consumes_exact [OF ok(1)]])
    apply (rule consumes_bind [OF consumes_u128])
    apply (simp only: ok(2) option.case)
    apply (rule consumes_bind [OF consumes_user_data [OF ok(3)]])
    apply (rule consumes_bind [OF consumes_exchanged [OF ok(4)]])
    by simp
  then show ?thesis by simp
qed

lemma consumes_connect:
  assumes "msg_ok (Connect ext key sid cid ex ud xc)"
  shows "consumes read_connect (MAGIC @ wr_u8 PROTOCOL_VERSION @ wr_u32 ext @ key @
    wr_u128 (case sid of Some s \<Rightarrow> server_raw s | None \<Rightarrow> 0) @ wr_u128 (enc_raw cid) @
    wr_u8 (bool_to_u8 ex) @ (wr_u16 (of_nat (length ud)) @ ud) @ exchanged_write xc)
    (Connect ext key sid cid ex ud xc)"
proof -
  have ok: "length key = 32" "length ud < 2 ^ 16" "exchanged_cfg_ok xc"
    using assms by auto
  have sid: "map_option ServerId (nonzero_u128 (case sid of Some s \<Rightarrow> server_raw s | None \<Rightarrow> 0)) = sid"
    using assms by (cases sid) (auto simp: nonzero_u128_def server_id_ok_def)
  have ex: "(bool_to_u8 ex \<noteq> 0) = ex" by (simp add: bool_to_u8_def)
  have "consumes read_connect ((MAGIC @ wr_u8 PROTOCOL_VERSION) @ wr_u32 ext @ key @
    wr_u128 (case sid of Some s \<Rightarrow> server_raw s | None \<Rightarrow> 0) @ wr_u128 (enc_raw cid) @
    wr_u8 (bool_to_u8 ex) @ (wr_u16 (of_nat (length ud)) @ ud) @ exchanged_write xc @ [])
    (Connect ext key sid cid ex ud xc)"
    unfolding read_connect_def
    apply (rule consumes_bind [OF consumes_magic_version])
    apply (rule consumes_bind [OF consumes_u32])
    apply (rule consumes_bind [OF consumes_exact [OF ok(1)]])
    apply (rule consumes_bind [OF consumes_u128])
    apply (rule consumes_bind [OF consumes_u128])
    apply (rule consumes_bind [OF consumes_u8])
    apply (rule consumes_bind [OF consumes_user_data [OF ok(2)]])
    apply (rule consumes_bind [OF consumes_exchanged [OF ok(3)]])
    by (simp only: sid ex encrypted_conn_id.collapse consumes_return)
  then show ?thesis by simp
qed

lemma consumes_tagged:
  assumes "consumes (f t) xs m"
  shows "consumes (rd_bind rd_u8 f) (wr_u8 t @ xs) m"
  by (rule consumes_bind [OF consumes_u8]) (rule assms)

lemma consumes_tag_only: "consumes (f t) [] m \<Longrightarrow> consumes (rd_bind rd_u8 f) (wr_u8 t) m"
  using consumes_tagged [of f t "[]"] by simp

lemma consumes_bind_tail: "consumes r xs v \<Longrightarrow> g v = w \<Longrightarrow> consumes (rd_bind r (\<lambda>x. rd_return (g x))) xs w"
  using consumes_bind_return by fastforce

lemma consumes_refused: "consumes read_refused (wr_u8 (refused_to_u8 r)) (Refused r)"
proof -
  have "consumes read_refused (wr_u8 (refused_to_u8 r) @ []) (Refused r)"
    unfolding read_refused_def by (rule consumes_tagged) simp
  then show ?thesis by simp
qed

lemma consumes_consumed:
  "consumes (rd_bind read_seq (\<lambda>s. rd_bind rd_u32 (\<lambda>n. rd_return (LConsumed s n))))
    (wr_u32 (raw s) @ wr_u32 n) (LConsumed s n)"
  by (rule consumes_bind [OF consumes_seq], rule consumes_bind_tail [OF consumes_u32 refl])

lemma consumes_set_block:
  "consumes (rd_bind rd_u8 (\<lambda>b. rd_return (SetBlock (b \<noteq> 0)))) (wr_u8 (bool_to_u8 b)) (SetBlock b)"
  by (rule consumes_bind_tail [OF consumes_u8]) (simp add: bool_to_u8_def)

lemma consumes_msg:
  assumes "msg_ok m" and "\<And>n. m \<noteq> TestData n" and "msg_write m = Inr bs"
  shows "consumes msg_read_from bs m"
  using assms
  by (cases m)
    (auto simp: write_user_data_ok msg_read_from_def
      intro!: consumes_tag_only consumes_tagged consumes_refused consumes_bind_tail
        consumes_consumed consumes_set_block consumes_welcome [simplified] consumes_connect [simplified])

section \<open>Properties\<close>

lemma length_concat_bytes [simp]: "length (concat (map (\<lambda>n. wr_u8 (f n)) xs)) = length xs"
  by (induction xs) simp_all

lemma read_test_data: "msg_write (TestData n) = Inr bs \<Longrightarrow> msg_read bs = Inr (TestData n)"
  by (auto simp: msg_read_def msg_read_from_def rd_bind_def read_count_def rd_return_def
      consumes_u8 [unfolded consumes_def])

lemma msg_encode_Some: "msg_encode m = Some bs \<longleftrightarrow> msg_write m = Inr bs"
  by (simp add: msg_encode_def split: sum.splits)

lemma msg_ok_encode: "msg_ok m \<Longrightarrow> \<exists>bs. msg_encode m = Some bs"
  by (cases m) (simp_all add: msg_encode_def write_user_data_ok)

text \<open>
  C16. Every well-formed message is encoded, and reading the encoding back, with whatever bytes
  follow it, gives the message (test data is sized by what follows, so nothing may follow it).
\<close>

theorem msg_round_trip:
  assumes "msg_ok m"
  shows "\<exists>bs. msg_encode m = Some bs \<and> msg_read bs = Inr m \<and>
    ((\<forall>n. m \<noteq> TestData n) \<longrightarrow> (\<forall>rest. msg_read (bs @ rest) = Inr m))"
proof -
  obtain bs where bs: "msg_encode m = Some bs" using msg_ok_encode [OF assms] by blast
  then have wr: "msg_write m = Inr bs" by (simp add: msg_encode_Some)
  have rest: "msg_read (bs @ rest) = Inr m" if "\<forall>n. m \<noteq> TestData n" for rest
    using consumes_msg [OF assms _ wr] that by (auto simp: consumes_def msg_read_def)
  moreover have "msg_read bs = Inr m"
    using rest [of "[]"] read_test_data wr by (cases "\<exists>n. m = TestData n") auto
  ultimately show ?thesis using bs by blast
qed

theorem msg_round_trip_witness:
  "\<exists>bs. msg_encode (LConsumed (Seq 4294967295) 7) = Some bs \<and>
     msg_read bs = Inr (LConsumed (Seq 4294967295) 7)"
  using msg_round_trip [of "LConsumed (Seq 4294967295) 7"] by auto



text \<open>
  Encoding panics exactly on user data of more than 65535 bytes, the bound that the callers
  assert, and unknown message identifiers are protocol errors.
\<close>

theorem msg_encode_panics_iff:
  "(msg_encode m = None \<longleftrightarrow> 65535 < length (user_data_of m)) \<and>
   (16 < unat tag \<or> tag = 0 \<longrightarrow>
     msg_read (tag # rest) = Inl (protocol_err ''invalid message id''))"
proof (intro conjI impI)
  show "msg_encode m = None \<longleftrightarrow> 65535 < length (user_data_of m)"
    by (cases m) (auto simp: msg_encode_def write_user_data_def user_data_of_def)
next
  assume tag: "16 < unat tag \<or> tag = 0"
  have "wr_u8 tag = [tag]" by (simp add: wr_u8_def)
  then have "rd_u8 (tag # rest) = Inr (tag, rest)"
    using consumes_u8 [of tag] by (simp add: consumes_def)
  moreover have "tag \<noteq> of_nat n" if "n \<in> {1..16}" for n
    using tag that by (auto simp: unat_of_nat word_unat_eq_iff)
  then have "tag \<noteq> 1 \<and> tag \<noteq> 2 \<and> tag \<noteq> 3 \<and> tag \<noteq> 4 \<and> tag \<noteq> 5 \<and> tag \<noteq> 6 \<and> tag \<noteq> 7 \<and> tag \<noteq> 8 \<and>
    tag \<noteq> 9 \<and> tag \<noteq> 10 \<and> tag \<noteq> 11 \<and> tag \<noteq> 12 \<and> tag \<noteq> 13 \<and> tag \<noteq> 14 \<and> tag \<noteq> 15 \<and> tag \<noteq> 16"
    using tag by auto
  ultimately show "msg_read (tag # rest) = Inl (protocol_err ''invalid message id'')"
    by (simp add: msg_read_def msg_read_from_def rd_bind_def rd_fail_def)
qed

theorem msg_encode_panics_iff_witness:
  "msg_read [17] = Inl (protocol_err ''invalid message id'') \<and>
   msg_encode (Welcome 0 [] (ServerId 1) [] \<lparr>x_recv_buffer = 1\<rparr>) \<noteq> None"
  using msg_encode_panics_iff [of "Welcome 0 [] (ServerId 1) [] \<lparr>x_recv_buffer = 1\<rparr>" 17 "[]"]
  by (simp add: user_data_of_def)

text \<open>
  Numbering a reliable message and taking it out of the link message are inverse, and only
  link messages that carry a reliable message are ever taken apart without a panic.
\<close>

theorem reliable_round_trip:
  "from_link_msg (fst (to_link_msg m s)) (snd (to_link_msg m s)) = Some (m, s) \<and>
   (from_link_msg lm d = Some (m', s') \<longrightarrow>
      fst (to_link_msg m' s') = lm \<and> (\<forall>x. m' = Data x \<longrightarrow> d = Some x))"
  by (cases m; cases lm; cases d) auto

theorem reliable_round_trip_witness:
  "from_link_msg (LData ZERO) (Some [1]) = Some (Data [1], ZERO) \<and>
   fst (to_link_msg (Data [1]) ZERO) = LData ZERO"
  using reliable_round_trip [of "Data [1]" ZERO "LData ZERO" "Some [1]" "Data [1]" ZERO] by simp

end
