(* ===== verification/Control_Data.thy ===== *)
theory Control_Data
  imports Wire_Msg
begin

text \<open>
  The public vocabulary of connections and links (\<open>aggligator/src/control.rs\<close>,
  \<open>aggligator/src/alc\<close>, \<open>aggligator/src/agg/task.rs\<close>): directions, errors and the reasons why a
  link does not work or was disconnected, with the predicates that decide on reconnection and
  the conversions to I/O errors.
\<close>

section \<open>Directions and reasons\<close>

datatype direction = Incoming | Outgoing

fun direction_arrow :: "direction \<Rightarrow> string" where
  "direction_arrow Incoming = ''<-''"
| "direction_arrow Outgoing = ''->''"

datatype not_working_reason = New | Disconnecting | AckTimeout | MaxPingExceeded

datatype disconnect_reason =
    SendTimeout | PingTimeout | UnconfirmedTimeout | DAllUnconfirmedTimeout | DIoError io_error
  | LocallyRequested | RemotelyRequested | ConnectionClosed | LinkFilter | DServerIdMismatch
  | DProtocolError string | DTaskTerminated | DAbortedByServer

fun disconnect_display :: "disconnect_reason \<Rightarrow> string" where
  "disconnect_display SendTimeout = ''send timeout''"
| "disconnect_display PingTimeout = ''ping timeout''"
| "disconnect_display UnconfirmedTimeout = ''unconfirmed timeout''"
| "disconnect_display DAllUnconfirmedTimeout = ''all links unconfirmed timeout''"
| "disconnect_display (DIoError err) = ''IO error: '' @ err_msg err"
| "disconnect_display LocallyRequested = ''locally requested''"
| "disconnect_display RemotelyRequested = ''remotely requested''"
| "disconnect_display ConnectionClosed = ''connection closed''"
| "disconnect_display LinkFilter = ''link filter''"
| "disconnect_display DServerIdMismatch = ''link connected to another server''"
| "disconnect_display (DProtocolError err) = ''protocol error: '' @ err"
| "disconnect_display DTaskTerminated = ''connection forcefully terminated''"
| "disconnect_display DAbortedByServer = ''connection aborted by server''"

definition disconnect_kind :: "disconnect_reason \<Rightarrow> error_kind" where
  "disconnect_kind r =
     (case r of
        DIoError err \<Rightarrow> err_kind err
      | ConnectionClosed \<Rightarrow> ConnectionReset
      | _ \<Rightarrow> ConnectionAborted)"

definition disconnect_to_io :: "disconnect_reason \<Rightarrow> io_error" where
  "disconnect_to_io r = IoError (disconnect_kind r) (disconnect_display r)"

definition disconnect_should_reconnect :: "disconnect_reason \<Rightarrow> bool" where
  "disconnect_should_reconnect r =
     (case r of
        SendTimeout \<Rightarrow> True | PingTimeout \<Rightarrow> True | UnconfirmedTimeout \<Rightarrow> True | DIoError _ \<Rightarrow> True
      | _ \<Rightarrow> False)"

section \<open>Errors of adding links\<close>

datatype add_link_error =
    AIo io_error
  | AServerIdMismatch server_id server_id
  | ANotListening
  | AConnectionClosed
  | AConnectionRefused
  | ALinkRefused
  | AAbortedByServer

fun add_link_error_of_refused :: "refused_reason \<Rightarrow> add_link_error" where
  "add_link_error_of_refused Closed = AAbortedByServer"
| "add_link_error_of_refused NotListening = ANotListening"
| "add_link_error_of_refused ConnRefused = AConnectionRefused"
| "add_link_error_of_refused LinkRefused = ALinkRefused"

definition add_link_should_reconnect :: "add_link_error \<Rightarrow> bool" where
  "add_link_should_reconnect e = (case e of AIo _ \<Rightarrow> True | _ \<Rightarrow> False)"

section \<open>Errors of the channel and the task\<close>

datatype send_error =
    SClosed | SDropped | SShutdown | SDataTooBig | SAllLinksFailed | SProtocolError
  | SServerIdMismatch | STaskTerminated | SAbortedByServer

fun send_error_display :: "send_error \<Rightarrow> string" where
  "send_error_display SClosed = ''closed by remote endpoint''"
| "send_error_display SDropped = ''dropped by remote endpoint''"
| "send_error_display SShutdown = ''connection was shut down or closed locally''"
| "send_error_display SDataTooBig = ''data too big for remote endpoint''"
| "send_error_display SAllLinksFailed = ''all links failed''"
| "send_error_display SProtocolError = ''protocol error''"
| "send_error_display SServerIdMismatch = ''a new link connected to another server''"
| "send_error_display STaskTerminated = ''connection forcefully terminated''"
| "send_error_display SAbortedByServer = ''connection aborted by server''"

fun send_error_kind :: "send_error \<Rightarrow> error_kind" where
  "send_error_kind SClosed = ConnectionReset"
| "send_error_kind SDropped = ConnectionReset"
| "send_error_kind SShutdown = BrokenPipe"
| "send_error_kind SDataTooBig = InvalidData"
| "send_error_kind _ = ConnectionAborted"

definition send_error_to_io :: "send_error \<Rightarrow> io_error" where
  "send_error_to_io e = IoError (send_error_kind e) (send_error_display e)"

datatype recv_error =
    RAllLinksFailed | RProtocolError | RServerIdMismatch | RTaskTerminated | RAbortedByServer

fun recv_error_display :: "recv_error \<Rightarrow> string" where
  "recv_error_display RAllLinksFailed = ''all links failed''"
| "recv_error_display RProtocolError = ''protocol error''"
| "recv_error_display RServerIdMismatch = ''a new link connected to another server''"
| "recv_error_display RTaskTerminated = ''connection forcefully terminated''"
| "recv_error_display RAbortedByServer = ''connection aborted by server''"

definition recv_error_to_io :: "recv_error \<Rightarrow> io_error" where
  "recv_error_to_io e = IoError ConnectionAborted (recv_error_display e)"

datatype task_error =
    TAllUnconfirmedTimeout | TNoLinksTimeout | TProtocolError link_id string
  | TServerIdMismatch | TTerminated | TAbortedByServer

datatype fatal_connect_error = FServerIdMismatch | FClosed

section \<open>Statistics\<close>

record link_interval_stats =
  is_interval :: duration
  is_start :: instant
  is_sent :: u64
  is_recved :: u64
  is_busy :: bool

definition interval_stats_new :: "instant \<Rightarrow> duration \<Rightarrow> link_interval_stats" where
  "interval_stats_new now i = \<lparr>is_interval = i, is_start = now, is_sent = 0, is_recved = 0, is_busy = True\<rparr>"

record link_stats =
  ls_established :: instant
  total_sent :: u64
  total_recved :: u64
  ls_sent_unacked :: u64
  ls_unacked_limit :: u64
  ls_roundtrip :: duration
  hangs :: usize
  time_stats :: "link_interval_stats list"

record stats =
  st_established :: "instant option"
  st_not_working_since :: "instant option"
  st_send_space :: usize
  st_sent_unacked :: usize
  st_sent_unconsumed :: usize
  st_sent_unconsumed_count :: usize
  st_sent_unconsumable :: usize
  st_resend_queue_len :: usize
  st_recved_unconsumed :: usize
  st_recved_unconsumed_count :: usize

end
