(* ===== verification/Link_Int.thy ===== *)
theory Link_Int
  imports Control_Data
begin

text \<open>
  The state of one link and its operations (\<open>aggligator/src/agg/link_int.rs\<close>).

  The transmit sink of a link is a type parameter of the source; here it is the type variable
  \<open>'tx\<close> with its operations in a record \<open>'tx sink\<close> that the definitions take as an argument.  The
  receive stream appears as the items it delivers.  Packets in flight are shared between the task
  and the links (\<open>Arc\<close> and \<open>Weak\<close> references): they live in a store that is passed along and are
  referred to by their position in it; a weak reference can be upgraded while the predicate
  \<open>live\<close>, supplied by the task, holds.  The current time is the argument \<open>now\<close>.
\<close>

section \<open>Packets in flight\<close>

type_synonym pid = nat

datatype sent_status =
    Sent instant "instant option" usize link_id reliable_msg bool
  | Received usize
  | ResendQueued reliable_msg link_id

record sent_reliable =
  sr_seq :: seq
  sr_status :: sent_status

type_synonym store = "sent_reliable list"

section \<open>Sinks\<close>

text \<open>A poll that is pending returns \<open>None\<close>.\<close>

record 'tx sink =
  sk_poll_ready :: "'tx \<Rightarrow> unit io_result option \<times> 'tx"
  sk_start_send :: "'tx \<Rightarrow> bytes \<Rightarrow> unit io_result \<times> 'tx"
  sk_poll_flush :: "'tx \<Rightarrow> unit io_result option \<times> 'tx"

section \<open>Deadlines\<close>

record deadline =
  dl_instant :: "instant option"
  dl_reason :: string

definition deadline_new :: deadline where
  "deadline_new = \<lparr>dl_instant = None, dl_reason = ''''\<rparr>"

definition deadline_require :: "string \<Rightarrow> instant \<Rightarrow> deadline \<Rightarrow> deadline" where
  "deadline_require reason d dl =
     (if (case dl_instant dl of None \<Rightarrow> True | Some existing \<Rightarrow> d < existing)
      then \<lparr>dl_instant = Some d, dl_reason = reason\<rparr> else dl)"

section \<open>Link statistics\<close>

record statistican =
  sn_published :: link_stats
  sn_current :: link_stats
  sn_running :: "link_interval_stats list"

definition statistican_new :: "instant \<Rightarrow> duration list \<Rightarrow> duration \<Rightarrow> statistican" where
  "statistican_new now intervals rt =
     (let running = map (interval_stats_new now) intervals;
          current = \<lparr>ls_established = now, total_sent = 0, total_recved = 0, ls_sent_unacked = 0,
            ls_unacked_limit = 0, ls_roundtrip = rt, hangs = 0, time_stats = running\<rparr>
      in \<lparr>sn_published = current, sn_current = current, sn_running = running\<rparr>)"

definition statistican_publish_step ::
  "instant \<Rightarrow> link_interval_stats \<times> link_interval_stats \<Rightarrow> link_interval_stats \<times> link_interval_stats" where
  "statistican_publish_step now p =
     (let (rs, ts) = p in
      if elapsed now (is_start rs) > is_interval rs
      then (interval_stats_new now (is_interval rs),
            if is_sent rs = 0 then rs\<lparr>is_busy := False\<rparr> else rs)
      else (rs, ts))"

definition statistican_publish :: "instant \<Rightarrow> statistican \<Rightarrow> statistican" where
  "statistican_publish now s =
     (let ps = zip (sn_running s) (time_stats (sn_current s));
          modified = list_ex (\<lambda>(rs, ts). elapsed now (is_start rs) > is_interval rs) ps;
          ps' = map (statistican_publish_step now) ps;
          running = map fst ps' @ drop (length ps) (sn_running s);
          current = (sn_current s)\<lparr>time_stats :=
            map snd ps' @ drop (length ps) (time_stats (sn_current s))\<rparr>
      in s\<lparr>sn_running := running, sn_current := current,
           sn_published := (if modified then current else sn_published s)\<rparr>)"

definition statistican_record :: "usize \<Rightarrow> usize \<Rightarrow> statistican \<Rightarrow> statistican" where
  "statistican_record n_sent n_recved s =
     (let cur = sn_current s in
      s\<lparr>sn_current := cur\<lparr>total_sent := total_sent cur + of_nat n_sent,
                          total_recved := total_recved cur + of_nat n_recved\<rparr>,
        sn_running := map (\<lambda>ts. ts\<lparr>is_sent := is_sent ts + of_nat n_sent,
                                   is_recved := is_recved ts + of_nat n_recved\<rparr>) (sn_running s)\<rparr>)"

definition statistican_mark_idle :: "statistican \<Rightarrow> statistican" where
  "statistican_mark_idle s = s\<lparr>sn_running := map (\<lambda>ts. ts\<lparr>is_busy := False\<rparr>) (sn_running s)\<rparr>"

section \<open>Links\<close>

datatype link_event =
    TxReady | TxFlushed | TxError io_error | Rx link_msg "bytes option" | RxError io_error
  | FlushRequired | Disconnect | BlockedChanged | LinkCfgChanged

datatype link_test = Inactive | InProgress | Failed instant

datatype disconnect_initiator = Local | Remote

record 'tx link_int =
  lk_conn_id :: conn_id
  lk_link_id :: link_id
  lk_direction :: direction
  lk_cfg :: cfg
  lk_remote_cfg :: exchanged_cfg
  lk_link_cfg :: "link_cfg option"
  lk_link_cfg_watch :: "link_cfg option"
  needs_tx_accepted :: bool
  tx :: 'tx
  tx_data :: "bytes option"
  tx_error :: "io_error option"
  tx_failed :: bool
  lk_tx_polling :: "instant option"
  tx_pending :: bool
  tx_last_msg :: "instant option"
  lk_txed_unacked :: "seq option"
  lk_txed_packets :: "pid list"
  tx_idle_since :: "instant option"
  txed_unflushed :: usize
  tx_flushing :: bool
  txed_first_unflushed_data :: "instant option"
  txed_unacked_data :: usize
  txed_unacked_data_limit :: usize
  limit_increased :: "seq option"
  limit_increased_consecutively :: usize
  tx_ack_queue :: "seq list"
  txed_acks_unflushed :: usize
  txed_first_unflushed_ack :: "instant option"
  rxed_data_msg :: "link_msg option"
  blocked :: bool
  blocked_sent :: bool
  remotely_blocked :: bool
  lk_unconfirmed :: "(instant \<times> not_working_reason) option"
  unconfirmed_watch :: "(instant \<times> not_working_reason) option"
  lk_test :: link_test
  roundtrip :: duration
  roundtrip_estimates :: "usize option"
  last_ping :: "instant option"
  current_ping_sent :: "instant option"
  send_ping :: bool
  send_pong :: bool
  disconnecting :: "disconnect_initiator option"
  goodbye_sent :: bool
  remote_user_data :: bytes
  lk_stats :: statistican

definition link_new ::
  "link_id \<Rightarrow> instant \<Rightarrow> conn_id \<Rightarrow> 'tx \<Rightarrow> cfg \<Rightarrow> exchanged_cfg \<Rightarrow> link_cfg option \<Rightarrow> direction \<Rightarrow>
   duration \<Rightarrow> bytes \<Rightarrow> 'tx link_int" where
  "link_new lid now cid t c rc lc dir rt ud = \<lparr>
     lk_conn_id = cid,
     lk_link_id = lid,
     lk_direction = dir,
     lk_cfg = c,
     lk_remote_cfg = rc,
     lk_link_cfg = lc,
     lk_link_cfg_watch = lc,
     needs_tx_accepted = (dir = Incoming),
     tx = t,
     tx_data = None,
     tx_error = None,
     tx_failed = False,
     lk_tx_polling = None,
     tx_pending = False,
     tx_last_msg = None,
     lk_txed_unacked = None,
     lk_txed_packets = [],
     tx_idle_since = None,
     txed_unflushed = 0,
     tx_flushing = False,
     txed_first_unflushed_data = None,
     txed_unacked_data = 0,
     txed_unacked_data_limit = (case lc of Some l \<Rightarrow> unacked_init l | None \<Rightarrow> unacked_init (cfg_link c)),
     limit_increased = None,
     limit_increased_consecutively = 45,
     tx_ack_queue = [],
     txed_acks_unflushed = 0,
     txed_first_unflushed_ack = None,
     rxed_data_msg = None,
     blocked = False,
     blocked_sent = False,
     remotely_blocked = False,
     lk_unconfirmed = None,
     unconfirmed_watch = None,
     lk_test = Inactive,
     roundtrip = rt,
     roundtrip_estimates = Some 0,
     last_ping = None,
     current_ping_sent = None,
     send_ping = False,
     send_pong = False,
     disconnecting = None,
     goodbye_sent = False,
     remote_user_data = ud,
     lk_stats = statistican_new now (stats_intervals c) rt\<rparr>"

text \<open>The effective link configuration (\<open>LinkInt::link_cfg\<close>).\<close>

definition lcfg :: "'tx link_int \<Rightarrow> link_cfg" where
  "lcfg l = (case lk_link_cfg l of Some c \<Rightarrow> c | None \<Rightarrow> cfg_link (lk_cfg l))"

definition update_link_cfg :: "'tx link_int \<Rightarrow> 'tx link_int" where
  "update_link_cfg l = l\<lparr>lk_link_cfg := lk_link_cfg_watch l\<rparr>"

definition check_tx_failed :: "'tx link_int \<Rightarrow> unit io_result" where
  "check_tx_failed l =
     (if tx_failed l then Inl (IoError ConnectionAborted ''link has failed'') else Inr ())"

definition set_unconfirmed ::
  "(instant \<times> not_working_reason) option \<Rightarrow> 'tx link_int \<Rightarrow> 'tx link_int" where
  "set_unconfirmed u l =
     (let l = l\<lparr>lk_unconfirmed := u\<rparr> in
      if unconfirmed_watch l \<noteq> lk_unconfirmed l then l\<lparr>unconfirmed_watch := lk_unconfirmed l\<rparr> else l)"

subsection \<open>Waiting for the next event\<close>

text \<open>Errors are reported before anything else.\<close>

definition event_check :: "'tx link_int \<Rightarrow> link_event option \<times> 'tx link_int" where
  "event_check l =
     (case tx_error l of
        Some e \<Rightarrow> (Some (TxError e), l\<lparr>tx_error := None\<rparr>)
      | None \<Rightarrow> (case check_tx_failed l of Inl e \<Rightarrow> (Some (TxError e), l) | Inr _ \<Rightarrow> (None, l)))"

definition flush_deadline :: "'tx link_int \<Rightarrow> deadline" where
  "flush_deadline l =
     (let dl = deadline_new;
          dl = (case txed_first_unflushed_data l of
                  Some first_sent \<Rightarrow>
                    if \<not> tx_flushing l then
                      let dl = (case tx_idle_since l of
                                  Some since \<Rightarrow> deadline_require ''link data idle flush''
                                    (since + flush_delay (lcfg l)) dl
                                | None \<Rightarrow> dl)
                      in (case flush_interval (lcfg l) of
                            Some i \<Rightarrow> deadline_require ''link data flush interval'' (first_sent + i) dl
                          | None \<Rightarrow> dl)
                    else dl
                | None \<Rightarrow> dl)
      in (case (txed_first_unflushed_ack l, ack_flush_interval (lcfg l)) of
            (Some first_ack, Some i) \<Rightarrow> deadline_require ''link ack flush interval'' (first_ack + i) dl
          | _ \<Rightarrow> dl))"

datatype tx_poll = TxPending | TxEvent link_event | TxAgain

text \<open>One round of the transmit loop; a failed assertion is a panic.\<close>

definition tx_iter :: "'tx sink \<Rightarrow> instant \<Rightarrow> 'tx link_int \<Rightarrow> (tx_poll \<times> 'tx link_int) option" where
  "tx_iter S now l =
     (if lk_tx_polling l = None then do { assert_that (tx_data l = None); Some (TxPending, l) }
      else if tx_flushing l \<and> tx_data l = None then
        (case sk_poll_flush S (tx l) of
           (None, t) \<Rightarrow> Some (TxPending, l\<lparr>tx := t\<rparr>)
         | (Some (Inr _), t) \<Rightarrow>
             Some (TxEvent TxFlushed, l\<lparr>tx := t, tx_flushing := False, txed_first_unflushed_data := None\<rparr>)
         | (Some (Inl e), t) \<Rightarrow> Some (TxEvent (TxError e), l\<lparr>tx := t, tx_failed := True\<rparr>))
      else
        (case sk_poll_ready S (tx l) of
           (None, t) \<Rightarrow> Some (TxPending, l\<lparr>tx := t, tx_pending := True\<rparr>)
         | (Some (Inl e), t) \<Rightarrow>
             Some (TxEvent (TxError e), l\<lparr>tx := t, tx_pending := False, tx_failed := True\<rparr>)
         | (Some (Inr _), t) \<Rightarrow>
             let l = l\<lparr>tx := t, tx_pending := False\<rparr> in
             (case tx_data l of
                Some d \<Rightarrow>
                  let l = l\<lparr>tx_data := None, txed_first_unflushed_data :=
                        (case txed_first_unflushed_data l of None \<Rightarrow> Some now | Some i \<Rightarrow> Some i)\<rparr>
                  in (case sk_start_send S (tx l) d of
                        (Inl e, t) \<Rightarrow> Some (TxEvent (TxError e), l\<lparr>tx := t, tx_failed := True\<rparr>)
                      | (Inr _, t) \<Rightarrow> Some (TxAgain, l\<lparr>tx := t\<rparr>))
              | None \<Rightarrow> Some (TxEvent TxReady, l\<lparr>lk_tx_polling := None\<rparr>))))"

lemma tx_iter_again:
  "tx_iter S now l = Some (TxAgain, l') \<Longrightarrow> tx_data l \<noteq> None \<and> tx_data l' = None"
  by (auto simp: tx_iter_def Let_def split: if_splits prod.splits option.splits sum.splits)

function tx_task :: "'tx sink \<Rightarrow> instant \<Rightarrow> 'tx link_int \<Rightarrow> (tx_poll \<times> 'tx link_int) option" where
  "tx_task S now l =
     (case tx_iter S now l of
        Some (TxAgain, l') \<Rightarrow> tx_task S now l'
      | r \<Rightarrow> r)"
  by pat_completeness auto
termination
  by (relation "measure (\<lambda>(S, now, l). if tx_data l = None then 0 else 1)")
    (auto dest: tx_iter_again)

declare tx_task.simps [simp del]

text \<open>One item of the receive stream; \<open>None\<close> as event means that the loop goes on.\<close>

definition rx_item :: "'tx link_int \<Rightarrow> bytes io_result option \<Rightarrow> link_event option \<times> 'tx link_int" where
  "rx_item l item =
     (case item of
        Some (Inr buf) \<Rightarrow>
          let l = l\<lparr>lk_stats := statistican_record 0 (length buf) (lk_stats l)\<rparr> in
          (case rxed_data_msg l of
             Some msg \<Rightarrow> (Some (Rx msg (Some buf)), l\<lparr>rxed_data_msg := None\<rparr>)
           | None \<Rightarrow>
               (case msg_read buf of
                  Inr msg \<Rightarrow>
                    let l = (case (msg, lk_txed_unacked l) of
                               (Ack received, Some unacked) \<Rightarrow>
                                 if unacked \<le> received then l\<lparr>lk_txed_unacked := None\<rparr> else l
                             | _ \<Rightarrow> l)
                    in (case msg of
                          LData _ \<Rightarrow> (None, l\<lparr>rxed_data_msg := Some msg\<rparr>)
                        | _ \<Rightarrow> (Some (Rx msg None), l))
                | Inl e \<Rightarrow> (Some (RxError e), l)))
      | Some (Inl e) \<Rightarrow> (Some (RxError e), l)
      | None \<Rightarrow> (Some (RxError (IoError BrokenPipe ''broken pipe'')), l))"

text \<open>
  The events a link can report next, with the state it is in afterwards: a branch of the \<open>select!\<close>
  that is ready.  The block flag and the link configuration are set by the user of the link before
  the event that reports the change.
\<close>

inductive link_emits :: "'tx sink \<Rightarrow> instant \<Rightarrow> 'tx link_int \<Rightarrow> link_event \<Rightarrow> 'tx link_int \<Rightarrow> bool" where
  emit_error: "event_check l = (Some e, l') \<Longrightarrow> link_emits S now l e l'"
| emit_tx: "event_check l = (None, l) \<Longrightarrow> tx_task S now l = Some (TxEvent e, l') \<Longrightarrow>
    link_emits S now l e l'"
| emit_rx: "event_check l = (None, l) \<Longrightarrow> rx_item l item = (Some e, l') \<Longrightarrow> link_emits S now l e l'"
| emit_flush: "event_check l = (None, l) \<Longrightarrow> dl_instant (flush_deadline l) = Some t \<Longrightarrow> t \<le> now \<Longrightarrow>
    link_emits S now l FlushRequired l"
| emit_blocked: "event_check l = (None, l) \<Longrightarrow> link_emits S now l BlockedChanged (l\<lparr>blocked := b\<rparr>)"
| emit_disconnect: "event_check l = (None, l) \<Longrightarrow> link_emits S now l Disconnect l"
| emit_cfg: "event_check l = (None, l) \<Longrightarrow> link_emits S now l LinkCfgChanged (l\<lparr>lk_link_cfg_watch := c\<rparr>)"

subsection \<open>Packets of a link\<close>

text \<open>The loop of \<open>mark_txed_packets_flushed\<close> over the packets of the link, newest first.\<close>

fun mark_flushed_loop :: "instant \<Rightarrow> (pid \<Rightarrow> bool) \<Rightarrow> link_id \<Rightarrow> pid list \<Rightarrow> store \<Rightarrow> store" where
  "mark_flushed_loop now live lid [] st = st"
| "mark_flushed_loop now live lid (p # ps) st =
     (if live p \<and> p < length st then
        (case sr_status (st ! p) of
           Sent t fl i lk m rs \<Rightarrow>
             if lk = lid then
               (case fl of
                  None \<Rightarrow> mark_flushed_loop now live lid ps
                    (st[p := (st ! p)\<lparr>sr_status := Sent t (Some now) i lk m rs\<rparr>])
                | Some _ \<Rightarrow> st)
             else mark_flushed_loop now live lid ps st
         | _ \<Rightarrow> mark_flushed_loop now live lid ps st)
      else mark_flushed_loop now live lid ps st)"

definition mark_txed_packets_flushed ::
  "instant \<Rightarrow> (pid \<Rightarrow> bool) \<Rightarrow> 'tx link_int \<Rightarrow> store \<Rightarrow> store" where
  "mark_txed_packets_flushed now live l st =
     mark_flushed_loop now live (lk_link_id l) (rev (lk_txed_packets l)) st"

definition sent_over :: "link_id \<Rightarrow> sent_status \<Rightarrow> bool" where
  "sent_over lid s = (case s of Sent _ _ _ lk _ _ \<Rightarrow> lk = lid | _ \<Rightarrow> False)"

definition clean_txed_packets :: "(pid \<Rightarrow> bool) \<Rightarrow> store \<Rightarrow> 'tx link_int \<Rightarrow> 'tx link_int" where
  "clean_txed_packets live st l =
     l\<lparr>lk_txed_packets :=
         dropWhile (\<lambda>p. \<not> (live p \<and> p < length st \<and> sent_over (lk_link_id l) (sr_status (st ! p))))
           (lk_txed_packets l)\<rparr>"

subsection \<open>Sending\<close>

definition start_flush ::
  "instant \<Rightarrow> (pid \<Rightarrow> bool) \<Rightarrow> store \<Rightarrow> 'tx link_int \<Rightarrow> 'tx link_int \<times> store" where
  "start_flush now live st l =
     (let l = l\<lparr>txed_acks_unflushed := 0, txed_first_unflushed_ack := None, txed_unflushed := 0\<rparr>;
          st = mark_txed_packets_flushed now live l st
      in (l\<lparr>tx_flushing := True, lk_tx_polling := Some now\<rparr>, st))"

text \<open>Which messages are counted as acknowledgements and which are flushed at once.\<close>

definition after_send ::
  "instant \<Rightarrow> (pid \<Rightarrow> bool) \<Rightarrow> link_msg \<Rightarrow> 'tx link_int \<times> store \<Rightarrow> 'tx link_int \<times> store" where
  "after_send now live msg ls =
     (let (l, st) = ls;
          acked = (l\<lparr>txed_acks_unflushed := txed_acks_unflushed l + 1,
                     txed_first_unflushed_ack :=
                       (case txed_first_unflushed_ack l of None \<Rightarrow> Some now | Some i \<Rightarrow> Some i)\<rparr>, st)
      in case msg of
           Ack _ \<Rightarrow> acked
         | LConsumed _ _ \<Rightarrow> acked
         | LData s \<Rightarrow>
             (case lk_txed_unacked l of
                Some unacked \<Rightarrow> if s < unacked then (l, st) else (l\<lparr>lk_txed_unacked := Some s\<rparr>, st)
              | None \<Rightarrow> (l\<lparr>lk_txed_unacked := Some s\<rparr>, st))
         | Accepted \<Rightarrow> start_flush now live st l
         | Ping \<Rightarrow> start_flush now live st l
         | Pong \<Rightarrow> start_flush now live st l
         | LSendFinish _ \<Rightarrow> start_flush now live st l
         | LReceiveClose _ \<Rightarrow> start_flush now live st l
         | LReceiveFinish _ \<Rightarrow> start_flush now live st l
         | Goodbye \<Rightarrow> start_flush now live st l
         | _ \<Rightarrow> (l, st))"

definition start_send_msg ::
  "'tx sink \<Rightarrow> instant \<Rightarrow> (pid \<Rightarrow> bool) \<Rightarrow> link_msg \<Rightarrow> bytes option \<Rightarrow> 'tx link_int \<times> store \<Rightarrow>
   ('tx link_int \<times> store) option" where
  "start_send_msg S now live msg d ls =
     (let (l, st) = ls in do {
        assert_that (lk_tx_polling l = None);
        assert_that (tx_data l = None);
        (case check_tx_failed l of
           Inl e \<Rightarrow> Some (if tx_error l = None then l\<lparr>tx_error := Some e\<rparr> else l, st)
         | Inr _ \<Rightarrow> do {
             let l = l\<lparr>lk_tx_polling := Some now, tx_idle_since := None\<rparr>;
             encoded \<leftarrow> msg_encode msg;
             let total_len = length encoded + (case d of Some x \<Rightarrow> length x | None \<Rightarrow> 0);
             (case sk_start_send S (tx l) encoded of
                (Inl e, t) \<Rightarrow> Some (l\<lparr>tx := t, tx_error := Some e, tx_failed := True\<rparr>, st)
              | (Inr _, t) \<Rightarrow>
                  let l = l\<lparr>tx := t,
                            lk_stats := statistican_record total_len 0 (lk_stats l),
                            tx_data := d,
                            tx_last_msg := Some now,
                            txed_unflushed := txed_unflushed l + total_len\<rparr>;
                      (l, st) = after_send now live msg (l, st)
                  in (case unflushed_limit (lcfg l) of
                        Some lim \<Rightarrow> if txed_unflushed l \<ge> lim then Some (start_flush now live st l)
                                    else Some (l, st)
                      | None \<Rightarrow> Some (l, st)))
           })
      })"

definition need_ack_flush :: "'tx link_int \<Rightarrow> bool" where
  "need_ack_flush l \<longleftrightarrow> txed_acks_unflushed l \<noteq> 0"

definition needs_flush :: "'tx link_int \<Rightarrow> bool" where
  "needs_flush l \<longleftrightarrow> txed_first_unflushed_data l \<noteq> None \<and> \<not> tx_flushing l"

definition has_outstanding_ack :: "'tx link_int \<Rightarrow> bool" where
  "has_outstanding_ack l \<longleftrightarrow> lk_txed_unacked l \<noteq> None"

definition report_ready :: "instant \<Rightarrow> 'tx link_int \<Rightarrow> 'tx link_int" where
  "report_ready now l = l\<lparr>lk_tx_polling := Some now\<rparr>"

text \<open>
  The loop that fills the link with test data until it would block.  The packet size is a
  \<open>NonZeroUsize\<close> in the source, so every round makes progress.
\<close>

function send_test_loop ::
  "'tx sink \<Rightarrow> usize \<Rightarrow> usize \<Rightarrow> usize \<Rightarrow> 'tx link_int \<Rightarrow> usize \<times> 'tx link_int" where
  "send_test_loop S packet_size data_limit n l =
     (if n < data_limit \<and> 0 < packet_size then
        (case sk_poll_ready S (tx l) of
           (Some (Inl e), t) \<Rightarrow> (n, l\<lparr>tx := t, tx_error := Some e, tx_failed := True\<rparr>)
         | (None, t) \<Rightarrow> (n, l\<lparr>tx := t\<rparr>)
         | (Some (Inr _), t) \<Rightarrow>
             let sz = min packet_size (data_limit - n) in
             (case sk_start_send S t (case msg_encode (TestData sz) of Some b \<Rightarrow> b | None \<Rightarrow> []) of
                (Inl e, t) \<Rightarrow> (n, l\<lparr>tx := t, tx_error := Some e, tx_failed := True\<rparr>)
              | (Inr _, t) \<Rightarrow> send_test_loop S packet_size data_limit (n + sz) (l\<lparr>tx := t\<rparr>)))
      else (n, l))"
  by pat_completeness auto
termination
  by (relation "measure (\<lambda>(S, ps, lim, n, l). lim - n)") (auto split: if_splits)

declare send_test_loop.simps [simp del]

definition send_test_data ::
  "'tx sink \<Rightarrow> instant \<Rightarrow> usize \<Rightarrow> usize \<Rightarrow> 'tx link_int \<Rightarrow> (usize \<times> 'tx link_int) option" where
  "send_test_data S now packet_size data_limit l = do {
     assert_that (tx_data l = None);
     let l = l\<lparr>lk_tx_polling := Some now,
               txed_first_unflushed_data :=
                 (case txed_first_unflushed_data l of None \<Rightarrow> Some now | Some i \<Rightarrow> Some i),
               tx_idle_since := None\<rparr>;
     (case check_tx_failed l of
        Inl e \<Rightarrow> Some (0, if tx_error l = None then l\<lparr>tx_error := Some e\<rparr> else l)
      | Inr _ \<Rightarrow> Some (send_test_loop S packet_size data_limit 0 l))
   }"

definition link_mark_idle :: "instant \<Rightarrow> 'tx link_int \<Rightarrow> 'tx link_int" where
  "link_mark_idle now l =
     l\<lparr>tx_idle_since := Some now, lk_stats := statistican_mark_idle (lk_stats l)\<rparr>"

definition is_sendable :: "'tx link_int \<Rightarrow> bool" where
  "is_sendable l \<longleftrightarrow> txed_unacked_data l < txed_unacked_data_limit l"

definition link_reset :: "'tx link_int \<Rightarrow> 'tx link_int" where
  "link_reset l =
     (let s = lk_stats l; cur = sn_current s in
      l\<lparr>lk_stats := s\<lparr>sn_current := cur\<lparr>hangs := hangs cur + 1\<rparr>\<rparr>,
        txed_unacked_data_limit := max (txed_unacked_data_limit l div 2) 128,
        limit_increased := None,
        limit_increased_consecutively := 0\<rparr>)"

definition is_blocked :: "'tx link_int \<Rightarrow> bool" where
  "is_blocked l \<longleftrightarrow> blocked l \<or> remotely_blocked l"

definition publish_stats :: "instant \<Rightarrow> 'tx link_int \<Rightarrow> 'tx link_int" where
  "publish_stats now l =
     (let s = lk_stats l;
          cur = (sn_current s)\<lparr>ls_sent_unacked := of_nat (txed_unacked_data l),
                               ls_unacked_limit := of_nat (txed_unacked_data_limit l),
                               ls_roundtrip := roundtrip l\<rparr>
      in l\<lparr>lk_stats := statistican_publish now (s\<lparr>sn_current := cur\<rparr>)\<rparr>)"

subsection \<open>Sending to the end\<close>

text \<open>
  \<open>SinkExt::send\<close>: wait until the sink is ready, hand over the item, wait until it is flushed.  A
  sink that stays pending gives no result.
\<close>

inductive await_ready :: "'tx sink \<Rightarrow> 'tx \<Rightarrow> unit io_result \<Rightarrow> 'tx \<Rightarrow> bool" for S :: "'tx sink" where
  "sk_poll_ready S x = (Some r, x') \<Longrightarrow> await_ready S x r x'"
| "sk_poll_ready S x = (None, x') \<Longrightarrow> await_ready S x' r x'' \<Longrightarrow> await_ready S x r x''"

inductive await_flush :: "'tx sink \<Rightarrow> 'tx \<Rightarrow> unit io_result \<Rightarrow> 'tx \<Rightarrow> bool" for S :: "'tx sink" where
  "sk_poll_flush S x = (Some r, x') \<Longrightarrow> await_flush S x r x'"
| "sk_poll_flush S x = (None, x') \<Longrightarrow> await_flush S x' r x'' \<Longrightarrow> await_flush S x r x''"

inductive sink_send :: "'tx sink \<Rightarrow> 'tx \<Rightarrow> bytes \<Rightarrow> unit io_result \<Rightarrow> 'tx \<Rightarrow> bool" for S :: "'tx sink" where
  "await_ready S x (Inl e) x' \<Longrightarrow> sink_send S x d (Inl e) x'"
| "await_ready S x (Inr u) x' \<Longrightarrow> sk_start_send S x' d = (Inl e, x'') \<Longrightarrow> sink_send S x d (Inl e) x''"
| "await_ready S x (Inr u) x' \<Longrightarrow> sk_start_send S x' d = (Inr v, x'') \<Longrightarrow> await_flush S x'' r x''' \<Longrightarrow>
    sink_send S x d r x'''"

inductive send_msg_and_flush ::
  "'tx sink \<Rightarrow> instant \<Rightarrow> link_msg \<Rightarrow> 'tx link_int \<Rightarrow> unit io_result \<Rightarrow> 'tx link_int \<Rightarrow> bool"
  for S :: "'tx sink" and now :: instant and msg :: link_msg where
  "check_tx_failed l = Inl e \<Longrightarrow> send_msg_and_flush S now msg l (Inl e) l"
| "check_tx_failed l = Inr u \<Longrightarrow> msg_encode msg = Some bs \<Longrightarrow> sink_send S (tx l) bs (Inl e) x \<Longrightarrow>
    send_msg_and_flush S now msg l (Inl e) (l\<lparr>lk_tx_polling := Some now, tx := x, tx_failed := True\<rparr>)"
| "check_tx_failed l = Inr u \<Longrightarrow> msg_encode msg = Some bs \<Longrightarrow> sink_send S (tx l) bs (Inr v) x \<Longrightarrow>
    send_msg_and_flush S now msg l (Inr v) (l\<lparr>lk_tx_polling := Some now, tx := x\<rparr>)"

subsection \<open>Forceful termination\<close>

text \<open>
  The two waiting loops of \<open>terminate_connection\<close> over the events the link reports, and the function
  itself.  A loop that never ends gives no result.
\<close>

inductive term_wait_ready :: "'tx sink \<Rightarrow> bool \<Rightarrow> 'tx link_int \<Rightarrow> bool \<Rightarrow> 'tx link_int \<Rightarrow> bool"
  for S :: "'tx sink" where
  tr_ready: "link_emits S now l TxReady l' \<Longrightarrow> term_wait_ready S expect_reply l expect_reply l'"
| tr_error: "link_emits S now l (TxError e) l' \<Longrightarrow> term_wait_ready S expect_reply l expect_reply l'"
| tr_term: "link_emits S now l (Rx Terminate d) l' \<Longrightarrow> term_wait_ready S False l' r l'' \<Longrightarrow>
    term_wait_ready S expect_reply l r l''"
| tr_other: "link_emits S now l ev l' \<Longrightarrow> ev \<noteq> TxReady \<Longrightarrow> (\<And>e. ev \<noteq> TxError e) \<Longrightarrow>
    (\<And>d. ev \<noteq> Rx Terminate d) \<Longrightarrow> term_wait_ready S expect_reply l' r l'' \<Longrightarrow>
    term_wait_ready S expect_reply l r l''"

inductive term_wait_reply :: "'tx sink \<Rightarrow> 'tx link_int \<Rightarrow> 'tx link_int \<Rightarrow> bool" for S :: "'tx sink" where
  tw_error: "link_emits S now l (RxError e) l' \<Longrightarrow> term_wait_reply S l l'"
| tw_term: "link_emits S now l (Rx Terminate d) l' \<Longrightarrow> term_wait_reply S l l'"
| tw_other: "link_emits S now l ev l' \<Longrightarrow> (\<And>e. ev \<noteq> RxError e) \<Longrightarrow> (\<And>d. ev \<noteq> Rx Terminate d) \<Longrightarrow>
    term_wait_reply S l' l'' \<Longrightarrow> term_wait_reply S l l''"

inductive terminate_connection ::
  "'tx sink \<Rightarrow> instant \<Rightarrow> bool \<Rightarrow> 'tx link_int \<Rightarrow> 'tx link_int \<Rightarrow> bool" for S :: "'tx sink" and now :: instant where
  "term_wait_ready S expect_reply (report_ready now l) True l1 \<Longrightarrow>
   send_msg_and_flush S now Terminate l1 res l2 \<Longrightarrow> term_wait_reply S l2 l3 \<Longrightarrow>
   terminate_connection S now expect_reply l l3"
| "term_wait_ready S expect_reply (report_ready now l) False l1 \<Longrightarrow>
   send_msg_and_flush S now Terminate l1 res l2 \<Longrightarrow> terminate_connection S now expect_reply l l2"

section \<open>What the operations keep\<close>

subsection \<open>Packets\<close>

text \<open>
  What matters of the status of a packet for its delivery: over which link it was sent, that it
  waits to be sent again, or that it was received; not when it was sent and flushed.
\<close>

datatype pkt = PSent nat link_id reliable_msg | PQueued reliable_msg link_id | PReceived usize

fun pkt_of :: "sent_status \<Rightarrow> pkt" where
  "pkt_of (Sent _ _ i lk m _) = PSent i lk m"
| "pkt_of (ResendQueued m lk) = PQueued m lk"
| "pkt_of (Received n) = PReceived n"

definition pkts :: "store \<Rightarrow> pkt list" where
  "pkts st = map (pkt_of \<circ> sr_status) st"

definition seqs :: "store \<Rightarrow> seq list" where
  "seqs st = map sr_seq st"

definition same_pkts :: "store \<Rightarrow> store \<Rightarrow> bool" where
  "same_pkts st st' \<longleftrightarrow> pkts st' = pkts st \<and> seqs st' = seqs st"

lemma length_pkts [simp]: "length (pkts st) = length st"
  by (simp add: pkts_def)

lemma length_seqs [simp]: "length (seqs st) = length st"
  by (simp add: seqs_def)

lemma nth_pkts [simp]: "p < length st \<Longrightarrow> pkts st ! p = pkt_of (sr_status (st ! p))"
  by (simp add: pkts_def)

lemma nth_seqs [simp]: "p < length st \<Longrightarrow> seqs st ! p = sr_seq (st ! p)"
  by (simp add: seqs_def)

lemma pkts_update [simp]: "pkts (st[p := x]) = (pkts st)[p := pkt_of (sr_status x)]"
  by (simp add: pkts_def map_update)

lemma seqs_update [simp]: "seqs (st[p := x]) = (seqs st)[p := sr_seq x]"
  by (simp add: seqs_def map_update)

lemma pkts_append [simp]: "pkts (st @ [x]) = pkts st @ [pkt_of (sr_status x)]"
  by (simp add: pkts_def)

lemma seqs_append [simp]: "seqs (st @ [x]) = seqs st @ [sr_seq x]"
  by (simp add: seqs_def)

lemma pkt_of_cases:
  "pkt_of s = PSent i lk m \<longleftrightarrow> (\<exists>t fl rs. s = Sent t fl i lk m rs)"
  "pkt_of s = PQueued m lk \<longleftrightarrow> s = ResendQueued m lk"
  "pkt_of s = PReceived n \<longleftrightarrow> s = Received n"
  by (cases s; auto)+

lemma same_pkts_refl [simp, intro]: "same_pkts st st"
  by (simp add: same_pkts_def)

lemma same_pkts_trans: "same_pkts a b \<Longrightarrow> same_pkts b c \<Longrightarrow> same_pkts a c"
  by (simp add: same_pkts_def)

lemma same_pkts_length: "same_pkts st st' \<Longrightarrow> length st' = length st"
  unfolding same_pkts_def by (metis length_pkts)

lemma mark_flushed_loop_same: "same_pkts st (mark_flushed_loop now live lid ps st)"
proof (induction now live lid ps st rule: mark_flushed_loop.induct)
  case (2 now live lid p ps st)
  have upd: "same_pkts st (st[p := (st ! p)\<lparr>sr_status := Sent t fl' i lk m rs\<rparr>])"
    if "p < length st" "sr_status (st ! p) = Sent t fl i lk m rs" for t fl fl' i lk m rs
  proof -
    have "pkts st ! p = PSent i lk m" "seqs st ! p = sr_seq (st ! p)" using that by simp_all
    then show ?thesis unfolding same_pkts_def by (metis list_update_id pkts_update seqs_update
          pkt_of.simps(1) sent_reliable.select_convs sent_reliable.surjective sent_reliable.update_convs(2))
  qed
  show ?case
  proof (cases "\<exists>t i m rs. live p \<and> p < length st \<and> sr_status (st ! p) = Sent t None i lid m rs")
    case True
    then obtain t i m rs where c: "live p" "p < length st" "sr_status (st ! p) = Sent t None i lid m rs"
      by blast
    let ?st = "st[p := (st ! p)\<lparr>sr_status := Sent t (Some now) i lid m rs\<rparr>]"
    have "same_pkts ?st (mark_flushed_loop now live lid ps ?st)"
      using 2(1) [of t None i lid m rs] c by simp
    with upd [OF c(2,3)] c show ?thesis by (auto intro: same_pkts_trans)
  next
    case False
    then show ?thesis using 2 by (auto split: sent_status.split option.split)
  qed
qed simp

subsection \<open>Links\<close>

text \<open>
  The fields of a link that sending, flushing, polling and receiving leave alone; \<open>tx_idle\<close> says that
  the link can start to send a message.
\<close>

definition keeps :: "'tx link_int \<Rightarrow> 'tx link_int \<Rightarrow> bool" where
  "keeps l l' \<longleftrightarrow> lk_link_id l' = lk_link_id l \<and> lk_cfg l' = lk_cfg l \<and> lk_link_cfg l' = lk_link_cfg l \<and>
     lk_txed_packets l' = lk_txed_packets l \<and> txed_unacked_data l' = txed_unacked_data l \<and>
     lk_unconfirmed l' = lk_unconfirmed l \<and> lk_test l' = lk_test l"

definition tx_idle :: "'tx link_int \<Rightarrow> bool" where
  "tx_idle l \<longleftrightarrow> lk_tx_polling l = None \<and> tx_data l = None"

definition tx_ok :: "'tx link_int \<Rightarrow> bool" where
  "tx_ok l \<longleftrightarrow> (tx_data l \<noteq> None \<longrightarrow> lk_tx_polling l \<noteq> None)"

lemma keeps_refl [simp, intro]: "keeps l l"
  by (simp add: keeps_def)

lemma keeps_trans: "keeps a b \<Longrightarrow> keeps b c \<Longrightarrow> keeps a c"
  by (simp add: keeps_def)

lemma tx_idle_ok [simp]: "tx_idle l \<Longrightarrow> tx_ok l"
  by (simp add: tx_idle_def tx_ok_def)

lemma start_flush_frame:
  assumes "start_flush now live st l = (l', st')"
  shows "keeps l l'" and "same_pkts st st'" and "tx_data l' = tx_data l" and "lk_tx_polling l' = Some now"
  using assms mark_flushed_loop_same
  by (auto simp: start_flush_def keeps_def mark_txed_packets_flushed_def Let_def)

lemma after_send_frame:
  assumes "after_send now live msg (l, st) = (l', st')" and "lk_tx_polling l \<noteq> None"
  shows "keeps l l' \<and> same_pkts st st' \<and> tx_data l' = tx_data l \<and> lk_tx_polling l' \<noteq> None"
  using assms
  by (cases msg; simp add: after_send_def Let_def split: option.splits if_splits)
    (auto simp: keeps_def dest: start_flush_frame)

text \<open>Starting to send over an idle link does not panic, unless the message cannot be encoded.\<close>

lemma start_send_msg_frame:
  assumes idle: "tx_idle l" and enc: "msg_encode msg = Some bs"
  shows "\<exists>l' st'. start_send_msg S now live msg d (l, st) = Some (l', st') \<and> keeps l l' \<and>
    same_pkts st st' \<and> tx_ok l'"
proof (cases "tx_failed l")
  case True
  then show ?thesis using idle
    by (auto simp: start_send_msg_def check_tx_failed_def tx_idle_def tx_ok_def keeps_def)
next
  case False
  let ?l = "l\<lparr>lk_tx_polling := Some now, tx_idle_since := None\<rparr>"
  obtain r t where snd: "sk_start_send S (tx l) bs = (r, t)" by force
  show ?thesis
  proof (cases r)
    case (Inl e)
    then show ?thesis using idle False enc snd
      by (auto simp: start_send_msg_def check_tx_failed_def tx_idle_def tx_ok_def keeps_def)
  next
    case (Inr u)
    define n where "n = length bs + (case d of Some x \<Rightarrow> length x | None \<Rightarrow> 0)"
    define l1 where "l1 = ?l\<lparr>tx := t, lk_stats := statistican_record n 0 (lk_stats l), tx_data := d,
      tx_last_msg := Some now, txed_unflushed := txed_unflushed l + n\<rparr>"
    obtain l2 st2 where a: "after_send now live msg (l1, st) = (l2, st2)" by force
    have "lk_tx_polling l1 \<noteq> None" by (simp add: l1_def)
    note fr = after_send_frame [OF a this]
    obtain l3 st3 where f: "start_flush now live st2 l2 = (l3, st3)" by force
    note fl = start_flush_frame [OF f]
    have kl: "keeps l l1" by (simp add: l1_def keeps_def)
    have eq: "start_send_msg S now live msg d (l, st) =
      (case unflushed_limit (lcfg l2) of
         Some lim \<Rightarrow> if txed_unflushed l2 \<ge> lim then Some (l3, st3) else Some (l2, st2)
       | None \<Rightarrow> Some (l2, st2))"
      using idle False enc snd Inr a f
      by (simp add: start_send_msg_def check_tx_failed_def tx_idle_def l1_def n_def Let_def
          split: option.split)
    show ?thesis
    proof (cases "start_send_msg S now live msg d (l, st) = Some (l3, st3)")
      case True
      then show ?thesis using fr fl kl by (auto simp: tx_ok_def intro: keeps_trans same_pkts_trans)
    next
      case False
      then have "start_send_msg S now live msg d (l, st) = Some (l2, st2)"
        using eq by (auto split: option.splits if_splits)
      then show ?thesis using fr kl by (auto simp: tx_ok_def intro: keeps_trans)
    qed
  qed
qed

lemma reliable_encodes: "to_link_msg m s = (msg, d) \<Longrightarrow> \<exists>bs. msg_encode msg = Some bs"
  by (cases m) (auto simp: msg_encode_def)

lemma tx_iter_frame:
  assumes "tx_iter S now l = Some (r, l')" and "tx_ok l"
  shows "keeps l l' \<and> tx_ok l' \<and> (r = TxEvent TxReady \<longrightarrow> tx_idle l') \<and>
    (lk_tx_polling l = None \<longrightarrow> l' = l \<and> r = TxPending)"
  using assms
  by (auto simp: tx_iter_def Let_def keeps_def tx_ok_def tx_idle_def
      split: if_splits prod.splits option.splits sum.splits)

lemma tx_iter_total: "tx_ok l \<Longrightarrow> \<exists>r. tx_iter S now l = Some r"
  by (auto simp: tx_iter_def Let_def tx_ok_def split: prod.split option.split sum.split)

text \<open>Polling the sink never panics; it reports readiness only when a message can be started.\<close>

lemma tx_task_frame:
  assumes "tx_ok l"
  shows "\<exists>r l'. tx_task S now l = Some (r, l') \<and> keeps l l' \<and> tx_ok l' \<and> r \<noteq> TxAgain \<and>
    (r = TxEvent TxReady \<longrightarrow> tx_idle l') \<and> (lk_tx_polling l = None \<longrightarrow> l' = l \<and> r = TxPending)"
  using assms
proof (induction S now l rule: tx_task.induct)
  case (1 S now l)
  obtain r l' where it: "tx_iter S now l = Some (r, l')" using tx_iter_total [OF 1(2)] by force
  note fr = tx_iter_frame [OF it 1(2)]
  show ?case
  proof (cases "r = TxAgain")
    case True
    with it fr 1(1) obtain r2 l2 where
      "tx_task S now l' = Some (r2, l2)" "keeps l' l2" "tx_ok l2" "r2 \<noteq> TxAgain"
      "r2 = TxEvent TxReady \<longrightarrow> tx_idle l2" by blast
    then show ?thesis using it True fr by (subst tx_task.simps) (auto intro: keeps_trans)
  next
    case False
    then show ?thesis using it fr by (subst tx_task.simps) (auto split: tx_poll.split)
  qed
qed

lemma rx_item_frame:
  assumes "rx_item l item = (e, l')"
  shows "keeps l l'" and "lk_tx_polling l' = lk_tx_polling l" and "tx_data l' = tx_data l"
    and "e \<noteq> Some TxReady"
  using assms
  by (auto simp: rx_item_def Let_def keeps_def split: option.splits sum.splits link_msg.splits prod.splits if_splits)

lemma event_check_frame: "event_check l = (e, l') \<Longrightarrow> keeps l l' \<and> lk_tx_polling l' = lk_tx_polling l \<and>
    tx_data l' = tx_data l \<and> e \<noteq> Some TxReady"
  by (auto simp: event_check_def keeps_def split: option.splits sum.splits)

text \<open>
  What holds of the state a link is in when it reports an event: a link whose transmit side was
  idle stays so, and a link that is ready can start to send.
\<close>

lemma link_emits_frame:
  assumes "link_emits S now l e l'" and "tx_ok l"
  shows "keeps l l' \<and> tx_ok l' \<and> (e = TxReady \<longrightarrow> tx_idle l') \<and> (tx_idle l \<longrightarrow> tx_idle l' \<and> e \<noteq> TxReady)"
  using assms
proof (cases rule: link_emits.cases)
  case emit_error
  then show ?thesis using event_check_frame [of l "Some e" l'] assms(2)
    by (auto simp: tx_ok_def tx_idle_def)
next
  case emit_tx
  then show ?thesis using tx_task_frame [OF assms(2), of S now] by (auto simp: tx_idle_def)
next
  case (emit_rx item)
  then show ?thesis using rx_item_frame [of l item "Some e" l'] assms(2)
    by (auto simp: tx_ok_def tx_idle_def)
qed (use assms(2) in \<open>auto simp: keeps_def tx_ok_def tx_idle_def\<close>)

lemma send_test_loop_frame:
  "send_test_loop S ps lim n l = (k, l') \<Longrightarrow>
     keeps l l' \<and> lk_tx_polling l' = lk_tx_polling l \<and> tx_data l' = tx_data l"
proof (induction "lim - n" arbitrary: n l rule: less_induct)
  case less
  obtain r t where pr: "sk_poll_ready S (tx l) = (r, t)" by force
  define sz where "sz = min ps (lim - n)"
  obtain r2 t2 where ss:
    "sk_start_send S t (case msg_encode (TestData sz) of Some b \<Rightarrow> b | None \<Rightarrow> []) = (r2, t2)" by force
  have eq: "send_test_loop S ps lim n l =
      (if n < lim \<and> 0 < ps then
         (case r of
            Some (Inl e) \<Rightarrow> (n, l\<lparr>tx := t, tx_error := Some e, tx_failed := True\<rparr>)
          | None \<Rightarrow> (n, l\<lparr>tx := t\<rparr>)
          | Some (Inr _) \<Rightarrow>
              (case r2 of
                 Inl e \<Rightarrow> (n, l\<lparr>tx := t2, tx_error := Some e, tx_failed := True\<rparr>)
               | Inr _ \<Rightarrow> send_test_loop S ps lim (n + sz) (l\<lparr>tx := t2\<rparr>)))
       else (n, l))"
    by (subst send_test_loop.simps, cases r; cases "the r"; cases r2)
      (simp_all add: pr ss [unfolded sz_def] sz_def Let_def)
  have ih: "keeps (l\<lparr>tx := t2\<rparr>) l' \<and> lk_tx_polling l' = lk_tx_polling l \<and> tx_data l' = tx_data l"
    if "n < lim" "0 < ps" "r = Some (Inr u)" "r2 = Inr v"
      "send_test_loop S ps lim (n + sz) (l\<lparr>tx := t2\<rparr>) = (k, l')" for u v
    using less.hyps [of "n + sz" "l\<lparr>tx := t2\<rparr>"] that by (simp add: sz_def)
  show ?case
  proof (cases "n < lim \<and> 0 < ps \<and> r = Some (Inr ()) \<and> r2 = Inr ()")
    case True
    then show ?thesis using ih [of "()" "()"] less.prems eq by (simp add: keeps_def)
  next
    case False
    then show ?thesis using less.prems eq
      by (auto simp: keeps_def split: option.splits sum.splits if_splits)
  qed
qed

lemma send_test_data_frame:
  assumes "tx_data l = None"
  shows "\<exists>n l'. send_test_data S now ps lim l = Some (n, l') \<and> keeps l l' \<and> tx_data l' = None \<and>
    lk_tx_polling l' = Some now"
proof -
  let ?l = "l\<lparr>lk_tx_polling := Some now, txed_first_unflushed_data :=
    (case txed_first_unflushed_data l of None \<Rightarrow> Some now | Some i \<Rightarrow> Some i), tx_idle_since := None\<rparr>"
  obtain n l' where lp: "send_test_loop S ps lim 0 ?l = (n, l')" by force
  from send_test_loop_frame [OF lp] lp assms show ?thesis
    by (auto simp: send_test_data_def check_tx_failed_def keeps_def Let_def)
qed

lemma set_unconfirmed_simps [simp]:
  "lk_unconfirmed (set_unconfirmed u l) = u"
  "lk_link_id (set_unconfirmed u l) = lk_link_id l"
  "lk_cfg (set_unconfirmed u l) = lk_cfg l"
  "lk_link_cfg (set_unconfirmed u l) = lk_link_cfg l"
  "lk_txed_packets (set_unconfirmed u l) = lk_txed_packets l"
  "txed_unacked_data (set_unconfirmed u l) = txed_unacked_data l"
  "lk_test (set_unconfirmed u l) = lk_test l"
  "lk_tx_polling (set_unconfirmed u l) = lk_tx_polling l"
  "tx_data (set_unconfirmed u l) = tx_data l"
  by (simp_all add: set_unconfirmed_def Let_def)

lemma link_reset_simps [simp]:
  "lk_unconfirmed (link_reset l) = lk_unconfirmed l"
  "lk_link_id (link_reset l) = lk_link_id l"
  "lk_cfg (link_reset l) = lk_cfg l"
  "lk_link_cfg (link_reset l) = lk_link_cfg l"
  "lk_txed_packets (link_reset l) = lk_txed_packets l"
  "txed_unacked_data (link_reset l) = txed_unacked_data l"
  "lk_test (link_reset l) = lk_test l"
  "lk_tx_polling (link_reset l) = lk_tx_polling l"
  "tx_data (link_reset l) = tx_data l"
  by (simp_all add: link_reset_def Let_def)

lemma clean_txed_packets_simps [simp]:
  "lk_unconfirmed (clean_txed_packets live st l) = lk_unconfirmed l"
  "lk_link_id (clean_txed_packets live st l) = lk_link_id l"
  "lk_cfg (clean_txed_packets live st l) = lk_cfg l"
  "lk_link_cfg (clean_txed_packets live st l) = lk_link_cfg l"
  "txed_unacked_data (clean_txed_packets live st l) = txed_unacked_data l"
  "lk_test (clean_txed_packets live st l) = lk_test l"
  "lk_tx_polling (clean_txed_packets live st l) = lk_tx_polling l"
  "tx_data (clean_txed_packets live st l) = tx_data l"
  by (simp_all add: clean_txed_packets_def)

subsection \<open>A link that has failed\<close>

text \<open>Once the transport has failed, the link reports an error at every call, and nothing else.\<close>

lemma failed_emits:
  assumes "link_emits S now l ev l'" and "tx_failed l"
  shows "(\<exists>e. ev = TxError e) \<and> tx_failed l'"
  using assms
  by (cases rule: link_emits.cases) (auto simp: event_check_def check_tx_failed_def split: option.splits)

lemma failed_never_replies:
  assumes "term_wait_reply S l l'"
  shows "\<not> tx_failed l"
  using assms by (induction rule: term_wait_reply.induct) (blast dest: failed_emits)+

lemma failed_wait_ready:
  assumes "term_wait_ready S b l r l'" and "tx_failed l"
  shows "r = b \<and> tx_failed l'"
  using assms by (induction rule: term_wait_ready.induct) (blast dest: failed_emits)+

lemma failed_send:
  assumes "send_msg_and_flush S now msg l res l'" and "tx_failed l"
  shows "tx_failed l'"
  using assms by (cases rule: send_msg_and_flush.cases) (auto simp: check_tx_failed_def)

text \<open>
  C28. Terminating a connection never comes to an end on a link whose transport has failed, if a reply
  is to be waited for: the link then reports its transmit error immediately, and the loop that waits
  for the reply asks again without limit.
\<close>

theorem failed_link_never_terminates:
  assumes "tx_failed l"
  shows "\<not> terminate_connection S now True l l'"
proof
  assume "terminate_connection S now True l l'"
  then show False
  proof (cases rule: terminate_connection.cases)
    case (1 l1 res l2)
    have "tx_failed (report_ready now l)" using assms by (simp add: report_ready_def)
    then have "tx_failed l2" using failed_wait_ready [OF 1(1)] failed_send [OF 1(2)] by blast
    then show False using failed_never_replies [OF 1(3)] by blast
  next
    case (2 l1 res)
    have "tx_failed (report_ready now l)" using assms by (simp add: report_ready_def)
    then show False using failed_wait_ready [OF 2(1)] by blast
  qed
qed

theorem failed_link_never_terminates_witness:
  "\<nexists>l'. terminate_connection \<lparr>sk_poll_ready = (\<lambda>x. (Some (Inr ()), x)), sk_start_send = (\<lambda>x d. (Inr (), x)),
     sk_poll_flush = (\<lambda>x. (Some (Inr ()), x))\<rparr> 5 True
   ((link_new (LinkId 7) 0 (ConnId 1) () default_cfg \<lparr>x_recv_buffer = 1000\<rparr> None Outgoing 5 [])
     \<lparr>tx_failed := True\<rparr>) l'"
  by (simp add: failed_link_never_terminates)

end
