(* ===== verification/Peekable.thy ===== *)
theory Peekable
  imports Agg_Prelude
begin

text \<open>
  The receiver that allows looking at the next message (\<open>aggligator/src/peekable_mpsc.rs\<close>).

  The receiver of the bounded queue it wraps belongs to \<open>tokio\<close>: it is the type variable \<open>'rx\<close> with
  its two operations in a record.  What the wrapper relies on is the predicate \<open>mpsc_law\<close>: there is
  a sequence of messages that are received in order, and receiving without waiting takes the
  message that a waiting receive would take.
\<close>

section \<open>The wrapped queue\<close>

datatype try_recv_error = TryEmpty | TryDisconnected

text \<open>
  \<open>poll_recv\<close> is one poll of the future of \<open>recv\<close>: \<open>None\<close> while it is pending, \<open>Some None\<close> when the
  channel is closed and empty.
\<close>

record ('m, 'rx) mpsc =
  mp_poll_recv :: "'rx \<Rightarrow> 'm option option \<times> 'rx"
  mp_try_recv :: "'rx \<Rightarrow> (try_recv_error + 'm) \<times> 'rx"

definition mpsc_law :: "('m, 'rx) mpsc \<Rightarrow> ('rx \<Rightarrow> 'm list) \<Rightarrow> bool" where
  "mpsc_law M queued \<longleftrightarrow>
     (\<forall>r. case mp_try_recv M r of
            (Inr m, r') \<Rightarrow> queued r = m # queued r'
          | (Inl _, r') \<Rightarrow> queued r = [] \<and> queued r' = []) \<and>
     (\<forall>r. case mp_poll_recv M r of
            (Some (Some m), r') \<Rightarrow> queued r = m # queued r'
          | (_, r') \<Rightarrow> queued r = [] \<and> queued r' = [])"

section \<open>Definitions\<close>

record ('m, 'rx) peekable_receiver =
  pr_rx :: 'rx
  peeked :: "'m option"

datatype recv_if_error = IfDisconnected | IfNoMatch

datatype try_recv_if_error = TryIfEmpty | TryIfDisconnected | TryIfNoMatch

definition peekable_new :: "'rx \<Rightarrow> ('m, 'rx) peekable_receiver" where
  "peekable_new r = \<lparr>pr_rx = r, peeked = None\<rparr>"

definition peekable_recv ::
  "('m, 'rx) mpsc \<Rightarrow> ('m, 'rx) peekable_receiver \<Rightarrow> 'm option option \<times> ('m, 'rx) peekable_receiver" where
  "peekable_recv M p =
     (case peeked p of
        Some m \<Rightarrow> (Some (Some m), p\<lparr>peeked := None\<rparr>)
      | None \<Rightarrow> (case mp_poll_recv M (pr_rx p) of (res, r) \<Rightarrow> (res, p\<lparr>pr_rx := r, peeked := None\<rparr>)))"

definition try_recv ::
  "('m, 'rx) mpsc \<Rightarrow> ('m, 'rx) peekable_receiver \<Rightarrow> (try_recv_error + 'm) \<times> ('m, 'rx) peekable_receiver" where
  "try_recv M p =
     (case peeked p of
        Some m \<Rightarrow> (Inr m, p\<lparr>peeked := None\<rparr>)
      | None \<Rightarrow> (case mp_try_recv M (pr_rx p) of (res, r) \<Rightarrow> (res, p\<lparr>pr_rx := r, peeked := None\<rparr>)))"

definition peek ::
  "('m, 'rx) mpsc \<Rightarrow> ('m, 'rx) peekable_receiver \<Rightarrow> 'm option option \<times> ('m, 'rx) peekable_receiver" where
  "peek M p =
     (case peeked p of
        Some m \<Rightarrow> (Some (Some m), p)
      | None \<Rightarrow>
          (case mp_poll_recv M (pr_rx p) of
             (None, r) \<Rightarrow> (None, p\<lparr>pr_rx := r\<rparr>)
           | (Some m, r) \<Rightarrow> (Some m, p\<lparr>pr_rx := r, peeked := m\<rparr>)))"

definition try_peek ::
  "('m, 'rx) mpsc \<Rightarrow> ('m, 'rx) peekable_receiver \<Rightarrow> (try_recv_error + 'm) \<times> ('m, 'rx) peekable_receiver" where
  "try_peek M p =
     (case peeked p of
        Some m \<Rightarrow> (Inr m, p)
      | None \<Rightarrow>
          (case mp_try_recv M (pr_rx p) of
             (Inl e, r) \<Rightarrow> (Inl e, p\<lparr>pr_rx := r\<rparr>)
           | (Inr m, r) \<Rightarrow> (Inr m, p\<lparr>pr_rx := r, peeked := Some m\<rparr>)))"

text \<open>One poll of \<open>recv_if\<close>; \<open>None\<close> while it is pending.  The inner \<open>unwrap\<close> is a panic.\<close>

definition recv_if ::
  "('m, 'rx) mpsc \<Rightarrow> ('m \<Rightarrow> bool) \<Rightarrow> ('m, 'rx) peekable_receiver \<Rightarrow>
   ((recv_if_error + 'm) option \<times> ('m, 'rx) peekable_receiver) option" where
  "recv_if M cond p =
     (case peek M p of
        (None, p) \<Rightarrow> Some (None, p)
      | (Some (Some m), p) \<Rightarrow>
          if cond m then
            (case try_recv M p of
               (Inr m, p) \<Rightarrow> Some (Some (Inr m), p)
             | (Inl _, _) \<Rightarrow> None)
          else Some (Some (Inl IfNoMatch), p)
      | (Some None, p) \<Rightarrow> Some (Some (Inl IfDisconnected), p))"

fun try_if_of_try :: "try_recv_error \<Rightarrow> try_recv_if_error" where
  "try_if_of_try TryEmpty = TryIfEmpty"
| "try_if_of_try TryDisconnected = TryIfDisconnected"

definition try_recv_if ::
  "('m, 'rx) mpsc \<Rightarrow> ('m \<Rightarrow> bool) \<Rightarrow> ('m, 'rx) peekable_receiver \<Rightarrow>
   ((try_recv_if_error + 'm) \<times> ('m, 'rx) peekable_receiver) option" where
  "try_recv_if M cond p =
     (case try_peek M p of
        (Inl e, p) \<Rightarrow> Some (Inl (try_if_of_try e), p)
      | (Inr m, p) \<Rightarrow>
          if cond m then
            (case try_recv M p of
               (Inr m, p) \<Rightarrow> Some (Inr m, p)
             | (Inl _, _) \<Rightarrow> None)
          else Some (Inl TryIfNoMatch, p))"

text \<open>The messages a peekable receiver will still deliver.\<close>

definition pending :: "('rx \<Rightarrow> 'm list) \<Rightarrow> ('m, 'rx) peekable_receiver \<Rightarrow> 'm list" where
  "pending queued p = (case peeked p of Some m \<Rightarrow> m # queued (pr_rx p) | None \<Rightarrow> queued (pr_rx p))"

text \<open>A queue as a list, to evaluate the definitions on.\<close>

definition list_mpsc :: "('m, 'm list) mpsc" where
  "list_mpsc =
     \<lparr>mp_poll_recv = (\<lambda>q. case q of [] \<Rightarrow> (None, []) | m # q \<Rightarrow> (Some (Some m), q)),
      mp_try_recv = (\<lambda>q. case q of [] \<Rightarrow> (Inl TryEmpty, []) | m # q \<Rightarrow> (Inr m, q))\<rparr>"

section \<open>Lemmas\<close>

lemma mpsc_law_try:
  "mpsc_law M queued \<Longrightarrow> mp_try_recv M r = (Inr m, r') \<Longrightarrow> queued r = m # queued r'"
  "mpsc_law M queued \<Longrightarrow> mp_try_recv M r = (Inl e, r') \<Longrightarrow> queued r = [] \<and> queued r' = []"
  unfolding mpsc_law_def by (metis (mono_tags, lifting) case_prod_conv sum.case)+

lemma mpsc_law_poll:
  "mpsc_law M queued \<Longrightarrow> mp_poll_recv M r = (Some (Some m), r') \<Longrightarrow> queued r = m # queued r'"
  "mpsc_law M queued \<Longrightarrow> mp_poll_recv M r = (Some None, r') \<Longrightarrow> queued r = [] \<and> queued r' = []"
  "mpsc_law M queued \<Longrightarrow> mp_poll_recv M r = (None, r') \<Longrightarrow> queued r = [] \<and> queued r' = []"
  unfolding mpsc_law_def by (metis (mono_tags, lifting) case_prod_conv option.case)+

lemma list_mpsc_law: "mpsc_law list_mpsc id"
  by (auto simp: mpsc_law_def list_mpsc_def split: list.split)

lemma try_peek_keeps:
  assumes "mpsc_law M queued" and "try_peek M p = (res, p')"
  shows "pending queued p' = pending queued p"
    and "res = Inr m \<Longrightarrow> peeked p' = Some m \<and> pending queued p \<noteq> [] \<and> hd (pending queued p) = m"
    and "res = Inl e \<Longrightarrow> pending queued p = []"
  using assms mpsc_law_try [OF assms(1), of "pr_rx p"]
  by (auto simp: try_peek_def pending_def split: option.splits prod.splits sum.splits)

lemma peek_keeps:
  assumes "mpsc_law M queued" and "peek M p = (res, p')"
  shows "pending queued p' = pending queued p"
    and "res = Some (Some m) \<Longrightarrow> peeked p' = Some m \<and> pending queued p \<noteq> [] \<and> hd (pending queued p) = m"
    and "res = Some None \<Longrightarrow> pending queued p = []"
  using assms mpsc_law_poll [OF assms(1), of "pr_rx p"]
  by (auto simp: peek_def pending_def split: option.splits prod.splits)

lemma try_recv_takes:
  assumes "mpsc_law M queued" and "try_recv M p = (Inr m, p')"
  shows "pending queued p = m # pending queued p'"
  using assms mpsc_law_try [OF assms(1), of "pr_rx p"]
  by (auto simp: try_recv_def pending_def split: option.splits prod.splits)

lemma peeked_try_recv: "peeked p = Some m \<Longrightarrow> try_recv M p = (Inr m, p\<lparr>peeked := None\<rparr>)"
  by (simp add: try_recv_def)

lemma try_peek_peeked: "try_peek M p = (Inr m, p') \<Longrightarrow> peeked p' = Some m"
  by (auto simp: try_peek_def split: option.splits prod.splits sum.splits)

lemma peek_peeked: "peek M p = (Some (Some m), p') \<Longrightarrow> peeked p' = Some m"
  by (auto simp: peek_def split: option.splits prod.splits)

text \<open>The two \<open>unwrap\<close>s cannot fail, whatever the wrapped queue does.\<close>

lemma try_recv_if_total: "\<exists>r. try_recv_if M cond p = Some r"
  by (cases "try_peek M p")
    (auto simp: try_recv_if_def try_peek_peeked peeked_try_recv split: sum.split)

lemma recv_if_total: "\<exists>r. recv_if M cond p = Some r"
proof (cases "peek M p")
  case (Pair res p')
  then show ?thesis
    by (cases res; cases "the res") (auto simp: recv_if_def peek_peeked peeked_try_recv)
qed

lemma recv_if_cond:
  assumes "recv_if M cond p = Some (Some (Inr m), p')"
  shows "cond m"
  using assms peek_peeked [of M p] peeked_try_recv
  by (fastforce simp: recv_if_def split: prod.splits option.splits sum.splits if_splits)

section \<open>Properties\<close>

text \<open>
  The conditional receive of the send requests never panics and delivers the messages of
  the wrapped queue in order: it takes exactly the next message when that satisfies the
  condition; otherwise it reports why not and keeps every message for the next call.
\<close>

theorem try_recv_if_in_order:
  assumes "mpsc_law M queued"
  shows "\<exists>res p'. try_recv_if M cond p = Some (res, p') \<and>
    (case res of
       Inr m \<Rightarrow> cond m \<and> pending queued p = m # pending queued p'
     | Inl TryIfNoMatch \<Rightarrow> pending queued p' = pending queued p \<and> pending queued p \<noteq> [] \<and>
         \<not> cond (hd (pending queued p))
     | Inl _ \<Rightarrow> pending queued p = [] \<and> pending queued p' = [])"
proof -
  obtain res p1 where pk: "try_peek M p = (res, p1)" by force
  note keep = try_peek_keeps [OF assms pk]
  show ?thesis
  proof (cases res)
    case (Inl e)
    then show ?thesis using keep by (cases e) (simp_all add: try_recv_if_def pk)
  next
    case (Inr m)
    show ?thesis
    proof (cases "cond m")
      case True
      then show ?thesis
        using keep Inr pk by (auto simp: try_recv_if_def peeked_try_recv pending_def)
    next
      case False
      then show ?thesis using keep(1) keep(2) [OF Inr] Inr pk by (simp add: try_recv_if_def)
    qed
  qed
qed

theorem try_recv_if_in_order_witness:
  "try_recv_if list_mpsc (\<lambda>n. n < (5::nat)) (peekable_new [3, 9]) =
     Some (Inr 3, \<lparr>pr_rx = [9], peeked = None\<rparr>) \<and>
   (\<exists>res p'. try_recv_if list_mpsc (\<lambda>n. n < (5::nat)) (peekable_new [3, 9]) = Some (res, p') \<and>
    (case res of
       Inr m \<Rightarrow> m < 5 \<and> pending id (peekable_new [3, 9]) = m # pending id p'
     | Inl TryIfNoMatch \<Rightarrow> pending id p' = pending id (peekable_new [3, 9]) \<and>
         pending id (peekable_new [3, 9]) \<noteq> [] \<and> \<not> hd (pending id (peekable_new [3, 9])) < 5
     | Inl _ \<Rightarrow> pending id (peekable_new [3, 9 :: nat]) = [] \<and> pending id p' = []))"
  using try_recv_if_in_order [OF list_mpsc_law, of "\<lambda>n. n < (5::nat)" "peekable_new [3, 9]"]
  by (simp add: try_recv_if_def try_peek_def try_recv_def list_mpsc_def peekable_new_def)

end
