(* ===== verification/Task_State.thy ===== *)
theory Task_State
  imports Link_Int Peekable
begin

text \<open>
  The state of the link aggregator task (\<open>struct Task\<close> of \<open>aggligator/src/agg/task.rs\<close>), its
  construction and the queries that do not change it.

  Channels of \<open>tokio\<close> that the task only sends on appear as the values sent: \<open>delivered\<close> are the
  messages handed to the receiver of the user, \<open>flush_done\<close> the flush requests that were
  answered, \<open>disconnected\<close> the reasons reported for removed links, \<open>published\<close> the links last
  published.  A one-shot sender inside a flush request is the number of the request.  An optional
  channel end that is only tested for presence is a flag.  The packets in flight live in
  \<open>t_store\<close>; \<open>t_txed_packets\<close> and \<open>resend_queue\<close> hold their positions in it.
\<close>

section \<open>Data\<close>

definition RELIABLE_ROUNDTRIP_ESTIMATES :: usize where
  "RELIABLE_ROUNDTRIP_ESTIMATES = 10"

datatype send_req = SendData bytes | FlushReq nat

datatype send_overrun = Armed | Soft | Hard

record received_msg =
  rm_seq :: seq
  rm_msg :: reliable_msg

datatype send_terminate = NoTerminate | Initiate | Reply

type_synonym 'wr write_ops = "(send_req, 'wr) mpsc"

record ('tx, 'wr) task =
  t_cfg :: cfg
  t_remote_cfg :: "exchanged_cfg option"
  t_conn_id :: conn_id
  t_direction :: direction
  t_links :: "'tx link_int option list"
  link_rx :: bool
  published :: "link_id list"
  links_not_working :: "instant option"
  connected_tx :: bool
  connected :: "exchanged_cfg option"
  read_tx :: bool
  read_closed_rx :: bool
  receive_close_sent :: bool
  receive_finish_sent :: bool
  write_rx :: "(send_req, 'wr) peekable_receiver option"
  write_closed :: bool
  send_finish_sent :: bool
  read_error :: "recv_error option"
  write_error :: send_error
  tx_seq :: seq
  tx_overrun :: send_overrun
  tx_overrun_since :: "instant option"
  t_txed_packets :: "pid list"
  t_txed_unacked :: usize
  txed_unconsumed :: usize
  txed_unconsumable :: usize
  txed_last_consumed :: seq
  resend_queue :: "pid list"
  idle_links :: "nat list"
  rx_seq :: seq
  rxed_reliable :: "received_msg option list"
  rxed_reliable_consumable :: "received_msg list"
  rxed_reliable_size :: usize
  consumed_since_last_ack :: usize
  unflushed_links :: "nat set"
  flushed_tx :: "nat option"
  start_time :: instant
  read_write_closed :: "instant option"
  established :: "instant option"
  t_stats :: "stats option"
  stats_last_sent :: instant
  init_links :: "'tx link_int list"
  refused_links :: "'tx link_int list"
  task_result :: "(task_error + unit)"
  t_store :: store
  delivered :: "bytes list"
  flush_done :: "nat list"
  disconnected :: "(link_id \<times> disconnect_reason) list"

text \<open>
  The two error cells and the result are created by the connection with the values a task leaves
  behind that is dropped before it ends.
\<close>

definition task_new ::
  "instant \<Rightarrow> cfg \<Rightarrow> exchanged_cfg option \<Rightarrow> conn_id \<Rightarrow> direction \<Rightarrow> 'wr \<Rightarrow> 'tx link_int list \<Rightarrow>
   ('tx, 'wr) task" where
  "task_new now c rc cid dir wr ls = \<lparr>
     t_cfg = c,
     t_remote_cfg = rc,
     t_conn_id = cid,
     t_direction = dir,
     t_links = [],
     link_rx = True,
     published = map lk_link_id ls,
     links_not_working = None,
     connected_tx = True,
     connected = None,
     read_tx = True,
     read_closed_rx = True,
     receive_close_sent = False,
     receive_finish_sent = False,
     write_rx = Some (peekable_new wr),
     write_closed = False,
     send_finish_sent = False,
     read_error = Some RTaskTerminated,
     write_error = STaskTerminated,
     tx_seq = ZERO,
     tx_overrun = Armed,
     tx_overrun_since = None,
     t_txed_packets = [],
     t_txed_unacked = 0,
     txed_unconsumed = 0,
     txed_unconsumable = 0,
     txed_last_consumed = MINUS_ONE,
     resend_queue = [],
     idle_links = [],
     rx_seq = ZERO,
     rxed_reliable = [],
     rxed_reliable_consumable = [],
     rxed_reliable_size = 0,
     consumed_since_last_ack = 0,
     unflushed_links = {},
     flushed_tx = None,
     start_time = now,
     read_write_closed = None,
     established = None,
     t_stats = None,
     stats_last_sent = now,
     init_links = ls,
     refused_links = [],
     task_result = Inl TTerminated,
     t_store = [],
     delivered = [],
     flush_done = [],
     disconnected = []\<rparr>"

section \<open>Links of the task\<close>

text \<open>
  \<open>self.links[id].as_ref().unwrap()\<close>: an index out of range and an empty slot are panics.
\<close>

definition get_link :: "('tx, 'wr) task \<Rightarrow> nat \<Rightarrow> 'tx link_int option" where
  "get_link t i = Option.bind (nth_opt (t_links t) i) (\<lambda>l. l)"

definition put_link :: "nat \<Rightarrow> 'tx link_int \<Rightarrow> ('tx, 'wr) task \<Rightarrow> ('tx, 'wr) task" where
  "put_link i l t = t\<lparr>t_links := (t_links t)[i := Some l]\<rparr>"

text \<open>\<open>self.idle_links.retain(|&idle_id| idle_id != id)\<close>\<close>

definition idle_remove :: "nat \<Rightarrow> ('tx, 'wr) task \<Rightarrow> ('tx, 'wr) task" where
  "idle_remove i t = t\<lparr>idle_links := filter (\<lambda>j. j \<noteq> i) (idle_links t)\<rparr>"

text \<open>A weak reference to a packet can be upgraded while the task holds the packet.\<close>

definition task_live :: "('tx, 'wr) task \<Rightarrow> pid \<Rightarrow> bool" where
  "task_live t p \<longleftrightarrow> p \<in> set (t_txed_packets t) \<or> p \<in> set (resend_queue t)"

definition links_available :: "('tx, 'wr) task \<Rightarrow> bool" where
  "links_available t \<longleftrightarrow> list_ex (\<lambda>lo. lo \<noteq> None) (t_links t)"

definition publish_links :: "('tx, 'wr) task \<Rightarrow> ('tx, 'wr) task" where
  "publish_links t =
     t\<lparr>published := map lk_link_id (map the (filter (\<lambda>lo. lo \<noteq> None) (t_links t)))\<rparr>"

definition link_working :: "'tx link_int \<Rightarrow> bool" where
  "link_working l \<longleftrightarrow> lk_unconfirmed l = None"

definition links_not_working_since ::
  "instant \<Rightarrow> ('tx, 'wr) task \<Rightarrow> instant option \<times> ('tx, 'wr) task" where
  "links_not_working_since now t =
     (let working = list_ex (\<lambda>lo. case lo of Some l \<Rightarrow> link_working l | None \<Rightarrow> False) (t_links t);
          t = (case (working, links_not_working t) of
                 (True, Some _) \<Rightarrow> t\<lparr>links_not_working := None\<rparr>
               | (False, None) \<Rightarrow> t\<lparr>links_not_working := Some now\<rparr>
               | _ \<Rightarrow> t)
      in (links_not_working t, t))"

section \<open>Space, sequence numbers and acknowledgements\<close>

definition remote_recv_buffer :: "('tx, 'wr) task \<Rightarrow> usize option" where
  "remote_recv_buffer t = map_option (\<lambda>c. unat (x_recv_buffer c)) (t_remote_cfg t)"

definition tx_space :: "('tx, 'wr) task \<Rightarrow> usize" where
  "tx_space t =
     (let tx_local_space = unat (send_buffer (t_cfg t)) - t_txed_unacked t;
          tx_remote_space = (case remote_recv_buffer t of Some b \<Rightarrow> b | None \<Rightarrow> 0) - txed_unconsumed t
      in min tx_local_space tx_remote_space)"

definition tx_seq_avail :: "('tx, 'wr) task \<Rightarrow> bool" where
  "tx_seq_avail t =
     (case t_txed_packets t of
        [] \<Rightarrow> True
      | p # _ \<Rightarrow> seq_sub (tx_seq t) (sr_seq (t_store t ! p)) \<le> USABLE_INTERVAL)"

definition is_consume_ack_required :: "('tx, 'wr) task \<Rightarrow> bool" where
  "is_consume_ack_required t =
     (let threshold = (if read_tx t then unat (recv_buffer (t_cfg t)) div 10 else 0)
      in consumed_since_last_ack t > threshold)"

definition next_tx_seq :: "('tx, 'wr) task \<Rightarrow> seq \<times> ('tx, 'wr) task" where
  "next_tx_seq t = (tx_seq t, t\<lparr>tx_seq := seq_add_u32 (tx_seq t) 1\<rparr>)"

section \<open>Statistics\<close>

text \<open>\<open>iter().min()\<close> of a list of durations.\<close>

definition list_min :: "nat list \<Rightarrow> nat option" where
  "list_min xs = (case xs of [] \<Rightarrow> None | _ \<Rightarrow> Some (Min (set xs)))"

definition send_stats :: "instant \<Rightarrow> ('tx, 'wr) task \<Rightarrow> ('tx, 'wr) task" where
  "send_stats now t =
     (case list_min (stats_intervals (t_cfg t)) of
        None \<Rightarrow> t
      | Some interval \<Rightarrow>
          if elapsed now (stats_last_sent t) \<ge> interval then
            t\<lparr>stats_last_sent := now,
              t_stats := Some \<lparr>st_established = established t,
                st_not_working_since = links_not_working t,
                st_send_space = tx_space t,
                st_sent_unacked = t_txed_unacked t,
                st_sent_unconsumed = txed_unconsumed t,
                st_sent_unconsumed_count = length (t_txed_packets t),
                st_sent_unconsumable = txed_unconsumable t,
                st_resend_queue_len = length (resend_queue t),
                st_recved_unconsumed = rxed_reliable_size t,
                st_recved_unconsumed_count = length (rxed_reliable t)\<rparr>\<rparr>
          else t)"

section \<open>Lemmas\<close>

definition links_at :: "'tx link_int option list \<Rightarrow> nat \<Rightarrow> 'tx link_int option" where
  "links_at ls i = Option.bind (nth_opt ls i) (\<lambda>l. l)"

lemma get_link_at: "get_link t i = links_at (t_links t) i"
  by (simp add: get_link_def links_at_def)

lemma links_at_Some: "links_at ls i = Some l \<longleftrightarrow> i < length ls \<and> ls ! i = Some l"
  by (auto simp: links_at_def bind_Some_iff)

lemma links_at_update [simp]:
  "links_at (ls[i := Some l]) j = (if j = i \<and> i < length ls then Some l else links_at ls j)"
  by (auto simp: links_at_def nth_opt_def nth_list_update)

lemma links_at_None [simp]: "links_at (ls[i := None]) j = (if j = i then None else links_at ls j)"
  by (auto simp: links_at_def nth_opt_def nth_list_update)

lemma links_at_map [simp]: "links_at (map (map_option f) ls) i = map_option f (links_at ls i)"
  by (auto simp: links_at_def nth_opt_def)

lemma links_at_snoc: "links_at (ls @ [x]) i = (if i = length ls then x else links_at ls i)"
  by (auto simp: links_at_def nth_opt_def nth_append)

lemma get_link_Some: "get_link t i = Some l \<longleftrightarrow> i < length (t_links t) \<and> t_links t ! i = Some l"
  by (simp add: get_link_at links_at_Some)

lemma get_put_link [simp]:
  "get_link t i = Some l0 \<Longrightarrow> get_link (put_link i l t) j = (if j = i then Some l else get_link t j)"
  by (auto simp: get_link_at links_at_Some put_link_def)

lemma get_link_idle [simp]: "get_link (idle_remove i t) j = get_link t j"
  by (simp add: get_link_at idle_remove_def)

end
