(* ===== verification/Task_Tx.thy ===== *)
theory Task_Tx
  imports Task_State
begin

text \<open>
  The transmit side of the link aggregator task (\<open>aggligator/src/agg/task.rs\<close>): sending a
  sequenced message over a link, putting the packets of a failing link into the resend queue,
  resending, processing acknowledgements, and adding and removing links.
\<close>

section \<open>Sending\<close>

definition flush_link :: "instant \<Rightarrow> nat \<Rightarrow> ('tx, 'wr) task \<Rightarrow> ('tx, 'wr) task option" where
  "flush_link now i t = do {
     l \<leftarrow> get_link t i;
     let (l, st) = start_flush now (task_live t) (t_store t) l;
     Some (idle_remove i (put_link i l (t\<lparr>t_store := st\<rparr>)))
   }"

definition send_reliable_over_link ::
  "'tx sink \<Rightarrow> instant \<Rightarrow> nat \<Rightarrow> reliable_msg \<Rightarrow> ('tx, 'wr) task \<Rightarrow> (seq \<times> ('tx, 'wr) task) option" where
  "send_reliable_over_link S now i m t = do {
     let (s, t) = next_tx_seq t;
     l \<leftarrow> get_link t i;
     let (msg, d) = to_link_msg m s;
     (l, st) \<leftarrow> start_send_msg S now (task_live t) msg d (l, t_store t);
     let (t, l) = (case m of
         Data d \<Rightarrow>
           (t\<lparr>t_txed_unacked := t_txed_unacked t + length d,
              txed_unconsumed := txed_unconsumed t + length d\<rparr>,
            l\<lparr>txed_unacked_data := txed_unacked_data l + length d\<rparr>)
       | _ \<Rightarrow> (t, l));
     let packet = \<lparr>sr_seq = s, sr_status = Sent now None i (lk_link_id l) m False\<rparr>;
     let p = length st;
     let l = l\<lparr>lk_txed_packets := lk_txed_packets l @ [p]\<rparr>;
     let t = t\<lparr>t_store := st @ [packet], t_txed_packets := t_txed_packets t @ [p]\<rparr>;
     Some (s, put_link i l t)
   }"

text \<open>
  The packet has been taken from the resend queue by the caller.  During the call the source
  holds a mutable borrow of its status; that no flush of the link meets the packet meanwhile is
  shown with the invariant of the ledger below.
\<close>

definition resend_reliable_over_link ::
  "'tx sink \<Rightarrow> instant \<Rightarrow> nat \<Rightarrow> pid \<Rightarrow> ('tx, 'wr) task \<Rightarrow> ('tx, 'wr) task option" where
  "resend_reliable_over_link S now i p t = do {
     l \<leftarrow> get_link t i;
     packet \<leftarrow> nth_opt (t_store t) p;
     (case sr_status packet of
        ResendQueued m sent_link \<Rightarrow> do {
          assert_that (lk_link_id l \<noteq> sent_link);
          let (msg, d) = to_link_msg m (sr_seq packet);
          (l, st) \<leftarrow> start_send_msg S now (task_live t) msg d (l, t_store t);
          let l = (case m of
              Data d \<Rightarrow> l\<lparr>txed_unacked_data := txed_unacked_data l + length d\<rparr>
            | _ \<Rightarrow> l);
          let l = (case limit_increased l of
              Some last_increased \<Rightarrow>
                if sr_seq packet < last_increased then l\<lparr>limit_increased := Some (sr_seq packet)\<rparr> else l
            | None \<Rightarrow> l);
          let st = st[p := (st ! p)\<lparr>sr_status := Sent now None i (lk_link_id l) m True\<rparr>];
          let l = l\<lparr>lk_txed_packets := lk_txed_packets l @ [p]\<rparr>;
          Some (put_link i l (t\<lparr>t_store := st\<rparr>))
        }
      | _ \<Rightarrow> None)
   }"

section \<open>Unconfirming a link\<close>

text \<open>
  The loop over the packets in flight: those sent over link \<open>i\<close> are queued for resending and no
  longer counted as unacknowledged data \<open>ud\<close> of the link.
\<close>

fun queue_for_resend ::
  "nat \<Rightarrow> pid list \<Rightarrow> store \<times> pid list \<times> usize \<Rightarrow> (store \<times> pid list \<times> usize) option" where
  "queue_for_resend i [] s = Some s"
| "queue_for_resend i (p # ps) (st, rq, ud) = do {
     packet \<leftarrow> nth_opt st p;
     (case sr_status packet of
        Sent _ _ j sent_link m _ \<Rightarrow>
          if j = i then do {
            ud \<leftarrow> (case m of Data d \<Rightarrow> checked_sub ud (length d) | _ \<Rightarrow> Some ud);
            queue_for_resend i ps
              (st[p := packet\<lparr>sr_status := ResendQueued m sent_link\<rparr>], rq @ [p], ud)
          }
          else queue_for_resend i ps (st, rq, ud)
      | _ \<Rightarrow> queue_for_resend i ps (st, rq, ud))
   }"

text \<open>\<open>sort_by_key\<close> with the order of sequence numbers, as a stable insertion sort.\<close>

fun insort_seq :: "store \<Rightarrow> pid \<Rightarrow> pid list \<Rightarrow> pid list" where
  "insort_seq st p [] = [p]"
| "insort_seq st p (q # qs) =
     (if sr_seq (st ! p) \<le> sr_seq (st ! q) then p # q # qs else q # insort_seq st p qs)"

fun sort_by_seq :: "store \<Rightarrow> pid list \<Rightarrow> pid list" where
  "sort_by_seq st [] = []"
| "sort_by_seq st (p # ps) = insort_seq st p (sort_by_seq st ps)"

definition retest_failed :: "'tx link_int \<Rightarrow> 'tx link_int" where
  "retest_failed l = (case lk_test l of Failed _ \<Rightarrow> l\<lparr>lk_test := Inactive\<rparr> | _ \<Rightarrow> l)"

definition unconfirm_link ::
  "instant \<Rightarrow> nat \<Rightarrow> not_working_reason \<Rightarrow> ('tx, 'wr) task \<Rightarrow> ('tx, 'wr) task option" where
  "unconfirm_link now i reason t = do {
     t \<leftarrow> flush_link now i t;
     l \<leftarrow> get_link t i;
     let l = set_unconfirmed (Some (now, reason)) l;
     let t = idle_remove i t;
     let t = t\<lparr>unflushed_links := unflushed_links t - {i}\<rparr>;
     let l = link_reset l;
     (st, rq, ud) \<leftarrow>
       queue_for_resend i (t_txed_packets t) (t_store t, resend_queue t, txed_unacked_data l);
     let t = t\<lparr>t_store := st, resend_queue := rq\<rparr>;
     let l = clean_txed_packets (task_live t) st (l\<lparr>txed_unacked_data := ud\<rparr>);
     let t = put_link i l (t\<lparr>resend_queue := sort_by_seq st rq\<rparr>);
     Some (t\<lparr>t_links := map (map_option retest_failed) (t_links t)\<rparr>)
   }"

section \<open>Adding and removing links\<close>

text \<open>The first free slot of the vector of links, or one past its end.\<close>

fun first_free :: "'a option list \<Rightarrow> nat" where
  "first_free [] = 0"
| "first_free (None # _) = 0"
| "first_free (Some _ # ls) = Suc (first_free ls)"

definition add_link :: "instant \<Rightarrow> 'tx link_int \<Rightarrow> ('tx, 'wr) task \<Rightarrow> nat \<times> ('tx, 'wr) task" where
  "add_link now l t =
     (let l = report_ready now l;
          l = (if test_data_limit (lcfg l) > 0 then set_unconfirmed (Some (now, New)) l
               else l\<lparr>last_ping := Some now\<rparr>);
          i = first_free (t_links t);
          t = t\<lparr>t_links := (if i < length (t_links t) then (t_links t)[i := Some l]
                            else t_links t @ [Some l])\<rparr>
      in (i, publish_links t))"

fun drop_trailing_none :: "'a option list \<Rightarrow> 'a option list" where
  "drop_trailing_none [] = []"
| "drop_trailing_none (x # xs) =
     (case (x, drop_trailing_none xs) of (None, []) \<Rightarrow> [] | (x, ys) \<Rightarrow> x # ys)"

definition notify_disconnected ::
  "'tx link_int \<Rightarrow> disconnect_reason \<Rightarrow> ('tx, 'wr) task \<Rightarrow> ('tx, 'wr) task" where
  "notify_disconnected l reason t = t\<lparr>disconnected := disconnected t @ [(lk_link_id l, reason)]\<rparr>"

definition remove_link ::
  "instant \<Rightarrow> nat \<Rightarrow> disconnect_reason \<Rightarrow> ('tx, 'wr) task \<Rightarrow> ('tx, 'wr) task option" where
  "remove_link now i reason t = do {
     t \<leftarrow> unconfirm_link now i Disconnecting t;
     l \<leftarrow> get_link t i;
     let t = notify_disconnected l reason (t\<lparr>t_links := (t_links t)[i := None]\<rparr>);
     Some (publish_links (t\<lparr>t_links := drop_trailing_none (t_links t)\<rparr>))
   }"

section \<open>Acknowledgements\<close>

text \<open>The roundtrip estimate after an acknowledgement that took the time \<open>el\<close>.\<close>

definition update_roundtrip :: "duration \<Rightarrow> 'tx link_int \<Rightarrow> 'tx link_int" where
  "update_roundtrip el l =
     (let l = l\<lparr>roundtrip :=
            (if roundtrip_estimates l = Some 0 then el
             else if el > roundtrip l then (roundtrip l + 3 * el) div 4
             else (99 * roundtrip l + el) div 100)\<rparr>
      in l\<lparr>roundtrip_estimates := map_option Suc (roundtrip_estimates l)\<rparr>)"

definition unblock_increase :: "seq \<Rightarrow> 'tx link_int \<Rightarrow> 'tx link_int" where
  "unblock_increase rxed_seq l =
     (case limit_increased l of
        Some last_increased \<Rightarrow>
          if last_increased \<le> rxed_seq then l\<lparr>limit_increased := None\<rparr>
          else l\<lparr>roundtrip_estimates := Some 0\<rparr>
      | None \<Rightarrow> l)"

text \<open>Marking the acknowledged packet as received.\<close>

definition ack_packet ::
  "instant \<Rightarrow> nat \<Rightarrow> seq \<Rightarrow> ('tx, 'wr) task \<Rightarrow> ('tx, 'wr) task option" where
  "ack_packet now i rxed_seq t =
     (let back_idx = seq_sub (tx_seq t) rxed_seq in
      if 0 < back_idx \<and> nat back_idx \<le> length (t_txed_packets t) then do {
        let idx = length (t_txed_packets t) - nat back_idx;
        p \<leftarrow> nth_opt (t_txed_packets t) idx;
        packet \<leftarrow> nth_opt (t_store t) p;
        assert_that (sr_seq packet = rxed_seq);
        (case sr_status packet of
           Sent sent _ j _ m _ \<Rightarrow>
             if j = i then do {
               let sz = (case m of Data d \<Rightarrow> length d | _ \<Rightarrow> 0);
               l \<leftarrow> get_link t i;
               ud \<leftarrow> checked_sub (txed_unacked_data l) sz;
               un \<leftarrow> checked_sub (t_txed_unacked t) sz;
               let l = update_roundtrip (elapsed now sent) (l\<lparr>txed_unacked_data := ud\<rparr>);
               Some (put_link i l
                 (t\<lparr>t_txed_unacked := un,
                    txed_unconsumable := txed_unconsumable t + sz,
                    t_store := (t_store t)[p := packet\<lparr>sr_status := Received sz\<rparr>]\<rparr>))
             }
             else Some t
         | ResendQueued m _ \<Rightarrow> do {
             let sz = (case m of Data d \<Rightarrow> length d | _ \<Rightarrow> 0);
             un \<leftarrow> checked_sub (t_txed_unacked t) sz;
             Some (t\<lparr>t_txed_unacked := un,
                     txed_unconsumable := txed_unconsumable t + sz,
                     resend_queue :=
                       filter (\<lambda>q. sr_seq (t_store t ! q) \<noteq> rxed_seq) (resend_queue t),
                     t_store := (t_store t)[p := packet\<lparr>sr_status := Received sz\<rparr>]\<rparr>)
           }
         | Received _ \<Rightarrow> Some t)
      }
      else Some t)"

text \<open>Removing received packets from the front of the queue.\<close>

fun swipe :: "store \<Rightarrow> pid list \<Rightarrow> seq \<times> usize \<Rightarrow> (pid list \<times> seq \<times> usize) option" where
  "swipe st [] (lc, un) = Some ([], lc, un)"
| "swipe st (p # ps) (lc, un) = do {
     packet \<leftarrow> nth_opt st p;
     (case sr_status packet of
        Received sz \<Rightarrow> do {
          un \<leftarrow> checked_sub un sz;
          swipe st ps (sr_seq packet, un)
        }
      | _ \<Rightarrow> Some (p # ps, sr_seq packet, un))
   }"

definition swipe_front :: "('tx, 'wr) task \<Rightarrow> ('tx, 'wr) task option" where
  "swipe_front t = do {
     (ps, lc, un) \<leftarrow> swipe (t_store t) (t_txed_packets t) (txed_last_consumed t, txed_unconsumable t);
     Some (t\<lparr>t_txed_packets := ps, txed_last_consumed := lc, txed_unconsumable := un\<rparr>)
   }"

definition handle_ack :: "instant \<Rightarrow> nat \<Rightarrow> seq \<Rightarrow> ('tx, 'wr) task \<Rightarrow> ('tx, 'wr) task option" where
  "handle_ack now i rxed_seq t = do {
     l \<leftarrow> get_link t i;
     let t = put_link i (unblock_increase rxed_seq l) t;
     t \<leftarrow> ack_packet now i rxed_seq t;
     t \<leftarrow> swipe_front t;
     l \<leftarrow> get_link t i;
     Some (put_link i (clean_txed_packets (task_live t) (t_store t) l) t)
   }"

end
