(* ===== verification/Task_Limits.thy ===== *)
theory Task_Limits
  imports Task_Tx
begin

text \<open>
  Limits and timeouts of the links as the task keeps them (\<open>aggligator/src/agg/task.rs\<close>): the ping
  spread, unconfirming links that are too slow, the limits of unacknowledged data, the deadlines
  the main loop waits for, and the test of a link before it is used (again).
\<close>

section \<open>Helpers\<close>

text \<open>\<open>min_by_key\<close> returns the first element with the least key, \<open>max_by_key\<close> the last with the greatest.\<close>

fun min_by_key :: "('a \<Rightarrow> nat) \<Rightarrow> 'a list \<Rightarrow> 'a option" where
  "min_by_key f [] = None"
| "min_by_key f (x # xs) =
     (case min_by_key f xs of None \<Rightarrow> Some x | Some y \<Rightarrow> if f x \<le> f y then Some x else Some y)"

fun max_by_key :: "('a \<Rightarrow> nat) \<Rightarrow> 'a list \<Rightarrow> 'a option" where
  "max_by_key f [] = None"
| "max_by_key f (x # xs) =
     (case max_by_key f xs of None \<Rightarrow> Some x | Some y \<Rightarrow> if f x > f y then Some x else Some y)"

text \<open>The links present, with their positions.\<close>

definition enum_links :: "'tx link_int option list \<Rightarrow> (nat \<times> 'tx link_int) list" where
  "enum_links ls = concat (map (\<lambda>(i, lo). case lo of Some l \<Rightarrow> [(i, l)] | None \<Rightarrow> []) (enumerate 0 ls))"

definition opt_all :: "('a \<Rightarrow> bool) \<Rightarrow> 'a option \<Rightarrow> bool" where
  "opt_all P x = (case x of None \<Rightarrow> True | Some y \<Rightarrow> P y)"

definition estimates_reliable :: "'tx link_int \<Rightarrow> bool" where
  "estimates_reliable l \<longleftrightarrow>
     (case roundtrip_estimates l of Some n \<Rightarrow> n \<ge> RELIABLE_ROUNDTRIP_ESTIMATES | None \<Rightarrow> False)"

section \<open>Ping limits\<close>

definition ping_spread_limits :: "('tx, 'wr) task \<Rightarrow> (duration \<times> duration) option" where
  "ping_spread_limits t =
     (let pings = map (roundtrip \<circ> snd)
            (filter (\<lambda>(_, l). lk_unconfirmed l = None \<and> \<not> is_blocked l \<and> estimates_reliable l)
              (enum_links (t_links t)))
      in (case (list_min pings, link_max_ping_spread (t_cfg t)) of
            (Some min_ping, Some spread) \<Rightarrow>
              let limit_ping = min_ping * unat spread in
              Some (limit_ping, (min_ping + 3 * limit_ping) div 4)
          | _ \<Rightarrow> None))"

fun unconfirm_all ::
  "instant \<Rightarrow> (nat \<times> not_working_reason) list \<Rightarrow> ('tx, 'wr) task \<Rightarrow> ('tx, 'wr) task option" where
  "unconfirm_all now [] t = Some t"
| "unconfirm_all now ((i, reason) # ls) t =
     do { t \<leftarrow> unconfirm_link now i reason t; unconfirm_all now ls t }"

text \<open>The links that \<open>check_link_limits\<close> decides to unconfirm, in its order.\<close>

definition links_over_limit :: "('tx, 'wr) task \<Rightarrow> (nat \<times> not_working_reason) list" where
  "links_over_limit t =
     (let confirmed = filter (\<lambda>(_, l). lk_unconfirmed l = None) (enum_links (t_links t));
          all_links_slow =
            list_all (\<lambda>(_, l). is_blocked l \<or> opt_all (\<lambda>mp. roundtrip l > mp) (max_ping (lcfg l))) confirmed;
          by_max_ping =
            (if all_links_slow then []
             else filter (\<lambda>(_, l). case max_ping (lcfg l) of Some mp \<Rightarrow> roundtrip l > mp | None \<Rightarrow> False)
               confirmed);
          by_spread =
            (case ping_spread_limits t of
               Some (limit_ping, _) \<Rightarrow>
                 filter (\<lambda>(_, l). roundtrip l > 2 * limit_ping \<and> estimates_reliable l) confirmed
             | None \<Rightarrow> [])
      in map (\<lambda>(i, _). (i, MaxPingExceeded)) (by_max_ping @ by_spread))"

definition check_link_limits :: "instant \<Rightarrow> ('tx, 'wr) task \<Rightarrow> ('tx, 'wr) task option" where
  "check_link_limits now t = unconfirm_all now (links_over_limit t) t"

section \<open>Limits of unacknowledged data\<close>

definition map_links :: "('tx link_int \<Rightarrow> 'tx link_int) \<Rightarrow> ('tx, 'wr) task \<Rightarrow> ('tx, 'wr) task" where
  "map_links f t = t\<lparr>t_links := map (map_option f) (t_links t)\<rparr>"

text \<open>The sequence number that is sent next.\<close>

definition coming_seq :: "('tx, 'wr) task \<Rightarrow> seq" where
  "coming_seq t = (case resend_queue t of p # _ \<Rightarrow> sr_seq (t_store t ! p) | [] \<Rightarrow> tx_seq t)"

definition block_increase :: "seq \<Rightarrow> 'tx link_int \<Rightarrow> 'tx link_int" where
  "block_increase s l = l\<lparr>limit_increased := Some s, limit_increased_consecutively := 0\<rparr>"

definition decrease_limit :: "seq \<Rightarrow> 'tx link_int \<Rightarrow> 'tx link_int" where
  "decrease_limit s l =
     block_increase s
       (l\<lparr>txed_unacked_data_limit := min (txed_unacked_data l) (txed_unacked_data_limit l) * 95 div 100\<rparr>)"

definition unconsumable_limit :: "('tx, 'wr) task \<Rightarrow> usize \<Rightarrow> usize" where
  "unconsumable_limit t remote = min (unat (send_buffer (t_cfg t))) remote"

text \<open>The link over which the oldest unconfirmed packet was sent.\<close>

definition oldest_sent_link :: "('tx, 'wr) task \<Rightarrow> nat option" where
  "oldest_sent_link t =
     List.find (\<lambda>_. True)
       (concat (map (\<lambda>p. case sr_status (t_store t ! p) of Sent _ _ i _ _ _ \<Rightarrow> [i] | _ \<Rightarrow> [])
         (t_txed_packets t)))"

definition adjust_overrun :: "instant \<Rightarrow> usize \<Rightarrow> seq \<Rightarrow> ('tx, 'wr) task \<Rightarrow> ('tx, 'wr) task option" where
  "adjust_overrun now remote cs t =
     (let lim = unconsumable_limit t remote;
          soft_overrun = txed_unconsumable t > lim div 3;
          hard_overrun = txed_unconsumable t > lim * 3 div 4
      in if (soft_overrun \<and> tx_overrun t = Armed) \<or> (hard_overrun \<and> tx_overrun t \<noteq> Hard) then
           (case oldest_sent_link t of
              Some i \<Rightarrow> do {
                l \<leftarrow> get_link t i;
                let current = min (txed_unacked_data l) (txed_unacked_data_limit l);
                let (l, ov) =
                  (if hard_overrun then (l\<lparr>txed_unacked_data_limit := current div 2\<rparr>, Hard)
                   else (l\<lparr>txed_unacked_data_limit := current * 95 div 100\<rparr>, Soft));
                Some (put_link i (block_increase cs l)
                  (t\<lparr>tx_overrun := ov, tx_overrun_since := Some now\<rparr>))
              }
            | None \<Rightarrow> Some t)
         else if tx_overrun t \<noteq> Armed \<and> \<not> soft_overrun \<and> \<not> hard_overrun then
           Some (t\<lparr>tx_overrun := Armed, tx_overrun_since := None\<rparr>)
         else Some t)"

definition adjust_rearm :: "instant \<Rightarrow> ('tx, 'wr) task \<Rightarrow> ('tx, 'wr) task" where
  "adjust_rearm now t =
     (case tx_overrun_since t of
        Some since \<Rightarrow>
          if elapsed now since \<ge> from_secs 1 then t\<lparr>tx_overrun := Armed, tx_overrun_since := None\<rparr> else t
      | None \<Rightarrow> t)"

definition all_links_half_slow :: "('tx, 'wr) task \<Rightarrow> bool" where
  "all_links_half_slow t =
     list_all (opt_all (\<lambda>l. lk_unconfirmed l \<noteq> None \<or> is_blocked l \<or>
       opt_all (\<lambda>mp. roundtrip l > mp div 2) (max_ping (lcfg l)))) (t_links t)"

definition adjust_max_ping :: "seq \<Rightarrow> ('tx, 'wr) task \<Rightarrow> ('tx, 'wr) task" where
  "adjust_max_ping cs t =
     (if all_links_half_slow t then t
      else map_links (\<lambda>l.
        case max_ping (lcfg l) of
          Some mp \<Rightarrow>
            if lk_unconfirmed l = None \<and> limit_increased l = None \<and> roundtrip l > mp * 3 div 4
            then decrease_limit cs l else l
        | None \<Rightarrow> l) t)"

definition adjust_spread :: "seq \<Rightarrow> ('tx, 'wr) task \<Rightarrow> ('tx, 'wr) task" where
  "adjust_spread cs t =
     (case ping_spread_limits t of
        Some (limit_ping, _) \<Rightarrow>
          map_links (\<lambda>l.
            if lk_unconfirmed l = None \<and> \<not> is_blocked l \<and> roundtrip l > limit_ping \<and>
               estimates_reliable l
            then (decrease_limit cs l)\<lparr>roundtrip_estimates := None\<rparr> else l) t
      | None \<Rightarrow> t)"

text \<open>The percentage by which the limit of a link is scaled; \<open>None\<close> when no step applies.\<close>

definition increase_percent :: "nat \<Rightarrow> 'tx link_int \<Rightarrow> u32 option" where
  "increase_percent working_link_count l =
     (if working_link_count = 1 then Some (unacked_increase_single_link (lcfg l))
      else map_option percent
        (max_by_key (\<lambda>s. unat (consecutive s))
          (filter (\<lambda>s. limit_increased_consecutively l \<ge> unat (consecutive s))
            (unacked_increases (lcfg l)))))"

definition increase_limit :: "seq \<Rightarrow> nat \<Rightarrow> 'tx link_int \<Rightarrow> 'tx link_int" where
  "increase_limit cs working_link_count l =
     (case increase_percent working_link_count l of
        Some pc \<Rightarrow>
          l\<lparr>txed_unacked_data_limit := max (txed_unacked_data_limit l * unat pc div 100) 100,
            limit_increased := Some cs,
            limit_increased_consecutively := limit_increased_consecutively l + 1,
            roundtrip_estimates := None\<rparr>
      | None \<Rightarrow> l)"

definition may_increase :: "bool \<Rightarrow> duration option \<Rightarrow> 'tx link_int \<Rightarrow> bool" where
  "may_increase all_links_slow good_ping l \<longleftrightarrow>
     \<not> tx_pending l \<and> lk_unconfirmed l = None \<and> \<not> is_blocked l \<and>
     txed_unacked_data l \<ge> txed_unacked_data_limit l \<and>
     limit_increased l = None \<and>
     txed_unacked_data_limit l < unacked_limit (lcfg l) \<and>
     opt_all (\<lambda>mp. roundtrip l \<le> mp div 2 \<or> all_links_slow) (max_ping (lcfg l)) \<and>
     opt_all (\<lambda>g. roundtrip l \<le> g \<and> estimates_reliable l) good_ping"

definition adjust_increase ::
  "'wr write_ops \<Rightarrow> seq \<Rightarrow> bool \<Rightarrow> duration option \<Rightarrow> ('tx, 'wr) task \<Rightarrow> ('tx, 'wr) task" where
  "adjust_increase M cs all_links_slow good_ping t =
     (let working_link_count = length (filter (\<lambda>lo.
            case lo of Some l \<Rightarrow> lk_unconfirmed l = None \<and> \<not> is_blocked l | None \<Rightarrow> False) (t_links t));
          (write_avail, t) =
            (case write_rx t of
               Some rx \<Rightarrow> (case try_peek M rx of
                   (Inr _, rx) \<Rightarrow> (True, t\<lparr>write_rx := Some rx\<rparr>)
                 | (Inl _, rx) \<Rightarrow> (False, t\<lparr>write_rx := Some rx\<rparr>))
             | None \<Rightarrow> (False, t));
          send_data_avail = (write_avail \<or> resend_queue t \<noteq> []);
          sendable_link_avail = list_ex (\<lambda>lo.
            case lo of Some l \<Rightarrow> \<not> tx_pending l \<and> lk_unconfirmed l = None \<and> \<not> is_blocked l \<and>
                txed_unacked_data l < txed_unacked_data_limit l
            | None \<Rightarrow> False) (t_links t)
      in if send_data_avail \<and> \<not> sendable_link_avail then
           map_links (\<lambda>l. if may_increase all_links_slow good_ping l
                          then increase_limit cs working_link_count l else l) t
         else t)"

definition adjust_reset_consecutive :: "bool \<Rightarrow> ('tx, 'wr) task \<Rightarrow> ('tx, 'wr) task" where
  "adjust_reset_consecutive low_level t =
     (if low_level then t else map_links (\<lambda>l. l\<lparr>limit_increased_consecutively := 0\<rparr>) t)"

definition adjust_link_tx_limits ::
  "'wr write_ops \<Rightarrow> instant \<Rightarrow> ('tx, 'wr) task \<Rightarrow> ('tx, 'wr) task option" where
  "adjust_link_tx_limits M now t =
     (case remote_recv_buffer t of
        None \<Rightarrow> Some t
      | Some remote \<Rightarrow> do {
          let cs = coming_seq t;
          let low_level = (txed_unconsumable t < unconsumable_limit t remote div 4);
          t \<leftarrow> adjust_overrun now remote cs t;
          let t = adjust_rearm now t;
          let slow = all_links_half_slow t;
          let t = adjust_max_ping cs t;
          let good_ping = map_option snd (ping_spread_limits t);
          let t = adjust_spread cs t;
          let t = adjust_increase M cs slow good_ping t;
          Some (adjust_reset_consecutive low_level t)
        })"

section \<open>Deadlines\<close>

definition earliest_link_specific_timeout ::
  "(link_cfg \<Rightarrow> duration) \<Rightarrow> ('tx link_int \<Rightarrow> instant option) \<Rightarrow> ('tx, 'wr) task \<Rightarrow>
   (nat \<times> instant) option" where
  "earliest_link_specific_timeout timeout_fn since_fn t =
     min_by_key snd (concat (map (\<lambda>(i, l).
       case since_fn l of Some since \<Rightarrow> [(i, since + timeout_fn (lcfg l))] | None \<Rightarrow> [])
       (enum_links (t_links t))))"

definition next_pong_timeout :: "('tx, 'wr) task \<Rightarrow> (nat \<times> instant) option" where
  "next_pong_timeout = earliest_link_specific_timeout ping_timeout current_ping_sent"

definition unconfirmed_since :: "'tx link_int \<Rightarrow> instant option" where
  "unconfirmed_since l =
     (case lk_unconfirmed l of
        Some (since, reason) \<Rightarrow> if reason \<noteq> MaxPingExceeded then Some since else None
      | None \<Rightarrow> None)"

definition next_unconfirmed_timeout :: "('tx, 'wr) task \<Rightarrow> (nat \<times> instant) option" where
  "next_unconfirmed_timeout = earliest_link_specific_timeout non_working_timeout unconfirmed_since"

definition next_send_timeout :: "('tx, 'wr) task \<Rightarrow> (nat \<times> instant) option" where
  "next_send_timeout = earliest_link_specific_timeout ping_timeout lk_tx_polling"

text \<open>\<open>Duration::clamp\<close> panics when the bounds are in the wrong order.\<close>

definition clamp :: "duration \<Rightarrow> duration \<Rightarrow> duration \<Rightarrow> duration option" where
  "clamp lo hi d = do { assert_that (lo \<le> hi); Some (if d < lo then lo else if d > hi then hi else d) }"

definition confirm_duration :: "bool \<Rightarrow> 'tx link_int \<Rightarrow> duration option" where
  "confirm_duration resent l =
     (let fac = (if resent then ack_timeout_resent_factor (lcfg l) else 1);
          fac = (if (case roundtrip_estimates l of Some n \<Rightarrow> n | None \<Rightarrow> 0) < RELIABLE_ROUNDTRIP_ESTIMATES
                 then fac * ack_timeout_unreliable_factor (lcfg l) else fac)
      in clamp (ack_timeout_min (lcfg l)) (ack_timeout_max (lcfg l))
           (roundtrip l * unat (ack_timeout_roundtrip_factor (lcfg l)) * unat fac))"

text \<open>The first packet in flight that is waiting for its acknowledgement.\<close>

fun confirm_timeout_loop ::
  "('tx, 'wr) task \<Rightarrow> pid list \<Rightarrow> (nat \<times> instant \<times> bool) option option" where
  "confirm_timeout_loop t [] = Some None"
| "confirm_timeout_loop t (p # ps) = do {
     packet \<leftarrow> nth_opt (t_store t) p;
     (case sr_status packet of
        Sent sent flushed i _ _ resent \<Rightarrow> do {
          l \<leftarrow> get_link t i;
          let definitely_sent = (case flushed of Some f \<Rightarrow> f | None \<Rightarrow> sent);
          dur \<leftarrow> confirm_duration resent l;
          Some (Some (i, definitely_sent + dur, flushed \<noteq> None))
        }
      | _ \<Rightarrow> confirm_timeout_loop t ps)
   }"

definition earliest_confirm_timeout ::
  "('tx, 'wr) task \<Rightarrow> (nat \<times> instant \<times> bool) option option" where
  "earliest_confirm_timeout t = confirm_timeout_loop t (t_txed_packets t)"

definition link_ping_due :: "instant \<Rightarrow> 'tx link_int \<Rightarrow> instant option" where
  "link_ping_due now l =
     (if current_ping_sent l = None \<and> \<not> send_ping l \<and> lk_unconfirmed l = None then
        (case ping (lcfg l) of
           Periodic interval \<Rightarrow>
             Some (case last_ping l of Some la \<Rightarrow> la + interval | None \<Rightarrow> now)
         | WhenIdle timeout \<Rightarrow>
             let msg_timeout = (case tx_last_msg l of Some la \<Rightarrow> la + timeout | None \<Rightarrow> now);
                 ping_timeout = (case last_ping l of Some la \<Rightarrow> la + timeout | None \<Rightarrow> now)
             in Some (max msg_timeout ping_timeout)
         | WhenTimedOut \<Rightarrow> None)
      else None)"

definition next_link_ping :: "instant \<Rightarrow> ('tx, 'wr) task \<Rightarrow> (nat \<times> instant) option" where
  "next_link_ping now t =
     min_by_key snd (concat (map (\<lambda>(i, l).
       case link_ping_due now l of Some d \<Rightarrow> [(i, d)] | None \<Rightarrow> []) (enum_links (t_links t))))"

section \<open>Testing links\<close>

definition others_slow :: "nat \<Rightarrow> ('tx, 'wr) task \<Rightarrow> bool" where
  "others_slow i t =
     list_all (\<lambda>(j, l). j = i \<or> lk_unconfirmed l \<noteq> None \<or> is_blocked l \<or>
       opt_all (\<lambda>mp. roundtrip l > mp) (max_ping (lcfg l))) (enum_links (t_links t))"

definition retry_failed_test :: "instant \<Rightarrow> 'tx link_int \<Rightarrow> 'tx link_int" where
  "retry_failed_test now l =
     (case lk_test l of
        Failed when \<Rightarrow> if elapsed now when \<ge> retest_interval (lcfg l) then l\<lparr>lk_test := Inactive\<rparr> else l
      | _ \<Rightarrow> l)"

definition confirm_again :: "instant \<Rightarrow> nat \<Rightarrow> 'tx link_int \<Rightarrow> ('tx, 'wr) task \<Rightarrow> ('tx, 'wr) task" where
  "confirm_again now i l t = put_link i (report_ready now (set_unconfirmed None l)) (idle_remove i t)"

definition test_size_limit :: "cfg \<Rightarrow> 'tx link_int \<Rightarrow> usize" where
  "test_size_limit c l =
     min (if max_ping (lcfg l) \<noteq> None then unacked_init (lcfg l)
          else min (unacked_limit (lcfg l)) (unat (send_buffer c)))
       (test_data_limit (lcfg l))"

text \<open>The step of a link whose test is not running.\<close>

definition test_inactive ::
  "'tx sink \<Rightarrow> instant \<Rightarrow> nat \<Rightarrow> 'tx link_int \<Rightarrow> ('tx, 'wr) task \<Rightarrow>
   (instant option \<times> ('tx, 'wr) task) option" where
  "test_inactive S now i l t =
     (case lk_unconfirmed l of
        Some (since, reason) \<Rightarrow>
          if lk_tx_polling l = None \<and> current_ping_sent l = None \<and> \<not> has_outstanding_ack l then
            if reason \<noteq> AckTimeout \<or> test_after_ack_timeout (lcfg l) then
              if is_blocked l then
                let half = non_working_timeout (lcfg l) div 2;
                    (since, l) = (if elapsed now since \<ge> half
                                  then (now, set_unconfirmed (Some (now, reason)) l) else (since, l))
                in Some (Some (since + half), put_link i l t)
              else do {
                (_, l) \<leftarrow> send_test_data S now (io_write_size (t_cfg t)) (test_size_limit (t_cfg t) l) l;
                Some (None, put_link i (l\<lparr>send_ping := True, lk_test := InProgress\<rparr>) t)
              }
            else Some (None, confirm_again now i l t)
          else Some (None, put_link i l t)
      | None \<Rightarrow> Some (None, put_link i l t))"

definition roundtrip_limit :: "duration option \<Rightarrow> bool \<Rightarrow> 'tx link_int \<Rightarrow> duration" where
  "roundtrip_limit limit_ping slow l =
     (let lim = ack_timeout_max (lcfg l) div 2;
          lim = (case max_ping (lcfg l) of Some mp \<Rightarrow> if \<not> slow then min lim mp else lim | None \<Rightarrow> lim)
      in (case limit_ping of Some lp \<Rightarrow> min lim lp | None \<Rightarrow> lim))"

text \<open>The step of a link whose test is running: the ping tells whether it passes.\<close>

definition test_in_progress ::
  "instant \<Rightarrow> nat \<Rightarrow> duration option \<Rightarrow> bool \<Rightarrow> 'tx link_int \<Rightarrow> ('tx, 'wr) task \<Rightarrow>
   instant option \<times> ('tx, 'wr) task" where
  "test_in_progress now i limit_ping slow l t =
     (if current_ping_sent l = None \<and> \<not> send_ping l then
        if roundtrip l \<le> roundtrip_limit limit_ping slow l then
          (None, confirm_again now i (l\<lparr>lk_test := Inactive\<rparr>) t)
        else
          let l = l\<lparr>lk_test := Failed now\<rparr>;
              since = (case lk_unconfirmed l of Some (since, _) \<Rightarrow> since | None \<Rightarrow> now);
              l = set_unconfirmed (Some (since, MaxPingExceeded)) l
          in (Some (now + retest_interval (lcfg l)), put_link i l t)
      else (None, put_link i l t))"

definition link_testing_step ::
  "'tx sink \<Rightarrow> instant \<Rightarrow> nat \<Rightarrow> ('tx, 'wr) task \<Rightarrow> (instant option \<times> ('tx, 'wr) task) option" where
  "link_testing_step S now i t = do {
     let limit_ping = map_option fst (ping_spread_limits t);
     let slow = others_slow i t;
     lo \<leftarrow> nth_opt (t_links t) i;
     (case lo of
        None \<Rightarrow> Some (None, t)
      | Some l \<Rightarrow>
          let l = retry_failed_test now l in
          (case lk_test l of
             Inactive \<Rightarrow> test_inactive S now i l t
           | InProgress \<Rightarrow> Some (test_in_progress now i limit_ping slow l t)
           | Failed when \<Rightarrow> Some (Some (when + retest_interval (lcfg l)), put_link i l t)))
   }"

text \<open>The step of every link in turn; the earliest time one is due again.\<close>

fun link_testing_all ::
  "'tx sink \<Rightarrow> instant \<Rightarrow> nat list \<Rightarrow> ('tx, 'wr) task \<Rightarrow> (instant option \<times> ('tx, 'wr) task) option" where
  "link_testing_all S now [] t = Some (None, t)"
| "link_testing_all S now (i # is) t = do {
     (d, t) \<leftarrow> link_testing_step S now i t;
     (ds, t) \<leftarrow> link_testing_all S now is t;
     Some (case (d, ds) of (Some a, Some b) \<Rightarrow> Some (min a b) | (None, b) \<Rightarrow> b | (a, None) \<Rightarrow> a, t)
   }"

end
