(* ===== verification/Task_Rx.thy ===== *)
theory Task_Rx
  imports Task_Limits
begin

text \<open>
  The receive side of the link aggregator task (\<open>aggligator/src/agg/task.rs\<close>): putting the
  numbered messages that arrive over the links back into order, and the dispatch on the kind of a
  received message.
\<close>

section \<open>Reliable messages\<close>

text \<open>The while-loop that forwards messages that are ready for consumption.\<close>

definition is_consumable :: "reliable_msg \<Rightarrow> bool" where
  "is_consumable m \<longleftrightarrow> (case m of Data _ \<Rightarrow> True | SendFinish \<Rightarrow> True | _ \<Rightarrow> False)"

fun forward_loop ::
  "received_msg option list \<Rightarrow> seq \<Rightarrow> received_msg list \<Rightarrow>
   (received_msg option list \<times> seq \<times> received_msg list) option" where
  "forward_loop (Some m # q) s c = do {
     assert_that (rm_seq m = s);
     forward_loop q (seq_add_u32 s 1) (if is_consumable (rm_msg m) then c @ [m] else c)
   }"
| "forward_loop q s c = Some (q, s, c)"

definition forward_received :: "('tx, 'wr) task \<Rightarrow> ('tx, 'wr) task option" where
  "forward_received t = do {
     (q, s, c) \<leftarrow> forward_loop (rxed_reliable t) (rx_seq t) (rxed_reliable_consumable t);
     Some (t\<lparr>rxed_reliable := q, rx_seq := s, rxed_reliable_consumable := c\<rparr>)
   }"

text \<open>What a message received for the first time does besides being stored.\<close>

definition reliable_effect ::
  "reliable_msg \<Rightarrow> ('tx, 'wr) task \<Rightarrow> unit io_result \<times> ('tx, 'wr) task" where
  "reliable_effect m t =
     (case m of
        Data d \<Rightarrow>
          let t = t\<lparr>rxed_reliable_size := rxed_reliable_size t + length d\<rparr> in
          if rxed_reliable_size t > unat (recv_buffer (t_cfg t))
          then (Inl (protocol_err ''receive buffer overflow''), t) else (Inr (), t)
      | SendFinish \<Rightarrow> (Inr (), t)
      | Consumed n \<Rightarrow>
          if unat n \<le> txed_unconsumed t
          then (Inr (), t\<lparr>txed_unconsumed := txed_unconsumed t - unat n\<rparr>)
          else (Inl (protocol_err ''txed_unconsumed underflow''), t)
      | ReceiveClose \<Rightarrow> (Inr (), t\<lparr>write_error := SClosed, write_closed := True\<rparr>)
      | ReceiveFinish \<Rightarrow>
          (Inr (), t\<lparr>write_error := SDropped, write_rx := None, send_finish_sent := True\<rparr>))"

text \<open>The message is stored at its offset from the next number to be handed out.\<close>

definition store_reliable ::
  "seq \<Rightarrow> reliable_msg \<Rightarrow> ('tx, 'wr) task \<Rightarrow> unit io_result \<times> ('tx, 'wr) task" where
  "store_reliable s m t =
     (let offset = seq_sub s (rx_seq t) in
      if offset < 0 \<or> offset > USABLE_INTERVAL
      then (Inl (protocol_err ''sequence number underflow''), t)
      else
        let o' = nat offset;
            q = rxed_reliable t;
            q = (if length q \<le> o' then q @ replicate (o' + 1 - length q) None else q);
            t = t\<lparr>rxed_reliable := q\<rparr>
        in if q ! o' = None then
             (case reliable_effect m t of
                (Inl e, t) \<Rightarrow> (Inl e, t)
              | (Inr _, t) \<Rightarrow>
                  (Inr (), t\<lparr>rxed_reliable := (rxed_reliable t)[o' := Some \<lparr>rm_seq = s, rm_msg = m\<rparr>]\<rparr>))
           else (Inr (), t))"

definition queue_ack :: "instant \<Rightarrow> nat \<Rightarrow> seq \<Rightarrow> ('tx, 'wr) task \<Rightarrow> ('tx, 'wr) task option" where
  "queue_ack now i s t = do {
     l \<leftarrow> get_link t i;
     Some (put_link i (report_ready now (l\<lparr>tx_ack_queue := tx_ack_queue l @ [s]\<rparr>)) (idle_remove i t))
   }"

definition handle_received_reliable_msg ::
  "instant \<Rightarrow> nat \<Rightarrow> seq \<Rightarrow> reliable_msg \<Rightarrow> ('tx, 'wr) task \<Rightarrow>
   (unit io_result \<times> ('tx, 'wr) task) option" where
  "handle_received_reliable_msg now i s m t = do {
     t \<leftarrow> queue_ack now i s t;
     let (res, t) = (if s < rx_seq t then (Inr (), t) else store_reliable s m t);
     (case res of
        Inl e \<Rightarrow> Some (Inl e, t)
      | Inr _ \<Rightarrow> do { t \<leftarrow> forward_received t; Some (Inr (), t) })
   }"

section \<open>Dispatch\<close>

definition handle_goodbye ::
  "instant \<Rightarrow> nat \<Rightarrow> ('tx, 'wr) task \<Rightarrow> (bool io_result \<times> ('tx, 'wr) task) option" where
  "handle_goodbye now i t = do {
     l \<leftarrow> get_link t i;
     (case disconnecting l of
        Some Local \<Rightarrow>
          if goodbye_sent l then do {
            t \<leftarrow> remove_link now i LocallyRequested t;
            Some (Inr False, t)
          }
          else Some (Inr False, t)
      | Some Remote \<Rightarrow> Some (Inl (protocol_err ''received Goodbye message more than once''), t)
      | None \<Rightarrow> do {
          t \<leftarrow> unconfirm_link now i Disconnecting (put_link i (l\<lparr>disconnecting := Some Remote\<rparr>) t);
          Some (Inr False, t)
        })
   }"

definition handle_pong ::
  "'tx sink \<Rightarrow> instant \<Rightarrow> nat \<Rightarrow> ('tx, 'wr) task \<Rightarrow> (bool io_result \<times> ('tx, 'wr) task) option" where
  "handle_pong S now i t = do {
     l \<leftarrow> get_link t i;
     (case current_ping_sent l of
        Some sent \<Rightarrow> do {
          let l = l\<lparr>current_ping_sent := None, roundtrip := elapsed now sent,
                    roundtrip_estimates := Some 1, last_ping := Some now\<rparr>;
          (_, t) \<leftarrow> link_testing_step S now i (put_link i l t);
          Some (Inr False, t)
        }
      | None \<Rightarrow> Some (Inr False, t))
   }"

definition handle_reliable ::
  "instant \<Rightarrow> nat \<Rightarrow> link_msg \<Rightarrow> bytes option \<Rightarrow> ('tx, 'wr) task \<Rightarrow>
   (bool io_result \<times> ('tx, 'wr) task) option" where
  "handle_reliable now i msg d t = do {
     (m, s) \<leftarrow> from_link_msg msg d;
     (res, t) \<leftarrow> handle_received_reliable_msg now i s m t;
     Some (map_sum id (\<lambda>_. False) res, t)
   }"

text \<open>\<open>Inr True\<close> asks the main loop to terminate.\<close>

definition handle_received_msg ::
  "'tx sink \<Rightarrow> instant \<Rightarrow> nat \<Rightarrow> link_msg \<Rightarrow> bytes option \<Rightarrow> ('tx, 'wr) task \<Rightarrow>
   (bool io_result \<times> ('tx, 'wr) task) option" where
  "handle_received_msg S now i msg d t = do {
     l \<leftarrow> get_link t i;
     (case msg of
        Ping \<Rightarrow> do {
          t \<leftarrow> flush_link now i (put_link i (l\<lparr>send_pong := True\<rparr>) t);
          Some (Inr False, t)
        }
      | Pong \<Rightarrow> handle_pong S now i t
      | LData _ \<Rightarrow> handle_reliable now i msg d t
      | LConsumed _ _ \<Rightarrow> handle_reliable now i msg d t
      | LSendFinish _ \<Rightarrow> handle_reliable now i msg d t
      | LReceiveClose _ \<Rightarrow> handle_reliable now i msg d t
      | LReceiveFinish _ \<Rightarrow> handle_reliable now i msg d t
      | Ack received \<Rightarrow> do { t \<leftarrow> handle_ack now i received t; Some (Inr False, t) }
      | TestData _ \<Rightarrow> Some (Inr False, t)
      | SetBlock b \<Rightarrow>
          Some (Inr False,
            put_link i (report_ready now (l\<lparr>remotely_blocked := b\<rparr>)) (idle_remove i t))
      | Goodbye \<Rightarrow> handle_goodbye now i t
      | Terminate \<Rightarrow> Some (Inr True, t)
      | Welcome _ _ _ _ _ \<Rightarrow> Some (Inl (protocol_err ''received unexpected message''), t)
      | Connect _ _ _ _ _ _ _ \<Rightarrow> Some (Inl (protocol_err ''received unexpected message''), t)
      | Accepted \<Rightarrow> Some (Inl (protocol_err ''received unexpected message''), t)
      | Refused _ \<Rightarrow> Some (Inl (protocol_err ''received unexpected message''), t))
   }"

end
