(* ===== verification/Task_Run.thy ===== *)
theory Task_Run
  imports Task_Rx
begin

text \<open>
  The main loop of the link aggregator task (\<open>Task::run\<close> of \<open>aggligator/src/agg/task.rs\<close>).

  An iteration is split where the source waits: \<open>loop_top\<close> is everything before the \<open>select!\<close>,
  \<open>task_emits\<close> says which events the \<open>select!\<close> can deliver, \<open>handle_event\<close> is the match on the event,
  and \<open>task_finish\<close> is what follows the loop.  \<open>task_step\<close> puts them together; while the task waits,
  the futures that are polled without being ready may advance a link or look at the next send
  request.
\<close>

section \<open>Ending the loop\<close>

record outcome =
  oc_result :: "task_error + unit"
  read_term :: "recv_error option"
  write_term :: send_error
  link_term :: disconnect_reason
  oc_terminate :: send_terminate

definition closed_outcome :: outcome where
  "closed_outcome = \<lparr>oc_result = Inr (), read_term = None, write_term = SClosed,
     link_term = ConnectionClosed, oc_terminate = NoTerminate\<rparr>"

definition no_links_outcome :: outcome where
  "no_links_outcome = \<lparr>oc_result = Inl TAllUnconfirmedTimeout, read_term = Some RAllLinksFailed,
     write_term = SAllLinksFailed, link_term = DAllUnconfirmedTimeout, oc_terminate = NoTerminate\<rparr>"

definition links_timeout_outcome :: outcome where
  "links_timeout_outcome = \<lparr>oc_result = Inl TNoLinksTimeout, read_term = Some RAllLinksFailed,
     write_term = SAllLinksFailed, link_term = DAllUnconfirmedTimeout, oc_terminate = NoTerminate\<rparr>"

definition terminated_outcome :: "send_terminate \<Rightarrow> outcome" where
  "terminated_outcome st = \<lparr>oc_result = Inl TTerminated, read_term = Some RTaskTerminated,
     write_term = STaskTerminated, link_term = DTaskTerminated, oc_terminate = st\<rparr>"

definition protocol_outcome :: "link_id \<Rightarrow> io_error \<Rightarrow> outcome" where
  "protocol_outcome lid e = \<lparr>oc_result = Inl (TProtocolError lid (err_msg e)),
     read_term = Some RProtocolError, write_term = SProtocolError,
     link_term = DProtocolError (err_msg e), oc_terminate = NoTerminate\<rparr>"

fun fatal_outcome :: "fatal_connect_error \<Rightarrow> outcome" where
  "fatal_outcome FServerIdMismatch = \<lparr>oc_result = Inl TServerIdMismatch,
     read_term = Some RServerIdMismatch, write_term = SServerIdMismatch,
     link_term = DServerIdMismatch, oc_terminate = NoTerminate\<rparr>"
| "fatal_outcome FClosed = \<lparr>oc_result = Inl TAbortedByServer, read_term = Some RAbortedByServer,
     write_term = SAbortedByServer, link_term = DAbortedByServer, oc_terminate = NoTerminate\<rparr>"

definition task_finish :: "outcome \<Rightarrow> ('tx, 'wr) task \<Rightarrow> ('tx, 'wr) task" where
  "task_finish oc t =
     (let t = (if read_error t = Some RTaskTerminated then t\<lparr>read_error := read_term oc\<rparr> else t);
          t = (if write_error t = STaskTerminated then t\<lparr>write_error := write_term oc\<rparr> else t);
          t = t\<lparr>read_tx := False, write_rx := None\<rparr>;
          t = fold (\<lambda>lo t. case lo of Some l \<Rightarrow> notify_disconnected l (link_term oc) t | None \<Rightarrow> t)
                (t_links t) t
      in t\<lparr>t_links := [], task_result := oc_result oc, link_rx := False\<rparr>)"

section \<open>Before waiting\<close>

record wait =
  w_consume_ack :: bool
  w_seq_avail :: bool
  w_space :: usize
  w_resending :: bool
  w_idling :: bool
  w_no_link_since :: "instant option"
  w_next_ping :: "(nat \<times> instant) option"
  w_pong :: "(nat \<times> instant) option"
  w_unconfirmed :: "(nat \<times> instant) option"
  w_send :: "(nat \<times> instant) option"
  w_testing :: "instant option"
  w_confirm :: "(nat \<times> instant \<times> bool) option"
  w_sendable :: "nat option"
  w_resendable :: "nat option"
  w_non_resendable :: "link_id option"

text \<open>All that was sent has arrived and been consumed, and both ends said that they finished.\<close>

definition all_done :: "('tx, 'wr) task \<Rightarrow> bool" where
  "all_done t \<longleftrightarrow> t_txed_packets t = [] \<and> txed_unconsumed t = 0 \<and> rxed_reliable_size t = 0 \<and>
     consumed_since_last_ack t = 0 \<and> send_finish_sent t \<and> receive_finish_sent t"

definition check_closed :: "instant \<Rightarrow> ('tx, 'wr) task \<Rightarrow> bool \<times> ('tx, 'wr) task" where
  "check_closed now t =
     (if \<not> read_tx t \<and> write_rx t = None then
        let since = (case read_write_closed t of Some s \<Rightarrow> s | None \<Rightarrow> now);
            t = t\<lparr>read_write_closed := Some since\<rparr>
        in (all_done t \<or> \<not> links_available t \<or> elapsed now since \<ge> termination_timeout (t_cfg t), t)
      else (False, t))"

definition notify_connected :: "instant \<Rightarrow> ('tx, 'wr) task \<Rightarrow> ('tx, 'wr) task option" where
  "notify_connected now t =
     (if links_available t \<and> connected_tx t then do {
        rc \<leftarrow> t_remote_cfg t;
        Some (t\<lparr>connected_tx := False, connected := Some rc, established := Some now\<rparr>)
      }
      else Some t)"

definition notify_flushed :: "('tx, 'wr) task \<Rightarrow> ('tx, 'wr) task" where
  "notify_flushed t =
     (if unflushed_links t = {} then
        (case flushed_tx t of
           Some r \<Rightarrow> t\<lparr>flushed_tx := None, flush_done := flush_done t @ [r]\<rparr>
         | None \<Rightarrow> t)
      else t)"

definition non_resendable_link :: "('tx, 'wr) task \<Rightarrow> link_id option option" where
  "non_resendable_link t =
     (case resend_queue t of
        [] \<Rightarrow> Some None
      | p # _ \<Rightarrow> (case nth_opt (t_store t) p of
            Some packet \<Rightarrow> (case sr_status packet of
                ResendQueued _ sent_link \<Rightarrow> Some (Some sent_link)
              | _ \<Rightarrow> None)
          | None \<Rightarrow> None))"

text \<open>The idle links to use for sending and for resending, last idle first.\<close>

fun choose_idle ::
  "('tx, 'wr) task \<Rightarrow> link_id option \<Rightarrow> nat list \<Rightarrow> nat option \<Rightarrow> nat option \<Rightarrow>
   (nat option \<times> nat option) option" where
  "choose_idle t nr [] se rs = Some (se, rs)"
| "choose_idle t nr (i # is) se rs =
     (if se \<noteq> None \<and> (rs \<noteq> None \<or> nr = None) then Some (se, rs)
      else do {
        l \<leftarrow> get_link t i;
        (if is_sendable l then
           choose_idle t nr is
             (if se = None then Some i else se)
             (if rs = None \<and> nr \<noteq> Some (lk_link_id l) then Some i else rs)
         else choose_idle t nr is se rs)
      })"

definition loop_top ::
  "'tx sink \<Rightarrow> 'wr write_ops \<Rightarrow> instant \<Rightarrow> ('tx, 'wr) task \<Rightarrow>
   ((outcome + wait) \<times> ('tx, 'wr) task) option" where
  "loop_top S M now t = do {
     let consume_ack = is_consume_ack_required t;
     let seq_avail = tx_seq_avail t;
     let space = tx_space t;
     let resending = (resend_queue t \<noteq> []);
     let idling = (idle_links t \<noteq> []);
     let available = links_available t;
     let t = send_stats now t;
     let (closed, t) = check_closed now t;
     if closed then Some (Inl closed_outcome, t)
     else if \<not> available \<and> \<not> link_rx t then Some (Inl no_links_outcome, t)
     else do {
       t \<leftarrow> notify_connected now t;
       let t = notify_flushed t;
       t \<leftarrow> check_link_limits now t;
       t \<leftarrow> adjust_link_tx_limits M now t;
       let (no_link_since, t) = links_not_working_since now t;
       let next_ping = next_link_ping now t;
       let pong = next_pong_timeout t;
       let unconfirmed = next_unconfirmed_timeout t;
       let send = next_send_timeout t;
       (testing, t) \<leftarrow> link_testing_all S now [0..<length (t_links t)] t;
       confirm \<leftarrow> earliest_confirm_timeout t;
       nr \<leftarrow> non_resendable_link t;
       (sendable, resendable) \<leftarrow> choose_idle t nr (rev (idle_links t)) None None;
       Some (Inr \<lparr>w_consume_ack = consume_ack, w_seq_avail = seq_avail, w_space = space,
         w_resending = resending, w_idling = idling, w_no_link_since = no_link_since,
         w_next_ping = next_ping, w_pong = pong, w_unconfirmed = unconfirmed, w_send = send,
         w_testing = testing, w_confirm = confirm, w_sendable = sendable,
         w_resendable = resendable, w_non_resendable = nr\<rparr>, t)
     }
   }"

section \<open>Events\<close>

text \<open>The flag of \<open>NewLink\<close> is the decision of the link filter function of the user.\<close>

datatype 'tx task_event =
    EvTerminate
  | NewLink "'tx link_int" bool
  | NoNewLinks
  | LinkEvent nat link_event
  | WriteRx nat bytes
  | WriteEnd
  | EvFlush nat
  | ConfirmTimedOut nat
  | EvResend pid
  | ReadDropped
  | ReadClosed
  | ConsumeReceived received_msg bool
  | SendConsumed
  | PingLink nat
  | LinkUnconfirmedTimeout nat
  | LinkSendTimeout nat
  | LinkPingTimeout nat
  | LinkTesting
  | NoLinksTimeout
  | PublishLinkStats
  | RefusedLinkTask
  | FatalConnectError fatal_connect_error

text \<open>One poll of the future that waits for send requests.\<close>

definition write_task ::
  "'wr write_ops \<Rightarrow> wait \<Rightarrow> ('tx, 'wr) task \<Rightarrow> ('tx task_event option \<times> ('tx, 'wr) task) option" where
  "write_task M w t =
     (if w_idling w \<and> w_consume_ack w then Some (Some SendConsumed, t)
      else (case write_rx t of
          Some rx \<Rightarrow>
            if w_seq_avail w \<and> \<not> w_resending w then do {
              (res, rx) \<leftarrow> recv_if M (\<lambda>r. case r of
                  SendData d \<Rightarrow> length d \<le> w_space w \<and> w_sendable w \<noteq> None
                | FlushReq _ \<Rightarrow> True) rx;
              let t = t\<lparr>write_rx := Some rx\<rparr>;
              (case res of
                 None \<Rightarrow> Some (None, t)
               | Some (Inr (SendData d)) \<Rightarrow> do { i \<leftarrow> w_sendable w; Some (Some (WriteRx i d), t) }
               | Some (Inr (FlushReq r)) \<Rightarrow> Some (Some (EvFlush r), t)
               | Some (Inl IfNoMatch) \<Rightarrow> Some (None, t)
               | Some (Inl IfDisconnected) \<Rightarrow> Some (Some WriteEnd, t))
            }
            else Some (None, t)
        | None \<Rightarrow> Some (None, t)))"

text \<open>
  The events that can come next.  A link that arrives was created by \<open>LinkInt::new\<close>; the receiver
  of the user may have space, or may have been dropped, at any time.
\<close>

inductive task_emits ::
  "'tx sink \<Rightarrow> 'wr write_ops \<Rightarrow> instant \<Rightarrow> wait \<Rightarrow> ('tx, 'wr) task \<Rightarrow> 'tx task_event \<Rightarrow>
   ('tx, 'wr) task \<Rightarrow> bool"
  for S :: "'tx sink" and M :: "'wr write_ops" and now :: instant and w :: wait where
  em_terminate: "task_emits S M now w t EvTerminate t"
| em_init_link: "init_links t = l # ls \<Longrightarrow> task_emits S M now w t (NewLink l ok) (t\<lparr>init_links := ls\<rparr>)"
| em_new_link: "init_links t = [] \<Longrightarrow> link_rx t \<Longrightarrow>
    task_emits S M now w t (NewLink (link_new lid since (t_conn_id t) snk (t_cfg t) rc lc (t_direction t) rt ud) ok) t"
| em_no_new_links: "init_links t = [] \<Longrightarrow> link_rx t \<Longrightarrow> task_emits S M now w t NoNewLinks t"
| em_link: "get_link t i = Some l \<Longrightarrow> link_emits S now l e l' \<Longrightarrow>
    task_emits S M now w t (LinkEvent i e) (put_link i l' t)"
| em_write: "write_task M w t = Some (Some ev, t') \<Longrightarrow> task_emits S M now w t ev t'"
| em_confirm: "w_confirm w = Some (i, d, True) \<Longrightarrow> d \<le> now \<Longrightarrow>
    task_emits S M now w t (ConfirmTimedOut i) t"
| em_confirm_flush: "w_confirm w = Some (i, d, False) \<Longrightarrow> d \<le> now \<Longrightarrow>
    task_emits S M now w t (LinkEvent i FlushRequired) t"
| em_ping: "w_next_ping w = Some (i, d) \<Longrightarrow> d \<le> now \<Longrightarrow> task_emits S M now w t (PingLink i) t"
| em_pong: "w_pong w = Some (i, d) \<Longrightarrow> d \<le> now \<Longrightarrow> task_emits S M now w t (LinkPingTimeout i) t"
| em_unconfirmed: "w_unconfirmed w = Some (i, d) \<Longrightarrow> d \<le> now \<Longrightarrow>
    task_emits S M now w t (LinkUnconfirmedTimeout i) t"
| em_send: "w_send w = Some (i, d) \<Longrightarrow> d \<le> now \<Longrightarrow> task_emits S M now w t (LinkSendTimeout i) t"
| em_resend: "w_resending w \<Longrightarrow> w_resendable w \<noteq> None \<Longrightarrow> resend_queue t = p # ps \<Longrightarrow>
    task_emits S M now w t (EvResend p) (t\<lparr>resend_queue := ps\<rparr>)"
| em_consume: "rxed_reliable_consumable t = m # ms \<Longrightarrow>
    task_emits S M now w t (ConsumeReceived m (read_tx t)) (t\<lparr>rxed_reliable_consumable := ms\<rparr>)"
| em_read_dropped: "rxed_reliable_consumable t \<noteq> [] \<Longrightarrow> read_tx t \<Longrightarrow> task_emits S M now w t ReadDropped t"
| em_read_closed: "read_closed_rx t \<Longrightarrow> task_emits S M now w t ReadClosed t"
| em_testing: "w_testing w = Some d \<Longrightarrow> d \<le> now \<Longrightarrow> task_emits S M now w t LinkTesting t"
| em_no_links: "w_no_link_since w = Some since \<Longrightarrow> since + no_link_timeout (t_cfg t) \<le> now \<Longrightarrow>
    task_emits S M now w t NoLinksTimeout t"
| em_stats: "task_emits S M now w t PublishLinkStats t"
| em_refused: "refused_links t = ls @ l # ls' \<Longrightarrow>
    task_emits S M now w t RefusedLinkTask (notify_disconnected l LinkFilter (t\<lparr>refused_links := ls @ ls'\<rparr>))"
| em_fatal: "task_emits S M now w t (FatalConnectError e) t"

section \<open>Handling a link that is ready to send\<close>

text \<open>Sending an unnumbered message over link \<open>i\<close>; \<open>upd\<close> is what is noted in the link afterwards.\<close>

definition send_link_msg ::
  "'tx sink \<Rightarrow> instant \<Rightarrow> nat \<Rightarrow> link_msg \<Rightarrow> ('tx link_int \<Rightarrow> 'tx link_int) \<Rightarrow> ('tx, 'wr) task \<Rightarrow>
   ('tx, 'wr) task option" where
  "send_link_msg S now i msg upd t = do {
     let t = idle_remove i t;
     l \<leftarrow> get_link t i;
     (l, st) \<leftarrow> start_send_msg S now (task_live t) msg None (l, t_store t);
     Some (put_link i (upd l) (t\<lparr>t_store := st\<rparr>))
   }"

definition send_reliable ::
  "'tx sink \<Rightarrow> instant \<Rightarrow> nat \<Rightarrow> reliable_msg \<Rightarrow> (('tx, 'wr) task \<Rightarrow> ('tx, 'wr) task) \<Rightarrow> ('tx, 'wr) task \<Rightarrow>
   ('tx, 'wr) task option" where
  "send_reliable S now i m upd t = do {
     (_, t) \<leftarrow> send_reliable_over_link S now i m (idle_remove i t);
     Some (upd t)
   }"

text \<open>The next send request, taken when it is data that fits.\<close>

definition take_write ::
  "'wr write_ops \<Rightarrow> wait \<Rightarrow> 'tx link_int \<Rightarrow> ('tx, 'wr) task \<Rightarrow> (bytes option \<times> ('tx, 'wr) task) option" where
  "take_write M w l t =
     (case write_rx t of
        Some rx \<Rightarrow>
          if w_seq_avail w \<and> is_sendable l then do {
            (res, rx) \<leftarrow> try_recv_if M (\<lambda>r. case r of SendData d \<Rightarrow> length d \<le> w_space w | _ \<Rightarrow> False) rx;
            let t = t\<lparr>write_rx := Some rx\<rparr>;
            (case res of
               Inr (SendData d) \<Rightarrow> Some (Some d, t)
             | _ \<Rightarrow> Some (None, t))
          }
          else Some (None, t)
      | None \<Rightarrow> Some (None, t))"

definition mark_sent_consumed :: "('tx, 'wr) task \<Rightarrow> ('tx, 'wr) task" where
  "mark_sent_consumed t = t\<lparr>consumed_since_last_ack := 0\<rparr>"

definition mark_receive_close :: "('tx, 'wr) task \<Rightarrow> ('tx, 'wr) task" where
  "mark_receive_close t = t\<lparr>receive_close_sent := True\<rparr>"

definition mark_receive_finish :: "('tx, 'wr) task \<Rightarrow> ('tx, 'wr) task" where
  "mark_receive_finish t = t\<lparr>receive_finish_sent := True\<rparr>"

definition mark_send_finish :: "('tx, 'wr) task \<Rightarrow> ('tx, 'wr) task" where
  "mark_send_finish t = t\<lparr>send_finish_sent := True\<rparr>"

definition consumed_msg :: "('tx, 'wr) task \<Rightarrow> reliable_msg" where
  "consumed_msg t = Consumed (of_nat (consumed_since_last_ack t))"

text \<open>Data, or becoming idle: the last branches of \<open>TxReady\<close>.\<close>

definition tx_ready_data ::
  "'tx sink \<Rightarrow> 'wr write_ops \<Rightarrow> instant \<Rightarrow> wait \<Rightarrow> nat \<Rightarrow> ('tx, 'wr) task \<Rightarrow> ('tx, 'wr) task option" where
  "tx_ready_data S M now w i t = do {
     l \<leftarrow> get_link t i;
     (d, t) \<leftarrow> take_write M w l t;
     (case d of
        Some d \<Rightarrow> send_reliable S now i (Data d) (\<lambda>t. t) t
      | None \<Rightarrow>
          if needs_flush l \<and> \<not> is_sendable l then flush_link now i t
          else if i \<notin> set (idle_links t) then
            Some (put_link i (link_mark_idle now l) (t\<lparr>idle_links := idle_links t @ [i]\<rparr>))
          else Some t)
   }"

text \<open>Reliable messages over a confirmed link, by priority.\<close>

definition tx_ready_reliable ::
  "'tx sink \<Rightarrow> 'wr write_ops \<Rightarrow> instant \<Rightarrow> wait \<Rightarrow> nat \<Rightarrow> ('tx, 'wr) task \<Rightarrow> ('tx, 'wr) task option" where
  "tx_ready_reliable S M now w i t = do {
     l \<leftarrow> get_link t i;
     (if w_consume_ack w then send_reliable S now i (consumed_msg t) mark_sent_consumed t
      else if w_resending w \<and> is_sendable l \<and> Some (lk_link_id l) \<noteq> w_non_resendable w then
        (case resend_queue t of
           p # ps \<Rightarrow> resend_reliable_over_link S now i p (idle_remove i (t\<lparr>resend_queue := ps\<rparr>))
         | [] \<Rightarrow> None)
      else if \<not> read_closed_rx t \<and> \<not> receive_close_sent t then
        send_reliable S now i ReceiveClose mark_receive_close t
      else if \<not> read_tx t \<and> \<not> receive_finish_sent t then
        send_reliable S now i ReceiveFinish mark_receive_finish t
      else if write_rx t = None \<and> \<not> send_finish_sent t then
        send_reliable S now i SendFinish mark_send_finish t
      else tx_ready_data S M now w i t)
   }"

definition tx_ready ::
  "'tx sink \<Rightarrow> 'wr write_ops \<Rightarrow> instant \<Rightarrow> wait \<Rightarrow> nat \<Rightarrow> ('tx, 'wr) task \<Rightarrow> ('tx, 'wr) task option" where
  "tx_ready S M now w i t = do {
     l \<leftarrow> get_link t i;
     (if needs_tx_accepted l then send_link_msg S now i Accepted (\<lambda>l. l\<lparr>needs_tx_accepted := False\<rparr>) t
      else if send_pong l then send_link_msg S now i Pong (\<lambda>l. l\<lparr>send_pong := False\<rparr>) t
      else if disconnecting l \<noteq> None then
        (if \<not> goodbye_sent l then send_link_msg S now i Goodbye (\<lambda>l. l\<lparr>goodbye_sent := True\<rparr>) t
         else if disconnecting l = Some Remote then remove_link now i RemotelyRequested t
         else Some t)
      else if send_ping l then
        send_link_msg S now i Ping (\<lambda>l. l\<lparr>current_ping_sent := Some now, send_ping := False\<rparr>) t
      else if blocked l \<noteq> blocked_sent l then
        send_link_msg S now i (SetBlock (blocked l)) (\<lambda>l'. l'\<lparr>blocked_sent := blocked l\<rparr>) t
      else (case tx_ack_queue l of
          s # ss \<Rightarrow> send_link_msg S now i (Ack s) (\<lambda>l. l) (put_link i (l\<lparr>tx_ack_queue := ss\<rparr>) t)
        | [] \<Rightarrow>
            if lk_unconfirmed l = None \<and> \<not> is_blocked l then tx_ready_reliable S M now w i t
            else if needs_flush l \<or> need_ack_flush l then flush_link now i t
            else Some t))
   }"

section \<open>Handling events\<close>

text \<open>\<open>Inl\<close> leaves the loop.\<close>

type_synonym ('tx, 'wr) flow = "(outcome + unit) \<times> ('tx, 'wr) task"

definition continue :: "('tx, 'wr) task option \<Rightarrow> ('tx, 'wr) flow option" where
  "continue r = map_option (\<lambda>t. (Inr (), t)) r"

definition handle_link_rx ::
  "'tx sink \<Rightarrow> instant \<Rightarrow> nat \<Rightarrow> link_id \<Rightarrow> link_msg \<Rightarrow> bytes option \<Rightarrow> ('tx, 'wr) task \<Rightarrow>
   ('tx, 'wr) flow option" where
  "handle_link_rx S now i lid msg d t = do {
     (res, t) \<leftarrow> handle_received_msg S now i msg d t;
     (case res of
        Inr False \<Rightarrow> Some (Inr (), t)
      | Inr True \<Rightarrow> Some (Inl (terminated_outcome Reply), t)
      | Inl e \<Rightarrow> do { _ \<leftarrow> get_link t i; Some (Inl (protocol_outcome lid e), t) })
   }"

definition link_failed :: "instant \<Rightarrow> nat \<Rightarrow> io_error \<Rightarrow> ('tx, 'wr) task \<Rightarrow> ('tx, 'wr) task option" where
  "link_failed now i e t =
     remove_link now i (if \<not> read_tx t \<and> write_rx t = None then ConnectionClosed else DIoError e) t"

definition local_disconnect :: "instant \<Rightarrow> nat \<Rightarrow> ('tx, 'wr) task \<Rightarrow> ('tx, 'wr) task option" where
  "local_disconnect now i t = do {
     l \<leftarrow> get_link t i;
     (if disconnecting l = None then
        unconfirm_link now i Disconnecting (put_link i (l\<lparr>disconnecting := Some Local\<rparr>) t)
      else Some t)
   }"

definition handle_link_event ::
  "'tx sink \<Rightarrow> 'wr write_ops \<Rightarrow> instant \<Rightarrow> wait \<Rightarrow> nat \<Rightarrow> link_event \<Rightarrow> ('tx, 'wr) task \<Rightarrow>
   ('tx, 'wr) flow option" where
  "handle_link_event S M now w i e t = do {
     l \<leftarrow> get_link t i;
     (case e of
        TxReady \<Rightarrow> continue (tx_ready S M now w i t)
      | TxFlushed \<Rightarrow> Some (Inr (), t\<lparr>unflushed_links := unflushed_links t - {i}\<rparr>)
      | Rx msg d \<Rightarrow> handle_link_rx S now i (lk_link_id l) msg d t
      | FlushRequired \<Rightarrow> continue (flush_link now i t)
      | TxError err \<Rightarrow> continue (link_failed now i err t)
      | RxError err \<Rightarrow> continue (link_failed now i err t)
      | BlockedChanged \<Rightarrow> Some (Inr (), put_link i (report_ready now l) (idle_remove i t))
      | LinkCfgChanged \<Rightarrow> Some (Inr (), put_link i (update_link_cfg l) t)
      | Disconnect \<Rightarrow> continue (local_disconnect now i t))
   }"

definition handle_new_link :: "instant \<Rightarrow> 'tx link_int \<Rightarrow> bool \<Rightarrow> ('tx, 'wr) task \<Rightarrow> ('tx, 'wr) task" where
  "handle_new_link now l accepted t =
     (let t = (if t_remote_cfg t = None then t\<lparr>t_remote_cfg := Some (lk_remote_cfg l)\<rparr> else t) in
      if accepted then snd (add_link now l t)
      else if needs_tx_accepted l then t\<lparr>refused_links := refused_links t @ [l]\<rparr>
      else notify_disconnected l LinkFilter t)"

text \<open>The loop of a flush request: every confirmed link is flushed.\<close>

fun flush_all ::
  "instant \<Rightarrow> (pid \<Rightarrow> bool) \<Rightarrow> nat \<Rightarrow> 'tx link_int option list \<Rightarrow> store \<Rightarrow>
   'tx link_int option list \<times> nat list \<times> store" where
  "flush_all now live i [] st = ([], [], st)"
| "flush_all now live i (lo # ls) st =
     (case lo of
        Some l \<Rightarrow>
          if lk_unconfirmed l = None then
            (let (l, st) = start_flush now live st l;
                 (ls, is, st) = flush_all now live (Suc i) ls st
             in (Some l # ls, i # is, st))
          else (let (ls, is, st) = flush_all now live (Suc i) ls st in (lo # ls, is, st))
      | None \<Rightarrow> (let (ls, is, st) = flush_all now live (Suc i) ls st in (lo # ls, is, st)))"

definition handle_flush :: "instant \<Rightarrow> nat \<Rightarrow> ('tx, 'wr) task \<Rightarrow> ('tx, 'wr) task" where
  "handle_flush now r t =
     (let (ls, is, st) = flush_all now (task_live t) 0 (t_links t) (t_store t)
      in t\<lparr>t_links := ls, t_store := st, unflushed_links := set is,
           idle_links := filter (\<lambda>i. i \<notin> set is) (idle_links t),
           flushed_tx := Some r\<rparr>)"

text \<open>Sending over the link that became idle last, if there is one.\<close>

definition send_over_idle ::
  "'tx sink \<Rightarrow> instant \<Rightarrow> reliable_msg \<Rightarrow> (('tx, 'wr) task \<Rightarrow> ('tx, 'wr) task) \<Rightarrow> ('tx, 'wr) task \<Rightarrow>
   ('tx, 'wr) task option" where
  "send_over_idle S now m upd t =
     (if idle_links t = [] then Some t
      else do {
        let i = last (idle_links t);
        (_, t) \<leftarrow> send_reliable_over_link S now i m (t\<lparr>idle_links := butlast (idle_links t)\<rparr>);
        Some (upd t)
      })"

definition send_consumed :: "'tx sink \<Rightarrow> instant \<Rightarrow> ('tx, 'wr) task \<Rightarrow> ('tx, 'wr) task option" where
  "send_consumed S now t = do {
     assert_that (idle_links t \<noteq> []);
     send_over_idle S now (consumed_msg t) mark_sent_consumed t
   }"

definition consume_received ::
  "received_msg \<Rightarrow> bool \<Rightarrow> ('tx, 'wr) task \<Rightarrow> ('tx, 'wr) task option" where
  "consume_received m permit t =
     (case rm_msg m of
        Data d \<Rightarrow> do {
          sz \<leftarrow> checked_sub (rxed_reliable_size t) (length d);
          let t = t\<lparr>rxed_reliable_size := sz,
                    consumed_since_last_ack := consumed_since_last_ack t + length d\<rparr>;
          Some (if permit then t\<lparr>delivered := delivered t @ [d]\<rparr> else t)
        }
      | SendFinish \<Rightarrow> Some (t\<lparr>read_error := None, read_tx := False, receive_finish_sent := True\<rparr>)
      | _ \<Rightarrow> None)"

definition ping_link :: "instant \<Rightarrow> nat \<Rightarrow> ('tx, 'wr) task \<Rightarrow> ('tx, 'wr) task option" where
  "ping_link now i t = do {
     l \<leftarrow> get_link t i;
     flush_link now i (put_link i (l\<lparr>send_ping := True\<rparr>) t)
   }"

definition handle_event ::
  "'tx sink \<Rightarrow> 'wr write_ops \<Rightarrow> instant \<Rightarrow> wait \<Rightarrow> 'tx task_event \<Rightarrow> ('tx, 'wr) task \<Rightarrow>
   ('tx, 'wr) flow option" where
  "handle_event S M now w ev t =
     (case ev of
        EvTerminate \<Rightarrow> Some (Inl (terminated_outcome Initiate), t)
      | NewLink l accepted \<Rightarrow> Some (Inr (), handle_new_link now l accepted t)
      | NoNewLinks \<Rightarrow> Some (Inr (), t\<lparr>link_rx := False\<rparr>)
      | LinkEvent i e \<Rightarrow> handle_link_event S M now w i e t
      | WriteRx i d \<Rightarrow> continue (send_reliable S now i (Data d) (\<lambda>t. t) t)
      | SendConsumed \<Rightarrow> continue (send_consumed S now t)
      | WriteEnd \<Rightarrow> continue (send_over_idle S now SendFinish mark_send_finish (t\<lparr>write_rx := None\<rparr>))
      | EvFlush r \<Rightarrow> Some (Inr (), handle_flush now r t)
      | ConfirmTimedOut i \<Rightarrow> continue (unconfirm_link now i AckTimeout t)
      | EvResend p \<Rightarrow>
          continue (do {
            i \<leftarrow> w_resendable w;
            resend_reliable_over_link S now i p (idle_remove i t)
          })
      | ReadDropped \<Rightarrow>
          continue (send_over_idle S now ReceiveFinish mark_receive_finish
            (t\<lparr>read_tx := False, read_closed_rx := False\<rparr>))
      | ReadClosed \<Rightarrow>
          continue (send_over_idle S now ReceiveClose mark_receive_close (t\<lparr>read_closed_rx := False\<rparr>))
      | ConsumeReceived m permit \<Rightarrow> continue (consume_received m permit t)
      | PingLink i \<Rightarrow> continue (ping_link now i t)
      | LinkPingTimeout i \<Rightarrow> continue (remove_link now i PingTimeout t)
      | LinkUnconfirmedTimeout i \<Rightarrow> continue (remove_link now i UnconfirmedTimeout t)
      | LinkSendTimeout i \<Rightarrow> continue (remove_link now i SendTimeout t)
      | LinkTesting \<Rightarrow> Some (Inr (), t)
      | NoLinksTimeout \<Rightarrow> Some (Inl links_timeout_outcome, t)
      | PublishLinkStats \<Rightarrow> Some (Inr (), map_links (publish_stats now) t)
      | RefusedLinkTask \<Rightarrow> Some (Inr (), t)
      | FatalConnectError e \<Rightarrow> Some (Inl (fatal_outcome e), t))"

section \<open>The loop\<close>

datatype ('tx, 'wr) phase =
    Top "('tx, 'wr) task"
  | Waiting wait "('tx, 'wr) task"
  | Stopped outcome "('tx, 'wr) task"
  | Panicked

text \<open>After handling an event the loop starts over or ends.\<close>

definition after_event :: "('tx, 'wr) flow option \<Rightarrow> ('tx, 'wr) phase" where
  "after_event r =
     (case r of
        None \<Rightarrow> Panicked
      | Some (Inr _, t) \<Rightarrow> Top t
      | Some (Inl oc, t) \<Rightarrow> Stopped oc (task_finish oc t))"

definition after_top :: "((outcome + wait) \<times> ('tx, 'wr) task) option \<Rightarrow> ('tx, 'wr) phase" where
  "after_top r =
     (case r of
        None \<Rightarrow> Panicked
      | Some (Inr w, t) \<Rightarrow> Waiting w t
      | Some (Inl oc, t) \<Rightarrow> Stopped oc (task_finish oc t))"

inductive task_step ::
  "'tx sink \<Rightarrow> 'wr write_ops \<Rightarrow> ('tx, 'wr) phase \<Rightarrow> ('tx, 'wr) phase \<Rightarrow> bool"
  for S :: "'tx sink" and M :: "'wr write_ops" where
  st_top: "task_step S M (Top t) (after_top (loop_top S M now t))"
| st_event: "task_emits S M now w t ev t' \<Longrightarrow>
    task_step S M (Waiting w t) (after_event (handle_event S M now w ev t'))"
| st_poll_write: "write_task M w t = Some (None, t') \<Longrightarrow> task_step S M (Waiting w t) (Waiting w t')"
| st_poll_link: "get_link t i = Some l \<Longrightarrow> event_check l = (None, l) \<Longrightarrow>
    tx_task S now l = Some (TxPending, l') \<Longrightarrow> task_step S M (Waiting w t) (Waiting w (put_link i l' t))"
| st_poll_rx: "get_link t i = Some l \<Longrightarrow> event_check l = (None, l) \<Longrightarrow>
    rx_item l item = (None, l') \<Longrightarrow> task_step S M (Waiting w t) (Waiting w (put_link i l' t))"
| st_tx_panic: "get_link t i = Some l \<Longrightarrow> event_check l = (None, l) \<Longrightarrow> tx_task S now l = None \<Longrightarrow>
    task_step S M (Waiting w t) Panicked"
| st_resend_panic: "w_resending w \<Longrightarrow> w_resendable w \<noteq> None \<Longrightarrow> resend_queue t = [] \<Longrightarrow>
    task_step S M (Waiting w t) Panicked"
| st_write_panic: "write_task M w t = None \<Longrightarrow> task_step S M (Waiting w t) Panicked"

end
