(* ===== verification/Ledger.thy ===== *)
theory Ledger
  imports Link_Int
begin

text \<open>
  The specification of reliable transmission: a ledger of the packets in flight.

  The ledger lists every packet ever numbered, in the order of the numbers, with its state: sent
  over a link, queued for resending, or received.  \<open>g_txed\<close> are the packets the task still holds,
  \<open>g_rq\<close> the resend queue, and the counters are those of the task and of its links.  The invariant
  \<open>ledger_inv\<close> says that the counters are the sums they stand for, that the resend queue holds
  exactly the packets that wait to be sent again, and that a packet the task no longer holds was
  received.  Each operation of the specification preserves it; the theory of the task shows that
  the code implements these operations.
\<close>

section \<open>The ledger\<close>

record ledger =
  g_next :: seq
  g_seqs :: "seq list"
  g_pkts :: "pkt list"
  g_txed :: "pid list"
  g_rq :: "pid list"
  g_unacked :: usize
  g_unconsumable :: usize
  g_link :: "nat \<Rightarrow> (link_id \<times> usize) option"

fun unacked_sz :: "pkt \<Rightarrow> nat" where
  "unacked_sz (PSent _ _ m) = msg_size m"
| "unacked_sz (PQueued m _) = msg_size m"
| "unacked_sz (PReceived _) = 0"

fun received_sz :: "pkt \<Rightarrow> nat" where
  "received_sz (PReceived n) = n"
| "received_sz _ = 0"

fun sent_sz :: "nat \<Rightarrow> pkt \<Rightarrow> nat" where
  "sent_sz i (PSent j _ m) = (if j = i then msg_size m else 0)"
| "sent_sz i _ = 0"

fun is_queued :: "pkt \<Rightarrow> bool" where
  "is_queued (PQueued _ _) = True"
| "is_queued _ = False"

fun is_received :: "pkt \<Rightarrow> bool" where
  "is_received (PReceived _) = True"
| "is_received _ = False"

fun sent_on :: "nat \<Rightarrow> pkt \<Rightarrow> bool" where
  "sent_on i (PSent j _ _) \<longleftrightarrow> j = i"
| "sent_on i _ \<longleftrightarrow> False"

fun carries :: "pkt \<Rightarrow> reliable_msg option" where
  "carries (PSent _ _ m) = Some m"
| "carries (PQueued m _) = Some m"
| "carries (PReceived _) = None"

text \<open>Sum of a measure over the packets in flight.\<close>

definition tally :: "(pkt \<Rightarrow> nat) \<Rightarrow> pkt list \<Rightarrow> pid list \<Rightarrow> nat" where
  "tally f pk ps = (\<Sum>p\<leftarrow>ps. f (pk ! p))"

definition ledger_inv :: "ledger \<Rightarrow> bool" where
  "ledger_inv g \<longleftrightarrow>
     g_next g = seq_of (length (g_pkts g)) \<and>
     g_seqs g = map seq_of [0..<length (g_pkts g)] \<and>
     (\<exists>lo \<le> length (g_pkts g). g_txed g = [lo..<length (g_pkts g)]) \<and>
     distinct (g_rq g) \<and>
     set (g_rq g) = {p \<in> set (g_txed g). is_queued (g_pkts g ! p)} \<and>
     g_unacked g = tally unacked_sz (g_pkts g) (g_txed g) \<and>
     g_unconsumable g = tally received_sz (g_pkts g) (g_txed g) \<and>
     (\<forall>i lid u. g_link g i = Some (lid, u) \<longrightarrow> u = tally (sent_sz i) (g_pkts g) (g_txed g)) \<and>
     (\<forall>p \<in> set (g_txed g). \<forall>i lid m. g_pkts g ! p = PSent i lid m \<longrightarrow> (\<exists>u. g_link g i = Some (lid, u))) \<and>
     (\<forall>p < length (g_pkts g). p \<notin> set (g_txed g) \<longrightarrow> is_received (g_pkts g ! p))"

text \<open>
  What may happen to the packets of a ledger: their messages stay, until they are received.
\<close>

definition evolves :: "pkt list \<Rightarrow> pkt list \<Rightarrow> bool" where
  "evolves pk pk' \<longleftrightarrow> length pk \<le> length pk' \<and>
     (\<forall>p < length pk. is_received (pk' ! p) \<or> (\<not> is_received (pk ! p) \<and> carries (pk' ! p) = carries (pk ! p)))"

text \<open>The same without any acknowledgement: no packet becomes received, and the new ones are in flight.\<close>

definition advances :: "pkt list \<Rightarrow> pkt list \<Rightarrow> bool" where
  "advances pk pk' \<longleftrightarrow> length pk \<le> length pk' \<and>
     (\<forall>p < length pk. carries (pk' ! p) = carries (pk ! p)) \<and>
     (\<forall>p < length pk'. length pk \<le> p \<longrightarrow> carries (pk' ! p) \<noteq> None)"

section \<open>Operations\<close>

definition led_link :: "nat \<Rightarrow> usize \<Rightarrow> ledger \<Rightarrow> ledger" where
  "led_link i u g = g\<lparr>g_link := (g_link g)(i := map_option (\<lambda>(lid, _). (lid, u)) (g_link g i))\<rparr>"

definition led_send :: "nat \<Rightarrow> reliable_msg \<Rightarrow> ledger \<Rightarrow> ledger" where
  "led_send i m g =
     (case g_link g i of
        Some (lid, u) \<Rightarrow>
          led_link i (u + msg_size m)
            (g\<lparr>g_next := seq_add_u32 (g_next g) 1,
               g_seqs := g_seqs g @ [g_next g],
               g_pkts := g_pkts g @ [PSent i lid m],
               g_txed := g_txed g @ [length (g_pkts g)],
               g_unacked := g_unacked g + msg_size m\<rparr>)
      | None \<Rightarrow> g)"

text \<open>The first packet of the resend queue is sent over link \<open>i\<close>.\<close>

definition led_resend :: "nat \<Rightarrow> ledger \<Rightarrow> ledger" where
  "led_resend i g =
     (case (g_rq g, g_link g i) of
        (p # ps, Some (lid, u)) \<Rightarrow>
          (case g_pkts g ! p of
             PQueued m _ \<Rightarrow>
               led_link i (u + msg_size m) (g\<lparr>g_rq := ps, g_pkts := (g_pkts g)[p := PSent i lid m]\<rparr>)
           | _ \<Rightarrow> g)
      | _ \<Rightarrow> g)"

text \<open>Packet \<open>p\<close> is acknowledged.\<close>

definition led_receive :: "pid \<Rightarrow> ledger \<Rightarrow> ledger" where
  "led_receive p g =
     (case g_pkts g ! p of
        PSent i lid m \<Rightarrow>
          led_link i (case g_link g i of Some (_, u) \<Rightarrow> u - msg_size m | None \<Rightarrow> 0)
            (g\<lparr>g_pkts := (g_pkts g)[p := PReceived (msg_size m)],
               g_unacked := g_unacked g - msg_size m,
               g_unconsumable := g_unconsumable g + msg_size m\<rparr>)
      | PQueued m _ \<Rightarrow>
          g\<lparr>g_pkts := (g_pkts g)[p := PReceived (msg_size m)],
            g_rq := filter (\<lambda>q. q \<noteq> p) (g_rq g),
            g_unacked := g_unacked g - msg_size m,
            g_unconsumable := g_unconsumable g + msg_size m\<rparr>
      | PReceived _ \<Rightarrow> g)"

text \<open>The received packets at the front are released.\<close>

definition led_swipe :: "ledger \<Rightarrow> ledger" where
  "led_swipe g =
     (let rel = takeWhile (\<lambda>p. is_received (g_pkts g ! p)) (g_txed g) in
      g\<lparr>g_txed := dropWhile (\<lambda>p. is_received (g_pkts g ! p)) (g_txed g),
        g_unconsumable := g_unconsumable g - tally received_sz (g_pkts g) rel\<rparr>)"

text \<open>All packets sent over link \<open>i\<close> are queued for resending; the order of the queue is \<open>rq\<close>.\<close>

fun requeue :: "nat \<Rightarrow> pkt \<Rightarrow> pkt" where
  "requeue i (PSent j lid m) = (if j = i then PQueued m lid else PSent j lid m)"
| "requeue i pk = pk"

definition requeue_all :: "nat \<Rightarrow> pid list \<Rightarrow> pkt list \<Rightarrow> pkt list" where
  "requeue_all i ps pk =
     map (\<lambda>p. if p \<in> set ps then requeue i (pk ! p) else pk ! p) [0..<length pk]"

definition led_requeue :: "nat \<Rightarrow> pid list \<Rightarrow> ledger \<Rightarrow> ledger" where
  "led_requeue i rq g =
     led_link i 0 (g\<lparr>g_pkts := requeue_all i (g_txed g) (g_pkts g), g_rq := rq\<rparr>)"

definition led_add :: "nat \<Rightarrow> link_id \<Rightarrow> ledger \<Rightarrow> ledger" where
  "led_add i lid g = g\<lparr>g_link := (g_link g)(i \<mapsto> (lid, 0))\<rparr>"

definition led_remove :: "nat \<Rightarrow> ledger \<Rightarrow> ledger" where
  "led_remove i g = g\<lparr>g_link := (g_link g)(i := None)\<rparr>"

section \<open>Tallies\<close>

lemma tally_Nil [simp]: "tally f pk [] = 0"
  by (simp add: tally_def)

lemma tally_Cons [simp]: "tally f pk (p # ps) = f (pk ! p) + tally f pk ps"
  by (simp add: tally_def)

lemma tally_append [simp]: "tally f pk (ps @ qs) = tally f pk ps + tally f pk qs"
  by (simp add: tally_def)

lemma tally_cong: "(\<And>p. p \<in> set ps \<Longrightarrow> f (pk ! p) = f' (pk' ! p)) \<Longrightarrow> tally f pk ps = tally f' pk' ps"
  unfolding tally_def by (rule arg_cong [of _ _ sum_list]) simp

lemma tally_snoc_pkts:
  "(\<And>p. p \<in> set ps \<Longrightarrow> p < length pk) \<Longrightarrow> tally f (pk @ [x]) ps = tally f pk ps"
  by (rule tally_cong) (simp add: nth_append)

lemma tally_member: "p \<in> set ps \<Longrightarrow> f (pk ! p) \<le> tally f pk ps"
  unfolding tally_def by (induction ps) auto

lemma tally_update:
  assumes "distinct ps" and "p \<in> set ps" and "p < length pk"
  shows "tally f (pk[p := x]) ps + f (pk ! p) = tally f pk ps + f x"
  using assms
proof (induction ps)
  case (Cons q qs)
  show ?case
  proof (cases "q = p")
    case True
    then have "tally f (pk[p := x]) qs = tally f pk qs"
      using Cons.prems by (intro tally_cong) (auto simp: nth_list_update)
    then show ?thesis using True Cons.prems by simp
  next
    case False
    then show ?thesis using Cons by simp
  qed
qed simp

lemma tally_zero: "(\<And>p. p \<in> set ps \<Longrightarrow> f (pk ! p) = 0) \<Longrightarrow> tally f pk ps = 0"
  unfolding tally_def by (induction ps) auto

section \<open>Facts of the invariant\<close>

lemma ledger_invD:
  assumes "ledger_inv g"
  shows "distinct (g_txed g)" and "p \<in> set (g_txed g) \<Longrightarrow> p < length (g_pkts g)"
    and "p \<in> set (g_rq g) \<Longrightarrow> p \<in> set (g_txed g) \<and> is_queued (g_pkts g ! p)"
    and "p < length (g_pkts g) \<Longrightarrow> \<not> is_received (g_pkts g ! p) \<Longrightarrow> p \<in> set (g_txed g)"
    and "g_link g i = Some (lid, u) \<Longrightarrow> u = tally (sent_sz i) (g_pkts g) (g_txed g)"
  using assms unfolding ledger_inv_def by auto

lemma ledger_sent_link:
  "ledger_inv g \<Longrightarrow> p \<in> set (g_txed g) \<Longrightarrow> g_pkts g ! p = PSent i lid m \<Longrightarrow> \<exists>u. g_link g i = Some (lid, u)"
  unfolding ledger_inv_def by blast

lemma is_queued_iff: "is_queued k \<longleftrightarrow> (\<exists>m lid. k = PQueued m lid)"
  by (cases k) auto

lemma is_received_iff: "is_received k \<longleftrightarrow> (\<exists>n. k = PReceived n)"
  by (cases k) auto

text \<open>A counter of the ledger is large enough for every packet it counts.\<close>

lemma ledger_sent_le:
  assumes "ledger_inv g" and "p \<in> set (g_txed g)" and "g_pkts g ! p = PSent i lid m"
  shows "\<exists>u. g_link g i = Some (lid, u) \<and> msg_size m \<le> u" and "msg_size m \<le> g_unacked g"
proof -
  from assms obtain u where u: "g_link g i = Some (lid, u)" unfolding ledger_inv_def by blast
  with ledger_invD(5) [OF assms(1) u] tally_member [OF assms(2), of "sent_sz i" "g_pkts g"] assms(3)
  show "\<exists>u. g_link g i = Some (lid, u) \<and> msg_size m \<le> u" by auto
  show "msg_size m \<le> g_unacked g"
    using assms tally_member [OF assms(2), of unacked_sz "g_pkts g"] unfolding ledger_inv_def by auto
qed

lemma ledger_queued_le:
  assumes "ledger_inv g" and "p \<in> set (g_txed g)" and "g_pkts g ! p = PQueued m lid"
  shows "msg_size m \<le> g_unacked g"
  using assms tally_member [OF assms(2), of unacked_sz "g_pkts g"] unfolding ledger_inv_def by auto

section \<open>Preservation\<close>

lemma led_send_inv:
  assumes inv: "ledger_inv g" and l: "g_link g i = Some (lid, u)"
  shows "ledger_inv (led_send i m g)"
proof -
  let ?n = "length (g_pkts g)" and ?k = "PSent i lid m"
  obtain lo where lo: "lo \<le> ?n" "g_txed g = [lo..<?n]" using inv unfolding ledger_inv_def by blast
  have t: "tally f (g_pkts g @ [?k]) (g_txed g) = tally f (g_pkts g) (g_txed g)" for f
    by (rule tally_snoc_pkts) (use lo in auto)
  have nth: "(g_pkts g @ [?k]) ! p = g_pkts g ! p" if "p \<in> set (g_txed g)" for p
    using that lo by (simp add: nth_append)
  have rq: "{p. (lo \<le> p \<and> p \<le> ?n) \<and> is_queued ((g_pkts g @ [?k]) ! p)} = set (g_rq g)"
    using inv lo unfolding ledger_inv_def by (auto simp: nth_append le_less)
  have sent: "\<exists>u'. ((g_link g)(i \<mapsto> (lid, u + msg_size m))) j = Some (lid', u')"
    if "p \<in> set (g_txed g) \<union> {?n}" "(g_pkts g @ [?k]) ! p = PSent j lid' m'" for p j lid' m'
    using that ledger_sent_link [OF inv, of p j lid' m'] l lo by (auto simp: nth_append split: if_splits)
  show ?thesis
    using inv l lo t rq sent unfolding ledger_inv_def led_send_def led_link_def
    by (auto simp: nth_append less_Suc_eq)
qed

lemma led_resend_inv:
  assumes inv: "ledger_inv g" and l: "g_link g i = Some (lid, u)" and rq: "g_rq g = p # ps"
    and k: "g_pkts g ! p = PQueued m lid0"
  shows "ledger_inv (led_resend i g)"
proof -
  let ?k = "PSent i lid m"
  have p: "p \<in> set (g_txed g)" "p < length (g_pkts g)"
    using inv rq ledger_invD(2,3) [OF inv, of p] by auto
  note upd = tally_update [OF ledger_invD(1) [OF inv] p, of _ ?k]
  have t: "tally unacked_sz ((g_pkts g)[p := ?k]) (g_txed g) = tally unacked_sz (g_pkts g) (g_txed g)"
    "tally received_sz ((g_pkts g)[p := ?k]) (g_txed g) = tally received_sz (g_pkts g) (g_txed g)"
    "tally (sent_sz j) ((g_pkts g)[p := ?k]) (g_txed g) =
       tally (sent_sz j) (g_pkts g) (g_txed g) + (if j = i then msg_size m else 0)" for j
    using upd [of unacked_sz] upd [of received_sz] upd [of "sent_sz j"] k by auto
  have rq': "{q \<in> set (g_txed g). is_queued ((g_pkts g)[p := ?k] ! q)} = set ps"
    using inv rq p unfolding ledger_inv_def by (auto simp: nth_list_update split: if_splits)
  show ?thesis
    using inv l rq k p t rq' unfolding ledger_inv_def led_resend_def led_link_def
    by (auto simp: nth_list_update)
qed

lemma led_receive_inv:
  assumes inv: "ledger_inv g" and p: "p \<in> set (g_txed g)"
  shows "ledger_inv (led_receive p g)"
proof -
  have pl: "p < length (g_pkts g)" by (rule ledger_invD(2) [OF inv p])
  note upd = tally_update [OF ledger_invD(1) [OF inv] p pl]
  show ?thesis
  proof (cases "g_pkts g ! p")
    case (PSent i lid m)
    let ?k = "PReceived (msg_size m)"
    obtain u where u: "g_link g i = Some (lid, u)" "msg_size m \<le> u"
      using ledger_sent_le(1) [OF inv p PSent] by blast
    note un = ledger_sent_le(2) [OF inv p PSent]
    have t: "tally unacked_sz ((g_pkts g)[p := ?k]) (g_txed g) = g_unacked g - msg_size m"
      "tally received_sz ((g_pkts g)[p := ?k]) (g_txed g) = g_unconsumable g + msg_size m"
      "tally (sent_sz j) ((g_pkts g)[p := ?k]) (g_txed g) =
         tally (sent_sz j) (g_pkts g) (g_txed g) - (if j = i then msg_size m else 0)" for j
      using upd [of unacked_sz ?k] upd [of received_sz ?k] upd [of "sent_sz j" ?k] PSent inv
      unfolding ledger_inv_def by auto
    have "{q \<in> set (g_txed g). is_queued ((g_pkts g)[p := ?k] ! q)} = set (g_rq g)"
      using inv pl PSent unfolding ledger_inv_def by (auto simp: nth_list_update split: if_splits)
    then show ?thesis
      using inv p pl PSent u un t unfolding ledger_inv_def led_receive_def led_link_def
      by (auto simp: nth_list_update)
  next
    case (PQueued m lid)
    let ?k = "PReceived (msg_size m)"
    note un = ledger_queued_le [OF inv p PQueued]
    have t: "tally unacked_sz ((g_pkts g)[p := ?k]) (g_txed g) = g_unacked g - msg_size m"
      "tally received_sz ((g_pkts g)[p := ?k]) (g_txed g) = g_unconsumable g + msg_size m"
      "tally (sent_sz j) ((g_pkts g)[p := ?k]) (g_txed g) = tally (sent_sz j) (g_pkts g) (g_txed g)" for j
      using upd [of unacked_sz ?k] upd [of received_sz ?k] upd [of "sent_sz j" ?k] PQueued inv
      unfolding ledger_inv_def by auto
    have "{q \<in> set (g_txed g). is_queued ((g_pkts g)[p := ?k] ! q)} = set (filter (\<lambda>q. q \<noteq> p) (g_rq g))"
      using inv pl unfolding ledger_inv_def by (auto simp: nth_list_update split: if_splits)
    then show ?thesis
      using inv p pl PQueued un t unfolding ledger_inv_def led_receive_def
      by (auto simp: nth_list_update)
  next
    case (PReceived n)
    then show ?thesis using inv by (simp add: led_receive_def)
  qed
qed

lemma led_swipe_inv:
  assumes inv: "ledger_inv g"
  shows "ledger_inv (led_swipe g)"
proof -
  let ?n = "length (g_pkts g)" and ?P = "\<lambda>p. is_received (g_pkts g ! p)"
  obtain lo where lo: "lo \<le> ?n" "g_txed g = [lo..<?n]" using inv unfolding ledger_inv_def by blast
  define rel where "rel = takeWhile ?P (g_txed g)"
  define rest where "rest = dropWhile ?P (g_txed g)"
  have split: "g_txed g = rel @ rest" by (simp add: rel_def rest_def)
  have rest: "rest = [lo + length rel..<?n]" "lo + length rel \<le> ?n"
  proof -
    have "rest = drop (length rel) (g_txed g)" by (simp add: split)
    then show "rest = [lo + length rel..<?n]" by (simp add: lo(2) drop_upt)
    have "length rel \<le> length (g_txed g)" by (simp add: split)
    then show "lo + length rel \<le> ?n" using lo by simp
  qed
  have recv: "?P p" if "p \<in> set rel" for p using that by (auto simp: rel_def dest: set_takeWhileD)
  have zero: "tally unacked_sz (g_pkts g) rel = 0" "tally (sent_sz j) (g_pkts g) rel = 0" for j
    by (intro tally_zero; use recv in \<open>fastforce simp: is_received_iff\<close>)+
  have nq: "\<not> is_queued (g_pkts g ! p)" if "p \<in> set rel" for p
    using recv [OF that] by (cases "g_pkts g ! p") auto
  have "set (g_rq g) = {p \<in> set rest. is_queued (g_pkts g ! p)}"
    using inv nq split unfolding ledger_inv_def by auto
  moreover have "\<forall>p < ?n. p \<notin> set rest \<longrightarrow> ?P p"
    using inv recv split unfolding ledger_inv_def by auto
  moreover have "led_swipe g = g\<lparr>g_txed := rest, g_unconsumable := g_unconsumable g - tally received_sz (g_pkts g) rel\<rparr>"
    by (simp add: led_swipe_def rel_def rest_def Let_def)
  moreover have "\<forall>p \<in> set rest. \<forall>i lid m. g_pkts g ! p = PSent i lid m \<longrightarrow> (\<exists>u. g_link g i = Some (lid, u))"
    using ledger_sent_link [OF inv] split by fastforce
  ultimately show ?thesis
    using inv zero rest unfolding ledger_inv_def by (auto simp: split)
qed

lemma length_requeue_all [simp]: "length (requeue_all i ps pk) = length pk"
  by (simp add: requeue_all_def)

lemma nth_requeue_all:
  "p < length pk \<Longrightarrow> requeue_all i ps pk ! p = (if p \<in> set ps then requeue i (pk ! p) else pk ! p)"
  by (simp add: requeue_all_def)

lemma requeue_simps [simp]:
  "unacked_sz (requeue i k) = unacked_sz k" "received_sz (requeue i k) = received_sz k"
  "sent_sz j (requeue i k) = (if j = i then 0 else sent_sz j k)"
  "is_queued (requeue i k) \<longleftrightarrow> is_queued k \<or> sent_on i k"
  "is_received (requeue i k) \<longleftrightarrow> is_received k"
  "carries (requeue i k) = carries k"
  "requeue i k = PSent j lid m \<longleftrightarrow> k = PSent j lid m \<and> j \<noteq> i"
  by (cases k; auto)+

lemma led_requeue_inv:
  assumes inv: "ledger_inv g" and d: "distinct rq"
    and s: "set rq = set (g_rq g) \<union> {p \<in> set (g_txed g). sent_on i (g_pkts g ! p)}"
  shows "ledger_inv (led_requeue i rq g)"
proof -
  let ?pk = "requeue_all i (g_txed g) (g_pkts g)"
  have len: "p < length (g_pkts g)" if "p \<in> set (g_txed g)" for p by (rule ledger_invD(2) [OF inv that])
  have nth: "?pk ! p = requeue i (g_pkts g ! p)" if "p \<in> set (g_txed g)" for p
    using that len by (simp add: nth_requeue_all)
  have t: "tally unacked_sz ?pk (g_txed g) = tally unacked_sz (g_pkts g) (g_txed g)"
    "tally received_sz ?pk (g_txed g) = tally received_sz (g_pkts g) (g_txed g)"
    by (auto intro!: tally_cong simp: nth)
  have ts: "tally (sent_sz j) ?pk (g_txed g) = (if j = i then 0 else tally (sent_sz j) (g_pkts g) (g_txed g))" for j
    by (auto intro!: tally_cong tally_zero simp: nth)
  have "set rq = {p \<in> set (g_txed g). is_queued (?pk ! p)}"
    using s inv unfolding ledger_inv_def by (auto simp: nth_requeue_all)
  moreover have "\<forall>p < length (g_pkts g). p \<notin> set (g_txed g) \<longrightarrow> is_received (?pk ! p)"
    using inv unfolding ledger_inv_def by (auto simp: nth_requeue_all)
  moreover have "\<exists>u. (g_link (led_requeue i rq g)) j = Some (lid, u)"
    if "p \<in> set (g_txed g)" "?pk ! p = PSent j lid m" for p j lid m
    using that ledger_sent_link [OF inv that(1), of j lid m] by (auto simp: nth led_requeue_def led_link_def)
  ultimately show ?thesis
    using inv d t ts unfolding ledger_inv_def led_requeue_def led_link_def by auto
qed

text \<open>A link is added at a free position.\<close>

lemma led_add_inv:
  assumes inv: "ledger_inv g" and free: "g_link g i = None"
  shows "ledger_inv (led_add i lid g)"
proof -
  have "tally (sent_sz i) (g_pkts g) (g_txed g) = 0"
  proof (rule tally_zero)
    fix p assume "p \<in> set (g_txed g)"
    then show "sent_sz i (g_pkts g ! p) = 0"
      using ledger_sent_link [OF inv, of p] free by (cases "g_pkts g ! p") auto
  qed
  then show ?thesis using inv free unfolding ledger_inv_def led_add_def by auto
qed

text \<open>A link is removed once nothing in flight was sent over it.\<close>

lemma led_remove_inv:
  assumes inv: "ledger_inv g" and none: "\<And>p. p \<in> set (g_txed g) \<Longrightarrow> \<not> sent_on i (g_pkts g ! p)"
  shows "ledger_inv (led_remove i g)"
proof -
  have "\<exists>u. (g_link (led_remove i g)) j = Some (lid, u)"
    if "p \<in> set (g_txed g)" "g_pkts g ! p = PSent j lid m" for p j lid m
    using that none [of p] ledger_sent_link [OF inv that] by (auto simp: led_remove_def)
  then show ?thesis using inv unfolding ledger_inv_def led_remove_def by auto
qed

lemma led_requeue_none_sent:
  assumes "ledger_inv g" and "p \<in> set (g_txed (led_requeue i rq g))"
  shows "\<not> sent_on i (g_pkts (led_requeue i rq g) ! p)"
  using assms ledger_invD(2) [OF assms(1), of p]
  by (cases "g_pkts g ! p") (auto simp: led_requeue_def led_link_def nth_requeue_all)

section \<open>Messages are kept until they are received\<close>

lemma evolves_refl [simp, intro]: "evolves pk pk"
  by (auto simp: evolves_def)

lemma evolves_trans: "evolves a b \<Longrightarrow> evolves b c \<Longrightarrow> evolves a c"
  unfolding evolves_def by (metis (no_types, lifting) order.strict_trans2 order.trans)

lemma carries_None [simp]: "carries p = None \<longleftrightarrow> is_received p"
  by (cases p) auto

lemma advances_evolves: "advances a b \<Longrightarrow> evolves a b"
  unfolding advances_def evolves_def by (metis carries_None)

lemma advances_refl [simp, intro]: "advances pk pk"
  by (auto simp: advances_def)

lemma advances_trans: "advances a b \<Longrightarrow> advances b c \<Longrightarrow> advances a c"
  unfolding advances_def by (metis (no_types, lifting) linorder_not_less order.strict_trans2 order.trans)

lemma led_send_advances: "advances (g_pkts g) (g_pkts (led_send i m g))"
  by (auto simp: advances_def led_send_def led_link_def nth_append split: option.split)

lemma led_resend_advances:
  "p < length (g_pkts g) \<Longrightarrow> g_rq g = p # ps \<Longrightarrow> advances (g_pkts g) (g_pkts (led_resend i g))"
  by (auto simp: advances_def led_resend_def led_link_def nth_list_update split: option.split pkt.split)

lemma led_requeue_advances: "advances (g_pkts g) (g_pkts (led_requeue i rq g))"
  by (auto simp: advances_def led_requeue_def led_link_def nth_requeue_all)

lemma led_send_evolves: "evolves (g_pkts g) (g_pkts (led_send i m g))"
  by (rule advances_evolves [OF led_send_advances])

lemma led_resend_evolves:
  "p < length (g_pkts g) \<Longrightarrow> g_rq g = p # ps \<Longrightarrow> evolves (g_pkts g) (g_pkts (led_resend i g))"
  by (rule advances_evolves [OF led_resend_advances])

lemma led_receive_evolves: "evolves (g_pkts g) (g_pkts (led_receive p g))"
  by (cases "p < length (g_pkts g)")
    (auto simp: evolves_def led_receive_def led_link_def nth_list_update split: option.split pkt.split)

lemma led_requeue_evolves: "evolves (g_pkts g) (g_pkts (led_requeue i rq g))"
  by (rule advances_evolves [OF led_requeue_advances])

lemmas led_evolves =
  led_send_evolves led_resend_evolves led_receive_evolves led_requeue_evolves

end
