(* ===== verification/Task_Ledger.thy ===== *)
theory Task_Ledger
  imports Task_Tx Ledger "HOL-Library.Multiset"
begin

text \<open>
  The transmit side of the task implements the ledger.

  \<open>ledger_of\<close> is the ledger of a task, \<open>ready_inv\<close> what makes the assertions on the state of a link
  hold: a link in the list of idle links exists, is confirmed and can start to send.  For every
  operation of the transmit side there is a lemma that it does not panic, that it is the
  corresponding operation on the ledger, and that it preserves both invariants.
\<close>

section \<open>Abstraction and invariants\<close>

definition ledger_of :: "('tx, 'wr) task \<Rightarrow> ledger" where
  "ledger_of t = \<lparr>
     g_next = tx_seq t,
     g_seqs = seqs (t_store t),
     g_pkts = pkts (t_store t),
     g_txed = t_txed_packets t,
     g_rq = resend_queue t,
     g_unacked = t_txed_unacked t,
     g_unconsumable = txed_unconsumable t,
     g_link = (\<lambda>i. map_option (\<lambda>l. (lk_link_id l, txed_unacked_data l)) (get_link t i))\<rparr>"

definition ready_link :: "'tx link_int \<Rightarrow> bool" where
  "ready_link l \<longleftrightarrow> tx_ok l \<and> (lk_test l \<noteq> Inactive \<longrightarrow> lk_unconfirmed l \<noteq> None)"

definition ready_inv :: "('tx, 'wr) task \<Rightarrow> bool" where
  "ready_inv t \<longleftrightarrow>
     (\<forall>i l. get_link t i = Some l \<longrightarrow> ready_link l) \<and>
     distinct (idle_links t) \<and>
     (\<forall>i \<in> set (idle_links t). \<exists>l. get_link t i = Some l \<and> tx_idle l \<and> lk_unconfirmed l = None)"

definition tx_inv :: "('tx, 'wr) task \<Rightarrow> bool" where
  "tx_inv t \<longleftrightarrow> ledger_inv (ledger_of t) \<and> ready_inv t"

text \<open>The fields the transmit side does not change.\<close>

definition rest_eq :: "('tx, 'wr) task \<Rightarrow> ('tx, 'wr) task \<Rightarrow> bool" where
  "rest_eq t t' \<longleftrightarrow>
     t_cfg t' = t_cfg t \<and> t_remote_cfg t' = t_remote_cfg t \<and> rx_seq t' = rx_seq t \<and>
     rxed_reliable t' = rxed_reliable t \<and>
     rxed_reliable_consumable t' = rxed_reliable_consumable t \<and>
     rxed_reliable_size t' = rxed_reliable_size t \<and>
     consumed_since_last_ack t' = consumed_since_last_ack t \<and>
     init_links t' = init_links t \<and> delivered t' = delivered t \<and> read_tx t' = read_tx t"

text \<open>One or several operations of the transmit side.\<close>

definition tx_moves :: "('tx, 'wr) task \<Rightarrow> ('tx, 'wr) task \<Rightarrow> bool" where
  "tx_moves t t' \<longleftrightarrow> tx_inv t' \<and> rest_eq t t' \<and> advances (pkts (t_store t)) (pkts (t_store t'))"

lemma rest_eq_refl [simp, intro]: "rest_eq t t"
  by (simp add: rest_eq_def)

lemma rest_eq_trans: "rest_eq a b \<Longrightarrow> rest_eq b c \<Longrightarrow> rest_eq a c"
  by (simp add: rest_eq_def)

lemma tx_moves_trans: "tx_moves a b \<Longrightarrow> tx_moves b c \<Longrightarrow> tx_moves a c"
  unfolding tx_moves_def by (blast intro: rest_eq_trans advances_trans)

lemma tx_moves_refl: "tx_inv t \<Longrightarrow> tx_moves t t"
  by (simp add: tx_moves_def)

text \<open>The same, where packets may also have been acknowledged.\<close>

definition tx_acks :: "('tx, 'wr) task \<Rightarrow> ('tx, 'wr) task \<Rightarrow> bool" where
  "tx_acks t t' \<longleftrightarrow> tx_inv t' \<and> rest_eq t t' \<and> evolves (pkts (t_store t)) (pkts (t_store t'))"

lemma tx_moves_acks: "tx_moves t t' \<Longrightarrow> tx_acks t t'"
  by (simp add: tx_moves_def tx_acks_def advances_evolves)

lemma tx_acks_trans: "tx_acks a b \<Longrightarrow> tx_acks b c \<Longrightarrow> tx_acks a c"
  unfolding tx_acks_def by (blast intro: rest_eq_trans evolves_trans)

lemma ledger_of_sel [simp]:
  "g_next (ledger_of t) = tx_seq t" "g_seqs (ledger_of t) = seqs (t_store t)"
  "g_pkts (ledger_of t) = pkts (t_store t)" "g_txed (ledger_of t) = t_txed_packets t"
  "g_rq (ledger_of t) = resend_queue t" "g_unacked (ledger_of t) = t_txed_unacked t"
  "g_unconsumable (ledger_of t) = txed_unconsumable t"
  "g_link (ledger_of t) i = map_option (\<lambda>l. (lk_link_id l, txed_unacked_data l)) (get_link t i)"
  by (simp_all add: ledger_of_def)

lemma tx_inv_link: "tx_inv t \<Longrightarrow> get_link t i = Some l \<Longrightarrow> ready_link l"
  unfolding tx_inv_def ready_inv_def by blast

lemma tx_inv_idle:
  "tx_inv t \<Longrightarrow> i \<in> set (idle_links t) \<Longrightarrow>
     \<exists>l. get_link t i = Some l \<and> tx_idle l \<and> lk_unconfirmed l = None"
  unfolding tx_inv_def ready_inv_def by blast

lemma tx_inv_packet: "tx_inv t \<Longrightarrow> p \<in> set (t_txed_packets t) \<Longrightarrow> p < length (t_store t)"
  using ledger_invD(2) [of "ledger_of t" p] by (simp add: tx_inv_def)

lemma ready_link_keeps: "ready_link l \<Longrightarrow> keeps l l' \<Longrightarrow> tx_ok l' \<Longrightarrow> ready_link l'"
  by (simp add: ready_link_def keeps_def)

lemma get_link_put:
  assumes "get_link t i = Some l0" and "t_links t' = (t_links t)[i := Some l]"
  shows "get_link t' = (get_link t)(i \<mapsto> l)"
  using assms by (auto simp: fun_eq_iff get_link_at links_at_Some)

text \<open>Replacing a link that is not (or no longer) idle.\<close>

lemma ready_inv_put:
  assumes "ready_inv t" and "get_link t i = Some l0" and "ready_link l"
    and "t_links t' = (t_links t)[i := Some l]"
    and "set (idle_links t') \<subseteq> set (idle_links t)" and "distinct (idle_links t')"
    and "i \<in> set (idle_links t') \<Longrightarrow> tx_idle l \<and> lk_unconfirmed l = None"
  shows "ready_inv t'"
  using assms(1,3,5,6,7) unfolding ready_inv_def get_link_put [OF assms(2,4)] by auto

text \<open>Replacing a link and the store by ones that look alike to the ledger.\<close>

lemma ledger_of_put:
  assumes "get_link t i = Some l0" and "lk_link_id l = lk_link_id l0"
    and "txed_unacked_data l = txed_unacked_data l0" and "same_pkts (t_store t) st"
  shows "ledger_of (put_link i l (t\<lparr>t_store := st\<rparr>)) = ledger_of t"
  using assms get_link_put [OF assms(1), of "put_link i l (t\<lparr>t_store := st\<rparr>)" l]
  unfolding ledger_of_def same_pkts_def by (auto simp: fun_eq_iff put_link_def)

lemma ledger_of_idle [simp]: "ledger_of (idle_remove i t) = ledger_of t"
  by (simp add: ledger_of_def fun_eq_iff idle_remove_def get_link_at)

lemma idle_remove_fields [simp]:
  "t_store (idle_remove i t) = t_store t" "t_links (idle_remove i t) = t_links t"
  "t_txed_packets (idle_remove i t) = t_txed_packets t" "resend_queue (idle_remove i t) = resend_queue t"
  "idle_links (idle_remove i t) = filter (\<lambda>j. j \<noteq> i) (idle_links t)"
  "task_live (idle_remove i t) = task_live t" "rest_eq t (idle_remove i t)"
  by (simp_all add: idle_remove_def task_live_def fun_eq_iff rest_eq_def)

lemma put_link_fields [simp]:
  "t_store (put_link i l t) = t_store t" "t_links (put_link i l t) = (t_links t)[i := Some l]"
  "t_txed_packets (put_link i l t) = t_txed_packets t" "resend_queue (put_link i l t) = resend_queue t"
  "idle_links (put_link i l t) = idle_links t" "rest_eq t (put_link i l t)"
  by (simp_all add: put_link_def rest_eq_def)

lemma same_pkts_advances: "same_pkts st st' \<Longrightarrow> advances (pkts st) (pkts st')"
  by (simp add: same_pkts_def)

section \<open>Flushing\<close>

lemma flush_link_ok:
  assumes inv: "tx_inv t" and l: "get_link t i = Some l"
  shows "\<exists>t' l'. flush_link now i t = Some t' \<and> tx_moves t t' \<and> ledger_of t' = ledger_of t \<and>
    get_link t' = (get_link t)(i \<mapsto> l') \<and> keeps l l' \<and> tx_ok l' \<and>
    idle_links t' = filter (\<lambda>j. j \<noteq> i) (idle_links t) \<and> unflushed_links t' = unflushed_links t \<and>
    disconnected t' = disconnected t"
proof -
  obtain l' st where f: "start_flush now (task_live t) (t_store t) l = (l', st)" by force
  note fr = start_flush_frame [OF f]
  let ?t = "idle_remove i (put_link i l' (t\<lparr>t_store := st\<rparr>))"
  have led: "ledger_of ?t = ledger_of t"
    using ledger_of_put [OF l, of l' st] fr by (simp add: keeps_def)
  have rl: "ready_link l'"
    by (rule ready_link_keeps [OF tx_inv_link [OF inv l] fr(1)]) (simp add: tx_ok_def fr)
  have "ready_inv ?t"
    by (rule ready_inv_put [OF _ l rl]) (use inv in \<open>auto simp: tx_inv_def ready_inv_def\<close>)
  moreover have "rest_eq t ?t" by (simp add: rest_eq_def idle_remove_def put_link_def)
  ultimately have "tx_moves t ?t"
    using inv led fr(2) by (simp add: tx_moves_def tx_inv_def same_pkts_advances)
  moreover have "get_link ?t = (get_link t)(i \<mapsto> l')"
    by (rule get_link_put [OF l]) simp
  moreover have "flush_link now i t = Some ?t" using l f by (simp add: flush_link_def)
  ultimately show ?thesis
    using led fr by (auto simp: tx_ok_def idle_remove_def put_link_def)
qed

section \<open>Sending\<close>

lemma task_live_next [simp]: "task_live (t\<lparr>tx_seq := s\<rparr>) = task_live t"
  by (simp add: task_live_def fun_eq_iff)

text \<open>The idle list of the caller no longer contains the link.\<close>

lemma send_reliable_over_link_ok:
  assumes inv: "tx_inv t" and l: "get_link t i = Some l" and idle: "tx_idle l"
    and ni: "i \<notin> set (idle_links t)"
  shows "\<exists>t' l'. send_reliable_over_link S now i m t = Some (tx_seq t, t') \<and> tx_moves t t' \<and>
    ledger_of t' = led_send i m (ledger_of t) \<and> get_link t' = (get_link t)(i \<mapsto> l') \<and>
    lk_link_id l' = lk_link_id l \<and> txed_unconsumed t' = txed_unconsumed t + msg_size m \<and>
    idle_links t' = idle_links t"
proof -
  obtain msg d where md: "to_link_msg m (tx_seq t) = (msg, d)" by force
  obtain bs where "msg_encode msg = Some bs" using reliable_encodes [OF md] by blast
  from start_send_msg_frame [OF idle this] obtain l1 st where
    s: "start_send_msg S now (task_live t) msg d (l, t_store t) = Some (l1, st)"
    and fr: "keeps l l1" "same_pkts (t_store t) st" "tx_ok l1" by blast
  have len: "length st = length (t_store t)" by (rule same_pkts_length [OF fr(2)])
  let ?l = "l1\<lparr>txed_unacked_data := txed_unacked_data l1 + msg_size m,
    lk_txed_packets := lk_txed_packets l1 @ [length st]\<rparr>"
  let ?t = "put_link i ?l (t\<lparr>tx_seq := seq_add_u32 (tx_seq t) 1,
    t_txed_unacked := t_txed_unacked t + msg_size m,
    txed_unconsumed := txed_unconsumed t + msg_size m,
    t_store := st @ [\<lparr>sr_seq = tx_seq t, sr_status = Sent now None i (lk_link_id l1) m False\<rparr>],
    t_txed_packets := t_txed_packets t @ [length st]\<rparr>)"
  have l': "get_link (t\<lparr>tx_seq := s\<rparr>) i = Some l" for s using l by (simp add: get_link_at)
  have eq: "send_reliable_over_link S now i m t = Some (tx_seq t, ?t)"
    unfolding send_reliable_over_link_def next_tx_seq_def
    using l' md s by (cases m) (auto simp: put_link_def Let_def)
  have g: "get_link ?t = (get_link t)(i \<mapsto> ?l)"
    by (rule get_link_put [OF l]) simp
  have led: "ledger_of ?t = led_send i m (ledger_of t)"
    using l fr(1,2) g len unfolding led_send_def led_link_def ledger_of_def same_pkts_def
    by (auto simp: fun_eq_iff keeps_def put_link_def)
  have rl: "ready_link ?l"
    using tx_inv_link [OF inv l] fr by (simp add: ready_link_def keeps_def tx_ok_def)
  have "ready_inv ?t"
    by (rule ready_inv_put [OF _ l rl]) (use inv ni in \<open>auto simp: tx_inv_def ready_inv_def\<close>)
  moreover have "ledger_inv (ledger_of ?t)"
    unfolding led by (rule led_send_inv) (use inv l in \<open>auto simp: tx_inv_def\<close>)
  moreover have "rest_eq t ?t" by (simp add: rest_eq_def put_link_def)
  moreover have "advances (pkts (t_store t)) (pkts (t_store ?t))"
    using led_send_advances [of "ledger_of t" i m] led by (metis ledger_of_sel(3))
  ultimately have "tx_moves t ?t" by (simp add: tx_moves_def tx_inv_def)
  then show ?thesis using eq led g fr(1) by (auto simp: put_link_def keeps_def)
qed

section \<open>Resending\<close>

lemma ready_inv_cong:
  "t_links t' = t_links t \<Longrightarrow> idle_links t' = idle_links t \<Longrightarrow> ready_inv t' = ready_inv t"
  unfolding ready_inv_def get_link_at by simp

text \<open>The first packet of the resend queue, which the caller has taken from it.\<close>

lemma resend_reliable_over_link_ok:
  assumes inv: "tx_inv t" and l: "get_link t i = Some l" and idle: "tx_idle l"
    and ni: "i \<notin> set (idle_links t)" and rq: "resend_queue t = p # ps"
    and q: "pkts (t_store t) ! p = PQueued m lid0" and ne: "lk_link_id l \<noteq> lid0"
  shows "\<exists>t'. resend_reliable_over_link S now i p (t\<lparr>resend_queue := ps\<rparr>) = Some t' \<and> tx_moves t t' \<and>
    ledger_of t' = led_resend i (ledger_of t) \<and> idle_links t' = idle_links t"
proof -
  let ?tp = "t\<lparr>resend_queue := ps\<rparr>"
  have p: "p < length (t_store t)"
    using tx_inv_packet [OF inv] ledger_invD(3) [of "ledger_of t" p] inv rq by (simp add: tx_inv_def)
  with q have st: "sr_status (t_store t ! p) = ResendQueued m lid0" by (simp add: pkt_of_cases)
  obtain msg d where md: "to_link_msg m (sr_seq (t_store t ! p)) = (msg, d)" by force
  obtain bs where "msg_encode msg = Some bs" using reliable_encodes [OF md] by blast
  from start_send_msg_frame [OF idle this] obtain l1 st1 where
    s: "start_send_msg S now (task_live ?tp) msg d (l, t_store t) = Some (l1, st1)"
    and fr: "keeps l l1" "same_pkts (t_store t) st1" "tx_ok l1" by blast
  have len: "length st1 = length (t_store t)" by (rule same_pkts_length [OF fr(2)])
  define lu where "lu = l1\<lparr>txed_unacked_data := txed_unacked_data l1 + msg_size m\<rparr>"
  define l2 where "l2 = (case limit_increased lu of
      Some li \<Rightarrow> if sr_seq (t_store t ! p) < li then lu\<lparr>limit_increased := Some (sr_seq (t_store t ! p))\<rparr> else lu
    | None \<Rightarrow> lu)"
  have l2: "keeps lu l2" "tx_ok l2" using fr(3)
    by (auto simp: l2_def lu_def keeps_def tx_ok_def split: option.split)
  let ?l = "l2\<lparr>lk_txed_packets := lk_txed_packets l2 @ [p]\<rparr>"
  let ?t = "put_link i ?l (t\<lparr>resend_queue := ps,
    t_store := st1[p := (st1 ! p)\<lparr>sr_status := Sent now None i (lk_link_id l2) m True\<rparr>]\<rparr>)"
  have l': "get_link ?tp i = Some l" using l by (simp add: get_link_at)
  have eq: "resend_reliable_over_link S now i p ?tp = Some ?t"
    unfolding resend_reliable_over_link_def
    using l' md s st p ne by (cases m) (auto simp: put_link_def l2_def lu_def nth_opt_def Let_def split: option.split)
  have g: "get_link ?t = (get_link t)(i \<mapsto> ?l)"
    by (rule get_link_put [OF l]) simp
  have sq: "(seqs (t_store t))[p := sr_seq (st1 ! p)] = seqs (t_store t)"
    using fr(2) p len unfolding same_pkts_def by (metis list_update_id nth_seqs)
  have led: "ledger_of ?t = led_resend i (ledger_of t)"
    using l fr(1,2) l2(1) g rq q sq unfolding lu_def led_resend_def led_link_def ledger_of_def same_pkts_def
    by (auto simp: fun_eq_iff keeps_def put_link_def)
  have rl: "ready_link ?l"
    using tx_inv_link [OF inv l] fr l2 by (simp add: ready_link_def keeps_def tx_ok_def lu_def)
  have "ready_inv ?t"
    by (rule ready_inv_put [OF _ l rl]) (use inv ni in \<open>auto simp: tx_inv_def ready_inv_def\<close>)
  moreover have "ledger_inv (ledger_of ?t)"
    unfolding led by (rule led_resend_inv [where p = p and ps = ps]) (use inv l rq q in \<open>auto simp: tx_inv_def\<close>)
  moreover have "rest_eq t ?t" by (simp add: rest_eq_def put_link_def)
  moreover have "advances (pkts (t_store t)) (pkts (t_store ?t))"
    using led_resend_advances [of p "ledger_of t" ps i] led p rq by (metis ledger_of_sel(3,5) length_pkts)
  ultimately have "tx_moves t ?t" by (simp add: tx_moves_def tx_inv_def)
  then show ?thesis using eq led by (auto simp: put_link_def)
qed

section \<open>Unconfirming a link\<close>

lemma requeue_not_sent: "\<not> sent_on i k \<Longrightarrow> requeue i k = k"
  by (cases k) auto

lemma sent_sz_not_sent: "\<not> sent_on i k \<Longrightarrow> sent_sz i k = 0"
  by (cases k) auto

lemma queued_not_sent: "is_queued k \<Longrightarrow> \<not> sent_on i k"
  by (cases k) auto

lemma requeue_all_Cons:
  assumes "p \<notin> set ps"
  shows "requeue_all i (p # ps) pk = requeue_all i ps (pk[p := requeue i (pk ! p)])"
  by (rule nth_equalityI) (use assms in \<open>auto simp: requeue_all_def nth_list_update\<close>)

lemma queue_for_resend_ok:
  assumes "distinct ps" and "\<forall>p \<in> set ps. p < length st" and "tally (sent_sz i) (pkts st) ps \<le> ud"
  shows "\<exists>st'. queue_for_resend i ps (st, rq, ud) =
      Some (st', rq @ filter (\<lambda>p. sent_on i (pkts st ! p)) ps, ud - tally (sent_sz i) (pkts st) ps) \<and>
    pkts st' = requeue_all i ps (pkts st) \<and> seqs st' = seqs st"
  using assms
proof (induction ps arbitrary: st rq ud)
  case Nil
  have "requeue_all i [] (pkts st) = pkts st" by (simp add: requeue_all_def map_nth del: length_pkts)
  then show ?case by simp
next
  case (Cons p ps)
  have p: "p < length st" "p \<notin> set ps" using Cons.prems by auto
  show ?case
  proof (cases "sent_on i (pkts st ! p)")
    case False
    have "requeue_all i (p # ps) (pkts st) = requeue_all i ps (pkts st)"
      by (simp add: requeue_all_Cons [OF p(2)] requeue_not_sent [OF False])
    moreover have "queue_for_resend i (p # ps) (st, rq, ud) = queue_for_resend i ps (st, rq, ud)"
      using False p by (cases "sr_status (st ! p)") (auto simp: nth_opt_def)
    ultimately show ?thesis
      using Cons.IH [of st ud rq] Cons.prems False sent_sz_not_sent [OF False] by simp
  next
    case True
    then obtain t fl lid m rs where st: "sr_status (st ! p) = Sent t fl i lid m rs"
      using p by (cases "sr_status (st ! p)") auto
    let ?st = "st[p := (st ! p)\<lparr>sr_status := ResendQueued m lid\<rparr>]"
    have pk: "pkts ?st = (pkts st)[p := requeue i (pkts st ! p)]" using st p by simp
    have sq: "seqs ?st = seqs st" using p by (simp add: list_update_same_conv)
    have tl: "tally (sent_sz i) (pkts ?st) ps = tally (sent_sz i) (pkts st) ps"
      using p by (intro tally_cong) (auto simp: nth_list_update)
    have fl: "filter (\<lambda>q. sent_on i (pkts ?st ! q)) ps = filter (\<lambda>q. sent_on i (pkts st ! q)) ps"
      by (rule filter_cong) (use p in \<open>auto simp: nth_list_update\<close>)
    have sz: "msg_size m \<le> ud" "sent_sz i (pkts st ! p) = msg_size m" using Cons.prems(3) st p by auto
    have "queue_for_resend i (p # ps) (st, rq, ud) = queue_for_resend i ps (?st, rq @ [p], ud - msg_size m)"
      using st p sz by (cases m) (auto simp: nth_opt_def checked_sub_le)
    moreover have "\<exists>st'. queue_for_resend i ps (?st, rq @ [p], ud - msg_size m) =
        Some (st', (rq @ [p]) @ filter (\<lambda>q. sent_on i (pkts ?st ! q)) ps,
          ud - msg_size m - tally (sent_sz i) (pkts ?st) ps) \<and>
        pkts st' = requeue_all i ps (pkts ?st) \<and> seqs st' = seqs ?st"
      by (rule Cons.IH) (use Cons.prems tl sz in auto)
    ultimately show ?thesis
      using True tl fl sz pk sq by (simp add: requeue_all_Cons [OF p(2)])
  qed
qed

lemma mset_insort_seq [simp]: "mset (insort_seq st p ps) = add_mset p (mset ps)"
  by (induction ps) auto

lemma mset_sort_by_seq [simp]: "mset (sort_by_seq st ps) = mset ps"
  by (induction ps) auto

lemma set_sort_by_seq [simp]: "set (sort_by_seq st ps) = set ps"
  using mset_sort_by_seq [of st ps] by (metis set_mset_mset)

lemma distinct_sort_by_seq [simp]: "distinct (sort_by_seq st ps) = distinct ps"
  using mset_sort_by_seq [of st ps] by (metis mset_eq_imp_distinct_iff)

lemma retest_failed_simps [simp]:
  "lk_link_id (retest_failed l) = lk_link_id l" "txed_unacked_data (retest_failed l) = txed_unacked_data l"
  "lk_unconfirmed (retest_failed l) = lk_unconfirmed l" "tx_idle (retest_failed l) = tx_idle l"
  "lk_cfg (retest_failed l) = lk_cfg l" "lk_link_cfg (retest_failed l) = lk_link_cfg l"
  by (cases "lk_test l"; simp add: retest_failed_def tx_idle_def)+

lemma lcfg_retest_failed [simp]: "lcfg (retest_failed l) = lcfg l"
  by (cases "lk_test l") (simp_all add: lcfg_def retest_failed_def split: option.split)

lemma ready_link_retest: "ready_link l \<Longrightarrow> ready_link (retest_failed l)"
  by (cases "lk_test l") (auto simp: ready_link_def retest_failed_def tx_ok_def)

lemma ready_inv_retest:
  assumes "ready_inv t" and "t_links t' = map (map_option retest_failed) (t_links t)"
    and "idle_links t' = idle_links t"
  shows "ready_inv t'"
  using assms unfolding ready_inv_def get_link_at by (auto simp: ready_link_retest)

text \<open>The configuration of the links is left alone as well.\<close>

definition same_links :: "('tx, 'wr) task \<Rightarrow> ('tx, 'wr) task \<Rightarrow> bool" where
  "same_links t t' \<longleftrightarrow> length (t_links t') = length (t_links t) \<and>
     (\<forall>i. map_option (\<lambda>l. (lk_link_id l, lcfg l)) (get_link t' i) =
          map_option (\<lambda>l. (lk_link_id l, lcfg l)) (get_link t i))"

lemma same_links_refl [simp, intro]: "same_links t t"
  by (simp add: same_links_def)

lemma same_links_trans: "same_links a b \<Longrightarrow> same_links b c \<Longrightarrow> same_links a c"
  by (simp add: same_links_def)

lemma same_links_get:
  assumes "same_links t t'" and "get_link t i = Some l"
  shows "\<exists>l'. get_link t' i = Some l' \<and> lk_link_id l' = lk_link_id l \<and> lcfg l' = lcfg l"
proof -
  have "map_option (\<lambda>l. (lk_link_id l, lcfg l)) (get_link t' i) = Some (lk_link_id l, lcfg l)"
    using assms by (simp add: same_links_def)
  then show ?thesis by auto
qed

lemma keeps_lcfg: "keeps l l' \<Longrightarrow> lcfg l' = lcfg l"
  by (simp add: keeps_def lcfg_def split: option.split)

lemma unconfirm_link_ok:
  assumes inv: "tx_inv t" and l: "get_link t i = Some l"
  shows "\<exists>t'. unconfirm_link now i reason t = Some t' \<and> tx_moves t t' \<and>
    ledger_of t' = led_requeue i (resend_queue t') (ledger_of t) \<and> same_links t t' \<and>
    idle_links t' = filter (\<lambda>j. j \<noteq> i) (idle_links t) \<and> disconnected t' = disconnected t \<and>
    resend_queue t' = sort_by_seq (t_store t') (resend_queue t @
      filter (\<lambda>p. sent_on i (pkts (t_store t) ! p)) (t_txed_packets t))"
proof -
  obtain t1 l1 where f: "flush_link now i t = Some t1" and mv: "tx_moves t t1"
    and led1: "ledger_of t1 = ledger_of t" and g1: "get_link t1 = (get_link t)(i \<mapsto> l1)"
    and k1: "keeps l l1" "tx_ok l1" and id1: "idle_links t1 = filter (\<lambda>j. j \<noteq> i) (idle_links t)" "disconnected t1 = disconnected t"
    using flush_link_ok [OF inv l, of now] by blast
  have inv1: "tx_inv t1" and gi: "get_link t1 i = Some l1"
    using mv g1 by (simp_all add: tx_moves_def)
  have txed: "t_txed_packets t1 = t_txed_packets t" "pkts (t_store t1) = pkts (t_store t)"
    "resend_queue t1 = resend_queue t"
    using led1 by (metis ledger_of_sel(4), metis ledger_of_sel(3), metis ledger_of_sel(5))
  have lg1: "ledger_inv (ledger_of t1)" using inv1 by (simp add: tx_inv_def)
  have ud: "txed_unacked_data l1 = tally (sent_sz i) (pkts (t_store t1)) (t_txed_packets t1)"
    using ledger_invD(5) [OF lg1, of i "lk_link_id l1" "txed_unacked_data l1"] gi by simp
  let ?rq = "resend_queue t1 @ filter (\<lambda>p. sent_on i (pkts (t_store t1) ! p)) (t_txed_packets t1)"
  obtain st where q: "queue_for_resend i (t_txed_packets t1) (t_store t1, resend_queue t1,
      txed_unacked_data l1) = Some (st, ?rq, 0)"
    and st: "pkts st = requeue_all i (t_txed_packets t1) (pkts (t_store t1))" "seqs st = seqs (t_store t1)"
    using queue_for_resend_ok [of "t_txed_packets t1" "t_store t1" i "txed_unacked_data l1" "resend_queue t1"]
      ud ledger_invD(1) [OF lg1] tx_inv_packet [OF inv1] by auto
  define tm where "tm = t1\<lparr>idle_links := filter (\<lambda>j. j \<noteq> i) (idle_links t1),
    unflushed_links := unflushed_links t1 - {i}, t_store := st, resend_queue := ?rq\<rparr>"
  define l2 where "l2 = clean_txed_packets (task_live tm) st
    ((link_reset (set_unconfirmed (Some (now, reason)) l1))\<lparr>txed_unacked_data := 0\<rparr>)"
  define t2 where "t2 = put_link i l2 (tm\<lparr>resend_queue := sort_by_seq st ?rq\<rparr>)"
  define t3 where "t3 = t2\<lparr>t_links := map (map_option retest_failed) (t_links t2)\<rparr>"
  have gt: "get_link (idle_remove i t1) i = Some l1" using gi by simp
  have eq: "unconfirm_link now i reason t = Some t3"
    unfolding unconfirm_link_def using f gi q
    by (simp add: t3_def t2_def l2_def tm_def idle_remove_def Let_def)
  have g2: "get_link t2 = (get_link t1)(i \<mapsto> l2)"
    by (rule get_link_put [OF gi]) (simp add: t2_def tm_def put_link_def)
  have g3: "get_link t3 j = map_option retest_failed (get_link t2 j)" for j
    by (simp add: t3_def get_link_at)
  have l2: "lk_link_id l2 = lk_link_id l1" "txed_unacked_data l2 = 0" "lcfg l2 = lcfg l1"
    "ready_link l2" "lk_unconfirmed l2 \<noteq> None"
    using k1(2) by (simp_all add: l2_def ready_link_def tx_ok_def lcfg_def split: option.split)
  have gl: "g_link (ledger_of t3) = g_link (led_requeue i (resend_queue t3) (ledger_of t1))"
    using gi l2 by (auto simp: fun_eq_iff g3 g2 led_requeue_def led_link_def option.map_comp comp_def)
  have led: "ledger_of t3 = led_requeue i (resend_queue t3) (ledger_of t)"
    unfolding led1 [symmetric]
    by (rule ledger.equality) (use gl st in
      \<open>simp_all add: led_requeue_def led_link_def t3_def t2_def tm_def put_link_def\<close>)
  have rq3: "resend_queue t3 = sort_by_seq st ?rq" by (simp add: t3_def t2_def)
  have "ready_inv t2"
    by (rule ready_inv_put [OF _ gi l2(4)])
      (use inv1 in \<open>auto simp: t2_def tm_def put_link_def tx_inv_def ready_inv_def\<close>)
  then have "ready_inv t3" by (rule ready_inv_retest) (simp_all add: t3_def)
  moreover have "ledger_inv (ledger_of t3)"
    unfolding led
  proof (rule led_requeue_inv)
    show "ledger_inv (ledger_of t)" using inv by (simp add: tx_inv_def)
    show "distinct (resend_queue t3)"
      using lg1 queued_not_sent by (fastforce simp: rq3 ledger_inv_def)
    show "set (resend_queue t3) = set (g_rq (ledger_of t)) \<union>
        {p \<in> set (g_txed (ledger_of t)). sent_on i (g_pkts (ledger_of t) ! p)}"
      by (auto simp: rq3 txed)
  qed
  moreover have "rest_eq t t3"
    using mv unfolding tx_moves_def by (simp add: rest_eq_def t3_def t2_def tm_def put_link_def)
  moreover have "advances (pkts (t_store t)) (pkts (t_store t3))"
    using led_requeue_advances [of "ledger_of t" i "resend_queue t3"] led by (metis ledger_of_sel(3))
  ultimately have "tx_moves t t3" by (simp add: tx_moves_def tx_inv_def)
  moreover have "same_links t t3"
  proof -
    have "t_links t3 = map (map_option retest_failed) ((t_links t1)[i := Some l2])"
      by (simp add: t3_def t2_def tm_def put_link_def)
    moreover have "length (t_links t1) = length (t_links t)"
      using f l by (auto simp: flush_link_def put_link_def idle_remove_def split: prod.splits)
    ultimately show ?thesis
      using l2 k1(1) g1 l keeps_lcfg [OF k1(1)]
      by (auto simp: same_links_def g3 g2 keeps_def option.map_comp comp_def)
  qed
  ultimately show ?thesis
    using eq led id1 rq3 txed by (auto simp: t3_def t2_def tm_def put_link_def)
qed

section \<open>Acknowledgements\<close>

lemma seq_of_eq: "seq_of a = seq_of b \<longleftrightarrow> a mod 2 ^ 32 = b mod 2 ^ 32"
proof -
  have "(of_nat a = (of_nat b :: u32)) \<longleftrightarrow> a mod 2 ^ 32 = b mod 2 ^ 32"
    by (simp add: word_unat_eq_iff unat_of_nat)
  then show ?thesis by (simp add: seq_of_def)
qed

lemma seq_of_inj_window:
  assumes "a < lo + 2 ^ 32" "b < lo + 2 ^ 32" "lo \<le> a" "lo \<le> b" "seq_of a = seq_of b"
  shows "a = b"
proof -
  have "a mod 2 ^ 32 = b mod 2 ^ 32" using assms(5) by (simp add: seq_of_eq)
  then have "2 ^ 32 dvd (a - b)" "2 ^ 32 dvd (b - a)"
    by (metis diff_is_0_eq dvd_0_right mod_eq_dvd_iff_nat nat_le_linear)+
  moreover have "a - b < 2 ^ 32" "b - a < 2 ^ 32" using assms by auto
  ultimately have "a - b = 0" "b - a = 0" by (metis dvd_imp_le not_less zero_less_iff_neq_zero)+
  then show ?thesis by simp
qed

text \<open>The packet that a sequence number denotes, counted from the end of the queue.\<close>

definition acked_pid :: "('tx, 'wr) task \<Rightarrow> seq \<Rightarrow> pid option" where
  "acked_pid t s =
     (let k = seq_sub (tx_seq t) s in
      if 0 < k \<and> nat k \<le> length (t_txed_packets t) then Some (length (t_store t) - nat k) else None)"

lemma acked_pid_ok:
  assumes inv: "tx_inv t" and a: "acked_pid t s = Some p"
  shows "p \<in> set (t_txed_packets t)" and "sr_seq (t_store t ! p) = s"
    and "t_txed_packets t ! (length (t_txed_packets t) - nat (seq_sub (tx_seq t) s)) = p"
proof -
  let ?n = "length (t_store t)"
  define k where "k = nat (seq_sub (tx_seq t) s)"
  have k: "0 < k" "k \<le> length (t_txed_packets t)" "p = ?n - k" "seq_sub (tx_seq t) s = int k"
    using a by (auto simp: acked_pid_def Let_def k_def split: if_splits)
  obtain lo where lo: "lo \<le> ?n" "t_txed_packets t = [lo..<?n]"
    using inv by (auto simp: tx_inv_def ledger_inv_def)
  have kn: "k \<le> ?n" "p = lo + (length (t_txed_packets t) - k)" using k lo by auto
  show "p \<in> set (t_txed_packets t)" using k lo by auto
  show "t_txed_packets t ! (length (t_txed_packets t) - nat (seq_sub (tx_seq t) s)) = p"
    using k lo kn by (simp add: k_def [symmetric])
  have "seq_add_u32 s (of_nat k) = tx_seq t" using seq_add_sub [of "tx_seq t" s] k(4) by simp
  moreover have "tx_seq t = seq_of ?n" using inv by (simp add: tx_inv_def ledger_inv_def)
  moreover have "seq_of ?n = seq_add_u32 (seq_of p) (of_nat k)" using k(3) kn(1) seq_of_add [of p k] by simp
  ultimately have "seq_add_u32 s (of_nat k) = seq_add_u32 (seq_of p) (of_nat k)" by simp
  then have "s = seq_of p" by (cases s; cases "seq_of p") (simp add: seq_add_u32_def)
  moreover have "seqs (t_store t) = map seq_of [0..<?n]"
    using inv by (simp add: tx_inv_def ledger_inv_def)
  ultimately show "sr_seq (t_store t ! p) = s"
    using k kn lo nth_seqs [of p "t_store t"] by simp
qed

lemma update_roundtrip_simps [simp]:
  "lk_link_id (update_roundtrip e l) = lk_link_id l" "tx_idle (update_roundtrip e l) = tx_idle l"
  "txed_unacked_data (update_roundtrip e l) = txed_unacked_data l"
  "lk_unconfirmed (update_roundtrip e l) = lk_unconfirmed l" "lcfg (update_roundtrip e l) = lcfg l"
  "ready_link (update_roundtrip e l) = ready_link l"
  by (simp_all add: update_roundtrip_def Let_def tx_idle_def lcfg_def ready_link_def tx_ok_def
      split: option.split)

lemma unblock_increase_simps [simp]:
  "lk_link_id (unblock_increase s l) = lk_link_id l" "tx_idle (unblock_increase s l) = tx_idle l"
  "txed_unacked_data (unblock_increase s l) = txed_unacked_data l"
  "lk_unconfirmed (unblock_increase s l) = lk_unconfirmed l" "lcfg (unblock_increase s l) = lcfg l"
  "ready_link (unblock_increase s l) = ready_link l"
  by (simp_all add: unblock_increase_def tx_idle_def lcfg_def ready_link_def tx_ok_def split: option.split)

text \<open>Replacing a link by one that differs in its roundtrip, its limits or its list of packets.\<close>

lemma put_link_ok:
  assumes inv: "tx_inv t" and l: "get_link t i = Some l"
    and k: "lk_link_id l' = lk_link_id l" "txed_unacked_data l' = txed_unacked_data l" "lcfg l' = lcfg l"
      "ready_link l'" "tx_idle l \<Longrightarrow> tx_idle l'" "lk_unconfirmed l' = lk_unconfirmed l"
  shows "tx_moves t (put_link i l' t)" and "ledger_of (put_link i l' t) = ledger_of t"
    and "same_links t (put_link i l' t)"
proof -
  show led: "ledger_of (put_link i l' t) = ledger_of t"
    using ledger_of_put [OF l k(1,2), of "t_store t"] by simp
  have "ready_inv (put_link i l' t)"
    by (rule ready_inv_put [OF _ l k(4)])
      (use inv l k(5,6) in \<open>auto simp: tx_inv_def ready_inv_def\<close>)
  then show "tx_moves t (put_link i l' t)"
    using inv led by (simp add: tx_moves_def tx_inv_def)
  show "same_links t (put_link i l' t)"
    using l k(1,3) by (auto simp: same_links_def)
qed

text \<open>Whether an acknowledgement over link \<open>i\<close> counts for a packet.\<close>

fun ack_counts :: "nat \<Rightarrow> pkt \<Rightarrow> bool" where
  "ack_counts i (PSent j _ _) \<longleftrightarrow> j = i"
| "ack_counts i (PQueued _ _) \<longleftrightarrow> True"
| "ack_counts i (PReceived _) \<longleftrightarrow> False"

lemma ack_packet_ok:
  assumes inv: "tx_inv t" and l: "get_link t i = Some l" and win: "length (t_txed_packets t) \<le> 2 ^ 32"
  shows "\<exists>t'. ack_packet now i s t = Some t' \<and> tx_acks t t' \<and> same_links t t' \<and>
    ledger_of t' = (case acked_pid t s of
        Some p \<Rightarrow> if ack_counts i (pkts (t_store t) ! p) then led_receive p (ledger_of t) else ledger_of t
      | None \<Rightarrow> ledger_of t) \<and> idle_links t' = idle_links t"
proof (cases "acked_pid t s")
  case None
  then have "ack_packet now i s t = Some t"
    by (auto simp: ack_packet_def acked_pid_def Let_def split: if_splits)
  then show ?thesis using None tx_moves_acks [OF tx_moves_refl [OF inv]] by simp
next
  case (Some p)
  note ap = acked_pid_ok [OF inv Some]
  have p: "p < length (t_store t)" by (rule tx_inv_packet [OF inv ap(1)])
  have lg: "ledger_inv (ledger_of t)" using inv by (simp add: tx_inv_def)
  have un: "ack_packet now i s t = do {
        packet \<leftarrow> Some (t_store t ! p);
        (case sr_status packet of
           Sent sent _ j _ m _ \<Rightarrow>
             if j = i then do {
               let sz = msg_size m;
               ud \<leftarrow> checked_sub (txed_unacked_data l) sz;
               un \<leftarrow> checked_sub (t_txed_unacked t) sz;
               let l = update_roundtrip (elapsed now sent) (l\<lparr>txed_unacked_data := ud\<rparr>);
               Some (put_link i l
                 (t\<lparr>t_txed_unacked := un, txed_unconsumable := txed_unconsumable t + sz,
                    t_store := (t_store t)[p := packet\<lparr>sr_status := Received sz\<rparr>]\<rparr>))
             }
             else Some t
         | ResendQueued m _ \<Rightarrow> do {
             let sz = msg_size m;
             un \<leftarrow> checked_sub (t_txed_unacked t) sz;
             Some (t\<lparr>t_txed_unacked := un, txed_unconsumable := txed_unconsumable t + sz,
                     resend_queue := filter (\<lambda>q. sr_seq (t_store t ! q) \<noteq> s) (resend_queue t),
                     t_store := (t_store t)[p := packet\<lparr>sr_status := Received sz\<rparr>]\<rparr>)
           }
         | Received _ \<Rightarrow> Some t) }"
  proof -
    have sz: "(case m of Data d \<Rightarrow> length d | _ \<Rightarrow> 0) = msg_size m" for m by (cases m) auto
    have "0 < seq_sub (tx_seq t) s \<and> nat (seq_sub (tx_seq t) s) \<le> length (t_txed_packets t)"
      using Some by (auto simp: acked_pid_def Let_def split: if_splits)
    then have k: "0 < seq_sub (tx_seq t) s" "nat (seq_sub (tx_seq t) s) \<le> length (t_txed_packets t)"
      "length (t_txed_packets t) - nat (seq_sub (tx_seq t) s) < length (t_txed_packets t)" by auto
    show ?thesis using ap k p l
      by (cases "sr_status (t_store t ! p)") (simp_all add: ack_packet_def nth_opt_def sz Let_def)
  qed
  show ?thesis
  proof (cases "sr_status (t_store t ! p)")
    case (Sent sent fl j lid m rs)
    then have pk: "pkts (t_store t) ! p = PSent j lid m" using p by simp
    show ?thesis
    proof (cases "j = i")
      case True
      have le: "msg_size m \<le> txed_unacked_data l" "msg_size m \<le> t_txed_unacked t" "lk_link_id l = lid"
        using ledger_sent_le [OF lg, of p j lid m] ap(1) pk True l by auto
      let ?l = "update_roundtrip (elapsed now sent) (l\<lparr>txed_unacked_data := txed_unacked_data l - msg_size m\<rparr>)"
      let ?t = "put_link i ?l (t\<lparr>t_txed_unacked := t_txed_unacked t - msg_size m,
        txed_unconsumable := txed_unconsumable t + msg_size m,
        t_store := (t_store t)[p := (t_store t ! p)\<lparr>sr_status := Received (msg_size m)\<rparr>]\<rparr>)"
      have eq: "ack_packet now i s t = Some ?t"
        using un Sent True le by (simp add: checked_sub_le Let_def)
      have g: "get_link ?t = (get_link t)(i \<mapsto> ?l)" by (rule get_link_put [OF l]) simp
      have "g_link (ledger_of ?t) = g_link (led_receive p (ledger_of t))"
        using l pk True p by (auto simp: fun_eq_iff g led_receive_def led_link_def)
      moreover have "(seqs (t_store t))[p := sr_seq (t_store t ! p)] = seqs (t_store t)"
        using p by (metis list_update_id nth_seqs)
      ultimately have led: "ledger_of ?t = led_receive p (ledger_of t)"
        using pk p by (intro ledger.equality) (simp_all add: led_receive_def led_link_def put_link_def)
      have rl: "ready_link ?l" using tx_inv_link [OF inv l] by (simp, simp add: ready_link_def tx_ok_def)
      have ti: "tx_idle ?l = tx_idle l" by (simp, simp add: tx_idle_def)
      have "ready_inv ?t"
        by (rule ready_inv_put [OF _ l rl])
          (use inv l ti in \<open>auto simp: tx_inv_def ready_inv_def put_link_def\<close>)
      moreover have "evolves (pkts (t_store t)) (pkts (t_store ?t))"
        using led_receive_evolves [of "ledger_of t" p] led by (metis ledger_of_sel(3))
      ultimately have "tx_acks t ?t"
        using led led_receive_inv [OF lg, of p] ap(1)
        by (simp add: tx_acks_def tx_inv_def rest_eq_def put_link_def)
      moreover have "lcfg ?l = lcfg l" by (simp, simp add: lcfg_def split: option.split)
      then have "same_links t ?t" using l by (auto simp: same_links_def g)
      ultimately show ?thesis using eq led Some pk True by (auto simp: put_link_def)
    next
      case False
      then show ?thesis using un Sent Some pk tx_moves_acks [OF tx_moves_refl [OF inv]] by simp
    qed
  next
    case (Received n)
    then show ?thesis using un Some p tx_moves_acks [OF tx_moves_refl [OF inv]] by simp
  next
    case (ResendQueued m lid)
    then have pk: "pkts (t_store t) ! p = PQueued m lid" using p by simp
    have le: "msg_size m \<le> t_txed_unacked t"
      using ledger_queued_le [OF lg, of p m lid] ap(1) pk by simp
    obtain lo where lo: "t_txed_packets t = [lo..<length (t_store t)]" "lo \<le> length (t_store t)"
      using inv by (auto simp: tx_inv_def ledger_inv_def)
    have sq: "sr_seq (t_store t ! q) = seq_of q" if "q < length (t_store t)" for q
      using lg nth_seqs [OF that] that by (simp add: ledger_inv_def)
    have same: "sr_seq (t_store t ! q) \<noteq> s \<longleftrightarrow> q \<noteq> p" if "q \<in> set (resend_queue t)" for q
    proof -
      have "q \<in> set (t_txed_packets t)" using ledger_invD(3) [OF lg, of q] that by simp
      then have "lo \<le> q" "q < lo + 2 ^ 32" "q < length (t_store t)" using lo win by auto
      moreover have "lo \<le> p" "p < lo + 2 ^ 32" using ap(1) lo win by auto
      ultimately show ?thesis
        using seq_of_inj_window [of q lo p] sq [of q] sq [OF p] ap(2) by auto
    qed
    let ?t = "t\<lparr>t_txed_unacked := t_txed_unacked t - msg_size m,
      txed_unconsumable := txed_unconsumable t + msg_size m,
      resend_queue := filter (\<lambda>q. sr_seq (t_store t ! q) \<noteq> s) (resend_queue t),
      t_store := (t_store t)[p := (t_store t ! p)\<lparr>sr_status := Received (msg_size m)\<rparr>]\<rparr>"
    have eq: "ack_packet now i s t = Some ?t"
      using un ResendQueued le by (simp add: checked_sub_le Let_def)
    have g: "get_link ?t = get_link t" by (simp add: fun_eq_iff get_link_at)
    have "(seqs (t_store t))[p := sr_seq (t_store t ! p)] = seqs (t_store t)"
      using p by (metis list_update_id nth_seqs)
    then have led: "ledger_of ?t = led_receive p (ledger_of t)"
      using pk p same by (intro ledger.equality) (auto simp: led_receive_def fun_eq_iff get_link_at cong: filter_cong)
    have "ready_inv ?t = ready_inv t" by (rule ready_inv_cong) simp_all
    moreover have "evolves (pkts (t_store t)) (pkts (t_store ?t))"
      using led_receive_evolves [of "ledger_of t" p] led by (metis ledger_of_sel(3))
    ultimately have "tx_acks t ?t"
      using led led_receive_inv [OF lg, of p] ap(1) inv by (simp add: tx_acks_def tx_inv_def rest_eq_def)
    moreover have "same_links t ?t" by (simp add: same_links_def g)
    ultimately show ?thesis using eq led Some pk by auto
  qed
qed

lemma swipe_ok:
  assumes "\<forall>p \<in> set ps. p < length st"
    and "tally received_sz (pkts st) (takeWhile (\<lambda>p. is_received (pkts st ! p)) ps) \<le> un"
  shows "\<exists>lc'. swipe st ps (lc, un) = Some (dropWhile (\<lambda>p. is_received (pkts st ! p)) ps, lc',
    un - tally received_sz (pkts st) (takeWhile (\<lambda>p. is_received (pkts st ! p)) ps))"
  using assms
proof (induction ps arbitrary: lc un)
  case (Cons p ps)
  show ?case
  proof (cases "sr_status (st ! p)")
    case (Received n)
    then have sw: "swipe st (p # ps) (lc, un) = swipe st ps (sr_seq (st ! p), un - n)"
      and le: "tally received_sz (pkts st) (takeWhile (\<lambda>p. is_received (pkts st ! p)) ps) \<le> un - n"
      using Cons.prems by (auto simp: nth_opt_def checked_sub_def)
    have "\<forall>p \<in> set ps. p < length st" using Cons.prems by simp
    from Cons.IH [OF this le, of "sr_seq (st ! p)"] show ?thesis
      using sw Received Cons.prems by auto
  qed (use Cons.prems in \<open>auto simp: nth_opt_def\<close>)
qed simp

lemma swipe_front_ok:
  assumes inv: "tx_inv t"
  shows "\<exists>t'. swipe_front t = Some t' \<and> tx_moves t t' \<and> ledger_of t' = led_swipe (ledger_of t) \<and>
    t_links t' = t_links t \<and> idle_links t' = idle_links t"
proof -
  have lg: "ledger_inv (ledger_of t)" using inv by (simp add: tx_inv_def)
  let ?P = "\<lambda>p. is_received (pkts (t_store t) ! p)"
  have "txed_unconsumable t = tally received_sz (pkts (t_store t)) (takeWhile ?P (t_txed_packets t)) +
      tally received_sz (pkts (t_store t)) (dropWhile ?P (t_txed_packets t))"
    using lg by (metis ledger_inv_def ledger_of_sel(3,4,7) tally_append takeWhile_dropWhile_id)
  then obtain lc where sw: "swipe (t_store t) (t_txed_packets t) (txed_last_consumed t, txed_unconsumable t) =
      Some (dropWhile ?P (t_txed_packets t), lc, txed_unconsumable t -
        tally received_sz (pkts (t_store t)) (takeWhile ?P (t_txed_packets t)))"
    using swipe_ok [of "t_txed_packets t" "t_store t" "txed_unconsumable t" "txed_last_consumed t"]
      tx_inv_packet [OF inv] by auto
  let ?t = "t\<lparr>t_txed_packets := dropWhile ?P (t_txed_packets t), txed_last_consumed := lc,
    txed_unconsumable := txed_unconsumable t -
      tally received_sz (pkts (t_store t)) (takeWhile ?P (t_txed_packets t))\<rparr>"
  have "swipe_front t = Some ?t" using sw by (simp add: swipe_front_def)
  moreover have led: "ledger_of ?t = led_swipe (ledger_of t)"
    by (intro ledger.equality) (simp_all add: led_swipe_def Let_def fun_eq_iff get_link_at)
  moreover have "ready_inv ?t = ready_inv t" by (rule ready_inv_cong) simp_all
  ultimately show ?thesis
    using led_swipe_inv [OF lg] inv by (auto simp: tx_moves_def tx_inv_def rest_eq_def)
qed

lemma same_links_cong: "t_links t' = t_links t \<Longrightarrow> same_links t t'"
  by (simp add: same_links_def get_link_at)

lemma ready_link_clean [simp]: "ready_link (clean_txed_packets live st l) = ready_link l"
  by (simp add: ready_link_def tx_ok_def)

lemma lcfg_clean [simp]: "lcfg (clean_txed_packets live st l) = lcfg l"
  by (simp add: lcfg_def split: option.split)

lemma tx_idle_clean [simp]: "tx_idle (clean_txed_packets live st l) = tx_idle l"
  by (simp add: tx_idle_def)

definition led_ack :: "nat \<Rightarrow> pid option \<Rightarrow> ledger \<Rightarrow> ledger" where
  "led_ack i po g =
     led_swipe (case po of
         Some p \<Rightarrow> if ack_counts i (g_pkts g ! p) then led_receive p g else g
       | None \<Rightarrow> g)"

lemma handle_ack_ok:
  assumes inv: "tx_inv t" and l: "get_link t i = Some l" and win: "length (t_txed_packets t) \<le> 2 ^ 32"
  shows "\<exists>t'. handle_ack now i s t = Some t' \<and> tx_acks t t' \<and> same_links t t' \<and>
    ledger_of t' = led_ack i (acked_pid t s) (ledger_of t) \<and> idle_links t' = idle_links t"
proof -
  let ?tu = "put_link i (unblock_increase s l) t"
  have rl: "ready_link (unblock_increase s l)" using tx_inv_link [OF inv l] by simp
  note u = put_link_ok [OF inv l, of "unblock_increase s l"]
  have mu: "tx_moves t ?tu" "ledger_of ?tu = ledger_of t" "same_links t ?tu"
    using u rl by simp_all
  have gu: "get_link ?tu i = Some (unblock_increase s l)" using l by simp
  have apu: "acked_pid ?tu s = acked_pid t s" by (simp add: acked_pid_def put_link_def Let_def)
  obtain t2 where t2: "ack_packet now i s ?tu = Some t2" "tx_acks ?tu t2" "same_links ?tu t2"
    "idle_links t2 = idle_links t"
    "ledger_of t2 = (case acked_pid t s of
        Some p \<Rightarrow> if ack_counts i (pkts (t_store t) ! p) then led_receive p (ledger_of t) else ledger_of t
      | None \<Rightarrow> ledger_of t)"
    using ack_packet_ok [OF _ gu, of now s, unfolded apu mu(2) put_link_fields] mu(1) win
    by (auto simp: tx_moves_def)
  obtain t3 where t3: "swipe_front t2 = Some t3" "tx_moves t2 t3" "ledger_of t3 = led_swipe (ledger_of t2)"
    "t_links t3 = t_links t2" "idle_links t3 = idle_links t2"
    using swipe_front_ok [of t2] t2(2) by (auto simp: tx_acks_def)
  have sl: "same_links t t3"
    using mu(3) t2(3) same_links_cong [OF t3(4)] by (blast intro: same_links_trans)
  from same_links_get [OF sl l] obtain l3 where l3: "get_link t3 i = Some l3" by blast
  have inv3: "tx_inv t3" using t3(2) by (simp add: tx_moves_def)
  let ?l = "clean_txed_packets (task_live t3) (t_store t3) l3"
  have rl3: "ready_link ?l" using tx_inv_link [OF inv3 l3] by simp
  have m4: "tx_moves t3 (put_link i ?l t3)" "ledger_of (put_link i ?l t3) = ledger_of t3"
    "same_links t3 (put_link i ?l t3)"
    using put_link_ok [OF inv3 l3, of ?l] rl3 by simp_all
  have "handle_ack now i s t = Some (put_link i ?l t3)"
    using l t2(1) t3(1) l3 by (simp add: handle_ack_def)
  moreover have "tx_acks t (put_link i ?l t3)"
    using mu(1) t2(2) t3(2) m4(1) by (blast intro: tx_moves_acks tx_acks_trans)
  moreover have "same_links t (put_link i ?l t3)" using sl m4(3) by (blast intro: same_links_trans)
  moreover have "ledger_of (put_link i ?l t3) = led_ack i (acked_pid t s) (ledger_of t)"
    using m4(2) t3(3) t2(5) by (simp only: led_ack_def ledger_of_sel)
  ultimately show ?thesis using t3(5) t2(4) by simp
qed

section \<open>Adding and removing links\<close>

lemma first_free_spec:
  "i = first_free ls \<Longrightarrow> i \<le> length ls \<and> (i < length ls \<longrightarrow> ls ! i = None)"
  by (induction ls arbitrary: i rule: first_free.induct) auto

lemma links_at_first_free: "links_at ls (first_free ls) = None"
  using first_free_spec [OF refl, of ls] by (auto simp: links_at_def nth_opt_def)

definition fresh_link :: "'tx link_int \<Rightarrow> bool" where
  "fresh_link l \<longleftrightarrow> txed_unacked_data l = 0 \<and> tx_data l = None \<and> lk_test l = Inactive"

lemma link_new_fresh: "fresh_link (link_new lid now cid snk c rc lc dir rt ud)"
  by (simp add: fresh_link_def link_new_def)

lemma publish_links_fields [simp]:
  "t_links (publish_links t) = t_links t" "idle_links (publish_links t) = idle_links t"
  "ledger_of (publish_links t) = ledger_of t" "t_store (publish_links t) = t_store t"
  "rest_eq t (publish_links t)" "get_link (publish_links t) i = get_link t i"
  "disconnected (publish_links t) = disconnected t"
  by (simp_all add: publish_links_def ledger_of_def fun_eq_iff get_link_at rest_eq_def)

lemma publish_links_moves: "tx_inv t \<Longrightarrow> tx_moves t (publish_links t)"
  using ready_inv_cong [of "publish_links t" t] by (simp add: tx_moves_def tx_inv_def)

lemma add_link_ok:
  assumes inv: "tx_inv t" and f: "fresh_link l"
  shows "\<exists>t' l'. add_link now l t = (first_free (t_links t), t') \<and> tx_moves t t' \<and>
    get_link t' = (get_link t)(first_free (t_links t) \<mapsto> l') \<and> lk_link_id l' = lk_link_id l \<and>
    lcfg l' = lcfg l \<and> ledger_of t' = led_add (first_free (t_links t)) (lk_link_id l) (ledger_of t) \<and>
    idle_links t' = idle_links t"
proof -
  let ?i = "first_free (t_links t)"
  define l' where "l' = (if test_data_limit (lcfg (report_ready now l)) > 0
    then set_unconfirmed (Some (now, New)) (report_ready now l)
    else (report_ready now l)\<lparr>last_ping := Some now\<rparr>)"
  let ?t = "t\<lparr>t_links := (if ?i < length (t_links t) then (t_links t)[?i := Some l']
                            else t_links t @ [Some l'])\<rparr>"
  have eq: "add_link now l t = (?i, publish_links ?t)" by (simp add: add_link_def l'_def Let_def)
  have l': "lk_link_id l' = lk_link_id l" "txed_unacked_data l' = 0" "ready_link l'" "lcfg l' = lcfg l"
    using f by (simp_all add: l'_def report_ready_def ready_link_def tx_ok_def fresh_link_def lcfg_def
        split: option.split)
  have le: "?i \<le> length (t_links t)" using first_free_spec by blast
  have g: "get_link ?t = (get_link t)(?i \<mapsto> l')"
    using le by (auto simp: fun_eq_iff get_link_at links_at_snoc)
  have free: "get_link t ?i = None" by (simp add: get_link_at links_at_first_free)
  have led: "ledger_of ?t = led_add ?i (lk_link_id l) (ledger_of t)"
    using g l' by (intro ledger.equality) (auto simp: led_add_def)
  have ni: "?i \<notin> set (idle_links t)" using tx_inv_idle [OF inv] free by force
  have "ready_inv ?t"
    using inv l'(3) ni unfolding tx_inv_def ready_inv_def g by auto
  moreover have "ledger_inv (ledger_of ?t)"
    unfolding led by (rule led_add_inv) (use inv free in \<open>simp_all add: tx_inv_def\<close>)
  ultimately have "tx_moves t ?t" by (simp add: tx_moves_def tx_inv_def rest_eq_def)
  then have "tx_moves t (publish_links ?t)"
    by (meson publish_links_moves tx_moves_def tx_moves_trans)
  then show ?thesis using eq g l' led by (auto simp: fun_eq_iff)
qed

lemma drop_trailing_none_at: "links_at (drop_trailing_none ls) i = links_at ls i"
proof (induction ls arbitrary: i)
  case (Cons x xs)
  have shift: "links_at (y # ys) i = (if i = 0 then y else links_at ys (i - 1))" for y and ys :: "'a link_int option list"
    by (cases i) (auto simp: links_at_def nth_opt_def)
  show ?case
  proof (cases "x = None \<and> drop_trailing_none xs = []")
    case True
    then have "links_at xs (i - 1) = None" using Cons.IH [of "i - 1"] by (simp add: links_at_def nth_opt_def)
    then show ?thesis using True by (simp add: shift) (simp add: links_at_def nth_opt_def)
  next
    case False
    then have "drop_trailing_none (x # xs) = x # drop_trailing_none xs"
      by (auto split: option.split list.split)
    then show ?thesis using Cons.IH by (simp add: shift del: drop_trailing_none.simps)
  qed
qed simp

text \<open>
  Removing a link leaves its packets queued for resending and the other links as they are.
\<close>

lemma remove_link_ok:
  assumes inv: "tx_inv t" and l: "get_link t i = Some l"
  shows "\<exists>t' rq. remove_link now i reason t = Some t' \<and> tx_moves t t' \<and>
    ledger_of t' = led_remove i (led_requeue i rq (ledger_of t)) \<and>
    (\<forall>j. map_option (\<lambda>l. (lk_link_id l, lcfg l)) (get_link t' j) =
      (if j = i then None else map_option (\<lambda>l. (lk_link_id l, lcfg l)) (get_link t j))) \<and>
    idle_links t' = filter (\<lambda>j. j \<noteq> i) (idle_links t) \<and>
    disconnected t' = disconnected t @ [(lk_link_id l, reason)]"
proof -
  obtain t1 where t1: "unconfirm_link now i Disconnecting t = Some t1" "tx_moves t t1"
    "ledger_of t1 = led_requeue i (resend_queue t1) (ledger_of t)" "same_links t t1"
    "idle_links t1 = filter (\<lambda>j. j \<noteq> i) (idle_links t)" and dis: "disconnected t1 = disconnected t"
    using unconfirm_link_ok [OF inv l, of now Disconnecting] by blast
  from same_links_get [OF t1(4) l] obtain l1 where
    l1: "get_link t1 i = Some l1" "lk_link_id l1 = lk_link_id l" by blast
  let ?t = "t1\<lparr>disconnected := disconnected t1 @ [(lk_link_id l1, reason)],
    t_links := drop_trailing_none ((t_links t1)[i := None])\<rparr>"
  have eq: "remove_link now i reason t = Some (publish_links ?t)"
    using t1(1) l1(1) by (simp add: remove_link_def notify_disconnected_def)
  have g: "get_link ?t j = (if j = i then None else get_link t1 j)" for j
    by (simp add: get_link_at drop_trailing_none_at)
  have led: "ledger_of ?t = led_remove i (ledger_of t1)"
    by (intro ledger.equality) (auto simp: led_remove_def fun_eq_iff g)
  have inv1: "tx_inv t1" using t1(2) by (simp add: tx_moves_def)
  have "ready_inv ?t"
    using inv1 t1(5) unfolding tx_inv_def ready_inv_def g by auto
  moreover have "ledger_inv (ledger_of ?t)"
    unfolding led
  proof (rule led_remove_inv)
    show "ledger_inv (ledger_of t1)" using inv1 by (simp add: tx_inv_def)
    show "\<not> sent_on i (g_pkts (ledger_of t1) ! p)" if "p \<in> set (g_txed (ledger_of t1))" for p
      using led_requeue_none_sent [of "ledger_of t" p i "resend_queue t1"] that t1(3) inv
      by (simp add: tx_inv_def)
  qed
  ultimately have "tx_moves t1 ?t" by (simp add: tx_moves_def tx_inv_def rest_eq_def)
  then have "tx_moves t1 (publish_links ?t)"
    by (meson publish_links_moves tx_moves_def tx_moves_trans)
  then have "tx_moves t (publish_links ?t)" by (rule tx_moves_trans [OF t1(2)])
  moreover have "ledger_of (publish_links ?t) = led_remove i (led_requeue i (resend_queue t1) (ledger_of t))"
    using led t1(3) by simp
  ultimately show ?thesis
    using eq g t1(4,5) l1(2) dis
    by (intro exI [of _ "publish_links ?t"] exI [of _ "resend_queue t1"])
      (auto simp: same_links_def)
qed

end
