(* ===== verification/Task_Limits_Inv.thy ===== *)
theory Task_Limits_Inv
  imports Task_Limits Task_Ledger
begin

text \<open>
  Limits, deadlines and link tests preserve the invariants of the transmit side and do not panic;
  what the limits of unacknowledged data and the choice of deadlines achieve.
\<close>

section \<open>Harmless changes of links\<close>

text \<open>A change that concerns neither the ledger nor whether the link can send.\<close>

definition harmless :: "'tx link_int \<Rightarrow> 'tx link_int \<Rightarrow> bool" where
  "harmless l l' \<longleftrightarrow> lk_link_id l' = lk_link_id l \<and> txed_unacked_data l' = txed_unacked_data l \<and>
     lcfg l' = lcfg l \<and> (ready_link l \<longrightarrow> ready_link l') \<and> (tx_idle l \<longrightarrow> tx_idle l') \<and>
     lk_unconfirmed l' = lk_unconfirmed l"

lemma harmless_refl [simp, intro]: "harmless l l"
  by (simp add: harmless_def)

lemma harmlessI:
  assumes "lk_link_id l' = lk_link_id l" "txed_unacked_data l' = txed_unacked_data l"
    "lk_cfg l' = lk_cfg l" "lk_link_cfg l' = lk_link_cfg l" "lk_unconfirmed l' = lk_unconfirmed l"
    "lk_test l' = lk_test l" "lk_tx_polling l' = lk_tx_polling l" "tx_data l' = tx_data l"
  shows "harmless l l'"
  using assms by (simp add: harmless_def lcfg_def ready_link_def tx_ok_def tx_idle_def split: option.split)

lemma put_harmless:
  assumes "tx_inv t" and "get_link t i = Some l" and "harmless l l'"
  shows "tx_moves t (put_link i l' t)" and "ledger_of (put_link i l' t) = ledger_of t"
    and "same_links t (put_link i l' t)"
  using put_link_ok [OF assms(1,2), of l'] assms(3) tx_inv_link [OF assms(1,2)]
  by (simp_all add: harmless_def)

lemma map_links_ok:
  assumes inv: "tx_inv t" and h: "\<And>l. harmless l (f l)"
  shows "tx_moves t (map_links f t)" and "ledger_of (map_links f t) = ledger_of t"
    and "same_links t (map_links f t)" and "idle_links (map_links f t) = idle_links t"
    and "resend_queue (map_links f t) = resend_queue t"
proof -
  have g: "get_link (map_links f t) i = map_option f (get_link t i)" for i
    by (simp add: get_link_at map_links_def)
  show led: "ledger_of (map_links f t) = ledger_of t"
    using h by (intro ledger.equality)
      (auto simp: fun_eq_iff get_link_at map_links_def harmless_def option.map_comp comp_def)
  show id: "idle_links (map_links f t) = idle_links t"
    and "resend_queue (map_links f t) = resend_queue t" by (simp_all add: map_links_def)
  have "ready_inv (map_links f t)"
    using inv h unfolding tx_inv_def ready_inv_def g id harmless_def by fastforce
  then show "tx_moves t (map_links f t)"
    using inv led by (simp add: tx_moves_def tx_inv_def rest_eq_def map_links_def)
  show "same_links t (map_links f t)"
    using h by (simp add: same_links_def get_link_at harmless_def option.map_comp comp_def map_links_def)
qed

text \<open>A change of the task that concerns neither its links nor its packets.\<close>

lemma tx_moves_other:
  assumes "tx_inv t" and "t_links t' = t_links t" and "idle_links t' = idle_links t"
    and "ledger_of t' = ledger_of t" and "rest_eq t t'"
  shows "tx_moves t t'" and "same_links t t'"
proof -
  have "t_store t' = t_store t \<or> pkts (t_store t') = pkts (t_store t)"
    using assms(4) by (metis ledger_of_sel(3))
  then show "tx_moves t t'"
    using assms ready_inv_cong [OF assms(2,3)] by (auto simp: tx_moves_def tx_inv_def)
  show "same_links t t'" using assms(2) by (rule same_links_cong)
qed

section \<open>Slow links\<close>

lemma enum_links_set: "(i, l) \<in> set (enum_links ls) \<longleftrightarrow> links_at ls i = Some l"
proof -
  have "(i, l) \<in> set (enum_links ls) \<longleftrightarrow> (i, Some l) \<in> set (enumerate 0 ls)"
    by (force simp: enum_links_def split: option.splits)
  then show ?thesis by (simp add: in_set_enumerate_eq links_at_Some)
qed

lemma same_links_None:
  assumes "same_links t t'"
  shows "get_link t' i = None \<longleftrightarrow> get_link t i = None"
proof -
  have "map_option (\<lambda>l. (lk_link_id l, lcfg l)) (get_link t' i) =
      map_option (\<lambda>l. (lk_link_id l, lcfg l)) (get_link t i)"
    using assms by (simp add: same_links_def)
  then show ?thesis by (cases "get_link t i"; cases "get_link t' i") auto
qed

lemma unconfirm_all_ok:
  assumes "tx_inv t" and "\<forall>(i, r) \<in> set us. get_link t i \<noteq> None"
  shows "\<exists>t'. unconfirm_all now us t = Some t' \<and> tx_moves t t' \<and> same_links t t' \<and>
    set (idle_links t') \<subseteq> set (idle_links t) \<and> set (resend_queue t) \<subseteq> set (resend_queue t')"
  using assms
proof (induction us arbitrary: t)
  case Nil
  then show ?case by (simp add: tx_moves_refl)
next
  case (Cons x us)
  obtain i r where x: "x = (i, r)" by force
  obtain l where l: "get_link t i = Some l" using Cons.prems x by auto
  obtain t1 where t1: "unconfirm_link now i r t = Some t1" "tx_moves t t1" "same_links t t1"
    "idle_links t1 = filter (\<lambda>j. j \<noteq> i) (idle_links t)"
    and rq: "resend_queue t1 = sort_by_seq (t_store t1) (resend_queue t @
      filter (\<lambda>p. sent_on i (pkts (t_store t) ! p)) (t_txed_packets t))"
    using unconfirm_link_ok [OF Cons.prems(1) l, of now r] by blast
  have "\<forall>(i, r) \<in> set us. get_link t1 i \<noteq> None"
    using Cons.prems(2) same_links_None [OF t1(3)] by auto
  with Cons.IH [of t1] t1(2) obtain t2 where
    "unconfirm_all now us t1 = Some t2" "tx_moves t1 t2" "same_links t1 t2"
    "set (idle_links t2) \<subseteq> set (idle_links t1)" "set (resend_queue t1) \<subseteq> set (resend_queue t2)"
    by (auto simp: tx_moves_def)
  then show ?case using x t1 rq by (auto intro: tx_moves_trans same_links_trans)
qed

lemma check_link_limits_ok:
  assumes "tx_inv t"
  shows "\<exists>t'. check_link_limits now t = Some t' \<and> tx_moves t t' \<and> same_links t t' \<and>
    set (idle_links t') \<subseteq> set (idle_links t) \<and> set (resend_queue t) \<subseteq> set (resend_queue t')"
proof -
  have "\<forall>(i, r) \<in> set (links_over_limit t). get_link t i \<noteq> None"
    by (auto simp: links_over_limit_def Let_def get_link_at enum_links_set split: if_splits option.splits)
  then show ?thesis using unconfirm_all_ok [OF assms] by (simp add: check_link_limits_def)
qed

section \<open>Limits of unacknowledged data\<close>

lemma harmless_limits [simp]:
  "harmless l (decrease_limit s l)"
  "harmless l ((decrease_limit s l)\<lparr>roundtrip_estimates := r\<rparr>)"
  "harmless l (increase_limit s n l)"
  "harmless l (l\<lparr>limit_increased_consecutively := k\<rparr>)"
  "harmless l (block_increase s (l\<lparr>txed_unacked_data_limit := n\<rparr>))"
  by (auto intro!: harmlessI simp: decrease_limit_def block_increase_def increase_limit_def split: option.split)

lemma oldest_sent_link_ok:
  assumes inv: "tx_inv t" and o: "oldest_sent_link t = Some i"
  shows "\<exists>l. get_link t i = Some l"
proof -
  from o have "i \<in> set (concat (map (\<lambda>p. case sr_status (t_store t ! p) of Sent _ _ i _ _ _ \<Rightarrow> [i] | _ \<Rightarrow> [])
      (t_txed_packets t)))"
    unfolding oldest_sent_link_def by (metis (no_types, lifting) find_Some_iff nth_mem)
  then obtain p where p: "p \<in> set (t_txed_packets t)"
    and "i \<in> set (case sr_status (t_store t ! p) of Sent _ _ i _ _ _ \<Rightarrow> [i] | _ \<Rightarrow> [])"
    unfolding set_concat set_map by blast
  then obtain lid m where "pkts (t_store t) ! p = PSent i lid m"
    using tx_inv_packet [OF inv p] by (cases "sr_status (t_store t ! p)") auto
  then show ?thesis
    using ledger_sent_link [of "ledger_of t" p i lid m] inv p by (auto simp: tx_inv_def)
qed

lemma adjust_overrun_ok:
  assumes inv: "tx_inv t"
  shows "\<exists>t'. adjust_overrun now remote cs t = Some t' \<and> tx_moves t t' \<and> same_links t t' \<and>
    idle_links t' = idle_links t \<and> resend_queue t' = resend_queue t"
proof -
  have plain: "tx_moves t (t\<lparr>tx_overrun := ov, tx_overrun_since := s\<rparr>)"
    "same_links t (t\<lparr>tx_overrun := ov, tx_overrun_since := s\<rparr>)" for ov s
    by (rule tx_moves_other [OF inv]; simp add: rest_eq_def ledger_of_def fun_eq_iff get_link_at)+
  have put: "\<exists>t'. Some (put_link i (block_increase cs (l\<lparr>txed_unacked_data_limit := n\<rparr>))
        (t\<lparr>tx_overrun := ov, tx_overrun_since := s\<rparr>)) = Some t' \<and> tx_moves t t' \<and> same_links t t' \<and>
      idle_links t' = idle_links t \<and> resend_queue t' = resend_queue t"
    if l: "get_link t i = Some l" for i l n ov s
  proof -
    let ?t = "t\<lparr>tx_overrun := ov, tx_overrun_since := s\<rparr>"
    have inv': "tx_inv ?t" and l': "get_link ?t i = Some l"
      using plain(1) [where ov = ov and s = s] l by (simp_all add: tx_moves_def get_link_at)
    from put_harmless [OF inv' l', of "block_increase cs (l\<lparr>txed_unacked_data_limit := n\<rparr>)"]
      tx_moves_trans [OF plain(1)] same_links_trans [OF plain(2)]
    show ?thesis by auto
  qed
  show ?thesis
  proof (cases "oldest_sent_link t")
    case None
    then show ?thesis using plain tx_moves_refl [OF inv] by (auto simp: adjust_overrun_def Let_def)
  next
    case (Some i)
    obtain l where l: "get_link t i = Some l" using oldest_sent_link_ok [OF inv Some] by blast
    then show ?thesis using Some plain tx_moves_refl [OF inv] put [OF l]
      by (auto simp: adjust_overrun_def Let_def)
  qed
qed

lemma adjust_link_tx_limits_ok:
  assumes inv: "tx_inv t"
  shows "\<exists>t'. adjust_link_tx_limits M now t = Some t' \<and> tx_moves t t' \<and> same_links t t' \<and>
    idle_links t' = idle_links t \<and> resend_queue t' = resend_queue t"
proof (cases "remote_recv_buffer t")
  case None
  then show ?thesis using tx_moves_refl [OF inv] by (simp add: adjust_link_tx_limits_def)
next
  case (Some remote)
  let ?ok = "\<lambda>a b. tx_moves a b \<and> same_links a b \<and> idle_links b = idle_links a \<and>
    resend_queue b = resend_queue a"
  have tr: "?ok a c" if "?ok a b" "?ok b c" for a b c :: "('a, 'b) task"
    using that by (auto intro: tx_moves_trans same_links_trans)
  have rearm: "?ok a (adjust_rearm now a)" if "tx_inv a" for a :: "('a, 'b) task"
    using tx_moves_other [OF that, of "a\<lparr>tx_overrun := Armed, tx_overrun_since := None\<rparr>"] tx_moves_refl [OF that]
    by (auto simp: adjust_rearm_def rest_eq_def ledger_of_def fun_eq_iff get_link_at split: option.split)
  have maxp: "?ok a (adjust_max_ping cs a)" if "tx_inv a" for a :: "('a, 'b) task" and cs
    using map_links_ok [OF that, of "\<lambda>l. case max_ping (lcfg l) of Some mp \<Rightarrow>
        if lk_unconfirmed l = None \<and> limit_increased l = None \<and> roundtrip l > mp * 3 div 4
        then decrease_limit cs l else l | None \<Rightarrow> l"] tx_moves_refl [OF that]
    by (auto simp: adjust_max_ping_def split: option.split)
  have spread: "?ok a (adjust_spread cs a)" if "tx_inv a" for a :: "('a, 'b) task" and cs
    using map_links_ok [OF that, of "\<lambda>l. if lk_unconfirmed l = None \<and> \<not> is_blocked l \<and>
        roundtrip l > fst (the (ping_spread_limits a)) \<and> estimates_reliable l
        then (decrease_limit cs l)\<lparr>roundtrip_estimates := None\<rparr> else l"] tx_moves_refl [OF that]
    by (auto simp: adjust_spread_def split: option.split)
  have incr: "?ok a (adjust_increase M cs slow gp a)" if "tx_inv a" for a :: "('a, 'b) task" and cs slow gp
  proof -
    have w: "?ok a (a\<lparr>write_rx := rx\<rparr>)" for rx
      using tx_moves_other [OF that, of "a\<lparr>write_rx := rx\<rparr>"]
      by (simp add: rest_eq_def ledger_of_def fun_eq_iff get_link_at)
    have ml: "?ok b (map_links (\<lambda>l. if may_increase slow gp l then increase_limit cs n l else l) b)"
      if "tx_inv b" for b :: "('a, 'b) task" and n
      using map_links_ok [OF that, of "\<lambda>l. if may_increase slow gp l then increase_limit cs n l else l"] by auto
    have wm: "?ok a (map_links (\<lambda>l. if may_increase slow gp l then increase_limit cs n l else l) (a\<lparr>write_rx := rx\<rparr>))"
      for n rx using w [of rx] tr [OF w ml] by (simp add: tx_moves_def)
    show ?thesis
      using w wm ml [OF that] tx_moves_refl [OF that]
      by (auto simp: adjust_increase_def Let_def split: option.split prod.split sum.split)
  qed
  have reset: "?ok a (adjust_reset_consecutive low a)" if "tx_inv a" for a :: "('a, 'b) task" and low
    using map_links_ok [OF that, of "\<lambda>l. l\<lparr>limit_increased_consecutively := 0\<rparr>"] tx_moves_refl [OF that]
    by (auto simp: adjust_reset_consecutive_def)
  define cs where "cs = coming_seq t"
  obtain t1 where t1: "adjust_overrun now remote cs t = Some t1" "?ok t t1"
    using adjust_overrun_ok [OF inv] by blast
  define t2 where "t2 = adjust_rearm now t1"
  define t3 where "t3 = adjust_max_ping cs t2"
  define t4 where "t4 = adjust_spread cs t3"
  define t5 where "t5 = adjust_increase M cs (all_links_half_slow t2) (map_option snd (ping_spread_limits t3)) t4"
  define t6 where "t6 = adjust_reset_consecutive (txed_unconsumable t < unconsumable_limit t remote div 4) t5"
  have i1: "tx_inv t1" using t1(2) by (simp add: tx_moves_def)
  have o2: "?ok t1 t2" unfolding t2_def by (rule rearm [OF i1])
  have o3: "?ok t2 t3" unfolding t3_def by (rule maxp) (use o2 in \<open>simp add: tx_moves_def\<close>)
  have o4: "?ok t3 t4" unfolding t4_def by (rule spread) (use o3 in \<open>simp add: tx_moves_def\<close>)
  have o5: "?ok t4 t5" unfolding t5_def by (rule incr) (use o4 in \<open>simp add: tx_moves_def\<close>)
  have o6: "?ok t5 t6" unfolding t6_def by (rule reset) (use o5 in \<open>simp add: tx_moves_def\<close>)
  have "?ok t t6" by (rule tr [OF t1(2) tr [OF o2 tr [OF o3 tr [OF o4 tr [OF o5 o6]]]]])
  moreover have "adjust_link_tx_limits M now t = Some t6"
    using Some t1(1)
    by (simp add: adjust_link_tx_limits_def t2_def t3_def t4_def t5_def t6_def cs_def Let_def)
  ultimately show ?thesis by blast
qed

section \<open>Testing links\<close>

lemma put_nonidle:
  assumes inv: "tx_inv t" and l: "get_link t i = Some l" and ni: "i \<notin> set (idle_links t)"
    and k: "lk_link_id l' = lk_link_id l" "txed_unacked_data l' = txed_unacked_data l" "lcfg l' = lcfg l"
      "ready_link l'"
  shows "tx_moves t (put_link i l' t) \<and> same_links t (put_link i l' t) \<and>
    idle_links (put_link i l' t) = idle_links t \<and> resend_queue (put_link i l' t) = resend_queue t"
proof -
  have led: "ledger_of (put_link i l' t) = ledger_of t"
    using ledger_of_put [OF l k(1,2), of "t_store t"] by simp
  have "ready_inv (put_link i l' t)"
    by (rule ready_inv_put [OF _ l k(4)]) (use inv ni in \<open>auto simp: tx_inv_def ready_inv_def\<close>)
  then show ?thesis
    using inv led l k(1,3) by (auto simp: tx_moves_def tx_inv_def same_links_def)
qed

lemma retry_failed_test_simps [simp]:
  "lk_link_id (retry_failed_test now l) = lk_link_id l" "lcfg (retry_failed_test now l) = lcfg l"
  "txed_unacked_data (retry_failed_test now l) = txed_unacked_data l"
  "lk_unconfirmed (retry_failed_test now l) = lk_unconfirmed l"
  "lk_tx_polling (retry_failed_test now l) = lk_tx_polling l" "tx_data (retry_failed_test now l) = tx_data l"
  by (auto simp: retry_failed_test_def lcfg_def split: link_test.split option.split)

lemma retry_failed_test_ready: "ready_link l \<Longrightarrow> ready_link (retry_failed_test now l)"
  by (auto simp: retry_failed_test_def ready_link_def tx_ok_def split: link_test.split)

lemma idle_remove_id: "i \<notin> set (idle_links t) \<Longrightarrow> idle_remove i t = t"
proof -
  assume "i \<notin> set (idle_links t)"
  then have "filter (\<lambda>j. j \<noteq> i) (idle_links t) = idle_links t" by (intro filter_True) auto
  then show ?thesis by (simp add: idle_remove_def)
qed

lemma lcfg_set_unconfirmed [simp]: "lcfg (set_unconfirmed u l) = lcfg l"
  by (simp add: lcfg_def split: option.split)

lemma report_ready_simps [simp]:
  "lk_link_id (report_ready now l) = lk_link_id l" "lcfg (report_ready now l) = lcfg l"
  "txed_unacked_data (report_ready now l) = txed_unacked_data l"
  "lk_unconfirmed (report_ready now l) = lk_unconfirmed l" "lk_test (report_ready now l) = lk_test l"
  "tx_ok (report_ready now l)"
  by (simp_all add: report_ready_def lcfg_def tx_ok_def split: option.split)

lemma link_testing_step_ok:
  assumes inv: "tx_inv t" and i: "i < length (t_links t)"
  shows "\<exists>d t'. link_testing_step S now i t = Some (d, t') \<and> tx_moves t t' \<and> same_links t t' \<and>
    idle_links t' = idle_links t \<and> resend_queue t' = resend_queue t"
proof (cases "get_link t i")
  case None
  then have "t_links t ! i = None" using i by (simp add: get_link_at links_at_def nth_opt_def)
  then show ?thesis using i tx_moves_refl [OF inv] by (simp add: link_testing_step_def nth_opt_def)
next
  case (Some l)
  have at: "nth_opt (t_links t) i = Some (Some l)" using Some by (simp add: get_link_Some)
  have rl: "ready_link l" by (rule tx_inv_link [OF inv Some])
  show ?thesis
  proof (cases "i \<in> set (idle_links t)")
    case True
    then have u: "lk_unconfirmed l = None" using tx_inv_idle [OF inv True] Some by auto
    then have "lk_test l = Inactive" using rl by (auto simp: ready_link_def)
    then have "link_testing_step S now i t = Some (None, put_link i l t)"
      using at u by (simp add: link_testing_step_def retry_failed_test_def test_inactive_def nth_opt_def)
    then show ?thesis using put_harmless [OF inv Some, of l] by auto
  next
    case False
    define l1 where "l1 = retry_failed_test now l"
    have r1: "ready_link l1" unfolding l1_def by (rule retry_failed_test_ready [OF rl])
    have k1: "lk_link_id l1 = lk_link_id l" "txed_unacked_data l1 = txed_unacked_data l" "lcfg l1 = lcfg l"
      "lk_unconfirmed l1 = lk_unconfirmed l" by (simp_all add: l1_def)
    let ?ok = "\<lambda>r. \<exists>d t'. r = Some (d, t') \<and> tx_moves t t' \<and> same_links t t' \<and>
      idle_links t' = idle_links t \<and> resend_queue t' = resend_queue t"
    have put: "?ok (Some (d, put_link i l' t))"
      if "lk_link_id l' = lk_link_id l1" "txed_unacked_data l' = txed_unacked_data l1" "lcfg l' = lcfg l1"
        "ready_link l'" for d l'
      using put_nonidle [OF inv Some False, of l'] that k1 by auto
    have conf: "?ok (Some (d, confirm_again now i l' t))"
      if "lk_link_id l' = lk_link_id l1" "txed_unacked_data l' = txed_unacked_data l1" "lcfg l' = lcfg l1"
        "lk_test l' = Inactive" for d l'
      unfolding confirm_again_def idle_remove_id [OF False]
      by (rule put) (use that in \<open>simp_all add: ready_link_def\<close>)
    have inact: "?ok (test_inactive S now i l1 t)" if ti: "lk_test l1 = Inactive"
    proof (cases "\<exists>since reason. lk_unconfirmed l1 = Some (since, reason) \<and> lk_tx_polling l1 = None \<and>
        current_ping_sent l1 = None \<and> \<not> has_outstanding_ack l1")
      case False
      then have "test_inactive S now i l1 t = Some (None, put_link i l1 t)"
        by (auto simp: test_inactive_def split: option.split)
      then show ?thesis using put [of l1 None] r1 by simp
    next
      case True
      then obtain since reason where c: "lk_unconfirmed l1 = Some (since, reason)" "lk_tx_polling l1 = None"
        "current_ping_sent l1 = None" "\<not> has_outstanding_ack l1" by blast
      have txd: "tx_data l1 = None" using r1 c(2) by (auto simp: ready_link_def tx_ok_def)
      obtain n l2 where l2: "send_test_data S now (io_write_size (t_cfg t)) (test_size_limit (t_cfg t) l1) l1 = Some (n, l2)"
        "keeps l1 l2" "tx_data l2 = None" using send_test_data_frame [OF txd] by blast
      have "?ok (Some (None, put_link i (l2\<lparr>send_ping := True, lk_test := InProgress\<rparr>) t))"
        by (rule put) (use l2 c in \<open>auto simp: keeps_def ready_link_def tx_ok_def lcfg_def split: option.split\<close>)
      moreover have "?ok (Some (d, put_link i (set_unconfirmed (Some (now, reason)) l1) t))" for d
        by (rule put) (use r1 in \<open>auto simp: ready_link_def tx_ok_def\<close>)
      moreover have "?ok (Some (d, put_link i l1 t))" for d by (rule put) (use r1 in simp_all)
      ultimately show ?thesis
        using c l2(1) conf [of l1 None] ti by (simp add: test_inactive_def Let_def)
    qed
    have prog: "?ok (Some (test_in_progress now i lp slow l1 t))" for lp slow
    proof -
      have "?ok (Some (d, put_link i (set_unconfirmed (Some (s, r)) (l1\<lparr>lk_test := Failed now\<rparr>)) t))" for d s r
        by (rule put) (use r1 in \<open>auto simp: ready_link_def tx_ok_def lcfg_def split: option.split\<close>)
      moreover have "?ok (Some (None, confirm_again now i (l1\<lparr>lk_test := Inactive\<rparr>) t))"
        by (rule conf) (simp_all add: lcfg_def split: option.split)
      moreover have "?ok (Some (d, put_link i l1 t))" for d by (rule put) (use r1 in simp_all)
      ultimately show ?thesis by (simp add: test_in_progress_def Let_def)
    qed
    have "?ok (Some (d, put_link i l1 t))" for d by (rule put) (use r1 in simp_all)
    then show ?thesis
      using at inact prog unfolding link_testing_step_def
      by (cases "lk_test l1") (simp_all add: l1_def [symmetric] nth_opt_def Let_def)
  qed
qed

lemma same_links_length: "same_links t t' \<Longrightarrow> length (t_links t') = length (t_links t)"
  by (simp add: same_links_def)

lemma link_testing_all_ok:
  assumes "tx_inv t" and "\<forall>i \<in> set is. i < length (t_links t)"
  shows "\<exists>d t'. link_testing_all S now is t = Some (d, t') \<and> tx_moves t t' \<and> same_links t t' \<and>
    idle_links t' = idle_links t \<and> resend_queue t' = resend_queue t"
  using assms
proof (induction "is" arbitrary: t)
  case Nil
  then show ?case by (simp add: tx_moves_refl)
next
  case (Cons i "is")
  obtain d t1 where t1: "link_testing_step S now i t = Some (d, t1)" "tx_moves t t1" "same_links t t1"
    "idle_links t1 = idle_links t" "resend_queue t1 = resend_queue t"
    using link_testing_step_ok [OF Cons.prems(1), of i S now] Cons.prems(2) by auto
  have "tx_inv t1" "\<forall>i \<in> set is. i < length (t_links t1)"
    using t1 Cons.prems(2) same_links_length [OF t1(3)] by (auto simp: tx_moves_def)
  from Cons.IH [OF this] obtain d2 t2 where t2: "link_testing_all S now is t1 = Some (d2, t2)"
    "tx_moves t1 t2" "same_links t1 t2" "idle_links t2 = idle_links t1" "resend_queue t2 = resend_queue t1" by blast
  then show ?case using t1 by (auto intro: tx_moves_trans same_links_trans)
qed

section \<open>Deadlines\<close>

text \<open>The bounds of the acknowledgement timeout are in order, which the configuration does not check.\<close>

definition timeouts_ordered :: "('tx, 'wr) task \<Rightarrow> bool" where
  "timeouts_ordered t \<longleftrightarrow>
     (\<forall>i l. get_link t i = Some l \<longrightarrow> ack_timeout_min (lcfg l) \<le> ack_timeout_max (lcfg l))"

lemma timeouts_ordered_same: "same_links t t' \<Longrightarrow> timeouts_ordered t \<Longrightarrow> timeouts_ordered t'"
proof -
  assume s: "same_links t t'" and o: "timeouts_ordered t"
  have "ack_timeout_min (lcfg l') \<le> ack_timeout_max (lcfg l')" if l': "get_link t' i = Some l'" for i l'
  proof -
    obtain l where l: "get_link t i = Some l" using same_links_None [OF s, of i] l' by auto
    with same_links_get [OF s l] l' o show ?thesis by (auto simp: timeouts_ordered_def)
  qed
  then show ?thesis by (simp add: timeouts_ordered_def)
qed

lemma confirm_timeout_loop_ok:
  assumes inv: "tx_inv t" and o: "timeouts_ordered t" and "set ps \<subseteq> set (t_txed_packets t)"
  shows "\<exists>r. confirm_timeout_loop t ps = Some r \<and> (\<forall>i d f. r = Some (i, d, f) \<longrightarrow> get_link t i \<noteq> None)"
  using assms(3)
proof (induction ps)
  case (Cons p ps)
  have p: "p \<in> set (t_txed_packets t)" "p < length (t_store t)"
    using Cons.prems tx_inv_packet [OF inv, of p] by auto
  show ?case
  proof (cases "sr_status (t_store t ! p)")
    case (Sent sent fl i lid m rs)
    then obtain l where l: "get_link t i = Some l"
      using ledger_sent_link [of "ledger_of t" p i lid m] inv p by (auto simp: tx_inv_def)
    then have "ack_timeout_min (lcfg l) \<le> ack_timeout_max (lcfg l)" using o by (simp add: timeouts_ordered_def)
    then obtain d where "confirm_duration rs l = Some d" by (auto simp: confirm_duration_def clamp_def Let_def)
    then show ?thesis using Sent l p by (simp add: nth_opt_def)
  qed (use Cons p in \<open>auto simp: nth_opt_def\<close>)
qed simp

lemma earliest_confirm_timeout_ok:
  assumes "tx_inv t" and "timeouts_ordered t"
  shows "\<exists>r. earliest_confirm_timeout t = Some r \<and> (\<forall>i d f. r = Some (i, d, f) \<longrightarrow> get_link t i \<noteq> None)"
  using confirm_timeout_loop_ok [OF assms, of "t_txed_packets t"] by (simp add: earliest_confirm_timeout_def)

lemma min_by_key_in: "min_by_key f xs = Some x \<Longrightarrow> x \<in> set xs"
  by (induction xs arbitrary: x) (auto split: option.splits if_splits)

lemma min_by_key_None [simp]: "min_by_key f xs = None \<longleftrightarrow> xs = []"
  by (cases xs) (auto split: option.split)

lemma min_by_key_least: "min_by_key f xs = Some x \<Longrightarrow> y \<in> set xs \<Longrightarrow> f x \<le> f y"
proof (induction xs arbitrary: x)
  case (Cons z zs)
  show ?case
  proof (cases "min_by_key f zs")
    case None
    then show ?thesis using Cons.prems by simp
  next
    case (Some w)
    then show ?thesis using Cons by (force split: if_splits)
  qed
qed simp

lemma earliest_link_specific_timeout_link:
  "earliest_link_specific_timeout tf sf t = Some (i, d) \<Longrightarrow> get_link t i \<noteq> None"
  unfolding earliest_link_specific_timeout_def
  by (drule min_by_key_in) (auto simp: enum_links_set get_link_at split: option.splits)

lemma next_link_ping_link: "next_link_ping now t = Some (i, d) \<Longrightarrow> get_link t i \<noteq> None"
  unfolding next_link_ping_def
  by (drule min_by_key_in) (auto simp: enum_links_set get_link_at split: option.splits)

lemmas deadline_links =
  next_link_ping_link
  earliest_link_specific_timeout_link [of ping_timeout current_ping_sent, folded next_pong_timeout_def]
  earliest_link_specific_timeout_link [of non_working_timeout unconfirmed_since, folded next_unconfirmed_timeout_def]
  earliest_link_specific_timeout_link [of ping_timeout lk_tx_polling, folded next_send_timeout_def]

end
