(* ===== verification/Task_Order.thy ===== *)
theory Task_Order
  imports Task_Rx Task_Limits_Inv
begin

text \<open>
  The receive side of the task puts messages back into order.

  \<open>rx_inv\<close> is the invariant that makes its assertions hold: every message in the reorder buffer is at
  the offset of its sequence number, and the counters are the sums they stand for.  \<open>rx_hist\<close> relates
  the state to the messages the remote endpoint numbered: what has been handed on is exactly the
  consumable part of a prefix of them.
\<close>

section \<open>Invariant\<close>

fun slot_size :: "received_msg option \<Rightarrow> nat" where
  "slot_size (Some m) = msg_size (rm_msg m)"
| "slot_size None = 0"

definition rx_inv :: "('tx, 'wr) task \<Rightarrow> bool" where
  "rx_inv t \<longleftrightarrow>
     (\<forall>k < length (rxed_reliable t). \<forall>m. rxed_reliable t ! k = Some m \<longrightarrow>
        rm_seq m = seq_add_u32 (rx_seq t) (of_nat k)) \<and>
     (rxed_reliable t = [] \<or> hd (rxed_reliable t) = None) \<and>
     rxed_reliable_size t = (\<Sum>x\<leftarrow>rxed_reliable t. slot_size x) +
       (\<Sum>m\<leftarrow>rxed_reliable_consumable t. msg_size (rm_msg m)) \<and>
     (\<forall>m \<in> set (rxed_reliable_consumable t). is_consumable (rm_msg m))"

definition rx_fields :: "('tx, 'wr) task \<Rightarrow> seq \<times> received_msg option list \<times> received_msg list \<times> usize" where
  "rx_fields t = (rx_seq t, rxed_reliable t, rxed_reliable_consumable t, rxed_reliable_size t)"

lemma rx_inv_cong: "rx_fields t' = rx_fields t \<Longrightarrow> rx_inv t' = rx_inv t"
  by (simp add: rx_inv_def rx_fields_def)

lemma rest_eq_rx: "rest_eq t t' \<Longrightarrow> rx_fields t' = rx_fields t"
  by (simp add: rest_eq_def rx_fields_def)

section \<open>Forwarding\<close>

text \<open>The number of messages that can be forwarded.\<close>

definition ready_count :: "received_msg option list \<Rightarrow> nat" where
  "ready_count q = length (takeWhile (\<lambda>x. x \<noteq> None) q)"

definition ready_msgs :: "received_msg option list \<Rightarrow> received_msg list" where
  "ready_msgs q = map the (takeWhile (\<lambda>x. x \<noteq> None) q)"

lemma forward_loop_ok:
  assumes "\<forall>k < length q. \<forall>m. q ! k = Some m \<longrightarrow> rm_seq m = seq_add_u32 s (of_nat k)"
  shows "forward_loop q s c =
    Some (drop (ready_count q) q, seq_add_u32 s (of_nat (ready_count q)),
      c @ filter (\<lambda>m. is_consumable (rm_msg m)) (ready_msgs q))"
  using assms
proof (induction q s c rule: forward_loop.induct)
  case (1 m q s c)
  have "rm_seq m = s" using 1(2) by force
  moreover have "\<forall>k < length q. \<forall>m. q ! k = Some m \<longrightarrow> rm_seq m = seq_add_u32 (seq_add_u32 s 1) (of_nat k)"
  proof (intro allI impI)
    fix k m' assume "k < length q" "q ! k = Some m'"
    then show "rm_seq m' = seq_add_u32 (seq_add_u32 s 1) (of_nat k)"
      using 1(2) [rule_format, of "Suc k" m'] by simp
  qed
  ultimately show ?case
    using 1(1) by (auto simp: ready_count_def ready_msgs_def)
qed (simp_all add: ready_count_def ready_msgs_def)

lemma sum_slots_split:
  "(\<Sum>x\<leftarrow>q. slot_size x) = (\<Sum>m\<leftarrow>ready_msgs q. msg_size (rm_msg m)) + (\<Sum>x\<leftarrow>drop (ready_count q) q. slot_size x)"
proof (induction q)
  case (Cons x q)
  then show ?case by (cases x) (auto simp: ready_msgs_def ready_count_def)
qed (simp add: ready_msgs_def ready_count_def)

lemma not_consumable_size: "\<not> is_consumable m \<Longrightarrow> msg_size m = 0"
  by (cases m) (auto simp: is_consumable_def)

lemma sum_consumable:
  "(\<Sum>m\<leftarrow>filter (\<lambda>m. is_consumable (rm_msg m)) ms. msg_size (rm_msg m)) = (\<Sum>m\<leftarrow>ms. msg_size (rm_msg m))"
  by (induction ms) (auto simp: not_consumable_size)

lemma hd_drop_ready: "drop (ready_count q) q = [] \<or> hd (drop (ready_count q) q) = None"
proof (induction q)
  case (Cons x q)
  then show ?case by (cases x) (auto simp: ready_count_def)
qed simp

text \<open>What the forwarding loop needs and what it establishes.\<close>

definition rx_pre :: "('tx, 'wr) task \<Rightarrow> bool" where
  "rx_pre t \<longleftrightarrow>
     (\<forall>k < length (rxed_reliable t). \<forall>m. rxed_reliable t ! k = Some m \<longrightarrow>
        rm_seq m = seq_add_u32 (rx_seq t) (of_nat k)) \<and>
     rxed_reliable_size t = (\<Sum>x\<leftarrow>rxed_reliable t. slot_size x) +
       (\<Sum>m\<leftarrow>rxed_reliable_consumable t. msg_size (rm_msg m)) \<and>
     (\<forall>m \<in> set (rxed_reliable_consumable t). is_consumable (rm_msg m))"

lemma rx_inv_pre: "rx_inv t \<Longrightarrow> rx_pre t"
  by (simp add: rx_inv_def rx_pre_def)

lemma forward_received_ok:
  assumes "rx_pre t"
  shows "\<exists>t'. forward_received t = Some t' \<and> rx_inv t' \<and>
    t' = t\<lparr>rxed_reliable := drop (ready_count (rxed_reliable t)) (rxed_reliable t),
           rx_seq := seq_add_u32 (rx_seq t) (of_nat (ready_count (rxed_reliable t))),
           rxed_reliable_consumable := rxed_reliable_consumable t @
             filter (\<lambda>m. is_consumable (rm_msg m)) (ready_msgs (rxed_reliable t))\<rparr>"
proof -
  let ?q = "rxed_reliable t" and ?s = "rx_seq t"
  let ?t = "t\<lparr>rxed_reliable := drop (ready_count ?q) ?q,
           rx_seq := seq_add_u32 ?s (of_nat (ready_count ?q)),
           rxed_reliable_consumable := rxed_reliable_consumable t @
             filter (\<lambda>m. is_consumable (rm_msg m)) (ready_msgs ?q)\<rparr>"
  have pos: "\<forall>k < length ?q. \<forall>m. ?q ! k = Some m \<longrightarrow> rm_seq m = seq_add_u32 ?s (of_nat k)"
    using assms by (simp add: rx_pre_def)
  have eq: "forward_received t = Some ?t" by (simp add: forward_received_def forward_loop_ok [OF pos])
  have "rm_seq m = seq_add_u32 ?s (of_nat (ready_count ?q) + of_nat k)"
    if "k < length (drop (ready_count ?q) ?q)" "drop (ready_count ?q) ?q ! k = Some m" for k m
    using pos [rule_format, of "ready_count ?q + k" m] that by simp
  moreover have "rxed_reliable_size t = (\<Sum>x\<leftarrow>rxed_reliable ?t. slot_size x) +
      (\<Sum>m\<leftarrow>rxed_reliable_consumable ?t. msg_size (rm_msg m))"
    using assms sum_slots_split [of ?q] by (simp add: rx_pre_def sum_consumable)
  ultimately have "rx_inv ?t"
    using assms hd_drop_ready [of ?q] by (auto simp: rx_inv_def rx_pre_def)
  then show ?thesis using eq by blast
qed

section \<open>Storing\<close>

definition grow :: "nat \<Rightarrow> received_msg option list \<Rightarrow> received_msg option list" where
  "grow n q = (if length q \<le> n then q @ replicate (n + 1 - length q) None else q)"

lemma grow_length [simp]: "length (grow n q) = max (length q) (Suc n)"
  by (auto simp: grow_def)

lemma grow_nth: "k < length (grow n q) \<Longrightarrow> grow n q ! k = (if k < length q then q ! k else None)"
  by (auto simp: grow_def nth_append split: if_splits)

lemma grow_sum: "(\<Sum>x\<leftarrow>grow n q. slot_size x) = (\<Sum>x\<leftarrow>q. slot_size x)"
  by (simp add: grow_def sum_list_replicate)

text \<open>The effect of a message on the fields besides the reorder buffer.\<close>

lemma reliable_effect_ok:
  assumes "reliable_effect m t = (Inr u, t')"
  shows "rxed_reliable t' = rxed_reliable t" "rx_seq t' = rx_seq t"
    "rxed_reliable_consumable t' = rxed_reliable_consumable t"
    "rxed_reliable_size t' = rxed_reliable_size t + msg_size m"
  using assms by (auto simp: reliable_effect_def Let_def split: reliable_msg.splits if_splits)

text \<open>
  The fields that storing may change are none of those of the transmit side.
\<close>

definition tx_fields_eq :: "('tx, 'wr) task \<Rightarrow> ('tx, 'wr) task \<Rightarrow> bool" where
  "tx_fields_eq t t' \<longleftrightarrow> ledger_of t' = ledger_of t \<and> t_links t' = t_links t \<and> idle_links t' = idle_links t \<and>
     t_store t' = t_store t \<and>
     t_cfg t' = t_cfg t \<and> t_remote_cfg t' = t_remote_cfg t \<and> init_links t' = init_links t \<and>
     consumed_since_last_ack t' = consumed_since_last_ack t \<and> delivered t' = delivered t"

lemma tx_fields_eq_refl [simp, intro]: "tx_fields_eq t t"
  by (simp add: tx_fields_eq_def)

lemma tx_fields_eq_trans: "tx_fields_eq a b \<Longrightarrow> tx_fields_eq b c \<Longrightarrow> tx_fields_eq a c"
  by (simp add: tx_fields_eq_def)

lemma tx_fields_inv: "tx_fields_eq t t' \<Longrightarrow> tx_inv t \<Longrightarrow> tx_inv t'"
  using ready_inv_cong [of t' t] by (auto simp: tx_fields_eq_def tx_inv_def)

lemma reliable_effect_tx: "reliable_effect m t = (r, t') \<Longrightarrow> tx_fields_eq t t'"
  by (auto simp: reliable_effect_def Let_def tx_fields_eq_def ledger_of_def fun_eq_iff get_link_at
      split: reliable_msg.splits if_splits)

lemma store_reliable_tx: "store_reliable s m t = (r, t') \<Longrightarrow> tx_fields_eq t t'"
proof -
  assume a: "store_reliable s m t = (r, t')"
  have q: "tx_fields_eq a (a\<lparr>rxed_reliable := q\<rparr>)" for q and a :: "('a, 'b) task"
    by (simp add: tx_fields_eq_def ledger_of_def fun_eq_iff get_link_at)
  let ?g = "t\<lparr>rxed_reliable := grow (nat (seq_sub s (rx_seq t))) (rxed_reliable t)\<rparr>"
  obtain r1 t1 where e: "reliable_effect m ?g = (r1, t1)" by force
  have "tx_fields_eq t t1" using q reliable_effect_tx [OF e] by (blast intro: tx_fields_eq_trans)
  then show ?thesis
    using a q e unfolding store_reliable_def grow_def [symmetric]
    by (auto simp: Let_def split: if_splits sum.splits intro: tx_fields_eq_trans)
qed

lemma store_reliable_ok:
  assumes pre: "rx_pre t" and st: "store_reliable s m t = (Inr u, t')"
  shows "rx_pre t'" and "rx_seq t' = rx_seq t"
    and "rxed_reliable_consumable t' = rxed_reliable_consumable t"
    and "\<exists>k. s = seq_add_u32 (rx_seq t) (of_nat k) \<and> int k = seq_sub s (rx_seq t) \<and> int k \<le> USABLE_INTERVAL \<and>
      rxed_reliable t' = (if k < length (rxed_reliable t) \<and> rxed_reliable t ! k \<noteq> None then rxed_reliable t
        else (grow k (rxed_reliable t))[k := Some \<lparr>rm_seq = s, rm_msg = m\<rparr>])"
proof -
  define k where "k = nat (seq_sub s (rx_seq t))"
  let ?q = "grow k (rxed_reliable t)"
  let ?g = "t\<lparr>rxed_reliable := ?q\<rparr>"
  have k: "0 \<le> seq_sub s (rx_seq t)" "seq_sub s (rx_seq t) \<le> USABLE_INTERVAL"
    using st by (auto simp: store_reliable_def Let_def split: if_splits)
  then have sk: "s = seq_add_u32 (rx_seq t) (of_nat k)" "int k = seq_sub s (rx_seq t)"
    using seq_add_sub [OF k(1)] by (simp_all add: k_def)
  have un: "store_reliable s m t =
      (if ?q ! k = None then
         (case reliable_effect m ?g of
            (Inl e, t) \<Rightarrow> (Inl e, t)
          | (Inr _, t) \<Rightarrow>
              (Inr (), t\<lparr>rxed_reliable := (rxed_reliable t)[k := Some \<lparr>rm_seq = s, rm_msg = m\<rparr>]\<rparr>))
       else (Inr (), ?g))"
    using k unfolding store_reliable_def Let_def grow_def k_def [symmetric] by simp
  have gk: "?q ! k = (if k < length (rxed_reliable t) then rxed_reliable t ! k else None)"
    by (rule grow_nth) simp
  have gpre: "rx_pre ?g"
    using pre by (auto simp: rx_pre_def grow_nth grow_sum split: if_splits)
  have "rx_pre t' \<and> rx_seq t' = rx_seq t \<and> rxed_reliable_consumable t' = rxed_reliable_consumable t \<and>
    rxed_reliable t' = (if k < length (rxed_reliable t) \<and> rxed_reliable t ! k \<noteq> None then rxed_reliable t
        else ?q[k := Some \<lparr>rm_seq = s, rm_msg = m\<rparr>])"
  proof (cases "?q ! k = None")
    case False
    then have "k < length (rxed_reliable t)" "rxed_reliable t ! k \<noteq> None" using gk by (auto split: if_splits)
    moreover have "t' = ?g" using un st False by auto
    ultimately show ?thesis using gpre by (simp add: grow_def)
  next
    case True
    obtain r t1 where e: "reliable_effect m ?g = (r, t1)" by force
    with un st True obtain v where r: "r = Inr v"
      and t': "t' = t1\<lparr>rxed_reliable := (rxed_reliable t1)[k := Some \<lparr>rm_seq = s, rm_msg = m\<rparr>]\<rparr>"
      by (cases r) auto
    note ef = reliable_effect_ok [OF e [unfolded r]]
    have "(\<Sum>x\<leftarrow>?q[k := Some \<lparr>rm_seq = s, rm_msg = m\<rparr>]. slot_size x) = (\<Sum>x\<leftarrow>?q. slot_size x) + msg_size m"
      using sum_list_map_update [of k ?q slot_size "Some \<lparr>rm_seq = s, rm_msg = m\<rparr>"] True by simp
    then have "rx_pre t'"
      using gpre ef t' sk by (auto simp: rx_pre_def nth_list_update split: if_splits)
    then show ?thesis using ef t' True gk by (auto split: if_splits)
  qed
  then show "rx_pre t'" "rx_seq t' = rx_seq t" "rxed_reliable_consumable t' = rxed_reliable_consumable t"
    "\<exists>k. s = seq_add_u32 (rx_seq t) (of_nat k) \<and> int k = seq_sub s (rx_seq t) \<and> int k \<le> USABLE_INTERVAL \<and>
      rxed_reliable t' = (if k < length (rxed_reliable t) \<and> rxed_reliable t ! k \<noteq> None then rxed_reliable t
        else (grow k (rxed_reliable t))[k := Some \<lparr>rm_seq = s, rm_msg = m\<rparr>])"
    using sk k by auto
qed

section \<open>Both sides of the task\<close>

text \<open>
  The invariant of the task: both sides are in order, links that are still to be added are fresh,
  and the configuration of the remote endpoint is known once there is a link.
\<close>

definition task_ok :: "('tx, 'wr) task \<Rightarrow> bool" where
  "task_ok t \<longleftrightarrow> tx_inv t \<and> rx_inv t \<and> (\<forall>l \<in> set (init_links t). fresh_link l) \<and>
     ((\<exists>i. get_link t i \<noteq> None) \<longrightarrow> t_remote_cfg t \<noteq> None)"

text \<open>What has been received and delivered is the same; the receiver of the user may have been dropped.\<close>

definition rx_quiet :: "('tx, 'wr) task \<Rightarrow> ('tx, 'wr) task \<Rightarrow> bool" where
  "rx_quiet t t' \<longleftrightarrow> rx_fields t' = rx_fields t \<and> delivered t' = delivered t \<and> (read_tx t' \<longrightarrow> read_tx t)"

text \<open>
  Steps of the task: \<open>task_moves\<close> when nothing is received from the remote endpoint or delivered to the
  user, \<open>task_evolves\<close> otherwise.
\<close>

definition task_moves :: "('tx, 'wr) task \<Rightarrow> ('tx, 'wr) task \<Rightarrow> bool" where
  "task_moves t t' \<longleftrightarrow> task_ok t' \<and> advances (pkts (t_store t)) (pkts (t_store t')) \<and> rx_quiet t t'"

definition task_evolves :: "('tx, 'wr) task \<Rightarrow> ('tx, 'wr) task \<Rightarrow> bool" where
  "task_evolves t t' \<longleftrightarrow> task_ok t' \<and> evolves (pkts (t_store t)) (pkts (t_store t'))"

lemma rx_quiet_refl [simp, intro]: "rx_quiet t t"
  by (simp add: rx_quiet_def)

lemma rx_quiet_rest: "rest_eq t t' \<Longrightarrow> rx_quiet t t'"
  by (simp add: rx_quiet_def rest_eq_def rx_fields_def)

lemma task_moves_refl: "task_ok t \<Longrightarrow> task_moves t t"
  by (simp add: task_moves_def)

lemma task_moves_trans: "task_moves a b \<Longrightarrow> task_moves b c \<Longrightarrow> task_moves a c"
  unfolding task_moves_def rx_quiet_def by (auto intro: advances_trans)

lemma task_moves_evolves: "task_moves t t' \<Longrightarrow> task_evolves t t'"
  by (simp add: task_moves_def task_evolves_def advances_evolves)

lemma task_evolves_trans: "task_evolves a b \<Longrightarrow> task_evolves b c \<Longrightarrow> task_evolves a c"
  unfolding task_evolves_def by (blast intro: evolves_trans)

lemma task_moves_tx:
  assumes "task_ok t" and "tx_moves t t'" and "\<And>i. get_link t' i \<noteq> None \<Longrightarrow> get_link t i \<noteq> None"
  shows "task_moves t t'"
proof -
  have "(\<exists>i. get_link t' i \<noteq> None) \<longrightarrow> (\<exists>i. get_link t i \<noteq> None)" using assms(3) by blast
  then show ?thesis
    using assms(1,2) rx_inv_cong [OF rest_eq_rx, of t t'] rx_quiet_rest [of t t']
    unfolding task_ok_def task_moves_def tx_moves_def by (auto simp: rest_eq_def)
qed

lemma task_moves_same: "task_ok t \<Longrightarrow> tx_moves t t' \<Longrightarrow> same_links t t' \<Longrightarrow> task_moves t t'"
  by (rule task_moves_tx) (auto simp: same_links_None)

lemma task_evolves_acks:
  assumes "task_ok t" and "tx_acks t t'" and "same_links t t'"
  shows "task_evolves t t'"
proof -
  have "get_link t' i = None \<longleftrightarrow> get_link t i = None" for i using same_links_None [OF assms(3)] by blast
  then show ?thesis
    using assms(1,2) rx_inv_cong [OF rest_eq_rx, of t t']
    unfolding task_ok_def task_evolves_def tx_acks_def by (auto simp: rest_eq_def)
qed

lemma task_evolves_fields:
  assumes "task_ok t" and "tx_fields_eq t t'" and "rx_inv t'"
  shows "task_evolves t t'"
proof -
  have "get_link t' i = get_link t i" for i using assms(2) by (simp add: get_link_at tx_fields_eq_def)
  then show ?thesis
    using assms tx_fields_inv [OF assms(2)] by (simp add: task_ok_def task_evolves_def tx_fields_eq_def)
qed

section \<open>Receiving reliable messages\<close>

lemma put_reported:
  assumes inv: "tx_inv t" and l: "get_link t i = Some l" and h: "harmless l l'"
  shows "tx_moves t (put_link i (report_ready now l') (idle_remove i t))"
    and "same_links t (put_link i (report_ready now l') (idle_remove i t))"
proof -
  have ne: "get_link (idle_remove i t) i = Some l" using l by simp
  have inv': "tx_inv (idle_remove i t)" using inv by (auto simp: tx_inv_def ready_inv_def)
  have "ready_link (report_ready now l')"
  proof -
    have "ready_link l'" using tx_inv_link [OF inv l] h by (simp add: harmless_def)
    then show ?thesis by (simp add: ready_link_def)
  qed
  then have "tx_moves (idle_remove i t) (put_link i (report_ready now l') (idle_remove i t)) \<and>
      same_links (idle_remove i t) (put_link i (report_ready now l') (idle_remove i t))"
    using put_nonidle [OF inv' ne, of "report_ready now l'"] h by (simp add: harmless_def)
  moreover have "tx_moves t (idle_remove i t)" using inv' by (simp add: tx_moves_def)
  moreover have "same_links t (idle_remove i t)" by (rule same_links_cong) simp
  ultimately show "tx_moves t (put_link i (report_ready now l') (idle_remove i t))"
    "same_links t (put_link i (report_ready now l') (idle_remove i t))"
    by (blast intro: tx_moves_trans same_links_trans)+
qed

lemma queue_ack_ok:
  assumes inv: "tx_inv t" and l: "get_link t i = Some l"
  shows "\<exists>t'. queue_ack now i s t = Some t' \<and> tx_moves t t' \<and> same_links t t' \<and>
    (\<exists>l'. get_link t' = (get_link t)(i \<mapsto> l') \<and> tx_ack_queue l' = tx_ack_queue l @ [s])"
proof -
  let ?l = "l\<lparr>tx_ack_queue := tx_ack_queue l @ [s]\<rparr>"
  let ?t = "put_link i (report_ready now ?l) (idle_remove i t)"
  have "harmless l ?l" by (rule harmlessI) simp_all
  note pr = put_reported [OF inv l this]
  have "get_link ?t = (get_link t)(i \<mapsto> report_ready now ?l)" using l by (intro get_link_put) simp_all
  then show ?thesis using l pr by (auto simp: queue_ack_def report_ready_def)
qed

lemma handle_received_reliable_msg_ok:
  assumes ok: "task_ok t" and l: "get_link t i = Some l"
  shows "\<exists>res t'. handle_received_reliable_msg now i s m t = Some (res, t') \<and>
    (res = Inr () \<longrightarrow> task_evolves t t' \<and> pkts (t_store t') = pkts (t_store t)) \<and> get_link t' i \<noteq> None"
proof -
  have inv: "tx_inv t" "rx_inv t" using ok by (simp_all add: task_ok_def)
  obtain t1 where t1: "queue_ack now i s t = Some t1" "tx_moves t t1" "same_links t t1"
    using queue_ack_ok [OF inv(1) l] by blast
  have m1: "task_moves t t1" by (rule task_moves_same [OF ok t1(2,3)])
  then have ok1: "task_ok t1" by (simp add: task_moves_def)
  have st1: "t_store t1 = t_store t" using t1(1) l by (auto simp: queue_ack_def)
  obtain res t2 where st: "(if s < rx_seq t1 then (Inr (), t1) else store_reliable s m t1) = (res, t2)" by force
  have tx2: "tx_fields_eq t1 t2" using st store_reliable_tx [of s m t1] by (auto split: if_splits)
  have g2: "get_link t2 i \<noteq> None"
    using tx2 same_links_None [OF t1(3), of i] l by (simp add: tx_fields_eq_def get_link_at)
  show ?thesis
  proof (cases res)
    case (Inl e)
    then show ?thesis using t1(1) st g2 by (auto simp: handle_received_reliable_msg_def)
  next
    case (Inr u)
    have "rx_pre t1" using ok1 by (simp add: task_ok_def rx_inv_pre)
    then have "rx_pre t2" using st store_reliable_ok(1) [of t1 s m u t2] Inr by (auto split: if_splits)
    from forward_received_ok [OF this] obtain t3 where
      t3: "forward_received t2 = Some t3" "rx_inv t3" and
      eq: "t3 = t2\<lparr>rxed_reliable := drop (ready_count (rxed_reliable t2)) (rxed_reliable t2),
        rx_seq := seq_add_u32 (rx_seq t2) (of_nat (ready_count (rxed_reliable t2))),
        rxed_reliable_consumable := rxed_reliable_consumable t2 @
          filter (\<lambda>m. is_consumable (rm_msg m)) (ready_msgs (rxed_reliable t2))\<rparr>" by blast
    have "tx_fields_eq t2 t3"
      unfolding eq by (simp add: tx_fields_eq_def ledger_of_def fun_eq_iff get_link_at)
    then have "tx_fields_eq t1 t3" by (rule tx_fields_eq_trans [OF tx2])
    then have "task_evolves t t3" "pkts (t_store t3) = pkts (t_store t)"
      using task_evolves_fields [OF ok1 _ t3(2)] task_evolves_trans [OF task_moves_evolves [OF m1]] st1
      by (blast, simp add: tx_fields_eq_def)
    moreover have "get_link t3 i \<noteq> None" using g2 by (simp add: eq get_link_at)
    moreover have "handle_received_reliable_msg now i s m t = Some (Inr (), t3)"
      using t1(1) st Inr t3(1) by (simp add: handle_received_reliable_msg_def)
    ultimately show ?thesis by blast
  qed
qed

section \<open>Receiving any message\<close>

lemma remove_link_moves:
  assumes ok: "task_ok t" and l: "get_link t i = Some l"
  shows "\<exists>t'. remove_link now i reason t = Some t' \<and> task_moves t t' \<and> get_link t' i = None \<and>
    disconnected t' = disconnected t @ [(lk_link_id l, reason)]"
proof -
  have inv: "tx_inv t" using ok by (simp add: task_ok_def)
  obtain t' where t': "remove_link now i reason t = Some t'" "tx_moves t t'"
    "\<forall>j. map_option (\<lambda>l. (lk_link_id l, lcfg l)) (get_link t' j) =
      (if j = i then None else map_option (\<lambda>l. (lk_link_id l, lcfg l)) (get_link t j))"
    "disconnected t' = disconnected t @ [(lk_link_id l, reason)]"
    using remove_link_ok [OF inv l, of now reason] by blast
  have "get_link t' j \<noteq> None \<Longrightarrow> get_link t j \<noteq> None" for j
    using t'(3) [rule_format, of j] by (cases "get_link t j") (auto split: if_splits)
  then have "task_moves t t'" by (intro task_moves_tx [OF ok t'(2)])
  moreover have "get_link t' i = None" using t'(3) [rule_format, of i] by simp
  ultimately show ?thesis using t'(1,4) by blast
qed

lemma unconfirm_link_moves:
  assumes ok: "task_ok t" and l: "get_link t i = Some l"
  shows "\<exists>t'. unconfirm_link now i reason t = Some t' \<and> task_moves t t' \<and> same_links t t'"
  using unconfirm_link_ok [OF _ l, of now reason] task_moves_same [OF ok] ok
  by (auto simp: task_ok_def)

lemma flush_link_moves:
  assumes ok: "task_ok t" and l: "get_link t i = Some l"
  shows "\<exists>t'. flush_link now i t = Some t' \<and> task_moves t t'"
proof -
  have inv: "tx_inv t" using ok by (simp add: task_ok_def)
  obtain t' l' where t': "flush_link now i t = Some t'" "tx_moves t t'" "get_link t' = (get_link t)(i \<mapsto> l')"
    using flush_link_ok [OF inv l, of now] by blast
  have "task_moves t t'" by (rule task_moves_tx [OF ok t'(2)]) (use t'(3) l in \<open>auto split: if_splits\<close>)
  then show ?thesis using t'(1) by blast
qed

lemma put_harmless_moves:
  assumes ok: "task_ok t" and l: "get_link t i = Some l" and "harmless l l'"
  shows "task_moves t (put_link i l' t)" and "get_link (put_link i l' t) i = Some l'"
proof -
  have "tx_inv t" using ok by (simp add: task_ok_def)
  from put_harmless [OF this l assms(3)] show "task_moves t (put_link i l' t)"
    by (intro task_moves_same [OF ok])
  show "get_link (put_link i l' t) i = Some l'" using l by simp
qed

lemma put_reported_moves:
  assumes ok: "task_ok t" and l: "get_link t i = Some l" and h: "harmless l l'"
  shows "task_moves t (put_link i (report_ready now l') (idle_remove i t))"
  using put_reported [OF _ l h, of now] task_moves_same [OF ok] ok by (simp add: task_ok_def)

lemma handle_goodbye_ok:
  assumes ok: "task_ok t" and l: "get_link t i = Some l"
  shows "\<exists>res t'. handle_goodbye now i t = Some (res, t') \<and> (\<forall>b. res = Inr b \<longrightarrow> task_moves t t') \<and>
    (\<forall>e. res = Inl e \<longrightarrow> get_link t' i \<noteq> None)"
proof -
  have h: "harmless l (l\<lparr>disconnecting := d\<rparr>)" for d by (rule harmlessI) simp_all
  note put = put_harmless_moves [OF ok l h]
  obtain t1 where t1: "unconfirm_link now i Disconnecting (put_link i (l\<lparr>disconnecting := Some Remote\<rparr>) t) = Some t1"
    "task_moves (put_link i (l\<lparr>disconnecting := Some Remote\<rparr>) t) t1"
    using unconfirm_link_moves [OF _ put(2), of "Some Remote" now Disconnecting] put(1) by (auto simp: task_moves_def)
  obtain t2 where t2: "remove_link now i LocallyRequested t = Some t2" "task_moves t t2"
    using remove_link_moves [OF ok l] by blast
  have "task_moves t t1" by (rule task_moves_trans [OF put(1) t1(2)])
  then show ?thesis
    using l t1 t2 task_moves_refl [OF ok]
    by (auto simp: handle_goodbye_def split: option.split disconnect_initiator.split)
qed

lemma handle_pong_ok:
  assumes ok: "task_ok t" and l: "get_link t i = Some l"
  shows "\<exists>t'. handle_pong S now i t = Some (Inr False, t') \<and> task_moves t t'"
proof (cases "current_ping_sent l")
  case None
  then show ?thesis using l task_moves_refl [OF ok] by (simp add: handle_pong_def)
next
  case (Some sent)
  let ?l = "l\<lparr>current_ping_sent := None, roundtrip := elapsed now sent, roundtrip_estimates := Some 1,
    last_ping := Some now\<rparr>"
  have h: "harmless l ?l" by (rule harmlessI) simp_all
  note put = put_harmless_moves [OF ok l h]
  have i: "i < length (t_links (put_link i ?l t))" using l by (simp add: get_link_Some)
  have ok1: "task_ok (put_link i ?l t)" using put(1) by (simp add: task_moves_def)
  then have inv1: "tx_inv (put_link i ?l t)" by (simp add: task_ok_def)
  obtain d t' where t': "link_testing_step S now i (put_link i ?l t) = Some (d, t')"
    "tx_moves (put_link i ?l t) t'" "same_links (put_link i ?l t) t'"
    using link_testing_step_ok [OF inv1 i] by blast
  have "task_moves t t'"
    using put(1) task_moves_same [OF ok1 t'(2,3)] by (rule task_moves_trans)
  then show ?thesis using l Some t'(1) by (simp add: handle_pong_def)
qed

text \<open>
  A received message never makes the task panic, provided the second frame of a data message is
  there and fewer than 2 ^ 32 packets are in flight.
\<close>

text \<open>A message that is neither numbered nor an acknowledgement.\<close>

fun plain_msg :: "link_msg \<Rightarrow> bool" where
  "plain_msg (LData _) = False"
| "plain_msg (LConsumed _ _) = False"
| "plain_msg (LSendFinish _) = False"
| "plain_msg (LReceiveClose _) = False"
| "plain_msg (LReceiveFinish _) = False"
| "plain_msg (Ack _) = False"
| "plain_msg _ = True"

definition heard_moves :: "link_msg \<Rightarrow> ('tx, 'wr) task \<Rightarrow> ('tx, 'wr) task \<Rightarrow> bool" where
  "heard_moves msg t t' \<longleftrightarrow> (if plain_msg msg then task_moves t t' else task_evolves t t')"

lemma heard_evolves: "heard_moves msg t t' \<Longrightarrow> task_evolves t t'"
  by (auto simp: heard_moves_def task_moves_evolves split: if_splits)

lemma handle_received_msg_ok:
  assumes ok: "task_ok t" and l: "get_link t i = Some l" and win: "length (t_txed_packets t) \<le> 2 ^ 32"
    and d: "\<And>s. msg = LData s \<Longrightarrow> d \<noteq> None"
  shows "\<exists>res t'. handle_received_msg S now i msg d t = Some (res, t') \<and>
    (\<forall>b. res = Inr b \<longrightarrow> heard_moves msg t t') \<and> (\<forall>e. res = Inl e \<longrightarrow> get_link t' i \<noteq> None)"
proof -
  have inv: "tx_inv t" using ok by (simp add: task_ok_def)
  have rel: "\<exists>res t'. handle_reliable now i msg d t = Some (res, t') \<and>
      (\<forall>b. res = Inr b \<longrightarrow> task_evolves t t') \<and> (\<forall>e. res = Inl e \<longrightarrow> get_link t' i \<noteq> None)"
    if f: "from_link_msg msg d = Some (m, s)" for m s
  proof -
    obtain res t' where r: "handle_received_reliable_msg now i s m t = Some (res, t')"
      "res = Inr () \<longrightarrow> task_evolves t t'" "get_link t' i \<noteq> None"
      using handle_received_reliable_msg_ok [OF ok l] by blast
    then show ?thesis using f by (cases res) (auto simp: handle_reliable_def)
  qed
  have self: "task_moves t t" by (rule task_moves_refl [OF ok])
  show ?thesis
  proof (cases msg)
    case (LData s)
    then obtain bs where "d = Some bs" using d by blast
    then show ?thesis using rel LData l by (simp add: handle_received_msg_def heard_moves_def)
  next
    case Ping
    have h: "harmless l (l\<lparr>send_pong := True\<rparr>)" by (rule harmlessI) simp_all
    note put = put_harmless_moves [OF ok l h]
    obtain t' where "flush_link now i (put_link i (l\<lparr>send_pong := True\<rparr>) t) = Some t'"
      "task_moves (put_link i (l\<lparr>send_pong := True\<rparr>) t) t'"
      using flush_link_moves [OF _ put(2)] put(1) by (auto simp: task_moves_def)
    then show ?thesis using Ping l task_moves_trans [OF put(1)] by (simp add: handle_received_msg_def heard_moves_def)
  next
    case Pong
    then show ?thesis using handle_pong_ok [OF ok l, of S now] l by (auto simp: handle_received_msg_def heard_moves_def)
  next
    case (Ack s)
    obtain t' where "handle_ack now i s t = Some t'" "tx_acks t t'" "same_links t t'"
      using handle_ack_ok [OF inv l win] by blast
    then show ?thesis using Ack l task_evolves_acks [OF ok] by (simp add: handle_received_msg_def heard_moves_def)
  next
    case (SetBlock b)
    have h: "harmless l (l\<lparr>remotely_blocked := b\<rparr>)" by (rule harmlessI) simp_all
    show ?thesis using SetBlock l put_reported_moves [OF ok l h] by (simp add: handle_received_msg_def heard_moves_def)
  next
    case Goodbye
    then show ?thesis using handle_goodbye_ok [OF ok l] l by (simp add: handle_received_msg_def heard_moves_def)
  qed (use rel l self in \<open>auto simp: handle_received_msg_def heard_moves_def\<close>)
qed

end
