(* ===== verification/Task_Safe.thy ===== *)
theory Task_Safe
  imports Task_Run Task_Order
begin

text \<open>
  The main loop preserves the invariant of the task and does not panic.

  The invariant is proved for the parts of an iteration: what happens before the loop waits, every
  event that can then occur, and the handling of the event.  Three conditions that the code does
  not establish itself are hypotheses: at most 2 ^ 32 packets are in flight, the bounds of the
  acknowledgement timeout of every link are in order, and a link is still idle when the loop sends
  an acknowledgement of consumed data over an idle link.
\<close>

section \<open>Changes that do not matter\<close>

definition core_eq :: "('tx, 'wr) task \<Rightarrow> ('tx, 'wr) task \<Rightarrow> bool" where
  "core_eq t t' \<longleftrightarrow> ledger_of t' = ledger_of t \<and> t_links t' = t_links t \<and> idle_links t' = idle_links t \<and>
     t_store t' = t_store t \<and> t_remote_cfg t' = t_remote_cfg t \<and> init_links t' = init_links t \<and>
     rx_quiet t t'"

lemma core_eq_refl [simp, intro]: "core_eq t t"
  by (simp add: core_eq_def)

lemma core_eq_trans: "core_eq a b \<Longrightarrow> core_eq b c \<Longrightarrow> core_eq a c"
  by (auto simp: core_eq_def rx_quiet_def)

lemma core_eqI:
  assumes "tx_seq t' = tx_seq t" "t_store t' = t_store t" "t_txed_packets t' = t_txed_packets t"
    "resend_queue t' = resend_queue t" "t_txed_unacked t' = t_txed_unacked t"
    "txed_unconsumable t' = txed_unconsumable t" "t_links t' = t_links t" "idle_links t' = idle_links t"
    "t_remote_cfg t' = t_remote_cfg t" "init_links t' = init_links t" "rx_seq t' = rx_seq t"
    "rxed_reliable t' = rxed_reliable t" "rxed_reliable_consumable t' = rxed_reliable_consumable t"
    "rxed_reliable_size t' = rxed_reliable_size t" "delivered t' = delivered t" "read_tx t' \<Longrightarrow> read_tx t"
  shows "core_eq t t'"
  using assms by (simp add: core_eq_def ledger_of_def rx_quiet_def rx_fields_def fun_eq_iff get_link_at)

lemma core_eq_get: "core_eq t t' \<Longrightarrow> get_link t' i = get_link t i"
  by (simp add: core_eq_def get_link_at)

lemma task_moves_core:
  assumes ok: "task_ok t" and c: "core_eq t t'"
  shows "task_moves t t'"
proof -
  have "ready_inv t' = ready_inv t" using c by (intro ready_inv_cong) (simp_all add: core_eq_def)
  moreover have "rx_inv t' = rx_inv t" using c by (intro rx_inv_cong) (simp add: core_eq_def rx_quiet_def)
  ultimately show ?thesis
    using ok c core_eq_get [OF c] by (simp add: task_ok_def task_moves_def tx_inv_def core_eq_def)
qed

lemma core_marks [simp]:
  "core_eq t (mark_sent_consumed t)" "core_eq t (mark_receive_close t)"
  "core_eq t (mark_receive_finish t)" "core_eq t (mark_send_finish t)"
  by (auto intro!: core_eqI simp: mark_sent_consumed_def mark_receive_close_def
      mark_receive_finish_def mark_send_finish_def)

lemma task_moves_ok: "task_moves t t' \<Longrightarrow> task_ok t'"
  by (simp add: task_moves_def)

lemma idle_remove_moves: "task_ok t \<Longrightarrow> task_moves t (idle_remove i t)"
  by (rule task_moves_same) (auto simp: tx_moves_def task_ok_def tx_inv_def ready_inv_def same_links_cong)

section \<open>Sending from the main loop\<close>

lemma send_reliable_moves:
  assumes ok: "task_ok t" and l: "get_link t i = Some l" and idle: "tx_idle l"
    and upd: "\<And>t. core_eq t (upd t)"
  shows "\<exists>t'. send_reliable S now i m upd t = Some t' \<and> task_moves t t'"
proof -
  let ?tr = "idle_remove i t"
  have m0: "task_moves t ?tr" by (rule idle_remove_moves [OF ok])
  have inv: "tx_inv ?tr" and lr: "get_link ?tr i = Some l" and ni: "i \<notin> set (idle_links ?tr)"
    using task_moves_ok [OF m0] l by (simp_all add: task_ok_def)
  obtain t1 l' where t1: "send_reliable_over_link S now i m ?tr = Some (tx_seq ?tr, t1)" "tx_moves ?tr t1"
    "get_link t1 = (get_link ?tr)(i \<mapsto> l')"
    using send_reliable_over_link_ok [OF inv lr idle ni, of S now m] by blast
  have m1: "task_moves ?tr t1"
    by (rule task_moves_tx [OF task_moves_ok [OF m0] t1(2)]) (use t1(3) l in \<open>auto split: if_splits\<close>)
  have m2: "task_moves t1 (upd t1)" by (rule task_moves_core [OF task_moves_ok [OF m1] upd])
  show ?thesis
    using t1(1) task_moves_trans [OF m0 task_moves_trans [OF m1 m2]] by (simp add: send_reliable_def)
qed

lemma send_over_idle_moves:
  assumes ok: "task_ok t" and upd: "\<And>t. core_eq t (upd t)"
  shows "\<exists>t'. send_over_idle S now m upd t = Some t' \<and> task_moves t t'"
proof (cases "idle_links t = []")
  case True
  then show ?thesis using task_moves_refl [OF ok] by (simp add: send_over_idle_def)
next
  case False
  let ?i = "last (idle_links t)"
  have inv: "tx_inv t" using ok by (simp add: task_ok_def)
  obtain l where l: "get_link t ?i = Some l" "tx_idle l"
    using tx_inv_idle [OF inv, of ?i] False by auto
  have split: "idle_links t = butlast (idle_links t) @ [?i]" using False by simp
  have "distinct (idle_links t)" using inv by (simp add: tx_inv_def ready_inv_def)
  then have "distinct (butlast (idle_links t) @ [?i])" using split by metis
  then have "?i \<notin> set (butlast (idle_links t))" by simp
  then have "filter (\<lambda>j. j \<noteq> ?i) (butlast (idle_links t) @ [?i]) = butlast (idle_links t)"
    by (auto simp: filter_id_conv)
  then have "idle_remove ?i t = t\<lparr>idle_links := butlast (idle_links t)\<rparr>"
    using split by (simp add: idle_remove_def)
  then have "send_over_idle S now m upd t = send_reliable S now ?i m upd t"
    using False by (simp add: send_over_idle_def send_reliable_def)
  then show ?thesis using send_reliable_moves [OF ok l upd] by simp
qed

lemma send_link_msg_moves:
  assumes ok: "task_ok t" and l: "get_link t i = Some l" and idle: "tx_idle l"
    and enc: "msg_encode msg = Some bs" and upd: "\<And>l. harmless l (upd l)"
  shows "\<exists>t'. send_link_msg S now i msg upd t = Some t' \<and> task_moves t t'"
proof -
  let ?tr = "idle_remove i t"
  have m0: "task_moves t ?tr" by (rule idle_remove_moves [OF ok])
  have inv: "tx_inv ?tr" and lr: "get_link ?tr i = Some l" and ni: "i \<notin> set (idle_links ?tr)"
    using task_moves_ok [OF m0] l by (simp_all add: task_ok_def)
  obtain l1 st where s: "start_send_msg S now (task_live ?tr) msg None (l, t_store ?tr) = Some (l1, st)"
    and fr: "keeps l l1" "same_pkts (t_store ?tr) st" "tx_ok l1"
    using start_send_msg_frame [OF idle enc] by blast
  let ?t = "put_link i (upd l1) (?tr\<lparr>t_store := st\<rparr>)"
  have rl: "ready_link (upd l1)"
    using ready_link_keeps [OF tx_inv_link [OF inv lr] fr(1,3)] upd [of l1] by (simp add: harmless_def)
  have led: "ledger_of ?t = ledger_of ?tr"
    using ledger_of_put [OF lr, of "upd l1" st] fr(1,2) upd [of l1] by (simp add: harmless_def keeps_def)
  have "ready_inv ?t"
    by (rule ready_inv_put [OF _ lr rl]) (use inv ni in \<open>auto simp: tx_inv_def ready_inv_def\<close>)
  then have mv: "tx_moves ?tr ?t"
    using inv led fr(2) by (simp add: tx_moves_def tx_inv_def rest_eq_def put_link_def same_pkts_advances)
  have g: "get_link ?t = (get_link ?tr)(i \<mapsto> upd l1)" by (rule get_link_put [OF lr]) simp
  have "task_moves ?tr ?t"
    by (rule task_moves_tx [OF task_moves_ok [OF m0] mv]) (use g l in \<open>auto split: if_splits\<close>)
  then show ?thesis
    using s l task_moves_trans [OF m0] by (simp add: send_link_msg_def)
qed

section \<open>What the loop remembers while it waits\<close>

fun queued_link :: "pkt \<Rightarrow> link_id option" where
  "queued_link (PQueued _ lid) = Some lid"
| "queued_link _ = None"

definition front_link :: "('tx, 'wr) task \<Rightarrow> link_id option" where
  "front_link t = (case resend_queue t of [] \<Rightarrow> None | p # _ \<Rightarrow> queued_link (pkts (t_store t) ! p))"

definition wait_ok :: "wait \<Rightarrow> ('tx, 'wr) task \<Rightarrow> bool" where
  "wait_ok w t \<longleftrightarrow>
     (\<forall>i. w_sendable w = Some i \<longrightarrow> i \<in> set (idle_links t)) \<and>
     (\<forall>i. w_resendable w = Some i \<longrightarrow> i \<in> set (idle_links t) \<and>
        (\<forall>l. get_link t i = Some l \<longrightarrow> front_link t \<noteq> Some (lk_link_id l))) \<and>
     (w_resending w \<longrightarrow> resend_queue t \<noteq> []) \<and>
     w_non_resendable w = front_link t \<and>
     (\<forall>i d f. w_confirm w = Some (i, d, f) \<longrightarrow> get_link t i \<noteq> None) \<and>
     (\<forall>i d. w_next_ping w = Some (i, d) \<longrightarrow> get_link t i \<noteq> None) \<and>
     (\<forall>i d. w_pong w = Some (i, d) \<longrightarrow> get_link t i \<noteq> None) \<and>
     (\<forall>i d. w_unconfirmed w = Some (i, d) \<longrightarrow> get_link t i \<noteq> None) \<and>
     (\<forall>i d. w_send w = Some (i, d) \<longrightarrow> get_link t i \<noteq> None)"

lemma front_queued:
  assumes "tx_inv t" and "resend_queue t = p # ps"
  shows "\<exists>m lid. pkts (t_store t) ! p = PQueued m lid \<and> sr_status (t_store t ! p) = ResendQueued m lid \<and>
    p < length (t_store t) \<and> front_link t = Some lid"
proof -
  have "p \<in> set (t_txed_packets t)" "is_queued (pkts (t_store t) ! p)"
    using ledger_invD(3) [of "ledger_of t" p] assms by (simp_all add: tx_inv_def)
  moreover have "p < length (t_store t)" using tx_inv_packet [OF assms(1)] calculation by blast
  ultimately show ?thesis using assms(2) by (auto simp: is_queued_iff pkt_of_cases front_link_def)
qed

lemma non_resendable_link_ok:
  assumes "tx_inv t"
  shows "non_resendable_link t = Some (front_link t)"
proof (cases "resend_queue t")
  case Nil
  then show ?thesis by (simp add: non_resendable_link_def front_link_def)
next
  case (Cons p ps)
  then show ?thesis using front_queued [OF assms Cons] by (auto simp: non_resendable_link_def nth_opt_def)
qed

lemma choose_idle_ok:
  assumes inv: "tx_inv t" and "set is \<subseteq> set (idle_links t)"
    and "\<forall>i. se = Some i \<longrightarrow> i \<in> set (idle_links t)"
    and "\<forall>i. rs = Some i \<longrightarrow> i \<in> set (idle_links t) \<and> (\<forall>l. get_link t i = Some l \<longrightarrow> nr \<noteq> Some (lk_link_id l))"
  shows "\<exists>a b. choose_idle t nr is se rs = Some (a, b) \<and>
    (\<forall>i. a = Some i \<longrightarrow> i \<in> set (idle_links t)) \<and>
    (\<forall>i. b = Some i \<longrightarrow> i \<in> set (idle_links t) \<and> (\<forall>l. get_link t i = Some l \<longrightarrow> nr \<noteq> Some (lk_link_id l)))"
  using assms(2-)
proof (induction "is" arbitrary: se rs)
  case (Cons i "is")
  obtain l where l: "get_link t i = Some l" using tx_inv_idle [OF inv, of i] Cons.prems(1) by auto
  let ?se = "if se = None then Some i else se"
  let ?rs = "if rs = None \<and> nr \<noteq> Some (lk_link_id l) then Some i else rs"
  have "\<exists>a b. choose_idle t nr is ?se ?rs = Some (a, b) \<and>
    (\<forall>i. a = Some i \<longrightarrow> i \<in> set (idle_links t)) \<and>
    (\<forall>i. b = Some i \<longrightarrow> i \<in> set (idle_links t) \<and> (\<forall>l. get_link t i = Some l \<longrightarrow> nr \<noteq> Some (lk_link_id l)))"
    by (rule Cons.IH) (use Cons.prems l in auto)
  then show ?case using Cons l by auto
qed auto

section \<open>Before waiting\<close>

lemma core_loop_top [simp]:
  "core_eq t (send_stats now t)" "core_eq t (snd (check_closed now t))" "core_eq t (notify_flushed t)"
  "core_eq t (snd (links_not_working_since now t))"
  by (auto intro!: core_eqI simp: send_stats_def check_closed_def notify_flushed_def
      links_not_working_since_def Let_def split: option.split bool.split)

lemma links_available_iff: "links_available t \<longleftrightarrow> (\<exists>i. get_link t i \<noteq> None)"
proof -
  have "links_available t \<longleftrightarrow> (\<exists>i < length (t_links t). t_links t ! i \<noteq> None)"
    unfolding links_available_def list_ex_iff by (metis in_set_conv_nth)
  then show ?thesis by (auto simp: get_link_Some)
qed

lemma notify_connected_ok:
  assumes "task_ok t"
  shows "\<exists>t'. notify_connected now t = Some t' \<and> core_eq t t'"
  using assms unfolding task_ok_def links_available_iff [symmetric]
  by (auto simp: notify_connected_def intro!: core_eqI)

text \<open>Everything before the \<open>select!\<close>: no panic, and what the loop remembers is right.\<close>

lemma loop_top_ok:
  assumes ok: "task_ok t" and ord: "timeouts_ordered t"
  shows "\<exists>r t'. loop_top S M now t = Some (r, t') \<and>
    (\<forall>w. r = Inr w \<longrightarrow> task_moves t t' \<and> wait_ok w t' \<and>
      w_consume_ack w = is_consume_ack_required t \<and> w_idling w = (idle_links t \<noteq> []) \<and>
      w_space w = tx_space t \<and> w_seq_avail w = tx_seq_avail t)"
proof -
  define tb where "tb = send_stats now t"
  obtain closed tc where cc: "check_closed now tb = (closed, tc)" by force
  have cb: "core_eq t tb" by (simp add: tb_def)
  have ctc: "core_eq t tc"
    using core_eq_trans [OF cb core_loop_top(2) [of tb now]] cc by simp
  have okc: "task_ok tc" using task_moves_ok [OF task_moves_core [OF ok ctc]] .
  obtain td where td: "notify_connected now tc = Some td" "core_eq tc td"
    using notify_connected_ok [OF okc] by blast
  define te where "te = notify_flushed td"
  have cte: "core_eq t te"
    using core_eq_trans [OF ctc core_eq_trans [OF td(2) core_loop_top(3) [of td]]] by (simp add: te_def)
  have me: "task_moves t te" by (rule task_moves_core [OF ok cte])
  have oke: "task_ok te" and inve: "tx_inv te" using task_moves_ok [OF me] by (simp_all add: task_ok_def)
  have sle: "same_links t te" using cte by (intro same_links_cong) (simp add: core_eq_def)
  obtain tf where tf: "check_link_limits now te = Some tf" "tx_moves te tf" "same_links te tf"
    "set (resend_queue te) \<subseteq> set (resend_queue tf)"
    using check_link_limits_ok [OF inve] by blast
  have invf: "tx_inv tf" using tf(2) by (simp add: tx_moves_def)
  obtain tg where tg: "adjust_link_tx_limits M now tf = Some tg" "tx_moves tf tg" "same_links tf tg"
    "resend_queue tg = resend_queue tf"
    using adjust_link_tx_limits_ok [OF invf] by blast
  obtain nls th where th: "links_not_working_since now tg = (nls, th)" by force
  have cgh: "core_eq tg th" using core_loop_top(4) [of tg now] th by simp
  have mg: "task_moves te tg"
    using task_moves_trans [OF task_moves_same [OF oke tf(2,3)]
      task_moves_same [OF task_moves_ok [OF task_moves_same [OF oke tf(2,3)]] tg(2,3)]] .
  have mh: "task_moves tg th" by (rule task_moves_core [OF task_moves_ok [OF mg] cgh])
  have okh: "task_ok th" and invh: "tx_inv th" using task_moves_ok [OF mh] by (simp_all add: task_ok_def)
  obtain testing ti where ti: "link_testing_all S now [0..<length (t_links th)] th = Some (testing, ti)"
    "tx_moves th ti" "same_links th ti" "resend_queue ti = resend_queue th"
    using link_testing_all_ok [OF invh, of "[0..<length (t_links th)]" S now] by auto
  have mi: "task_moves th ti" by (rule task_moves_same [OF okh ti(2,3)])
  have invi: "tx_inv ti" using ti(2) by (simp add: tx_moves_def)
  have slh: "same_links t th"
    using sle tf(3) tg(3) same_links_cong [of th tg] cgh
    by (auto simp: core_eq_def intro: same_links_trans)
  have "timeouts_ordered ti" using timeouts_ordered_same [OF same_links_trans [OF slh ti(3)] ord] .
  then obtain cf where cf: "earliest_confirm_timeout ti = Some cf"
    "\<forall>i d f. cf = Some (i, d, f) \<longrightarrow> get_link ti i \<noteq> None"
    using earliest_confirm_timeout_ok [OF invi] by blast
  obtain a b where ch: "choose_idle ti (front_link ti) (rev (idle_links ti)) None None = Some (a, b)"
    "\<forall>i. a = Some i \<longrightarrow> i \<in> set (idle_links ti)"
    "\<forall>i. b = Some i \<longrightarrow> i \<in> set (idle_links ti) \<and>
      (\<forall>l. get_link ti i = Some l \<longrightarrow> front_link ti \<noteq> Some (lk_link_id l))"
    using choose_idle_ok [OF invi, of "rev (idle_links ti)" None None "front_link ti"] by auto
  define w where "w = \<lparr>w_consume_ack = is_consume_ack_required t, w_seq_avail = tx_seq_avail t,
    w_space = tx_space t, w_resending = (resend_queue t \<noteq> []), w_idling = (idle_links t \<noteq> []),
    w_no_link_since = nls, w_next_ping = next_link_ping now th, w_pong = next_pong_timeout th,
    w_unconfirmed = next_unconfirmed_timeout th, w_send = next_send_timeout th, w_testing = testing,
    w_confirm = cf, w_sendable = a, w_resendable = b, w_non_resendable = front_link ti\<rparr>"
  have eq: "loop_top S M now t =
      (if closed then Some (Inl closed_outcome, tc)
       else if \<not> links_available t \<and> \<not> link_rx tc then Some (Inl no_links_outcome, tc)
       else Some (Inr w, ti))"
    using cc td(1) tf(1) tg(1) th ti(1) cf(1) ch(1) non_resendable_link_ok [OF invi]
    by (simp add: loop_top_def tb_def [symmetric] te_def [symmetric] w_def Let_def)
  have mv: "task_moves t ti"
    by (rule task_moves_trans [OF me task_moves_trans [OF mg task_moves_trans [OF mh mi]]])
  have "resend_queue te = resend_queue t" "resend_queue th = resend_queue tg"
    using cte cgh by (metis core_eq_def ledger_of_sel(5))+
  then have keep: "resend_queue t \<noteq> [] \<Longrightarrow> resend_queue ti \<noteq> []"
    using tf(4) tg(4) ti(4) by auto
  have "wait_ok w ti"
    using ch(2,3) cf(2) keep deadline_links(1) [of now th] deadline_links(2-4) [of th] same_links_None [OF ti(3)]
    unfolding wait_ok_def w_def by auto
  then show ?thesis using eq mv by (auto simp: w_def)
qed

section \<open>A link that is ready to send\<close>

lemma idle_remove_resend: "idle_remove i (t\<lparr>resend_queue := ps\<rparr>) = (idle_remove i t)\<lparr>resend_queue := ps\<rparr>"
  by (simp add: idle_remove_def)

text \<open>Taking the first packet of the resend queue and sending it over another link.\<close>

lemma resend_front_moves:
  assumes ok: "task_ok t" and l: "get_link t i = Some l" and idle: "tx_idle l"
    and rq: "resend_queue t = p # ps" and ne: "front_link t \<noteq> Some (lk_link_id l)"
  shows "\<exists>t'. resend_reliable_over_link S now i p (idle_remove i (t\<lparr>resend_queue := ps\<rparr>)) = Some t' \<and>
    task_moves t t'"
proof -
  let ?tr = "idle_remove i t"
  have m0: "task_moves t ?tr" by (rule idle_remove_moves [OF ok])
  have inv: "tx_inv ?tr" and lr: "get_link ?tr i = Some l" and ni: "i \<notin> set (idle_links ?tr)"
    and rq': "resend_queue ?tr = p # ps"
    using task_moves_ok [OF m0] l rq by (simp_all add: task_ok_def)
  have "tx_inv t" using ok by (simp add: task_ok_def)
  from front_queued [OF this rq] obtain m lid where q: "pkts (t_store ?tr) ! p = PQueued m lid" "front_link t = Some lid"
    by auto
  have ne': "lk_link_id l \<noteq> lid" using ne q(2) by auto
  obtain t' where t': "resend_reliable_over_link S now i p (?tr\<lparr>resend_queue := ps\<rparr>) = Some t'" "tx_moves ?tr t'"
    "ledger_of t' = led_resend i (ledger_of ?tr)"
    using resend_reliable_over_link_ok [OF inv lr idle ni rq' q(1) ne'] by blast
  have "get_link t' j \<noteq> None \<Longrightarrow> get_link ?tr j \<noteq> None" for j
  proof -
    assume "get_link t' j \<noteq> None"
    then have "g_link (ledger_of t') j \<noteq> None" by simp
    then show "get_link ?tr j \<noteq> None"
      unfolding t'(3) using l by (auto simp: led_resend_def led_link_def split: option.splits list.splits pkt.splits if_splits)
  qed
  then have "task_moves ?tr t'" by (rule task_moves_tx [OF task_moves_ok [OF m0] t'(2)])
  then show ?thesis using t'(1) task_moves_trans [OF m0] by (simp add: idle_remove_resend)
qed

lemma take_write_ok: "\<exists>d t'. take_write M w l t = Some (d, t') \<and> core_eq t t'"
proof (cases "write_rx t")
  case (Some rx)
  let ?c = "\<lambda>r. case r of SendData d \<Rightarrow> length d \<le> w_space w | _ \<Rightarrow> False"
  obtain res rx' where r: "try_recv_if M ?c rx = Some (res, rx')" using try_recv_if_total [of M ?c rx] by force
  have "core_eq t (t\<lparr>write_rx := Some rx'\<rparr>)" by (rule core_eqI) simp_all
  then show ?thesis using Some r by (auto simp: take_write_def Let_def split: sum.split send_req.split)
qed (simp add: take_write_def)

lemma harmless_mark_idle: "harmless l (link_mark_idle now l)"
  by (rule harmlessI) (simp_all add: link_mark_idle_def)

lemma become_idle_moves:
  assumes ok: "task_ok t" and l: "get_link t i = Some l" and idle: "tx_idle l"
    and u: "lk_unconfirmed l = None" and ni: "i \<notin> set (idle_links t)"
  shows "task_moves t (put_link i (link_mark_idle now l) (t\<lparr>idle_links := idle_links t @ [i]\<rparr>))"
proof -
  let ?t = "put_link i (link_mark_idle now l) (t\<lparr>idle_links := idle_links t @ [i]\<rparr>)"
  have inv: "tx_inv t" using ok by (simp add: task_ok_def)
  have h: "harmless l (link_mark_idle now l)" by (rule harmless_mark_idle)
  have g: "get_link ?t = (get_link t)(i \<mapsto> link_mark_idle now l)" by (rule get_link_put [OF l]) simp
  have gl: "g_link (ledger_of ?t) = g_link (ledger_of t)"
    using h l by (auto simp: fun_eq_iff g harmless_def)
  have led: "ledger_of ?t = ledger_of t"
    by (rule ledger.equality) (use gl in \<open>simp_all add: put_link_def\<close>)
  have "ready_inv ?t"
    using inv ni idle u h tx_inv_link [OF inv l]
    unfolding tx_inv_def ready_inv_def g harmless_def by auto
  then have "tx_moves t ?t"
    using inv led by (simp add: tx_moves_def tx_inv_def rest_eq_def put_link_def)
  then show ?thesis by (rule task_moves_tx [OF ok]) (use g l in \<open>auto split: if_splits\<close>)
qed

lemma tx_ready_data_moves:
  assumes ok: "task_ok t" and l: "get_link t i = Some l" and idle: "tx_idle l" and u: "lk_unconfirmed l = None"
  shows "\<exists>t'. tx_ready_data S M now w i t = Some t' \<and> task_moves t t'"
proof -
  obtain d t1 where t1: "take_write M w l t = Some (d, t1)" "core_eq t t1" using take_write_ok by blast
  have m1: "task_moves t t1" by (rule task_moves_core [OF ok t1(2)])
  have ok1: "task_ok t1" by (rule task_moves_ok [OF m1])
  have l1: "get_link t1 i = Some l" using core_eq_get [OF t1(2)] l by simp
  show ?thesis
  proof (cases d)
    case (Some bs)
    then show ?thesis
      using t1(1) l send_reliable_moves [OF ok1 l1 idle, of "\<lambda>t. t" S now "Data bs"] task_moves_trans [OF m1]
      by (auto simp: tx_ready_data_def)
  next
    case None
    obtain t2 where "flush_link now i t1 = Some t2" "task_moves t1 t2" using flush_link_moves [OF ok1 l1] by blast
    then show ?thesis
      using t1(1) l None m1 task_moves_trans [OF m1] become_idle_moves [OF ok1 l1 idle u, of now]
      by (auto simp: tx_ready_data_def)
  qed
qed

lemma tx_ready_reliable_moves:
  assumes ok: "task_ok t" and l: "get_link t i = Some l" and idle: "tx_idle l" and u: "lk_unconfirmed l = None"
    and w: "wait_ok w t"
  shows "\<exists>t'. tx_ready_reliable S M now w i t = Some t' \<and> task_moves t t'"
proof (cases "w_resending w \<and> is_sendable l \<and> Some (lk_link_id l) \<noteq> w_non_resendable w \<and> \<not> w_consume_ack w")
  case True
  then obtain p ps where rq: "resend_queue t = p # ps"
    using w by (auto simp: wait_ok_def neq_Nil_conv)
  have "front_link t \<noteq> Some (lk_link_id l)" using True w by (auto simp: wait_ok_def)
  from resend_front_moves [OF ok l idle rq this] True rq l show ?thesis
    by (auto simp: tx_ready_reliable_def)
next
  case False
  note snd = send_reliable_moves [OF ok l idle, where S = S and now = now]
  show ?thesis
    using False l snd [OF core_marks(1), of "consumed_msg t"] snd [OF core_marks(2), of ReceiveClose]
      snd [OF core_marks(3), of ReceiveFinish] snd [OF core_marks(4), of SendFinish]
      tx_ready_data_moves [OF ok l idle u, of S M now w]
    by (auto simp: tx_ready_reliable_def)
qed

lemma control_encodes:
  "\<exists>bs. msg_encode Accepted = Some bs" "\<exists>bs. msg_encode Pong = Some bs" "\<exists>bs. msg_encode Goodbye = Some bs"
  "\<exists>bs. msg_encode Ping = Some bs" "\<exists>bs. msg_encode (SetBlock b) = Some bs" "\<exists>bs. msg_encode (Ack s) = Some bs"
  by (simp_all add: msg_encode_def)

lemma tx_ready_moves:
  assumes ok: "task_ok t" and l: "get_link t i = Some l" and idle: "tx_idle l" and w: "wait_ok w t"
  shows "\<exists>t'. tx_ready S M now w i t = Some t' \<and> task_moves t t'"
proof -
  have h: "harmless a (a\<lparr>needs_tx_accepted := False\<rparr>)" "harmless a (a\<lparr>send_pong := False\<rparr>)"
    "harmless a (a\<lparr>goodbye_sent := True\<rparr>)" "harmless a (a\<lparr>current_ping_sent := Some now, send_ping := False\<rparr>)"
    "harmless a (a\<lparr>blocked_sent := b\<rparr>)" "harmless a (a\<lparr>tx_ack_queue := q\<rparr>)" for a :: "'a link_int" and b q
    by (rule harmlessI; simp)+
  have snd: "\<exists>t'. send_link_msg S now i msg upd t = Some t' \<and> task_moves t t'"
    if "\<exists>bs. msg_encode msg = Some bs" "\<And>l. harmless l (upd l)" for msg upd
    using send_link_msg_moves [OF ok l idle _ that(2)] that(1) by blast
  obtain tr where rem: "remove_link now i RemotelyRequested t = Some tr" "task_moves t tr"
    using remove_link_moves [OF ok l] by blast
  obtain tf where fl: "flush_link now i t = Some tf" "task_moves t tf" using flush_link_moves [OF ok l] by blast
  have ack: "\<exists>t'. send_link_msg S now i (Ack s) (\<lambda>l. l) (put_link i (l\<lparr>tx_ack_queue := ss\<rparr>) t) = Some t' \<and>
      task_moves t t'" for s ss
  proof -
    note put = put_harmless_moves [OF ok l h(6) [of l ss]]
    have "tx_idle (l\<lparr>tx_ack_queue := ss\<rparr>)" using idle by (simp add: tx_idle_def)
    from send_link_msg_moves [OF task_moves_ok [OF put(1)] put(2) this, of "Ack s" _ "\<lambda>l. l"] control_encodes(6)
    obtain t' where "send_link_msg S now i (Ack s) (\<lambda>l. l) (put_link i (l\<lparr>tx_ack_queue := ss\<rparr>) t) = Some t'"
      "task_moves (put_link i (l\<lparr>tx_ack_queue := ss\<rparr>) t) t'" by blast
    then show ?thesis using task_moves_trans [OF put(1)] by blast
  qed
  have rel: "lk_unconfirmed l = None \<Longrightarrow> \<exists>t'. tx_ready_reliable S M now w i t = Some t' \<and> task_moves t t'"
    using tx_ready_reliable_moves [OF ok l idle _ w] by blast
  have blk: "\<exists>t'. send_link_msg S now i (SetBlock (blocked l)) (\<lambda>l'. l'\<lparr>blocked_sent := blocked l\<rparr>) t = Some t' \<and>
      task_moves t t'" by (rule snd [OF control_encodes(5) h(5)])
  show ?thesis
    using l rem fl rel ack blk task_moves_refl [OF ok] snd [OF control_encodes(1) h(1)] snd [OF control_encodes(2) h(2)]
      snd [OF control_encodes(3) h(3)] snd [OF control_encodes(4) h(4)]
    by (auto simp: tx_ready_def split: list.split)
qed

end
