(* ===== verification/Task_Loop.thy ===== *)
theory Task_Loop
  imports Task_Safe
begin

text \<open>
  Every event the main loop can receive is handled without a panic, and the invariant holds again
  afterwards.
\<close>

section \<open>Changes between waiting and handling\<close>

lemma put_ready_moves:
  assumes ok: "task_ok t" and l: "get_link t i = Some l"
    and k: "lk_link_id l' = lk_link_id l" "txed_unacked_data l' = txed_unacked_data l" "ready_link l'"
    and idle: "i \<in> set (idle_links t) \<Longrightarrow> tx_idle l' \<and> lk_unconfirmed l' = None"
  shows "task_moves t (put_link i l' t)"
proof -
  have inv: "tx_inv t" using ok by (simp add: task_ok_def)
  have led: "ledger_of (put_link i l' t) = ledger_of t"
    using ledger_of_put [OF l k(1,2), of "t_store t"] by simp
  have "ready_inv (put_link i l' t)"
    by (rule ready_inv_put [OF _ l k(3)]) (use inv idle in \<open>auto simp: tx_inv_def ready_inv_def\<close>)
  then have "tx_moves t (put_link i l' t)" using inv led by (simp add: tx_moves_def tx_inv_def)
  then show ?thesis by (rule task_moves_tx [OF ok]) (use l in \<open>auto split: if_splits\<close>)
qed

lemma put_kept_moves:
  assumes ok: "task_ok t" and l: "get_link t i = Some l" and k: "keeps l l'" "tx_ok l'"
    and idle: "tx_idle l \<Longrightarrow> tx_idle l'"
  shows "task_moves t (put_link i l' t)"
proof -
  have inv: "tx_inv t" using ok by (simp add: task_ok_def)
  have "ready_link l'" using ready_link_keeps [OF tx_inv_link [OF inv l] k] .
  moreover have "i \<in> set (idle_links t) \<Longrightarrow> tx_idle l' \<and> lk_unconfirmed l' = None"
    using tx_inv_idle [OF inv, of i] l idle k(1) by (auto simp: keeps_def)
  ultimately show ?thesis using put_ready_moves [OF ok l] k(1) by (simp add: keeps_def)
qed

lemma wait_ok_cong:
  assumes "idle_links t' = idle_links t" and "resend_queue t' = resend_queue t"
    and "pkts (t_store t') = pkts (t_store t)"
    and ids: "\<And>i. map_option lk_link_id (get_link t' i) = map_option lk_link_id (get_link t i)"
    and ok: "wait_ok w t"
  shows "wait_ok w t'"
proof -
  have none: "get_link t' i = None \<longleftrightarrow> get_link t i = None" for i
    using ids [of i] by (cases "get_link t i"; cases "get_link t' i") auto
  have same: "\<exists>l0. get_link t i = Some l0 \<and> lk_link_id l0 = lk_link_id l" if "get_link t' i = Some l" for i l
    using ids [of i] that by (cases "get_link t i") auto
  have "front_link t' = front_link t" using assms(2,3) by (auto simp: front_link_def split: list.split)
  moreover have "front_link t \<noteq> Some (lk_link_id l)" if "w_resendable w = Some i" "get_link t' i = Some l" for i l
    using same [OF that(2)] ok that(1) unfolding wait_ok_def by force
  ultimately show ?thesis
    using ok assms(1,2) unfolding wait_ok_def by (simp add: none)
qed

lemma wait_ok_put:
  assumes "wait_ok w t" and "get_link t i = Some l" and "keeps l l'"
  shows "wait_ok w (put_link i l' t)"
  by (rule wait_ok_cong [OF _ _ _ _ assms(1)]) (use assms(2,3) in \<open>auto simp: keeps_def\<close>)

lemma core_eq_wait:
  assumes c: "core_eq t t'" and w: "wait_ok w t"
  shows "wait_ok w t'"
proof (rule wait_ok_cong [OF _ _ _ _ w])
  have "g_rq (ledger_of t') = g_rq (ledger_of t)" using c by (simp only: core_eq_def)
  then show "resend_queue t' = resend_queue t" by simp
  show "idle_links t' = idle_links t" "pkts (t_store t') = pkts (t_store t)"
    using c by (simp_all add: core_eq_def)
  show "map_option lk_link_id (get_link t' i) = map_option lk_link_id (get_link t i)" for i
    by (simp only: core_eq_get [OF c])
qed

section \<open>Events of links\<close>

lemma tx_task_no_rx: "tx_task S now l \<noteq> Some (TxEvent (Rx msg d), l')"
proof (induction S now l rule: tx_task.induct)
  case (1 S now l)
  have "tx_iter S now l \<noteq> Some (TxEvent (Rx msg d), l')"
    by (auto simp: tx_iter_def Let_def split: if_splits prod.splits option.splits sum.splits)
  then show ?case
    using 1 by (subst tx_task.simps) (auto split: option.split tx_poll.split)
qed

lemma emitted_data:
  assumes "link_emits S now l (Rx (LData s) d) l'"
  shows "d \<noteq> None"
  using assms
proof (cases rule: link_emits.cases)
  case emit_error
  then show ?thesis by (auto simp: event_check_def split: option.splits sum.splits)
next
  case emit_tx
  then show ?thesis using tx_task_no_rx by blast
next
  case (emit_rx item)
  then show ?thesis
    by (auto simp: rx_item_def Let_def split: option.splits sum.splits link_msg.splits)
qed

lemma harmless_disconnecting: "harmless l (l\<lparr>disconnecting := d\<rparr>)"
  by (rule harmlessI) simp_all

lemma local_disconnect_moves:
  assumes ok: "task_ok t" and l: "get_link t i = Some l"
  shows "\<exists>t'. local_disconnect now i t = Some t' \<and> task_moves t t'"
proof -
  note put = put_harmless_moves [OF ok l harmless_disconnecting [of l "Some Local"]]
  obtain t' where "unconfirm_link now i Disconnecting (put_link i (l\<lparr>disconnecting := Some Local\<rparr>) t) = Some t'"
    "task_moves (put_link i (l\<lparr>disconnecting := Some Local\<rparr>) t) t'"
    using unconfirm_link_moves [OF task_moves_ok [OF put(1)] put(2)] by blast
  then show ?thesis
    using l task_moves_trans [OF put(1)] task_moves_refl [OF ok] by (auto simp: local_disconnect_def)
qed

lemma ping_link_moves:
  assumes ok: "task_ok t" and l: "get_link t i = Some l"
  shows "\<exists>t'. ping_link now i t = Some t' \<and> task_moves t t'"
proof -
  have "harmless l (l\<lparr>send_ping := True\<rparr>)" by (rule harmlessI) simp_all
  note put = put_harmless_moves [OF ok l this]
  obtain t' where "flush_link now i (put_link i (l\<lparr>send_ping := True\<rparr>) t) = Some t'"
    "task_moves (put_link i (l\<lparr>send_ping := True\<rparr>) t) t'"
    using flush_link_moves [OF task_moves_ok [OF put(1)] put(2)] by blast
  then show ?thesis using l task_moves_trans [OF put(1)] by (auto simp: ping_link_def)
qed

text \<open>The result of handling an event: the loop ends, or goes on in a state that is in order.\<close>

definition flow_evolves :: "('tx, 'wr) task \<Rightarrow> ('tx, 'wr) flow option \<Rightarrow> bool" where
  "flow_evolves t r \<longleftrightarrow> (\<exists>f t'. r = Some (f, t') \<and> (f = Inr () \<longrightarrow> task_evolves t t'))"

definition flow_ok :: "('tx, 'wr) task \<Rightarrow> ('tx, 'wr) flow option \<Rightarrow> bool" where
  "flow_ok t r \<longleftrightarrow> (\<exists>f t'. r = Some (f, t') \<and> (f = Inr () \<longrightarrow> task_moves t t'))"

lemma flow_ok_evolves: "flow_ok t r \<Longrightarrow> flow_evolves t r"
  unfolding flow_ok_def flow_evolves_def by (blast intro: task_moves_evolves)

lemma flow_evolves_trans: "task_moves t t' \<Longrightarrow> flow_evolves t' r \<Longrightarrow> flow_evolves t r"
  unfolding flow_evolves_def by (blast intro: task_evolves_trans task_moves_evolves)

lemma flow_continue: "\<exists>t'. r = Some t' \<and> task_moves t t' \<Longrightarrow> flow_ok t (continue r)"
  by (auto simp: flow_ok_def continue_def)

lemma flow_go: "task_moves t t' \<Longrightarrow> flow_ok t (Some (Inr (), t'))"
  by (simp add: flow_ok_def)

lemma flow_stop [simp]: "flow_ok t (Some (Inl oc, t'))"
  by (simp add: flow_ok_def)

lemma flow_trans: "task_moves t t' \<Longrightarrow> flow_ok t' r \<Longrightarrow> flow_ok t r"
  unfolding flow_ok_def by (blast intro: task_moves_trans)

lemma flow_via: "task_moves t t1 \<Longrightarrow> \<exists>t'. r = Some t' \<and> task_moves t1 t' \<Longrightarrow> flow_ok t (continue r)"
  by (blast intro: flow_continue task_moves_trans)

lemma flow_removed:
  assumes "task_ok t" and "get_link t i \<noteq> None"
  shows "flow_ok t (continue (remove_link now i reason t))"
  using assms remove_link_moves [OF assms(1)] by (force intro: flow_continue)

lemma handle_link_rx_ok:
  assumes "task_ok t" and "get_link t i = Some l" and "length (t_txed_packets t) \<le> 2 ^ 32"
    and "\<And>s. msg = LData s \<Longrightarrow> d \<noteq> None"
  shows "flow_evolves t (handle_link_rx S now i lid msg d t)"
proof -
  obtain res t' where "handle_received_msg S now i msg d t = Some (res, t')"
    "\<forall>b. res = Inr b \<longrightarrow> heard_moves msg t t'" "\<forall>e. res = Inl e \<longrightarrow> get_link t' i \<noteq> None"
    using handle_received_msg_ok [OF assms(1-3), of msg d S now] assms(4) by blast
  then show ?thesis
    by (auto simp: handle_link_rx_def flow_evolves_def dest: heard_evolves split: sum.split bool.split)
qed

lemma handle_link_event_ok:
  assumes ok: "task_ok t" and l: "get_link t i = Some l"
    and ready: "e = TxReady \<Longrightarrow> tx_idle l" and w: "wait_ok w t" and nr: "\<And>msg d. e \<noteq> Rx msg d"
  shows "flow_ok t (handle_link_event S M now w i e t)"
proof (cases e)
  case TxReady
  then show ?thesis
    using l tx_ready_moves [OF ok l ready w, of S M now] by (auto simp: handle_link_event_def intro: flow_continue)
next
  case TxFlushed
  have "core_eq t (t\<lparr>unflushed_links := u\<rparr>)" for u by (rule core_eqI) simp_all
  then show ?thesis
    using TxFlushed l by (auto simp: handle_link_event_def intro!: flow_go task_moves_core [OF ok])
next
  case (Rx msg bs)
  then show ?thesis using nr by blast
next
  case FlushRequired
  then show ?thesis
    using l flush_link_moves [OF ok l] by (auto simp: handle_link_event_def intro!: flow_continue)
next
  case BlockedChanged
  then show ?thesis
    using l put_reported_moves [OF ok l harmless_refl] by (auto simp: handle_link_event_def intro!: flow_go)
next
  case LinkCfgChanged
  have inv: "tx_inv t" using ok by (simp add: task_ok_def)
  have "task_moves t (put_link i (update_link_cfg l) t)"
    by (rule put_ready_moves [OF ok l])
      (use tx_inv_link [OF inv l] tx_inv_idle [OF inv, of i] l in
        \<open>auto simp: update_link_cfg_def ready_link_def tx_ok_def tx_idle_def\<close>)
  then show ?thesis using LinkCfgChanged l by (auto simp: handle_link_event_def intro!: flow_go)
next
  case Disconnect
  then show ?thesis
    using l local_disconnect_moves [OF ok l] by (auto simp: handle_link_event_def intro!: flow_continue)
qed (use l remove_link_moves [OF ok l] in
    \<open>auto simp: handle_link_event_def link_failed_def intro!: flow_continue\<close>)

section \<open>Flush requests\<close>

definition flushed_slot :: "nat set \<Rightarrow> nat \<Rightarrow> 'tx link_int option \<Rightarrow> 'tx link_int option \<Rightarrow> bool" where
  "flushed_slot is i lo lo' \<longleftrightarrow>
     (case lo of
        None \<Rightarrow> lo' = None
      | Some l \<Rightarrow> (\<exists>l'. lo' = Some l' \<and> keeps l l' \<and> (tx_ok l \<longrightarrow> tx_ok l') \<and> (i \<notin> is \<longrightarrow> l' = l)))"

lemma flushed_slot_self: "flushed_slot is i lo lo"
  by (auto simp: flushed_slot_def split: option.split)

lemma flushed_slot_mono: "flushed_slot A i lo lo' \<Longrightarrow> A \<subseteq> B \<Longrightarrow> flushed_slot B i lo lo'"
  unfolding flushed_slot_def by (cases lo) auto

lemma flush_all_ok:
  assumes "flush_all now live n ls st = (ls', is, st')"
  shows "length ls' = length ls \<and> same_pkts st st' \<and> set is \<subseteq> {n..} \<and>
    (\<forall>k < length ls. flushed_slot (set is) (n + k) (ls ! k) (ls' ! k))"
  using assms
proof (induction ls arbitrary: n st ls' "is" st')
  case (Cons lo ls)
  show ?case
  proof (cases "\<exists>l. lo = Some l \<and> lk_unconfirmed l = None")
    case True
    then obtain l where lo: "lo = Some l" "lk_unconfirmed l = None" by blast
    obtain l1 st1 where f: "start_flush now live st l = (l1, st1)" by force
    obtain ls2 is2 st2 where r: "flush_all now live (Suc n) ls st1 = (ls2, is2, st2)" by (metis prod_cases3)
    have eq: "ls' = Some l1 # ls2" "is = n # is2" "st' = st2" using Cons.prems lo f r by auto
    note fr = start_flush_frame [OF f]
    note ih = Cons.IH [OF r]
    have "flushed_slot (set is) n lo (Some l1)" using fr lo eq by (auto simp: flushed_slot_def tx_ok_def)
    moreover have "\<forall>k < length ls. flushed_slot (set is) (Suc n + k) (ls ! k) (ls2 ! k)"
      using ih by (auto simp: eq intro: flushed_slot_mono)
    moreover have "same_pkts st st2" using fr(2) ih by (blast intro: same_pkts_trans)
    moreover have "set is \<subseteq> {n..}" using ih by (auto simp: eq)
    ultimately show ?thesis using ih by (auto simp: eq All_less_Suc2)
  next
    case False
    obtain ls2 is2 st2 where r: "flush_all now live (Suc n) ls st = (ls2, is2, st2)" by (metis prod_cases3)
    have eq: "ls' = lo # ls2" "is = is2" "st' = st2"
      using Cons.prems False r by (auto split: option.splits)
    note ih = Cons.IH [OF r]
    moreover have "set is \<subseteq> {n..}" using ih by (auto simp: eq)
    ultimately show ?thesis by (auto simp: eq All_less_Suc2 flushed_slot_self)
  qed
qed simp

lemma handle_flush_moves:
  assumes ok: "task_ok t"
  shows "task_moves t (handle_flush now r t)"
proof -
  obtain ls "is" st where f: "flush_all now (task_live t) 0 (t_links t) (t_store t) = (ls, is, st)"
    by (metis prod_cases3)
  note fl = flush_all_ok [OF f]
  let ?t = "handle_flush now r t"
  have eq: "?t = t\<lparr>t_links := ls, t_store := st, unflushed_links := set is,
      idle_links := filter (\<lambda>i. i \<notin> set is) (idle_links t), flushed_tx := Some r\<rparr>"
    using f by (simp add: handle_flush_def)
  have inv: "tx_inv t" using ok by (simp add: task_ok_def)
  have old: "\<exists>l. get_link t i = Some l \<and> keeps l l' \<and> tx_ok l' \<and> (i \<notin> set is \<longrightarrow> l' = l)"
    if "get_link ?t i = Some l'" for i l'
  proof -
    have i: "i < length (t_links t)" "ls ! i = Some l'" using that fl by (auto simp: eq get_link_Some)
    with fl have "flushed_slot (set is) i (t_links t ! i) (Some l')" by auto
    then obtain l where l: "t_links t ! i = Some l" "keeps l l'" "tx_ok l \<longrightarrow> tx_ok l'" "i \<notin> set is \<longrightarrow> l' = l"
      by (auto simp: flushed_slot_def split: option.splits)
    then have "get_link t i = Some l" using i by (simp add: get_link_Some)
    then show ?thesis using l tx_inv_link [OF inv] by (auto simp: ready_link_def)
  qed
  have new: "\<exists>l'. get_link ?t i = Some l' \<and> keeps l l' \<and> (i \<notin> set is \<longrightarrow> l' = l)" if "get_link t i = Some l" for i l
  proof -
    have i: "i < length (t_links t)" "t_links t ! i = Some l" using that by (simp_all add: get_link_Some)
    then have "flushed_slot (set is) i (Some l) (ls ! i)" using fl by auto
    then show ?thesis using i fl by (auto simp: flushed_slot_def eq get_link_Some)
  qed
  have gl: "map_option (\<lambda>l. (lk_link_id l, txed_unacked_data l)) (get_link ?t i) =
      map_option (\<lambda>l. (lk_link_id l, txed_unacked_data l)) (get_link t i)" for i
  proof (cases "get_link t i")
    case None
    then have "get_link ?t i = None" by (cases "get_link ?t i") (use old in force)+
    then show ?thesis using None by simp
  next
    case (Some l)
    then show ?thesis using new [OF Some] by (auto simp: keeps_def)
  qed
  have led: "ledger_of ?t = ledger_of t"
    by (rule ledger.equality) (use gl fl in \<open>simp_all add: fun_eq_iff\<close>, simp_all add: eq same_pkts_def)
  have "ready_inv ?t"
    unfolding ready_inv_def
  proof (intro conjI allI impI ballI)
    show "ready_link l'" if "get_link ?t i = Some l'" for i l'
      using old [OF that] tx_inv_link [OF inv] ready_link_keeps by blast
    show "distinct (idle_links ?t)" using inv by (simp add: eq tx_inv_def ready_inv_def)
    show "\<exists>l. get_link ?t i = Some l \<and> tx_idle l \<and> lk_unconfirmed l = None" if "i \<in> set (idle_links ?t)" for i
    proof -
      have "i \<in> set (idle_links t)" "i \<notin> set is" using that by (simp_all add: eq)
      then show ?thesis using tx_inv_idle [OF inv] new by blast
    qed
  qed
  then have "tx_moves t ?t"
    using inv led fl by (simp add: tx_moves_def tx_inv_def eq rest_eq_def same_pkts_advances)
  then show ?thesis by (rule task_moves_tx [OF ok]) (use old in blast)
qed

section \<open>New links, and messages for the user\<close>

lemma core_other [simp]:
  "core_eq t (t\<lparr>refused_links := r\<rparr>)" "core_eq t (notify_disconnected l reason t)"
  "core_eq t (t\<lparr>link_rx := b\<rparr>)" "core_eq t (t\<lparr>write_rx := wr\<rparr>)" "core_eq t (t\<lparr>read_closed_rx := b\<rparr>)"
  "core_eq t (t\<lparr>read_tx := False, read_closed_rx := b'\<rparr>)"
  by (auto intro!: core_eqI simp: notify_disconnected_def)

lemma handle_new_link_moves:
  assumes ok: "task_ok t" and f: "fresh_link l"
  shows "task_moves t (handle_new_link now l accepted t)"
proof -
  let ?t = "if t_remote_cfg t = None then t\<lparr>t_remote_cfg := Some (lk_remote_cfg l)\<rparr> else t"
  have led: "ledger_of ?t = ledger_of t" by (simp add: ledger_of_def fun_eq_iff get_link_at)
  have "ready_inv ?t = ready_inv t" by (rule ready_inv_cong) simp_all
  moreover have "rx_inv ?t = rx_inv t" by (rule rx_inv_cong) (simp add: rx_fields_def)
  ultimately have mv: "task_moves t ?t" and rc: "t_remote_cfg ?t \<noteq> None"
    using ok led by (simp_all add: task_moves_def task_ok_def tx_inv_def rx_quiet_def rx_fields_def)
  note okt = task_moves_ok [OF mv]
  then have inv: "tx_inv ?t" by (simp add: task_ok_def)
  obtain t' where add: "snd (add_link now l ?t) = t'" "tx_moves ?t t'"
    using add_link_ok [OF inv f, of now] by auto
  have "task_moves ?t t'"
    using add(2) okt rc rx_inv_cong [OF rest_eq_rx, of ?t t'] rx_quiet_rest [of ?t t']
    unfolding task_moves_def task_ok_def tx_moves_def by (auto simp: rest_eq_def)
  then show ?thesis
    using add(1) task_moves_trans [OF mv] task_moves_core [OF okt core_other(1)]
      task_moves_core [OF okt core_other(2)]
    by (simp add: handle_new_link_def Let_def)
qed

lemma consume_received_moves:
  assumes ok: "task_ok t" and m: "rxed_reliable_consumable t = m # ms"
  shows "\<exists>t'. consume_received (m) permit (t\<lparr>rxed_reliable_consumable := ms\<rparr>) = Some t' \<and> task_evolves t t' \<and>
    pkts (t_store t') = pkts (t_store t)"
proof -
  have rx: "rx_inv t" and c: "is_consumable (rm_msg m)" using ok m by (auto simp: task_ok_def rx_inv_def)
  have size: "msg_size (rm_msg m) \<le> rxed_reliable_size t" using rx m by (simp add: rx_inv_def)
  have mv: "task_evolves t t'" if "tx_inv t'" "pkts (t_store t') = pkts (t_store t)" "init_links t' = init_links t"
    "t_remote_cfg t' = t_remote_cfg t" "t_links t' = t_links t" "rx_seq t' = rx_seq t"
    "rxed_reliable t' = rxed_reliable t" "rxed_reliable_consumable t' = ms"
    "rxed_reliable_size t' = rxed_reliable_size t - msg_size (rm_msg m)" for t' :: "('a, 'b) task"
    using that ok rx m by (auto simp: task_evolves_def task_ok_def rx_inv_def get_link_at)
  have inv: "tx_inv t'" if "ledger_of t' = ledger_of t" "t_links t' = t_links t" "idle_links t' = idle_links t"
    for t' :: "('a, 'b) task"
    using that ok ready_inv_cong [of t' t] by (simp add: task_ok_def tx_inv_def)
  have led: "ledger_of t' = ledger_of t" if "tx_seq t' = tx_seq t" "t_store t' = t_store t"
    "t_txed_packets t' = t_txed_packets t" "resend_queue t' = resend_queue t" "t_links t' = t_links t"
    "t_txed_unacked t' = t_txed_unacked t" "txed_unconsumable t' = txed_unconsumable t" for t' :: "('a, 'b) task"
    using that by (simp add: ledger_of_def fun_eq_iff get_link_at)
  from c consider d where "rm_msg m = Data d" | "rm_msg m = SendFinish"
    by (cases "rm_msg m") (auto simp: is_consumable_def)
  then show ?thesis
  proof cases
    case 1
    then show ?thesis
      using size by (auto simp: consume_received_def checked_sub_def Let_def intro!: mv inv led)
  next
    case 2
    then show ?thesis by (auto simp: consume_received_def intro!: mv inv led)
  qed
qed

section \<open>Any event\<close>

lemma write_task_ok:
  assumes w: "wait_ok w t"
  shows "\<exists>e t'. write_task M w t = Some (e, t') \<and> core_eq t t' \<and>
    (e = None \<or> e = Some SendConsumed \<and> w_idling w \<and> w_consume_ack w \<or> e = Some WriteEnd \<or>
     (\<exists>r. e = Some (EvFlush r)) \<or> (\<exists>i d. e = Some (WriteRx i d) \<and> w_sendable w = Some i))"
proof (cases "write_rx t")
  case None
  then show ?thesis by (auto simp: write_task_def)
next
  case (Some rx)
  let ?c = "\<lambda>r. case r of SendData d \<Rightarrow> length d \<le> w_space w \<and> w_sendable w \<noteq> None | FlushReq _ \<Rightarrow> True"
  obtain res rx' where r: "recv_if M ?c rx = Some (res, rx')" using recv_if_total [of M ?c rx] by force
  have data: "w_sendable w \<noteq> None" if "res = Some (Inr (SendData d))" for d
    using recv_if_cond r that by fastforce
  show ?thesis
  proof (cases "w_seq_avail w \<and> \<not> w_resending w \<and> \<not> (w_idling w \<and> w_consume_ack w)")
    case True
    then have "write_task M w t = (case res of
                 None \<Rightarrow> Some (None, t\<lparr>write_rx := Some rx'\<rparr>)
               | Some (Inr (SendData d)) \<Rightarrow> do { i \<leftarrow> w_sendable w; Some (Some (WriteRx i d), t\<lparr>write_rx := Some rx'\<rparr>) }
               | Some (Inr (FlushReq r)) \<Rightarrow> Some (Some (EvFlush r), t\<lparr>write_rx := Some rx'\<rparr>)
               | Some (Inl IfNoMatch) \<Rightarrow> Some (None, t\<lparr>write_rx := Some rx'\<rparr>)
               | Some (Inl IfDisconnected) \<Rightarrow> Some (Some WriteEnd, t\<lparr>write_rx := Some rx'\<rparr>))"
      using Some by (simp add: write_task_def r Let_def del: not_None_eq) blast
    then show ?thesis using data
      by (auto split: option.splits sum.splits send_req.splits recv_if_error.splits)
  next
    case False
    then show ?thesis using Some by (auto simp: write_task_def)
  qed
qed

text \<open>
  What the environment of the task has to guarantee at an event, and what the code checks too
  early: that a link is still idle when consumed data is acknowledged over an idle link.
\<close>

definition wait_env :: "wait \<Rightarrow> ('tx, 'wr) task \<Rightarrow> bool" where
  "wait_env w t \<longleftrightarrow> length (t_txed_packets t) \<le> 2 ^ 32 \<and>
     (w_idling w \<and> w_consume_ack w \<longrightarrow> idle_links t \<noteq> [])"

lemma write_event_ok:
  assumes ok: "task_ok t" and w: "wait_ok w t" and env: "wait_env w t"
    and e: "write_task M w t = Some (Some ev, t')"
  shows "flow_ok t (handle_event S M now w ev t')"
proof -
  have c: "core_eq t t'"
    and ev: "ev = SendConsumed \<and> w_idling w \<and> w_consume_ack w \<or> ev = WriteEnd \<or>
     (\<exists>r. ev = EvFlush r) \<or> (\<exists>i d. ev = WriteRx i d \<and> w_sendable w = Some i)"
    using write_task_ok [OF w, of M] e by auto
  note mv = task_moves_core [OF ok c]
  note ok' = task_moves_ok [OF mv]
  have idle: "idle_links t' = idle_links t" using c by (simp add: core_eq_def)
  from ev consider (consumed) "ev = SendConsumed" "w_idling w" "w_consume_ack w" | (finish) "ev = WriteEnd"
    | (flush) r where "ev = EvFlush r" | (data) i d where "ev = WriteRx i d" "w_sendable w = Some i" by blast
  then have "flow_ok t' (handle_event S M now w ev t')"
  proof cases
    case consumed
    then have "idle_links t' \<noteq> []" using env idle by (simp add: wait_env_def)
    then show ?thesis
      using consumed send_over_idle_moves [OF ok' core_marks(1)]
      by (auto simp: handle_event_def send_consumed_def assert_that_def intro!: flow_continue)
  next
    case finish
    have m1: "task_moves t' (t'\<lparr>write_rx := None\<rparr>)" by (rule task_moves_core [OF ok']) simp
    show ?thesis
      using finish flow_via [OF m1 send_over_idle_moves [OF task_moves_ok [OF m1] core_marks(4)]]
      by (simp add: handle_event_def)
  next
    case (flush r)
    then show ?thesis using handle_flush_moves [OF ok'] by (auto simp: handle_event_def intro!: flow_go)
  next
    case (data i d)
    then have "i \<in> set (idle_links t')" using w idle by (simp add: wait_ok_def)
    then obtain l where "get_link t' i = Some l" "tx_idle l"
      using tx_inv_idle [of t' i] ok' by (auto simp: task_ok_def)
    then show ?thesis
      using data send_reliable_moves [OF ok', of i l "\<lambda>t. t"]
      by (auto simp: handle_event_def intro!: flow_continue)
  qed
  then show ?thesis by (rule flow_trans [OF mv])
qed

text \<open>Events at which something is received from the remote endpoint or delivered to the user.\<close>

fun loud_event :: "'tx task_event \<Rightarrow> bool" where
  "loud_event (LinkEvent _ (Rx _ _)) = True"
| "loud_event (ConsumeReceived _ _) = True"
| "loud_event _ = False"

definition event_ok :: "'tx task_event \<Rightarrow> ('tx, 'wr) task \<Rightarrow> ('tx, 'wr) flow option \<Rightarrow> bool" where
  "event_ok ev t r \<longleftrightarrow> (if loud_event ev then flow_evolves t r else flow_ok t r)"

lemma event_ok_flow: "flow_ok t r \<Longrightarrow> event_ok ev t r"
  by (simp add: event_ok_def flow_ok_evolves)

lemma event_ok_evolves: "event_ok ev t r \<Longrightarrow> flow_evolves t r"
  by (auto simp: event_ok_def flow_ok_evolves split: if_splits)

lemma link_event_ok:
  assumes ok: "task_ok t" and w: "wait_ok w t" and env: "wait_env w t"
    and l: "get_link t i = Some l" and e: "link_emits S now l e l'"
  shows "event_ok (LinkEvent i e) t (handle_event S M now w (LinkEvent i e) (put_link i l' t))"
proof -
  have inv: "tx_inv t" using ok by (simp add: task_ok_def)
  have "tx_ok l" using tx_inv_link [OF inv l] by (simp add: ready_link_def)
  note fr = link_emits_frame [OF e this]
  have mv: "task_moves t (put_link i l' t)" by (rule put_kept_moves [OF ok l]) (use fr in blast)+
  have w': "wait_ok w (put_link i l' t)" by (rule wait_ok_put [OF w l]) (use fr in blast)
  have g: "get_link (put_link i l' t) i = Some l'" using l by simp
  show ?thesis
  proof (cases "\<exists>msg d. e = Rx msg d")
    case True
    then obtain msg d where rx: "e = Rx msg d" by blast
    have "flow_evolves (put_link i l' t) (handle_link_rx S now i (lk_link_id l') msg d (put_link i l' t))"
      by (rule handle_link_rx_ok [OF task_moves_ok [OF mv] g])
        (use env emitted_data [of S now l _ _ l'] e rx in \<open>auto simp: wait_env_def\<close>)
    then show ?thesis
      using flow_evolves_trans [OF mv] g rx by (simp add: handle_event_def handle_link_event_def event_ok_def)
  next
    case False
    have "flow_ok (put_link i l' t) (handle_link_event S M now w i e (put_link i l' t))"
      by (rule handle_link_event_ok [OF task_moves_ok [OF mv] g _ w']) (use fr False in auto)
    then show ?thesis using flow_trans [OF mv] by (simp add: handle_event_def event_ok_flow)
  qed
qed

lemma resend_event_ok:
  assumes ok: "task_ok t" and w: "wait_ok w t" and rs: "w_resendable w \<noteq> None" and q: "resend_queue t = p # ps"
  shows "flow_ok t (handle_event S M now w (EvResend p) (t\<lparr>resend_queue := ps\<rparr>))"
proof -
  have inv: "tx_inv t" using ok by (simp add: task_ok_def)
  from rs obtain i where i: "w_resendable w = Some i" "i \<in> set (idle_links t)"
    "\<And>l. get_link t i = Some l \<Longrightarrow> front_link t \<noteq> Some (lk_link_id l)"
    using w by (auto simp: wait_ok_def)
  obtain l where l: "get_link t i = Some l" "tx_idle l" using tx_inv_idle [OF inv i(2)] by blast
  from resend_front_moves [OF ok l q i(3) [OF l(1)], of S now] show ?thesis
    using i(1) by (auto simp: handle_event_def intro!: flow_continue)
qed

lemma handle_event_ok:
  assumes ok: "task_ok t" and w: "wait_ok w t" and env: "wait_env w t" and e: "task_emits S M now w t ev t'"
  shows "event_ok ev t (handle_event S M now w ev t')"
  using e
proof (cases rule: task_emits.cases)
  case (em_init_link l ls a)
  then have f: "fresh_link l" "\<forall>l \<in> set ls. fresh_link l" using ok by (auto simp: task_ok_def)
  have "rx_inv (t\<lparr>init_links := ls\<rparr>) = rx_inv t" "ready_inv (t\<lparr>init_links := ls\<rparr>) = ready_inv t"
    by (rule rx_inv_cong, simp add: rx_fields_def, rule ready_inv_cong, simp_all)
  moreover have "ledger_of (t\<lparr>init_links := ls\<rparr>) = ledger_of t" by (simp add: ledger_of_def fun_eq_iff get_link_at)
  ultimately have mv: "task_moves t (t\<lparr>init_links := ls\<rparr>)"
    using ok f(2) by (simp add: task_moves_def task_ok_def tx_inv_def get_link_at rx_quiet_def rx_fields_def)
  then show ?thesis
    using em_init_link handle_new_link_moves [OF task_moves_ok [OF mv] f(1), of now a] task_moves_trans [OF mv]
    by (auto simp: handle_event_def intro!: event_ok_flow flow_go)
next
  case em_new_link
  then show ?thesis
    using handle_new_link_moves [OF ok link_new_fresh] by (auto simp: handle_event_def intro!: event_ok_flow flow_go)
next
  case (em_link i l e l')
  then show ?thesis using link_event_ok [OF ok w env] by blast
next
  case em_write
  then show ?thesis using event_ok_flow [OF write_event_ok [OF ok w env]] by blast
next
  case (em_confirm i d)
  then obtain l where l: "get_link t i = Some l" using w by (auto simp: wait_ok_def)
  show ?thesis
    using em_confirm unconfirm_link_moves [OF ok l, of now AckTimeout]
    by (auto simp: handle_event_def intro!: event_ok_flow flow_continue)
next
  case (em_confirm_flush i d)
  then obtain l where l: "get_link t i = Some l" using w by (auto simp: wait_ok_def)
  show ?thesis
    using em_confirm_flush l flush_link_moves [OF ok l, of now]
    by (auto simp: handle_event_def handle_link_event_def intro!: event_ok_flow flow_continue)
next
  case (em_ping i d)
  then obtain l where l: "get_link t i = Some l" using w by (auto simp: wait_ok_def)
  show ?thesis using em_ping ping_link_moves [OF ok l, of now] by (auto simp: handle_event_def intro!: event_ok_flow flow_continue)
next
  case (em_pong i d)
  then have "get_link t i \<noteq> None" using w by (simp add: wait_ok_def)
  then show ?thesis using em_pong event_ok_flow [OF flow_removed [OF ok]] by (simp add: handle_event_def)
next
  case (em_unconfirmed i d)
  then have "get_link t i \<noteq> None" using w by (simp add: wait_ok_def)
  then show ?thesis using em_unconfirmed event_ok_flow [OF flow_removed [OF ok]] by (simp add: handle_event_def)
next
  case (em_send i d)
  then have "get_link t i \<noteq> None" using w by (simp add: wait_ok_def)
  then show ?thesis using em_send event_ok_flow [OF flow_removed [OF ok]] by (simp add: handle_event_def)
next
  case em_resend
  then show ?thesis using event_ok_flow [OF resend_event_ok [OF ok w]] by blast
next
  case (em_consume m ms)
  obtain t'' where "consume_received m (read_tx t) t' = Some t''" "task_evolves t t''"
    using consume_received_moves [OF ok em_consume(3)] em_consume(2) by blast
  then show ?thesis using em_consume(1) by (simp add: event_ok_def handle_event_def continue_def flow_evolves_def)
next
  case em_read_dropped
  have m1: "task_moves t (t\<lparr>read_tx := False, read_closed_rx := False\<rparr>)" by (rule task_moves_core [OF ok]) simp
  show ?thesis
    using em_read_dropped event_ok_flow [OF flow_via [OF m1 send_over_idle_moves [OF task_moves_ok [OF m1] core_marks(3)]]]
    by (simp add: handle_event_def)
next
  case em_read_closed
  have m1: "task_moves t (t\<lparr>read_closed_rx := False\<rparr>)" by (rule task_moves_core [OF ok]) simp
  show ?thesis
    using em_read_closed event_ok_flow [OF flow_via [OF m1 send_over_idle_moves [OF task_moves_ok [OF m1] core_marks(2)]]]
    by (simp add: handle_event_def)
next
  case em_stats
  have inv: "tx_inv t" using ok by (simp add: task_ok_def)
  have h: "harmless l (publish_stats now l)" for l :: "'a link_int"
    by (rule harmlessI) (simp_all add: publish_stats_def Let_def)
  show ?thesis
    using em_stats task_moves_same [OF ok map_links_ok(1,3) [OF inv h]]
    by (auto simp: handle_event_def intro!: event_ok_flow flow_go)
next
  case (em_refused ls l ls')
  have "core_eq t t'" unfolding em_refused
    by (rule core_eq_trans [OF core_other(1) core_other(2)])
  then show ?thesis
    using em_refused task_moves_core [OF ok] by (auto simp: handle_event_def intro!: event_ok_flow flow_go)
next
  case em_no_new_links
  then show ?thesis
    using task_moves_core [OF ok core_other(3)] by (auto simp: handle_event_def intro!: event_ok_flow flow_go)
next
  case em_testing
  then show ?thesis using task_moves_refl [OF ok] by (auto simp: handle_event_def intro!: event_ok_flow flow_go)
qed (auto simp: handle_event_def intro!: event_ok_flow)

end
