(* ===== verification/Task_Reach.thy ===== *)
theory Task_Reach
  imports Task_Loop
begin

text \<open>
  Reachable states of the main loop.

  The interface \<open>step_system\<close> between a step relation and what is shown of all its runs is
  interpreted on the steps of the task.  This gives that the task never panics and never loses a
  message, in every run in which the environment keeps the conditions of \<open>phase_env\<close>.
\<close>

section \<open>Phases of the loop\<close>

fun phase_ok :: "('tx, 'wr) phase \<Rightarrow> bool" where
  "phase_ok (Top t) \<longleftrightarrow> task_ok t"
| "phase_ok (Waiting w t) \<longleftrightarrow> task_ok t \<and> wait_ok w t"
| "phase_ok (Stopped oc t) \<longleftrightarrow> True"
| "phase_ok Panicked \<longleftrightarrow> False"

text \<open>
  What the environment keeps: the bounds of the acknowledgement timeout of every link are in
  order when the loop starts over, and \<open>wait_env\<close> holds when an event occurs.
\<close>

fun phase_env :: "('tx, 'wr) phase \<Rightarrow> bool" where
  "phase_env (Top t) \<longleftrightarrow> timeouts_ordered t"
| "phase_env (Waiting w t) \<longleftrightarrow> wait_env w t"
| "phase_env _ \<longleftrightarrow> True"

inductive loop_step :: "'tx sink \<Rightarrow> 'wr write_ops \<Rightarrow> ('tx, 'wr) phase \<Rightarrow> ('tx, 'wr) phase \<Rightarrow> bool"
  for S :: "'tx sink" and M :: "'wr write_ops" where
  "phase_env p \<Longrightarrow> task_step S M p p' \<Longrightarrow> loop_step S M p p'"

inductive_cases task_step_topE: "task_step S M (Top t) p"
inductive_cases task_step_waitingE: "task_step S M (Waiting w t) p"
inductive_simps task_step_stopped: "task_step S M (Stopped oc t) p"
inductive_simps task_step_panicked: "task_step S M Panicked p"

text \<open>The packets that have been sent so far; none is forgotten while the loop runs.\<close>

fun sent_pkts :: "('tx, 'wr) phase \<Rightarrow> pkt list option" where
  "sent_pkts (Top t) = Some (pkts (t_store t))"
| "sent_pkts (Waiting w t) = Some (pkts (t_store t))"
| "sent_pkts _ = None"

definition phase_moves :: "('tx, 'wr) phase \<Rightarrow> ('tx, 'wr) phase \<Rightarrow> bool" where
  "phase_moves p p' \<longleftrightarrow>
     (\<forall>b. sent_pkts p' = Some b \<longrightarrow> (\<exists>a. sent_pkts p = Some a \<and> evolves a b))"

lemma phase_moves_trans: "phase_moves p p' \<Longrightarrow> phase_moves p' p'' \<Longrightarrow> phase_moves p p''"
  unfolding phase_moves_def by (blast intro: evolves_trans)

text \<open>One step, from the lemmas on its parts.\<close>

lemma top_step_ok:
  assumes "task_ok t" and "timeouts_ordered t"
  shows "phase_ok (after_top (loop_top S M now t)) \<and> phase_moves (Top t) (after_top (loop_top S M now t))"
proof -
  obtain r t' where r: "loop_top S M now t = Some (r, t')"
    "\<forall>w. r = Inr w \<longrightarrow> task_moves t t' \<and> wait_ok w t'"
    using loop_top_ok [OF assms, of S M now] by blast
  then show ?thesis
    by (cases r) (auto simp: after_top_def phase_moves_def task_moves_def advances_evolves)
qed

lemma event_step_ok:
  assumes "flow_evolves t r"
  shows "phase_ok (after_event r) \<and> phase_moves (Waiting w t) (after_event r)"
proof -
  from assms obtain f t' where r: "r = Some (f, t')" "f = Inr () \<longrightarrow> task_evolves t t'"
    unfolding flow_evolves_def by blast
  then show ?thesis
    by (cases f) (auto simp: after_event_def phase_moves_def task_evolves_def)
qed

lemma poll_step_ok:
  assumes "task_ok t" and "wait_ok w t" and l: "get_link t i = Some l" and k: "keeps l l'" "tx_ok l'"
    and "tx_idle l \<Longrightarrow> tx_idle l'"
  shows "phase_ok (Waiting w (put_link i l' t)) \<and> phase_moves (Waiting w t) (Waiting w (put_link i l' t))"
  using put_kept_moves [OF assms(1) l k assms(6)] wait_ok_put [OF assms(2) l k(1)]
  by (simp add: task_moves_def phase_moves_def advances_evolves)

lemma loop_step_ok:
  assumes "phase_ok p" and "loop_step S M p p'"
  shows "phase_ok p' \<and> phase_moves p p'"
proof -
  have env: "phase_env p" and st: "task_step S M p p'" using assms(2) by (auto elim: loop_step.cases)
  from st show ?thesis
  proof (cases rule: task_step.cases)
    case (st_top t now)
    then show ?thesis using top_step_ok assms(1) env by auto
  next
    case (st_event now w t ev t')
    then have "flow_evolves t (handle_event S M now w ev t')"
      using event_ok_evolves [OF handle_event_ok] assms(1) env by auto
    then show ?thesis using st_event event_step_ok by blast
  next
    case (st_poll_write w t t')
    then have "core_eq t t'" using write_task_ok [of w t M] assms(1) by auto
    then show ?thesis
      using st_poll_write assms(1) task_moves_core core_eq_wait by (auto simp: task_moves_def phase_moves_def advances_evolves)
  next
    case (st_poll_link t i l now l' w)
    then have "tx_ok l" using assms(1) tx_inv_link by (auto simp: task_ok_def ready_link_def)
    then show ?thesis
      using st_poll_link assms(1) tx_task_frame [of l S now] poll_step_ok [of t w i l l']
      by (auto simp: tx_idle_def)
  next
    case (st_poll_rx t i l item l' w)
    then have "tx_ok l" using assms(1) tx_inv_link by (auto simp: task_ok_def ready_link_def)
    then show ?thesis
      using st_poll_rx assms(1) rx_item_frame [of l item None l'] poll_step_ok [of t w i l l']
      by (auto simp: tx_ok_def tx_idle_def)
  next
    case (st_tx_panic t i l now w)
    then have "tx_ok l" using assms(1) tx_inv_link by (auto simp: task_ok_def ready_link_def)
    then show ?thesis using st_tx_panic tx_task_frame [of l S now] by auto
  next
    case (st_resend_panic w t)
    then show ?thesis using assms(1) by (simp add: wait_ok_def)
  next
    case (st_write_panic w t)
    then show ?thesis using write_task_ok [of w t M] assms(1) by auto
  qed
qed

lemma phase_moves_refl: "phase_moves p p"
  by (simp add: phase_moves_def)

interpretation tl: step_system "loop_step S M" "phase_ok" "phase_moves"
  for S M
  by unfold_locales (use loop_step_ok phase_moves_refl phase_moves_trans in blast)+

section \<open>Concrete tasks\<close>

text \<open>A transport that accepts everything, and tasks to apply the properties on.\<close>

definition buffer_sink :: "bytes list sink" where
  "buffer_sink = \<lparr>sk_poll_ready = (\<lambda>b. (Some (Inr ()), b)), sk_start_send = (\<lambda>b d. (Inr (), b @ [d])),
     sk_poll_flush = (\<lambda>b. (Some (Inr ()), b))\<rparr>"

definition sample_link :: "link_id \<Rightarrow> bytes list link_int" where
  "sample_link lid = link_new lid 0 (ConnId 1) [] default_cfg \<lparr>x_recv_buffer = 1000\<rparr> None Outgoing 5 []"

definition fresh_task :: "(bytes list, send_req list) task" where
  "fresh_task = task_new 0 default_cfg None (ConnId 1) Outgoing [SendData [1, 2]] [sample_link (LinkId 7)]"

text \<open>One link is idle, and one message is in flight over it.\<close>

definition busy_task :: "(bytes list, send_req list) task" where
  "busy_task = (task_new 0 default_cfg (Some \<lparr>x_recv_buffer = 1000\<rparr>) (ConnId 1) Outgoing [] [])
     \<lparr>t_links := [Some ((sample_link (LinkId 7))\<lparr>txed_unacked_data := 2\<rparr>)],
      t_store := [\<lparr>sr_seq = ZERO, sr_status = Sent 1 None 0 (LinkId 7) (Data [1, 2]) False\<rparr>],
      t_txed_packets := [0], t_txed_unacked := 2, txed_unconsumed := 2, tx_seq := seq_of 1, idle_links := [0]\<rparr>"

lemma task_new_ok:
  assumes "\<forall>l \<in> set ls. fresh_link l"
  shows "task_ok (task_new now c rc cid dir wr ls)"
  using assms
  by (simp add: task_ok_def tx_inv_def ledger_inv_def ready_inv_def rx_inv_def task_new_def tally_def
      get_link_at links_at_def nth_opt_def seqs_def seq_of_def ZERO_def)

lemma busy_task_ok: "task_ok busy_task"
proof -
  have "x = 0 \<or> 0 < x" for x :: nat by auto
  then show ?thesis
    by (auto simp: task_ok_def tx_inv_def ledger_inv_def ready_inv_def ready_link_def rx_inv_def busy_task_def
        task_new_def tally_def sample_link_def link_new_def tx_ok_def tx_idle_def get_link_Some pkts_def
        seqs_def seq_of_def ZERO_def)
qed

section \<open>The properties of the loop\<close>

definition newly_created :: "'tx link_int \<Rightarrow> bool" where
  "newly_created l \<longleftrightarrow> (\<exists>lid since cid snk c rc lc dir rt ud. l = link_new lid since cid snk c rc lc dir rt ud)"

lemma newly_created_fresh: "newly_created l \<Longrightarrow> fresh_link l"
  by (auto simp: newly_created_def link_new_fresh)


lemma fresh_task_step:
  "(loop_step buffer_sink list_mpsc)\<^sup>*\<^sup>* (Top fresh_task) (after_top (loop_top buffer_sink list_mpsc 10 fresh_task))"
  by (intro r_into_rtranclp loop_step.intros st_top)
    (simp add: timeouts_ordered_def fresh_task_def task_new_def get_link_Some)


lemma kept_packet:
  assumes inv: "tx_inv t" and k: "k < length (t_store t)" "carries (pkts (t_store t) ! k) = Some m"
  shows "k \<in> set (t_txed_packets t) \<and> sr_seq (t_store t ! k) = seq_of k \<and>
    (\<exists>i l. get_link t i = Some l \<and> pkts (t_store t) ! k = PSent i (lk_link_id l) m \<or>
      k \<in> set (resend_queue t) \<and> (\<exists>lid. pkts (t_store t) ! k = PQueued m lid))"
proof -
  have led: "ledger_inv (ledger_of t)" using inv by (simp add: tx_inv_def)
  have held: "k \<in> set (t_txed_packets t)"
    using ledger_invD(4) [OF led, of k] k by (cases "pkts (t_store t) ! k") auto
  have "seqs (t_store t) ! k = seq_of k" using led k(1) by (simp add: ledger_inv_def)
  then have seq: "sr_seq (t_store t ! k) = seq_of k" using k(1) by simp
  show ?thesis
  proof (cases "pkts (t_store t) ! k")
    case (PSent i lid m')
    then obtain l where "get_link t i = Some l" "lk_link_id l = lid"
      using ledger_sent_link [OF led, of k i lid m'] held by auto
    then show ?thesis using PSent k held seq by auto
  next
    case (PQueued m' lid)
    then have "k \<in> set (resend_queue t)" using led held by (simp add: ledger_inv_def)
    then show ?thesis using PQueued k held seq by auto
  qed (use k in auto)
qed

text \<open>
  C3. No message is lost: a message that was numbered and not yet acknowledged stays in the hands of
  the task, with its number and its content, until it is acknowledged.  All that time it is either in
  the queue of packets to send again or in flight over a link that is still part of the connection.
\<close>

theorem sent_messages_kept:
  assumes run: "(loop_step S M)\<^sup>*\<^sup>* (Top t) p" and ok: "task_ok t"
    and p: "p = Top t' \<or> p = Waiting w t'"
    and k: "k < length (t_store t)" "carries (pkts (t_store t) ! k) = Some m"
  shows "is_received (pkts (t_store t') ! k) \<or>
    k \<in> set (t_txed_packets t') \<and> sr_seq (t_store t' ! k) = seq_of k \<and>
    (\<exists>i l. get_link t' i = Some l \<and> pkts (t_store t') ! k = PSent i (lk_link_id l) m \<or>
      k \<in> set (resend_queue t') \<and> (\<exists>lid. pkts (t_store t') ! k = PQueued m lid))"
proof -
  have ok0: "phase_ok (Top t)" using ok by simp
  have "task_ok t'" using tl.run_inv [OF run ok0] p by auto
  then have inv: "tx_inv t'" by (simp add: task_ok_def)
  have ev: "evolves (pkts (t_store t)) (pkts (t_store t'))"
    using tl.run_moves [OF run ok0] p by (auto simp: phase_moves_def)
  then have len: "k < length (t_store t')" using k(1) by (simp add: evolves_def)
  have "is_received (pkts (t_store t') ! k) \<or> carries (pkts (t_store t') ! k) = Some m"
    using ev k by (auto simp: evolves_def)
  then show ?thesis using kept_packet [OF inv len] by blast
qed

lemma loop_top_waits:
  assumes ok: "task_ok t" "timeouts_ordered t" and "read_tx t" "links_available t"
  shows "\<exists>w t'. loop_top S M now t = Some (Inr w, t')"
proof -
  obtain r t' where r: "loop_top S M now t = Some (r, t')" using loop_top_ok [OF ok] by blast
  have "read_tx (send_stats now t)" using assms(3) by (simp add: send_stats_def split: option.split)
  then have c: "check_closed now (send_stats now t) = (False, send_stats now t)"
    by (simp add: check_closed_def)
  have "r \<noteq> Inl oc" for oc
    using r assms(4) by (auto simp: loop_top_def c Let_def bind_Some_iff split: if_splits prod.splits)
      (metis surj_pair)
  then show ?thesis using r by (cases r) auto
qed

lemma busy_task_step:
  "\<exists>w t. (loop_step buffer_sink list_mpsc)\<^sup>*\<^sup>* (Top busy_task) (Waiting w t)"
proof -
  have o: "timeouts_ordered busy_task"
    by (auto simp: timeouts_ordered_def busy_task_def task_new_def get_link_Some sample_link_def link_new_def
        lcfg_def default_cfg_def default_link_cfg_def from_secs_def)
  have "read_tx busy_task" "links_available busy_task"
    by (simp_all add: busy_task_def task_new_def links_available_def)
  from loop_top_waits [OF busy_task_ok o this, of buffer_sink list_mpsc 10] obtain w t where
    "after_top (loop_top buffer_sink list_mpsc 10 busy_task) = Waiting w t" by (auto simp: after_top_def)
  moreover have "loop_step buffer_sink list_mpsc (Top busy_task) (after_top (loop_top buffer_sink list_mpsc 10 busy_task))"
    using o by (intro loop_step.intros st_top) simp
  ultimately show ?thesis by (metis r_into_rtranclp)
qed

theorem sent_messages_kept_witness:
  "\<exists>w t. (loop_step buffer_sink list_mpsc)\<^sup>*\<^sup>* (Top busy_task) (Waiting w t) \<and>
    (is_received (pkts (t_store t) ! 0) \<or>
     0 \<in> set (t_txed_packets t) \<and> sr_seq (t_store t ! 0) = seq_of 0 \<and>
     (\<exists>i l. get_link t i = Some l \<and> pkts (t_store t) ! 0 = PSent i (lk_link_id l) (Data [1, 2]) \<or>
       0 \<in> set (resend_queue t) \<and> (\<exists>lid. pkts (t_store t) ! 0 = PQueued (Data [1, 2]) lid)))"
proof -
  obtain w t where run: "(loop_step buffer_sink list_mpsc)\<^sup>*\<^sup>* (Top busy_task) (Waiting w t)"
    using busy_task_step by blast
  have "0 < length (t_store busy_task)" "carries (pkts (t_store busy_task) ! 0) = Some (Data [1, 2])"
    by (simp_all add: busy_task_def pkts_def)
  from sent_messages_kept [OF run busy_task_ok disjI2 [OF refl] this] run show ?thesis by blast
qed

end
