(* ===== verification/Task_Delivery.thy ===== *)
theory Task_Delivery
  imports Task_Reach
begin

text \<open>
  In-order, exactly-once delivery.

  \<open>msgs\<close> are the messages the remote endpoint numbered, in the order of their numbers.  \<open>rx_hist\<close>
  relates the receive side of the task to the set of the numbers that have arrived: the next number
  to be handed on is the first that is missing, and the reorder buffer holds the ones beyond it.
\<close>

section \<open>What has arrived\<close>

definition rx_hist :: "(nat \<Rightarrow> reliable_msg) \<Rightarrow> nat set \<Rightarrow> nat \<Rightarrow> ('tx, 'wr) task \<Rightarrow> bool" where
  "rx_hist msgs N r t \<longleftrightarrow>
     rx_seq t = seq_of r \<and> (\<forall>k < r. k \<in> N) \<and> r \<notin> N \<and>
     (\<forall>n \<in> N. n < r + length (rxed_reliable t)) \<and>
     (\<forall>k < length (rxed_reliable t). rxed_reliable t ! k =
        (if r + k \<in> N then Some \<lparr>rm_seq = seq_of (r + k), rm_msg = msgs (r + k)\<rparr> else None))"

text \<open>The payloads of data messages, and what the user has received or is about to.\<close>

fun payload :: "reliable_msg \<Rightarrow> bytes list" where
  "payload (Data d) = [d]"
| "payload _ = []"

definition payloads :: "reliable_msg list \<Rightarrow> bytes list" where
  "payloads ms = concat (map payload ms)"

definition user_data :: "('tx, 'wr) task \<Rightarrow> bytes list" where
  "user_data t = delivered t @ payloads (map rm_msg (rxed_reliable_consumable t))"

lemma payloads_simps [simp]:
  "payloads [] = []" "payloads (m # ms) = payload m @ payloads ms" "payloads (xs @ ys) = payloads xs @ payloads ys"
  by (simp_all add: payloads_def)

lemma payloads_consumable:
  "payloads (map rm_msg (filter (\<lambda>m. is_consumable (rm_msg m)) ms)) = payloads (map rm_msg ms)"
proof (induction ms)
  case (Cons m ms)
  then show ?case by (cases "rm_msg m") (auto simp: is_consumable_def)
qed simp

section \<open>The reorder buffer\<close>

lemma ready_count_le: "ready_count q \<le> length q"
  by (simp add: ready_count_def length_takeWhile_le)

lemma ready_slot: "k < ready_count q \<Longrightarrow> q ! k \<noteq> None"
  unfolding ready_count_def by (metis (mono_tags, lifting) nth_mem set_takeWhileD takeWhile_nth)

lemma not_ready_slot: "ready_count q < length q \<Longrightarrow> q ! ready_count q = None"
  unfolding ready_count_def using nth_length_takeWhile [of "\<lambda>x. x \<noteq> None" q] by simp

lemma ready_msgs_map: "ready_msgs q = map (\<lambda>k. the (q ! k)) [0..<ready_count q]"
  unfolding ready_msgs_def ready_count_def by (rule nth_equalityI) (auto simp: takeWhile_nth)

text \<open>The buffer with the arrival stored, before the messages that are ready are forwarded.\<close>

definition rx_filled :: "(nat \<Rightarrow> reliable_msg) \<Rightarrow> nat set \<Rightarrow> nat \<Rightarrow> received_msg option list \<Rightarrow> bool" where
  "rx_filled msgs N r q \<longleftrightarrow> (\<forall>k < r. k \<in> N) \<and> (\<forall>n \<in> N. n < r + length q) \<and>
     (\<forall>k < length q. q ! k =
        (if r + k \<in> N then Some \<lparr>rm_seq = seq_of (r + k), rm_msg = msgs (r + k)\<rparr> else None))"

lemma rx_hist_filled: "rx_hist msgs N r t \<Longrightarrow> rx_filled msgs N r (rxed_reliable t)"
  by (simp add: rx_hist_def rx_filled_def)

lemma rx_histI:
  "rx_filled msgs N r (rxed_reliable t) \<Longrightarrow> r \<notin> N \<Longrightarrow> rx_seq t = seq_of r \<Longrightarrow> rx_hist msgs N r t"
  by (simp add: rx_hist_def rx_filled_def)

lemma rx_filled_forward:
  assumes f: "rx_filled msgs N r q"
  shows "(\<forall>k < r + ready_count q. k \<in> N) \<and> r + ready_count q \<notin> N \<and>
    rx_filled msgs N (r + ready_count q) (drop (ready_count q) q) \<and>
    map rm_msg (ready_msgs q) = map msgs [r..<r + ready_count q]"
proof -
  let ?c = "ready_count q"
  have slot: "q ! k = (if r + k \<in> N then Some \<lparr>rm_seq = seq_of (r + k), rm_msg = msgs (r + k)\<rparr> else None)"
    if "k < length q" for k using f that by (simp add: rx_filled_def)
  have in_N: "r + k \<in> N" if "k < ?c" for k
    using ready_slot [OF that] slot [of k] that ready_count_le [of q] by (auto split: if_splits)
  have below: "\<forall>k < r + ?c. k \<in> N"
  proof (intro allI impI)
    fix k assume "k < r + ?c"
    then show "k \<in> N" using f in_N [of "k - r"] by (cases "k < r") (auto simp: rx_filled_def)
  qed
  moreover have "r + ?c \<notin> N"
  proof (cases "?c < length q")
    case True
    then show ?thesis using not_ready_slot [OF True] slot [OF True] by (auto split: if_splits)
  next
    case False
    then show ?thesis using f ready_count_le [of q] by (auto simp: rx_filled_def)
  qed
  moreover have "rx_filled msgs N (r + ?c) (drop ?c q)"
    using f below ready_count_le [of q] slot by (auto simp: rx_filled_def add.assoc)
  moreover have "map rm_msg (ready_msgs q) = map msgs [r..<r + ?c]"
  proof (rule nth_equalityI)
    fix k assume "k < length (map rm_msg (ready_msgs q))"
    then have k: "k < ?c" by (simp add: ready_msgs_map)
    then show "map rm_msg (ready_msgs q) ! k = map msgs [r..<r + ?c] ! k"
      using in_N [OF k] slot [of k] ready_count_le [of q] by (simp add: ready_msgs_map)
  qed (simp add: ready_msgs_map)
  ultimately show ?thesis by blast
qed

lemma rx_filled_store:
  assumes f: "rx_filled msgs N r q" and "k < length q \<and> q ! k \<noteq> None \<and> q' = q \<or>
    q' = (grow k q)[k := Some \<lparr>rm_seq = seq_of (r + k), rm_msg = msgs (r + k)\<rparr>]"
  shows "rx_filled msgs (insert (r + k) N) r q'"
  using assms(2)
proof
  assume a: "k < length q \<and> q ! k \<noteq> None \<and> q' = q"
  then have "r + k \<in> N" using f by (auto simp: rx_filled_def split: if_splits)
  then show ?thesis using f a by (simp add: rx_filled_def insert_absorb)
next
  assume q': "q' = (grow k q)[k := Some \<lparr>rm_seq = seq_of (r + k), rm_msg = msgs (r + k)\<rparr>]"
  have out: "r + j \<notin> N" if "length q \<le> j" for j using f that by (auto simp: rx_filled_def)
  have "n < r + length q'" if "n \<in> insert (r + k) N" for n
    using f that by (auto simp: rx_filled_def q' less_max_iff_disj dest: bspec [of N _ n])
  moreover have "q' ! j = (if r + j \<in> insert (r + k) N
      then Some \<lparr>rm_seq = seq_of (r + j), rm_msg = msgs (r + j)\<rparr> else None)" if "j < length q'" for j
    using f that out [of j] by (auto simp: rx_filled_def q' nth_list_update grow_nth)
  ultimately show ?thesis using f by (simp add: rx_filled_def)
qed

section \<open>One arrival\<close>

lemma queue_ack_rx:
  assumes "tx_inv t" and "queue_ack now i s t = Some t'"
  shows "rx_fields t' = rx_fields t" and "delivered t' = delivered t"
proof -
  obtain l where l: "get_link t i = Some l" using assms(2) by (auto simp: queue_ack_def bind_Some_iff)
  have "tx_moves t t'" using queue_ack_ok [OF assms(1) l, of now s] assms(2) by auto
  then show "rx_fields t' = rx_fields t" "delivered t' = delivered t"
    by (auto simp: tx_moves_def rest_eq_def rx_fields_def)
qed

lemma arrival_in_order:
  assumes ok: "task_ok t" and h: "rx_hist msgs N r t"
    and win: "n \<le> r + 0x3FFFFFFF" "r \<le> n + 0x3FFFFFFF"
    and res: "handle_received_reliable_msg now i (seq_of n) (msgs n) t = Some (Inr (), t')"
  shows "\<exists>r' \<ge> r. rx_hist msgs (insert n N) r' t' \<and> user_data t' = user_data t @ payloads (map msgs [r..<r'])"
proof -
  have inv: "tx_inv t" "rx_inv t" using ok by (simp_all add: task_ok_def)
  from res obtain t1 where t1: "queue_ack now i (seq_of n) t = Some t1"
    by (auto simp: handle_received_reliable_msg_def bind_Some_iff)
  note same = queue_ack_rx [OF inv(1) t1]
  have f1: "rx_filled msgs N r (rxed_reliable t1)" and s1: "rx_seq t1 = seq_of r"
    using rx_hist_filled [OF h] h same(1) by (simp_all add: rx_fields_def rx_hist_def)
  have pre1: "rx_pre t1" using rx_inv_cong [OF same(1)] inv(2) by (simp add: rx_inv_pre)
  obtain res t2 where st: "(if seq_of n < rx_seq t1 then (Inr (), t1) else store_reliable (seq_of n) (msgs n) t1) = (res, t2)"
    by force
  with res t1 have r2: "res = Inr ()" and fw: "forward_received t2 = Some t'"
    by (auto simp: handle_received_reliable_msg_def bind_Some_iff split: sum.splits)
  have out1: "user_data t1 = user_data t" using same by (simp add: user_data_def rx_fields_def)
  have two: "rx_pre t2 \<and> rx_seq t2 = seq_of r \<and> user_data t2 = user_data t \<and>
    rx_filled msgs (insert n N) r (rxed_reliable t2)"
  proof (cases "n < r")
    case True
    then have "seq_of n < rx_seq t1" using sq.lt_num [OF win] s1 by simp
    moreover have "insert n N = N" using h True by (auto simp: rx_hist_def)
    ultimately show ?thesis using st pre1 s1 out1 f1 by simp
  next
    case False
    then have "\<not> seq_of n < rx_seq t1" using sq.lt_num [OF win] s1 by simp
    with st r2 have st': "store_reliable (seq_of n) (msgs n) t1 = (Inr (), t2)" by simp
    note so = store_reliable_ok [OF pre1 st']
    from so(4) obtain k where k: "int k = seq_sub (seq_of n) (rx_seq t1)"
      "rxed_reliable t2 = (if k < length (rxed_reliable t1) \<and> rxed_reliable t1 ! k \<noteq> None then rxed_reliable t1
        else (grow k (rxed_reliable t1))[k := Some \<lparr>rm_seq = seq_of n, rm_msg = msgs n\<rparr>])" by blast
    have "r + k = n" using k(1) sq.diff_num [OF win] s1 False by simp
    then have "rx_filled msgs (insert n N) r (rxed_reliable t2)"
      using rx_filled_store [OF f1, of k "rxed_reliable t2"] k(2) by (auto split: if_splits)
    moreover have "delivered t2 = delivered t1" using store_reliable_tx [OF st'] by (simp add: tx_fields_eq_def)
    ultimately show ?thesis using so(1-3) s1 out1 by (simp add: user_data_def)
  qed
  let ?q = "rxed_reliable t2"
  from forward_received_ok [of t2] two fw have
    t': "t' = t2\<lparr>rxed_reliable := drop (ready_count ?q) ?q,
      rx_seq := seq_add_u32 (rx_seq t2) (of_nat (ready_count ?q)),
      rxed_reliable_consumable := rxed_reliable_consumable t2 @
        filter (\<lambda>m. is_consumable (rm_msg m)) (ready_msgs ?q)\<rparr>" by auto
  have "rx_filled msgs (insert n N) r ?q" using two by blast
  note fwd = rx_filled_forward [OF this]
  have "rx_hist msgs (insert n N) (r + ready_count ?q) t'"
    by (rule rx_histI) (use fwd two in \<open>simp_all add: t' seq_of_offset\<close>)
  moreover have "user_data t' = user_data t @ payloads (map msgs [r..<r + ready_count ?q])"
    using fwd two by (simp add: t' user_data_def payloads_consumable)
  ultimately show ?thesis by (intro exI [of _ "r + ready_count ?q"]) simp
qed

section \<open>Any order of arrivals\<close>

text \<open>
  Message \<open>n\<close> arrives over link \<open>i\<close>, or the next message that is ready is taken by the user.  A
  protocol error ends the connection.
\<close>

datatype rx_op = Arrive nat nat | Take

fun rx_run ::
  "instant \<Rightarrow> (nat \<Rightarrow> reliable_msg) \<Rightarrow> rx_op list \<Rightarrow> ('tx, 'wr) task \<Rightarrow> (unit io_result \<times> ('tx, 'wr) task) option" where
  "rx_run now msgs [] t = Some (Inr (), t)"
| "rx_run now msgs (Arrive i n # ops) t = do {
     (res, t) \<leftarrow> handle_received_reliable_msg now i (seq_of n) (msgs n) t;
     (case res of Inl e \<Rightarrow> Some (Inl e, t) | Inr _ \<Rightarrow> rx_run now msgs ops t)
   }"
| "rx_run now msgs (Take # ops) t =
     (case rxed_reliable_consumable t of
        [] \<Rightarrow> rx_run now msgs ops t
      | m # ms \<Rightarrow> do {
          t \<leftarrow> consume_received m (read_tx t) (t\<lparr>rxed_reliable_consumable := ms\<rparr>);
          rx_run now msgs ops t
        })"

fun arrived :: "rx_op list \<Rightarrow> nat set" where
  "arrived [] = {}"
| "arrived (Arrive i n # ops) = insert n (arrived ops)"
| "arrived (Take # ops) = arrived ops"

text \<open>The receiver of the user, once dropped, does not come back.\<close>

lemma handle_received_read_tx:
  assumes "tx_inv t" and "handle_received_reliable_msg now i s m t = Some (res, t')"
  shows "read_tx t' = read_tx t"
proof -
  obtain t1 where t1: "queue_ack now i s t = Some t1"
    using assms(2) by (auto simp: handle_received_reliable_msg_def bind_Some_iff)
  obtain l where l: "get_link t i = Some l" using t1 by (auto simp: queue_ack_def bind_Some_iff)
  have "read_tx t1 = read_tx t"
    using queue_ack_ok [OF assms(1) l, of now s] t1 by (auto simp: tx_moves_def rest_eq_def)
  moreover have "reliable_effect m a = (r, b) \<Longrightarrow> read_tx b = read_tx a" for a b :: "('a, 'b) task" and r
    by (auto simp: reliable_effect_def Let_def split: reliable_msg.splits if_splits)
  then have "store_reliable s m a = (r, b) \<Longrightarrow> read_tx b = read_tx a" for a b :: "('a, 'b) task" and r
    by (fastforce simp: store_reliable_def Let_def split: if_splits prod.splits sum.splits)
  moreover have "forward_received a = Some b \<Longrightarrow> read_tx b = read_tx a" for a b :: "('a, 'b) task"
    by (auto simp: forward_received_def bind_Some_iff)
  ultimately show ?thesis
    using assms(2) t1
    by (auto simp: handle_received_reliable_msg_def bind_Some_iff split: if_splits sum.splits prod.splits)
qed

lemma consume_received_hist:
  assumes "rxed_reliable_consumable t = m # ms"
    and c: "consume_received m (read_tx t) (t\<lparr>rxed_reliable_consumable := ms\<rparr>) = Some t'"
  shows "rx_hist msgs N r t' = rx_hist msgs N r t" and "read_tx t' \<Longrightarrow> read_tx t"
    and "read_tx t' \<Longrightarrow> user_data t' = user_data t"
  using assms
  by (auto simp: consume_received_def rx_hist_def user_data_def bind_Some_iff Let_def
      split: reliable_msg.splits if_splits)

lemma arrival_task_ok:
  assumes "task_ok t" and h: "handle_received_reliable_msg now i s m t = Some (Inr u, t')"
  shows "task_ok t'"
proof -
  obtain l where l: "get_link t i = Some l"
    using h by (auto simp: handle_received_reliable_msg_def queue_ack_def bind_Some_iff)
  show ?thesis using handle_received_reliable_msg_ok [OF assms(1) l, of now s m] h by (auto simp: task_evolves_def)
qed

lemma take_task_ok:
  assumes "task_ok t" and "rxed_reliable_consumable t = m # ms"
    and "consume_received m permit (t\<lparr>rxed_reliable_consumable := ms\<rparr>) = Some t'"
  shows "task_ok t'"
  using consume_received_moves [OF assms(1,2), of permit] assms(3) by (auto simp: task_evolves_def)

lemma rx_run_read_tx:
  assumes "rx_run now msgs ops t = Some (res, t')" and "task_ok t" and "read_tx t'"
  shows "read_tx t"
  using assms
proof (induction now msgs ops t rule: rx_run.induct)
  case (2 now msgs i n ops t)
  then obtain r1 t1 where h: "handle_received_reliable_msg now i (seq_of n) (msgs n) t = Some (r1, t1)"
    by (auto simp: bind_Some_iff)
  have inv: "tx_inv t" using 2(3) by (simp add: task_ok_def)
  have "read_tx t1"
  proof (cases r1)
    case (Inl e)
    then show ?thesis using 2(2,4) h by auto
  next
    case (Inr u)
    then have "task_ok t1" using arrival_task_ok [OF 2(3)] h by blast
    then show ?thesis using 2(1) [OF h refl Inr] 2(2,4) h Inr by auto
  qed
  then show ?case using handle_received_read_tx [OF inv h] by simp
next
  case (3 now msgs ops t)
  show ?case
  proof (cases "rxed_reliable_consumable t")
    case Nil
    then show ?thesis using 3 by auto
  next
    case (Cons m ms)
    then obtain t1 where c: "consume_received m (read_tx t) (t\<lparr>rxed_reliable_consumable := ms\<rparr>) = Some t1"
      and r: "rx_run now msgs ops t1 = Some (res, t')" using 3(3) by (auto simp: bind_Some_iff)
    have "task_ok t1" by (rule take_task_ok [OF 3(4) Cons c])
    then have "read_tx t1" using 3(2) [OF Cons c r] 3(5) by blast
    then show ?thesis by (rule consume_received_hist(2) [OF Cons c])
  qed
qed simp

lemma rx_hist_le:
  assumes "rx_hist msgs N r t" and "N \<subseteq> N'" and "r' \<notin> N'"
  shows "r \<le> r'"
  using assms by (metis linorder_not_less rx_hist_def subsetD)

lemma rx_run_in_order:
  assumes "rx_run now msgs ops t = Some (Inr (), t')" and "task_ok t" and "rx_hist msgs N r t" and "read_tx t'"
    and "r' \<notin> N \<union> arrived ops" and "\<And>n. n \<in> arrived ops \<Longrightarrow> n \<le> r + 0x3FFFFFFF \<and> r' \<le> n + 0x3FFFFFFF"
  shows "\<exists>q. rx_hist msgs (N \<union> arrived ops) q t' \<and> user_data t' = user_data t @ payloads (map msgs [r..<q]) \<and> r \<le> q"
  using assms
proof (induction now msgs ops t arbitrary: N r rule: rx_run.induct)
  case (1 now msgs t)
  then show ?case by (auto intro!: exI [of _ r])
next
  case (2 now msgs i n ops t)
  from 2(2) obtain res t1 where h0: "handle_received_reliable_msg now i (seq_of n) (msgs n) t = Some (res, t1)"
    by (auto simp: bind_Some_iff)
  then have "res = Inr ()" using 2(2) by (cases res) auto
  with h0 2(2) have h: "handle_received_reliable_msg now i (seq_of n) (msgs n) t = Some (Inr (), t1)"
    and run: "rx_run now msgs ops t1 = Some (Inr (), t')" by auto
  have ok1: "task_ok t1" by (rule arrival_task_ok [OF 2(3) h])
  have le: "r \<le> r'" using rx_hist_le [OF 2(4), of "N \<union> arrived (Arrive i n # ops)" r'] 2(6) by auto
  have "n \<le> r + 0x3FFFFFFF" "r \<le> n + 0x3FFFFFFF" using 2(7) [of n] le by auto
  from arrival_in_order [OF 2(3,4) this h] obtain r1 where
    r1: "r \<le> r1" "rx_hist msgs (insert n N) r1 t1" "user_data t1 = user_data t @ payloads (map msgs [r..<r1])" by blast
  have "\<exists>q. rx_hist msgs (insert n N \<union> arrived ops) q t' \<and>
      user_data t' = user_data t1 @ payloads (map msgs [r1..<q]) \<and> r1 \<le> q"
  proof (rule 2(1) [OF h refl refl run ok1 r1(2) 2(5)])
    show "r' \<notin> insert n N \<union> arrived ops" using 2(6) by auto
    show "k \<le> r1 + 0x3FFFFFFF \<and> r' \<le> k + 0x3FFFFFFF" if "k \<in> arrived ops" for k
      using 2(7) [of k] that r1(1) by auto
  qed
  then obtain q where q: "rx_hist msgs (insert n N \<union> arrived ops) q t'"
    "user_data t' = user_data t1 @ payloads (map msgs [r1..<q])" "r1 \<le> q" by blast
  have "[r..<q] = [r..<r1] @ [r1..<q]" using r1(1) q(3) by (metis le_iff_add upt_add_eq_append)
  then show ?case using q r1 by (intro exI [of _ q]) simp
next
  case (3 now msgs ops t)
  show ?case
  proof (cases "rxed_reliable_consumable t")
    case Nil
    then show ?thesis using 3(1) [OF Nil] 3(3-) by auto
  next
    case (Cons m ms)
    then obtain t1 where c: "consume_received m (read_tx t) (t\<lparr>rxed_reliable_consumable := ms\<rparr>) = Some t1"
      and run: "rx_run now msgs ops t1 = Some (Inr (), t')" using 3(3) by (auto simp: bind_Some_iff)
    have ok1: "task_ok t1" by (rule take_task_ok [OF 3(4) Cons c])
    note hist = consume_received_hist [OF Cons c]
    have "read_tx t1" by (rule rx_run_read_tx [OF run ok1 3(6)])
    then show ?thesis
      using 3(2) [OF Cons c run ok1, of N r] 3(5-8) hist by auto
  qed
qed

text \<open>The size counter of the receive side, in terms of the numbers that have arrived.\<close>

lemma slots_sum:
  assumes f: "rx_filled msgs N r q"
  shows "(\<Sum>x\<leftarrow>q. slot_size x) = (\<Sum>n \<in> {n \<in> N. r \<le> n}. msg_size (msgs n))"
proof -
  let ?K = "{k. k < length q \<and> r + k \<in> N}"
  have "(\<Sum>x\<leftarrow>q. slot_size x) = (\<Sum>k = 0..<length q. slot_size (q ! k))"
    by (simp add: sum_list_sum_nth)
  also have "\<dots> = (\<Sum>k = 0..<length q. if r + k \<in> N then msg_size (msgs (r + k)) else 0)"
    using f by (intro sum.cong) (auto simp: rx_filled_def)
  also have "\<dots> = (\<Sum>k \<in> ?K. msg_size (msgs (r + k)))"
    by (simp add: sum.inter_filter [symmetric] Collect_conj_eq [symmetric])
  also have "\<dots> = (\<Sum>n \<in> (+) r ` ?K. msg_size (msgs n))" by (simp add: sum.reindex)
  also have "(+) r ` ?K = {n \<in> N. r \<le> n}"
  proof
    show "{n \<in> N. r \<le> n} \<subseteq> (+) r ` ?K"
    proof
      fix n assume "n \<in> {n \<in> N. r \<le> n}"
      moreover then have "n < r + length q" using f by (auto simp: rx_filled_def)
      ultimately show "n \<in> (+) r ` ?K" by (auto intro!: image_eqI [of _ _ "n - r"])
    qed
  qed auto
  finally show ?thesis .
qed

lemma rx_size:
  assumes "rx_inv t" and "rx_hist msgs N r t"
  shows "rxed_reliable_size t = (\<Sum>n \<in> {n \<in> N. r \<le> n}. msg_size (msgs n)) +
    (\<Sum>m\<leftarrow>rxed_reliable_consumable t. msg_size (rm_msg m))"
  using assms slots_sum [OF rx_hist_filled [OF assms(2)]] by (simp add: rx_inv_def)

lemma rx_filled_finite: "rx_filled msgs N r q \<Longrightarrow> finite N"
  by (rule finite_subset [of _ "{..<r + length q}"]) (auto simp: rx_filled_def)

section \<open>Properties\<close>

text \<open>
  C4. In-order, exactly-once delivery: whatever the order in which numbered messages arrive over the
  links, and however often they are repeated, what the user receives (together with what is ready
  for the user) is extended by the payloads of exactly the messages up to the first one that is
  missing, in the order of their numbers and each once.  The messages beyond it are kept in the
  reorder buffer.  The numbers wrap around at 2 ^ 32; arrivals have to be within a quarter of the
  number space of the messages that are expected.
\<close>

theorem in_order_delivery:
  assumes "rx_run now msgs ops t = Some (Inr (), t')" and "task_ok t" and "rx_hist msgs N r t" and "read_tx t'"
    and "\<forall>k < r'. k \<in> N \<union> arrived ops" and "r' \<notin> N \<union> arrived ops"
    and "\<forall>n \<in> arrived ops. n \<le> r + unat ONE_QUARTER \<and> r' \<le> n + unat ONE_QUARTER"
  shows "rx_hist msgs (N \<union> arrived ops) r' t' \<and>
    user_data t' = user_data t @ payloads (map msgs [r..<r'])"
proof -
  obtain q where q: "rx_hist msgs (N \<union> arrived ops) q t'"
    "user_data t' = user_data t @ payloads (map msgs [r..<q])"
    using rx_run_in_order [OF assms(1-4,6)] assms(7) by (auto simp: ONE_QUARTER_eq)
  have "q = r'"
    using q(1) assms(5,6) unfolding rx_hist_def by (metis linorder_neqE_nat)
  then show ?thesis using q by simp
qed

definition sample_msgs :: "nat \<Rightarrow> reliable_msg" where
  "sample_msgs n = Data [of_nat n]"

definition sample_ops :: "rx_op list" where
  "sample_ops = [Arrive 0 1, Arrive 0 1, Arrive 0 0, Take, Arrive 0 3]"

lemma sample_run: "\<exists>t. rx_run 0 sample_msgs sample_ops busy_task = Some (Inr (), t) \<and> read_tx t"
  by (simp add: sample_ops_def sample_msgs_def handle_received_reliable_msg_def queue_ack_def busy_task_def
      task_new_def store_reliable_def reliable_effect_def forward_received_def consume_received_def
      get_link_def put_link_def idle_remove_def nth_opt_def Let_def seq_of_def less_seq_def seq_cmp_def
      seq_sub_def seq_add_u32_def default_cfg_def ZERO_def u32_cmp_def is_consumable_def assert_that_def
      checked_sub_def USABLE_INTERVAL_def ONE_QUARTER_eq THREE_QUARTERS_eq word_le_nat_alt word_less_nat_alt)

theorem in_order_delivery_witness:
  "\<exists>t. rx_run 0 sample_msgs sample_ops busy_task = Some (Inr (), t) \<and> user_data t = [[0], [1]] \<and>
    rx_hist sample_msgs {0, 1, 3} 2 t"
proof -
  obtain t where t: "rx_run 0 sample_msgs sample_ops busy_task = Some (Inr (), t)" "read_tx t"
    using sample_run by blast
  have h: "rx_hist sample_msgs {} 0 busy_task"
    by (simp add: rx_hist_def busy_task_def task_new_def ZERO_def seq_of_def)
  have out: "user_data busy_task = []" by (simp add: user_data_def busy_task_def task_new_def)
  have arr: "arrived sample_ops = {0, 1, 3}" by (auto simp: sample_ops_def)
  have "\<forall>k < 2. k \<in> {} \<union> arrived sample_ops" by (auto simp: arr less_2_cases_iff)
  from in_order_delivery [OF t(1) busy_task_ok h t(2) this] t(1) show ?thesis
    by (simp add: arr out ONE_QUARTER_eq sample_msgs_def upt_rec)
qed



end
