(* ===== verification/Task_Spec.thy ===== *)
theory Task_Spec
  imports Task_Reach
begin

text \<open>
  The transmit side of the task implements the ledger.

  \<open>led_step\<close> are the transitions of the specification, \<open>tx_step\<close> the operations of the code that
  the main loop composes.  \<open>reliable_sender\<close> is the contract between them; its interpretation on
  the task gives that every run of operations is a run of the specification, and what follows from
  that for the packets.
\<close>

section \<open>The transitions of the ledger\<close>

inductive led_step :: "ledger \<Rightarrow> ledger \<Rightarrow> bool" where
  ls_send: "g_link g i \<noteq> None \<Longrightarrow> led_step g (led_send i m g)"
| ls_resend: "g_link g i = Some (lid, u) \<Longrightarrow> g_rq g = p # ps \<Longrightarrow> g_pkts g ! p = PQueued m lid' \<Longrightarrow>
    lid \<noteq> lid' \<Longrightarrow> led_step g (led_resend i g)"
| ls_receive: "p \<in> set (g_txed g) \<Longrightarrow> led_step g (led_receive p g)"
| ls_swipe: "led_step g (led_swipe g)"
| ls_requeue: "distinct rq \<Longrightarrow>
    set rq = set (g_rq g) \<union> {p \<in> set (g_txed g). sent_on i (g_pkts g ! p)} \<Longrightarrow>
    led_step g (led_requeue i rq g)"
| ls_add: "g_link g i = None \<Longrightarrow> led_step g (led_add i lid g)"
| ls_remove: "(\<And>p. p \<in> set (g_txed g) \<Longrightarrow> \<not> sent_on i (g_pkts g ! p)) \<Longrightarrow> led_step g (led_remove i g)"

lemma led_step_inv:
  assumes "led_step g g'" and inv: "ledger_inv g"
  shows "ledger_inv g'"
  using assms(1)
proof cases
  case (ls_send i m)
  then show ?thesis using led_send_inv [OF inv] by auto
next
  case (ls_resend i lid u p ps m lid')
  then show ?thesis using led_resend_inv [OF inv] by auto
next
  case (ls_receive p)
  then show ?thesis using led_receive_inv [OF inv] by auto
qed (use led_swipe_inv [OF inv] led_requeue_inv [OF inv] led_add_inv [OF inv] led_remove_inv [OF inv] in auto)

text \<open>What a transition does to the packets: none is lost and none is renumbered.\<close>

definition ledger_grows :: "ledger \<Rightarrow> ledger \<Rightarrow> bool" where
  "ledger_grows g g' \<longleftrightarrow> evolves (g_pkts g) (g_pkts g') \<and> (\<exists>ss. g_seqs g' = g_seqs g @ ss)"

lemma led_step_grows:
  assumes "led_step g g'" and inv: "ledger_inv g"
  shows "ledger_grows g g'"
  using assms(1)
proof cases
  case (ls_resend i lid u p ps m lid')
  then have "p \<in> set (g_txed g)" using ledger_invD(3) [OF inv, of p] by simp
  then have "p < length (g_pkts g)" by (rule ledger_invD(2) [OF inv])
  from led_resend_evolves [OF this ls_resend(3), of i] ls_resend show ?thesis
    by (simp add: ledger_grows_def) (simp add: led_resend_def led_link_def)
next
  case (ls_send i m)
  then show ?thesis
    using led_send_evolves [of g i m] by (auto simp: ledger_grows_def led_send_def led_link_def)
next
  case (ls_receive p)
  then show ?thesis
    using led_receive_evolves [of g p] by (auto simp: ledger_grows_def led_receive_def led_link_def split: pkt.split)
next
  case (ls_requeue rq i)
  then show ?thesis
    using led_requeue_evolves [of g i rq] by (auto simp: ledger_grows_def led_requeue_def led_link_def)
qed (auto simp: ledger_grows_def led_swipe_def led_add_def led_remove_def Let_def)

lemma ledger_grows_trans: "ledger_grows a b \<Longrightarrow> ledger_grows b c \<Longrightarrow> ledger_grows a c"
  unfolding ledger_grows_def by (metis append.assoc evolves_trans)

lemma ledger_grows_refl [simp, intro]: "ledger_grows g g"
  by (simp add: ledger_grows_def)

lemma led_run_inv: "led_step\<^sup>*\<^sup>* g g' \<Longrightarrow> ledger_inv g \<Longrightarrow> ledger_inv g'"
  by (induction rule: rtranclp_induct) (blast intro: led_step_inv)+

lemma led_run_grows: "led_step\<^sup>*\<^sup>* g g' \<Longrightarrow> ledger_inv g \<Longrightarrow> ledger_grows g g'"
  by (induction rule: rtranclp_induct) (blast intro: led_step_grows led_run_inv ledger_grows_trans)+

section \<open>The contract of a reliable sender\<close>

locale reliable_sender =
  fixes abs :: "'s \<Rightarrow> ledger" and inv :: "'s \<Rightarrow> bool" and step :: "'s \<Rightarrow> 's \<Rightarrow> bool"
  assumes inv_ledger: "inv s \<Longrightarrow> ledger_inv (abs s)"
    and step_inv: "inv s \<Longrightarrow> step s s' \<Longrightarrow> inv s'"
    and step_refines: "inv s \<Longrightarrow> step s s' \<Longrightarrow> led_step\<^sup>*\<^sup>* (abs s) (abs s')"
begin

lemma run_keeps_inv: "step\<^sup>*\<^sup>* s s' \<Longrightarrow> inv s \<Longrightarrow> inv s'"
  by (induction rule: rtranclp_induct) (blast intro: step_inv)+

lemma run_refines: "step\<^sup>*\<^sup>* s s' \<Longrightarrow> inv s \<Longrightarrow> led_step\<^sup>*\<^sup>* (abs s) (abs s')"
  by (induction rule: rtranclp_induct)
    (auto intro: rtranclp_trans [of led_step] step_refines run_keeps_inv)

lemma run_grows: "step\<^sup>*\<^sup>* s s' \<Longrightarrow> inv s \<Longrightarrow> ledger_grows (abs s) (abs s')"
  using run_refines led_run_grows inv_ledger by blast

end

section \<open>The operations of the task\<close>

text \<open>
  Each operation with the condition under which the main loop calls it.  \<open>tx_resend\<close> takes the first
  packet of the resend queue, and sends it over another link than before.
\<close>

inductive tx_step :: "'tx sink \<Rightarrow> ('tx, 'wr) task \<Rightarrow> ('tx, 'wr) task \<Rightarrow> bool" for S :: "'tx sink" where
  tx_send: "get_link t i = Some l \<Longrightarrow> tx_idle l \<Longrightarrow> i \<notin> set (idle_links t) \<Longrightarrow>
    send_reliable_over_link S now i m t = Some (s, t') \<Longrightarrow> tx_step S t t'"
| tx_resend: "get_link t i = Some l \<Longrightarrow> tx_idle l \<Longrightarrow> i \<notin> set (idle_links t) \<Longrightarrow> resend_queue t = p # ps \<Longrightarrow>
    front_link t \<noteq> Some (lk_link_id l) \<Longrightarrow>
    resend_reliable_over_link S now i p (t\<lparr>resend_queue := ps\<rparr>) = Some t' \<Longrightarrow> tx_step S t t'"
| tx_ack: "length (t_txed_packets t) \<le> 2 ^ 32 \<Longrightarrow> handle_ack now i s t = Some t' \<Longrightarrow> tx_step S t t'"
| tx_flush: "flush_link now i t = Some t' \<Longrightarrow> tx_step S t t'"
| tx_unconfirm: "unconfirm_link now i reason t = Some t' \<Longrightarrow> tx_step S t t'"
| tx_add: "fresh_link l \<Longrightarrow> tx_step S t (snd (add_link now l t))"
| tx_remove: "remove_link now i why t = Some t' \<Longrightarrow> tx_step S t t'"

text \<open>The queue an operation of the code leaves behind determines the transition.\<close>

lemma requeue_step:
  assumes inv: "ledger_inv g" and "ledger_inv g'" and "g_rq g' = rq" "g_txed g' = g_txed g"
    and pk: "g_pkts g' = requeue_all i (g_txed g) (g_pkts g)"
  shows "led_step g (led_requeue i rq g)"
proof (rule ls_requeue)
  show "distinct rq" using assms(2,3) by (simp add: ledger_inv_def)
  have "is_queued (g_pkts g' ! p) \<longleftrightarrow> is_queued (g_pkts g ! p) \<or> sent_on i (g_pkts g ! p)"
    if "p \<in> set (g_txed g)" for p
    using ledger_invD(2) [OF inv that] that by (simp add: pk nth_requeue_all)
  moreover have "set (g_rq g) = {p \<in> set (g_txed g). is_queued (g_pkts g ! p)}"
    "set rq = {p \<in> set (g_txed g). is_queued (g_pkts g' ! p)}"
    using inv assms(2-4) by (simp_all add: ledger_inv_def)
  ultimately show "set rq = set (g_rq g) \<union> {p \<in> set (g_txed g). sent_on i (g_pkts g ! p)}" by auto
qed

lemma led_requeue_fields [simp]:
  "g_rq (led_requeue i rq g) = rq" "g_txed (led_requeue i rq g) = g_txed g"
  "g_pkts (led_requeue i rq g) = requeue_all i (g_txed g) (g_pkts g)"
  by (simp_all add: led_requeue_def led_link_def)

lemma led_remove_fields [simp]:
  "g_rq (led_remove i g) = g_rq g" "g_txed (led_remove i g) = g_txed g" "g_pkts (led_remove i g) = g_pkts g"
  by (simp_all add: led_remove_def)

lemma led_ack_steps:
  assumes "\<And>p. po = Some p \<Longrightarrow> p \<in> set (g_txed g)"
  shows "led_step\<^sup>*\<^sup>* g (led_ack i po g)"
proof -
  have "led_step\<^sup>*\<^sup>* g (case po of Some p \<Rightarrow> if ack_counts i (g_pkts g ! p) then led_receive p g else g | None \<Rightarrow> g)"
    using assms by (auto split: option.split intro: ls_receive)
  then show ?thesis unfolding led_ack_def by (rule rtranclp.rtrancl_into_rtrancl) (rule ls_swipe)
qed

lemma tx_step_refines:
  assumes inv: "tx_inv t" and "tx_step S t t'"
  shows "tx_inv t' \<and> led_step\<^sup>*\<^sup>* (ledger_of t) (ledger_of t')"
  using assms(2)
proof cases
  case (tx_send i l now m s)
  then have "ledger_of t' = led_send i m (ledger_of t)" "tx_inv t'"
    using send_reliable_over_link_ok [OF inv tx_send(1-3), of S now m] by (auto simp: tx_moves_def)
  then show ?thesis using ls_send [of "ledger_of t" i m] tx_send(1) by auto
next
  case (tx_resend i l p ps now)
  obtain m lid where q: "pkts (t_store t) ! p = PQueued m lid" "front_link t = Some lid"
    using front_queued [OF inv tx_resend(4)] by blast
  have ne: "lk_link_id l \<noteq> lid" using tx_resend(5) q(2) by auto
  then have "ledger_of t' = led_resend i (ledger_of t)" "tx_inv t'"
    using resend_reliable_over_link_ok [OF inv tx_resend(1-4) q(1) ne, of S now] tx_resend(6)
    by (auto simp: tx_moves_def)
  moreover have "led_step (ledger_of t) (led_resend i (ledger_of t))"
    by (rule ls_resend) (use tx_resend q ne in auto)
  ultimately show ?thesis by auto
next
  case (tx_ack now i s)
  obtain l where l: "get_link t i = Some l" using tx_ack(2) by (auto simp: handle_ack_def bind_Some_iff)
  have "ledger_of t' = led_ack i (acked_pid t s) (ledger_of t)" "tx_inv t'"
    using handle_ack_ok [OF inv l tx_ack(1), of now s] tx_ack(2) by (auto simp: tx_acks_def)
  then show ?thesis using led_ack_steps [of "acked_pid t s" "ledger_of t" i] acked_pid_ok(1) [OF inv] by auto
next
  case (tx_flush now i)
  obtain l where l: "get_link t i = Some l" using tx_flush by (auto simp: flush_link_def bind_Some_iff)
  show ?thesis using flush_link_ok [OF inv l, of now] tx_flush by (auto simp: tx_moves_def)
next
  case (tx_unconfirm now i reason)
  obtain l where l: "get_link t i = Some l"
    using tx_unconfirm by (auto simp: unconfirm_link_def flush_link_def bind_Some_iff)
  have led: "ledger_of t' = led_requeue i (resend_queue t') (ledger_of t)" and inv': "tx_inv t'"
    using unconfirm_link_ok [OF inv l, of now reason] tx_unconfirm by (auto simp: tx_moves_def)
  have "led_step (ledger_of t) (led_requeue i (resend_queue t') (ledger_of t))"
    by (rule requeue_step [of _ "ledger_of t'"]) (use inv inv' led in \<open>simp_all add: tx_inv_def\<close>)
  then show ?thesis using led inv' by simp
next
  case (tx_add l now)
  have "get_link t (first_free (t_links t)) = None" by (simp add: get_link_at links_at_first_free)
  then have "led_step (ledger_of t) (led_add (first_free (t_links t)) (lk_link_id l) (ledger_of t))"
    by (intro ls_add) simp
  then show ?thesis using tx_add add_link_ok [OF inv tx_add(2), of now] by (auto simp: tx_moves_def)
next
  case (tx_remove now i why)
  obtain l where l: "get_link t i = Some l"
    using tx_remove by (auto simp: remove_link_def unconfirm_link_def flush_link_def bind_Some_iff)
  obtain rq where led: "ledger_of t' = led_remove i (led_requeue i rq (ledger_of t))" and inv': "tx_inv t'"
    using remove_link_ok [OF inv l, of now why] tx_remove by (auto simp: tx_moves_def)
  have ledi: "ledger_inv (ledger_of t)" "ledger_inv (ledger_of t')" using inv inv' by (simp_all add: tx_inv_def)
  have "led_step (ledger_of t) (led_requeue i rq (ledger_of t))"
    by (rule requeue_step [OF ledi]) (simp_all only: led led_remove_fields led_requeue_fields)
  moreover have "led_step (led_requeue i rq (ledger_of t)) (led_remove i (led_requeue i rq (ledger_of t)))"
    by (rule ls_remove) (rule led_requeue_none_sent [OF ledi(1)])
  ultimately show ?thesis using led inv' by (metis (no_types) converse_rtranclp_into_rtranclp r_into_rtranclp)
qed

interpretation rs: reliable_sender ledger_of tx_inv "tx_step S" for S
  by unfold_locales (use tx_step_refines in \<open>auto simp: tx_inv_def\<close>)

section \<open>Facts about single operations\<close>

lemma tx_inv_window:
  assumes "tx_inv t"
  obtains lo where "lo \<le> length (t_store t)" "t_txed_packets t = [lo..<length (t_store t)]"
    "tx_seq t = seq_of (length (t_store t))" "\<And>p. p < length (t_store t) \<Longrightarrow> sr_seq (t_store t ! p) = seq_of p"
proof -
  have g: "ledger_inv (ledger_of t)" using assms by (simp add: tx_inv_def)
  obtain lo where "lo \<le> length (t_store t)" "t_txed_packets t = [lo..<length (t_store t)]"
    using g by (auto simp: ledger_inv_def)
  moreover have "tx_seq t = seq_of (length (t_store t))" using g by (simp add: ledger_inv_def)
  moreover have "sr_seq (t_store t ! p) = seq_of p" if "p < length (t_store t)" for p
  proof -
    have "seqs (t_store t) ! p = map seq_of [0..<length (t_store t)] ! p"
      using g by (simp only: ledger_inv_def ledger_of_sel length_pkts)
    then show ?thesis using that by simp
  qed
  ultimately show thesis using that by blast
qed

lemma acked_pid_self:
  assumes inv: "tx_inv t" and p: "p \<in> set (t_txed_packets t)" and win: "length (t_txed_packets t) < 2 ^ 31"
  shows "acked_pid t (seq_of p) = Some p"
proof -
  obtain lo where lo: "lo \<le> length (t_store t)" "t_txed_packets t = [lo..<length (t_store t)]"
    "tx_seq t = seq_of (length (t_store t))" by (rule tx_inv_window [OF inv])
  let ?k = "length (t_store t) - p"
  have k: "0 < ?k" "?k \<le> length (t_txed_packets t)" "p + ?k = length (t_store t)" using lo p by auto
  have "?k < 2 ^ 31" using k(2) win by (rule order.strict_trans1)
  then have "seq_sub (seq_add_u32 (seq_of p) (of_nat ?k)) (seq_of p) = int ?k" by (rule seq_sub_of_nat)
  then have "seq_sub (tx_seq t) (seq_of p) = int ?k" using lo(3) k(3) seq_of_offset [of p ?k] by simp
  moreover have "nat (int (length (t_store t)) - int p) = ?k" using k by simp
  ultimately show ?thesis using k by (simp add: acked_pid_def Let_def)
qed

text \<open>Inside a window of a quarter of the number space, sorting by number is sorting by age.\<close>

lemma insort_seq_sorted:
  assumes "\<And>q. q \<in> set (p # qs) \<Longrightarrow> sr_seq (st ! q) = seq_of q \<and> lo \<le> q \<and> q \<le> lo + 0x3FFFFFFF"
    and "sorted qs"
  shows "sorted (insort_seq st p qs)"
  using assms
proof (induction qs)
  case (Cons q qs)
  have pq: "sr_seq (st ! p) \<le> sr_seq (st ! q) \<longleftrightarrow> p \<le> q"
    using Cons.prems(1) [of p] Cons.prems(1) [of q] sq.lt_num [of q p] by (auto simp flip: seq_not_less)
  show ?case
  proof (cases "p \<le> q")
    case True
    then show ?thesis using Cons.prems(2) pq by auto
  next
    case False
    have "set (insort_seq st p qs) = insert p (set qs)"
      by (metis mset_insort_seq set_mset_mset set_mset_add_mset_insert)
    then show ?thesis using Cons False pq by auto
  qed
qed simp

lemma sort_by_seq_sorted:
  assumes "\<And>q. q \<in> set ps \<Longrightarrow> sr_seq (st ! q) = seq_of q \<and> lo \<le> q \<and> q \<le> lo + 0x3FFFFFFF"
  shows "sorted (sort_by_seq st ps)"
  using assms
proof (induction ps)
  case (Cons p ps)
  show ?case
    unfolding sort_by_seq.simps
    by (rule insort_seq_sorted [where lo = lo]) (use Cons in auto)
qed simp

section \<open>Properties\<close>

text \<open>
  C5. Refinement: every sequence of transmit operations of the task (sending, resending,
  acknowledging, flushing, unconfirming, adding and removing links) is a run of the ledger
  specification, in which a packet is sent, queued, sent again over another link and received, and
  the counters are those of the specification.
\<close>

theorem transmission_refines_ledger:
  assumes "(tx_step S)\<^sup>*\<^sup>* t t'" and "tx_inv t"
  shows "led_step\<^sup>*\<^sup>* (ledger_of t) (ledger_of t') \<and> ledger_inv (ledger_of t') \<and>
    (\<exists>ss. g_seqs (ledger_of t') = g_seqs (ledger_of t) @ ss)"
  using rs.run_refines [OF assms] rs.run_keeps_inv [OF assms] rs.run_grows [OF assms]
  by (simp add: tx_inv_def ledger_grows_def)

lemma busy_tx_inv: "tx_inv busy_task"
  using busy_task_ok by (simp add: task_ok_def)

lemma busy_link: "get_link busy_task 0 = Some ((sample_link (LinkId 7))\<lparr>txed_unacked_data := 2\<rparr>)"
  by (simp add: busy_task_def get_link_Some)

lemma busy_ack: "\<exists>t. handle_ack 5 0 ZERO busy_task = Some t"
  using handle_ack_ok [OF busy_tx_inv busy_link, of 5 ZERO] by (auto simp: busy_task_def)

theorem transmission_refines_ledger_witness:
  "\<exists>t. handle_ack 5 0 ZERO busy_task = Some t \<and> led_step\<^sup>*\<^sup>* (ledger_of busy_task) (ledger_of t)"
proof -
  obtain t where t: "handle_ack 5 0 ZERO busy_task = Some t" using busy_ack by blast
  have "(tx_step buffer_sink)\<^sup>*\<^sup>* busy_task t"
    by (intro r_into_rtranclp tx_ack [OF _ t]) (simp add: busy_task_def)
  from transmission_refines_ledger [OF this busy_tx_inv] t show ?thesis by blast
qed

text \<open>
  C21. An acknowledgement concerns exactly the packet it names.  The packet counts as received if it
  was sent over the link that the acknowledgement came from, or waits to be sent again; then its
  size leaves the count of unacknowledged data.  An acknowledgement that is repeated or that comes
  over another link changes no packet.  The task lets go of the packets at the front of the queue
  that are received, and only of those.
\<close>

theorem ack_exactly_one:
  assumes inv: "tx_inv t" and l: "get_link t i = Some l"
    and p: "p \<in> set (t_txed_packets t)" and win: "length (t_txed_packets t) < 2 ^ 31"
  shows "\<exists>t'. handle_ack now i (seq_of p) t = Some t' \<and>
    (if ack_counts i (pkts (t_store t) ! p)
     then is_received (pkts (t_store t') ! p) \<and>
       t_txed_unacked t = t_txed_unacked t' + unacked_sz (pkts (t_store t) ! p) \<and>
       (\<forall>q. q \<noteq> p \<longrightarrow> pkts (t_store t') ! q = pkts (t_store t) ! q)
     else pkts (t_store t') = pkts (t_store t) \<and> t_txed_unacked t' = t_txed_unacked t) \<and>
    t_txed_packets t' = dropWhile (\<lambda>q. is_received (pkts (t_store t') ! q)) (t_txed_packets t)"
proof -
  have w: "length (t_txed_packets t) \<le> 2 ^ 32" using win by simp
  obtain t' where t': "handle_ack now i (seq_of p) t = Some t'"
    "ledger_of t' = led_ack i (Some p) (ledger_of t)"
    using handle_ack_ok [OF inv l w, of now "seq_of p"] acked_pid_self [OF inv p win] by auto
  have len: "p < length (t_store t)" using tx_inv_packet [OF inv p] .
  have led: "ledger_inv (ledger_of t)" using inv by (simp add: tx_inv_def)
  note eqs = arg_cong [OF t'(2), of g_pkts] arg_cong [OF t'(2), of g_txed] arg_cong [OF t'(2), of g_unacked]
  show ?thesis
  proof (cases "pkts (t_store t) ! p")
    case (PSent j lid m)
    have "msg_size m \<le> t_txed_unacked t" using ledger_sent_le(2) [OF led, of p j lid m] p PSent by simp
    then show ?thesis
      using t'(1) PSent len eqs by (auto simp: led_ack_def led_swipe_def led_receive_def led_link_def Let_def)
  next
    case (PQueued m lid)
    have "msg_size m \<le> t_txed_unacked t" using ledger_queued_le [OF led, of p m lid] p PQueued by simp
    then show ?thesis
      using t'(1) PQueued len eqs by (auto simp: led_ack_def led_swipe_def led_receive_def Let_def)
  next
    case (PReceived n)
    then show ?thesis using t'(1) len eqs by (auto simp: led_ack_def led_swipe_def Let_def)
  qed
qed

theorem ack_exactly_one_witness:
  "\<exists>t. handle_ack 5 0 (seq_of 0) busy_task = Some t \<and> is_received (pkts (t_store t) ! 0) \<and>
    t_txed_unacked t = 0 \<and> t_txed_packets t = []"
proof -
  have "0 \<in> set (t_txed_packets busy_task)" "length (t_txed_packets busy_task) < 2 ^ 31"
    "ack_counts 0 (pkts (t_store busy_task) ! 0)" "t_txed_unacked busy_task = 2"
    "unacked_sz (pkts (t_store busy_task) ! 0) = 2" "t_txed_packets busy_task = [0]"
    by (simp_all add: busy_task_def pkts_def)
  then show ?thesis using ack_exactly_one [OF busy_tx_inv busy_link, of 0 5] by auto
qed

text \<open>
  When a link is given up, every packet that was in flight over it is queued for resending, in
  addition to those already queued, and the queue is ordered by age: the oldest packet is sent
  first.  This needs that at most a quarter of the number space is in flight, because the sort uses
  the wrapping comparison.
\<close>

theorem resend_oldest_first:
  assumes inv: "tx_inv t" and u: "unconfirm_link now i reason t = Some t'"
    and win: "length (t_txed_packets t) \<le> unat ONE_QUARTER"
  shows "sorted (resend_queue t') \<and> distinct (resend_queue t') \<and>
    set (resend_queue t') =
      {p \<in> set (t_txed_packets t). is_queued (pkts (t_store t) ! p) \<or> sent_on i (pkts (t_store t) ! p)}"
proof -
  obtain l where l: "get_link t i = Some l"
    using u by (auto simp: unconfirm_link_def flush_link_def bind_Some_iff)
  let ?ps = "resend_queue t @ filter (\<lambda>p. sent_on i (pkts (t_store t) ! p)) (t_txed_packets t)"
  have t': "tx_inv t'" "ledger_of t' = led_requeue i (resend_queue t') (ledger_of t)"
    "resend_queue t' = sort_by_seq (t_store t') ?ps"
    using unconfirm_link_ok [OF inv l, of now reason] u by (auto simp: tx_moves_def)
  have led: "ledger_inv (ledger_of t)" "ledger_inv (ledger_of t')" using inv t'(1) by (simp_all add: tx_inv_def)
  have rq: "set (resend_queue t) = {p \<in> set (t_txed_packets t). is_queued (pkts (t_store t) ! p)}"
    using led(1) by (simp add: ledger_inv_def)
  have "g_pkts (ledger_of t') = requeue_all i (g_txed (ledger_of t)) (g_pkts (ledger_of t))"
    by (simp only: t'(2) led_requeue_fields)
  then have len: "length (t_store t') = length (t_store t)" by (metis ledger_of_sel(3) length_pkts length_requeue_all)
  obtain lo where lo: "lo \<le> length (t_store t)" "t_txed_packets t = [lo..<length (t_store t)]"
    by (rule tx_inv_window [OF inv])
  have seq: "sr_seq (t_store t' ! p) = seq_of p" if "p < length (t_store t')" for p
    by (rule tx_inv_window [OF t'(1)]) (use that in blast)
  have "sorted (resend_queue t')"
    unfolding t'(3)
  proof (rule sort_by_seq_sorted [where lo = lo])
    fix q assume "q \<in> set ?ps"
    then have "q \<in> set (t_txed_packets t)" using rq by auto
    then show "sr_seq (t_store t' ! q) = seq_of q \<and> lo \<le> q \<and> q \<le> lo + 0x3FFFFFFF"
      using lo win seq [of q] len by (auto simp: ONE_QUARTER_eq)
  qed
  moreover have "distinct (resend_queue t')" using led(2) by (simp add: ledger_inv_def)
  moreover have "set (resend_queue t') = set ?ps" unfolding t'(3) by simp
  ultimately show ?thesis using rq by auto
qed

theorem resend_oldest_first_witness:
  "\<exists>t. unconfirm_link 5 0 AckTimeout busy_task = Some t \<and> resend_queue t = [0]"
proof -
  obtain t where t: "unconfirm_link 5 0 AckTimeout busy_task = Some t"
    using unconfirm_link_ok [OF busy_tx_inv busy_link, of 5 AckTimeout] by blast
  have "length (t_txed_packets busy_task) \<le> unat ONE_QUARTER" by (simp add: busy_task_def ONE_QUARTER_eq)
  note r = resend_oldest_first [OF busy_tx_inv t this]
  have "t_txed_packets busy_task = [0]" "sent_on 0 (pkts (t_store busy_task) ! 0)"
    by (simp_all add: busy_task_def pkts_def)
  then have "set (resend_queue t) = {0}" using r by auto
  then have "resend_queue t = [0]" using r by (cases "resend_queue t") (auto simp: subset_singleton_iff)
  then show ?thesis using t by blast
qed



text \<open>
  C23. Flow control: data that fits into the transmit space computed for the task keeps both bounds
  when it is sent.  Unacknowledged data stays within the own send buffer, and data that the remote
  endpoint has not consumed stays within the receive buffer it announced.
\<close>

theorem send_within_buffers:
  assumes inv: "tx_inv t" and l: "get_link t i = Some l" "tx_idle l" "i \<notin> set (idle_links t)"
    and d: "d \<noteq> []" "length d \<le> tx_space t"
  shows "\<exists>t' b. send_reliable_over_link S now i (Data d) t = Some (tx_seq t, t') \<and>
    t_txed_unacked t' \<le> unat (send_buffer (t_cfg t)) \<and>
    remote_recv_buffer t = Some b \<and> txed_unconsumed t' \<le> b"
proof -
  obtain t' where t': "send_reliable_over_link S now i (Data d) t = Some (tx_seq t, t')"
    "ledger_of t' = led_send i (Data d) (ledger_of t)" "txed_unconsumed t' = txed_unconsumed t + msg_size (Data d)"
    using send_reliable_over_link_ok [OF inv l, of S now "Data d"] by blast
  have un: "t_txed_unacked t' = t_txed_unacked t + length d"
    using arg_cong [OF t'(2), of g_unacked] l(1) by (simp add: led_send_def led_link_def)
  have space: "0 < length d" using d(1) by simp
  then obtain b where "remote_recv_buffer t = Some b"
    using d(2) by (cases "remote_recv_buffer t") (auto simp: tx_space_def)
  moreover from this have "length d \<le> unat (send_buffer (t_cfg t)) - t_txed_unacked t"
    "length d \<le> b - txed_unconsumed t"
    using d(2) by (simp_all add: tx_space_def)
  then have "length d + txed_unconsumed t \<le> b" "length d + t_txed_unacked t \<le> unat (send_buffer (t_cfg t))"
    using space by linarith+
  ultimately show ?thesis using t' un by auto
qed

theorem send_within_buffers_witness:
  "\<exists>t b. send_reliable_over_link buffer_sink 5 0 (Data [9]) (busy_task\<lparr>idle_links := []\<rparr>) = Some (seq_of 1, t) \<and>
    remote_recv_buffer (busy_task\<lparr>idle_links := []\<rparr>) = Some b \<and> txed_unconsumed t \<le> b"
proof -
  let ?t = "busy_task\<lparr>idle_links := []\<rparr>"
  have "idle_remove 0 busy_task = ?t" by (simp add: idle_remove_def busy_task_def)
  then have "tx_inv ?t" using task_moves_ok [OF idle_remove_moves [OF busy_task_ok]] by (metis task_ok_def)
  moreover have "get_link ?t 0 = Some ((sample_link (LinkId 7))\<lparr>txed_unacked_data := 2\<rparr>)"
    by (simp add: busy_task_def get_link_Some)
  moreover have "tx_idle ((sample_link (LinkId 7))\<lparr>txed_unacked_data := 2\<rparr>)"
    by (simp add: tx_idle_def sample_link_def link_new_def)
  moreover have "length [9 :: u8] \<le> tx_space ?t"
    by (simp add: tx_space_def busy_task_def task_new_def remote_recv_buffer_def default_cfg_def)
  ultimately have "\<exists>t b. send_reliable_over_link buffer_sink 5 0 (Data [9]) ?t = Some (tx_seq ?t, t) \<and>
      t_txed_unacked t \<le> unat (send_buffer (t_cfg ?t)) \<and> remote_recv_buffer ?t = Some b \<and> txed_unconsumed t \<le> b"
    by (intro send_within_buffers) simp_all
  then show ?thesis by (auto simp: busy_task_def)
qed

definition sendable_at :: "('tx, 'wr) task \<Rightarrow> nat \<Rightarrow> bool" where
  "sendable_at t i \<longleftrightarrow> (case get_link t i of Some l \<Rightarrow> is_sendable l | None \<Rightarrow> False)"

definition resendable_at :: "('tx, 'wr) task \<Rightarrow> link_id option \<Rightarrow> nat \<Rightarrow> bool" where
  "resendable_at t nr i \<longleftrightarrow>
     sendable_at t i \<and> (case get_link t i of Some l \<Rightarrow> nr \<noteq> Some (lk_link_id l) | None \<Rightarrow> False)"

lemma choose_idle_find:
  assumes "\<forall>i \<in> set is. get_link t i \<noteq> None" and "nr = None \<Longrightarrow> rs = None \<Longrightarrow> se = None"
  shows "choose_idle t nr is se rs =
    Some (case se of Some i \<Rightarrow> Some i | None \<Rightarrow> List.find (sendable_at t) is,
          case rs of Some i \<Rightarrow> Some i | None \<Rightarrow> List.find (resendable_at t nr) is)"
  using assms
proof (induction "is" arbitrary: se rs)
  case (Cons i "is")
  obtain l where l: "get_link t i = Some l" using Cons.prems(1) by auto
  show ?case
  proof (cases "se \<noteq> None \<and> (rs \<noteq> None \<or> nr = None)")
    case True
    then obtain a b where "se = Some a" "rs = Some b" using Cons.prems(2) by auto
    then show ?thesis by simp
  next
    case False
    let ?se = "if se = None then Some i else se"
    let ?rs = "if rs = None \<and> nr \<noteq> Some (lk_link_id l) then Some i else rs"
    have a: "choose_idle t nr is ?se ?rs =
        Some (case ?se of Some i \<Rightarrow> Some i | None \<Rightarrow> List.find (sendable_at t) is,
          case ?rs of Some i \<Rightarrow> Some i | None \<Rightarrow> List.find (resendable_at t nr) is)"
      by (rule Cons.IH) (use Cons.prems in \<open>auto split: if_splits\<close>)
    have b: "choose_idle t nr is se rs =
        Some (case se of Some i \<Rightarrow> Some i | None \<Rightarrow> List.find (sendable_at t) is,
          case rs of Some i \<Rightarrow> Some i | None \<Rightarrow> List.find (resendable_at t nr) is)"
      by (rule Cons.IH) (use Cons.prems in auto)
    show ?thesis
      using False l a b by (auto simp: sendable_at_def resendable_at_def split: option.split)
  qed
qed (auto split: option.split)

text \<open>
  C24. The loop over the idle links is equivalent to two searches, last idle first: the link for new
  data is the first that can send, the link for resending the first that can send and is not the one
  over which the packet was sent before.
\<close>

theorem choose_idle_last_first:
  assumes "tx_inv t"
  shows "choose_idle t nr (rev (idle_links t)) None None =
    Some (List.find (sendable_at t) (rev (idle_links t)), List.find (resendable_at t nr) (rev (idle_links t)))"
  using choose_idle_find [of "rev (idle_links t)" t nr None None] tx_inv_idle [OF assms] by force

theorem choose_idle_last_first_witness:
  "choose_idle busy_task (Some (LinkId 7)) (rev (idle_links busy_task)) None None = Some (Some 0, None)"
  using choose_idle_last_first [OF busy_tx_inv, of "Some (LinkId 7)"]
  by (simp add: busy_task_def sendable_at_def resendable_at_def get_link_def sample_link_def link_new_def
      is_sendable_def is_blocked_def lcfg_def default_cfg_def default_link_cfg_def nth_opt_def)

end
