(* ===== verification/Task_Pair.thy ===== *)
theory Task_Pair
  imports Task_Delivery Task_Spec
begin

text \<open>
  Two endpoints of a connection, each running the main loop of its task.

  The links between them are not trusted: a numbered message that one endpoint has sent may reach
  the other late, repeatedly, out of order, over any link or never, and so may an acknowledgement.
  What links may not do is to invent numbered messages or acknowledgements (the integrity codec and
  the transports see to that), and to deliver them when the number space has moved on by more than
  a quarter.  The histories record what each endpoint has numbered and what it has received.
\<close>

section \<open>Endpoints and their histories\<close>

record hist =
  h_sent :: "reliable_msg list"
  h_heard :: "nat set"

fun running :: "('tx, 'wr) phase \<Rightarrow> ('tx, 'wr) task option" where
  "running (Top t) = Some t"
| "running (Waiting w t) = Some t"
| "running _ = None"

text \<open>The messages that a step numbered are those of the new packets; \<open>ns\<close> are the numbers it received.\<close>

definition record_step :: "('tx, 'wr) phase \<Rightarrow> nat set \<Rightarrow> hist \<Rightarrow> hist" where
  "record_step p ns h =
     (case running p of
        Some t \<Rightarrow> h\<lparr>h_sent := h_sent h @ map (\<lambda>p. the (carries p)) (drop (length (h_sent h)) (pkts (t_store t))),
                    h_heard := h_heard h \<union> ns\<rparr>
      | None \<Rightarrow> h)"

text \<open>
  What an endpoint with history \<open>h\<close> may hear from one with history \<open>hr\<close>: any message that is neither
  numbered nor an acknowledgement, a message that was numbered, an acknowledgement of a message that
  was received.
\<close>

inductive hears :: "hist \<Rightarrow> hist \<Rightarrow> link_msg \<Rightarrow> bytes option \<Rightarrow> nat set \<Rightarrow> bool" for h hr where
  hear_plain: "plain_msg msg \<Longrightarrow> hears h hr msg d {}"
| hear_numbered: "n < length (h_sent hr) \<Longrightarrow> k \<le> n + unat ONE_QUARTER \<Longrightarrow> k \<notin> h_heard h \<Longrightarrow>
    to_link_msg (h_sent hr ! n) (seq_of n) = (msg, d) \<Longrightarrow> hears h hr msg d {n}"
| hear_ack: "n \<in> h_heard hr \<Longrightarrow> length (h_sent h) \<le> n + unat ONE_QUARTER \<Longrightarrow> hears h hr (Ack (seq_of n)) None {}"

fun is_rx :: "'tx task_event \<Rightarrow> bool" where
  "is_rx (LinkEvent _ (Rx _ _)) = True"
| "is_rx _ = False"

text \<open>The steps of the main loop at which nothing is received.\<close>

inductive deaf_step :: "'tx sink \<Rightarrow> 'wr write_ops \<Rightarrow> ('tx, 'wr) phase \<Rightarrow> ('tx, 'wr) phase \<Rightarrow> bool"
  for S :: "'tx sink" and M :: "'wr write_ops" where
  ds_top: "deaf_step S M (Top t) (after_top (loop_top S M now t))"
| ds_event: "task_emits S M now w t ev t' \<Longrightarrow> \<not> is_rx ev \<Longrightarrow>
    deaf_step S M (Waiting w t) (after_event (handle_event S M now w ev t'))"
| ds_poll: "task_step S M (Waiting w t) (Waiting w' t') \<Longrightarrow> deaf_step S M (Waiting w t) (Waiting w' t')"

text \<open>At most a quarter of the number space is in flight.\<close>

definition calm :: "('tx, 'wr) phase \<Rightarrow> bool" where
  "calm p \<longleftrightarrow> (\<forall>t. running p = Some t \<longrightarrow> length (t_txed_packets t) \<le> unat ONE_QUARTER)"

inductive ep_step ::
  "'tx sink \<Rightarrow> 'wr write_ops \<Rightarrow> hist \<Rightarrow> ('tx, 'wr) phase \<times> hist \<Rightarrow> ('tx, 'wr) phase \<times> hist \<Rightarrow> bool"
  for S :: "'tx sink" and M :: "'wr write_ops" and hr :: hist where
  ep_deaf: "phase_env p \<Longrightarrow> deaf_step S M p p' \<Longrightarrow> calm p' \<Longrightarrow> ep_step S M hr (p, h) (p', record_step p' {} h)"
| ep_hear: "phase_env (Waiting w t) \<Longrightarrow> get_link t i = Some l \<Longrightarrow> link_emits S now l (Rx msg d) l' \<Longrightarrow>
    hears h hr msg d ns \<Longrightarrow>
    p' = after_event (handle_event S M now w (LinkEvent i (Rx msg d)) (put_link i l' t)) \<Longrightarrow> calm p' \<Longrightarrow>
    ep_step S M hr (Waiting w t, h) (p', record_step p' ns h)"

text \<open>Either endpoint makes a step.\<close>

inductive pair_step ::
  "'tx sink \<Rightarrow> 'wr write_ops \<Rightarrow> (('tx, 'wr) phase \<times> hist) \<times> (('tx, 'wr) phase \<times> hist) \<Rightarrow>
   (('tx, 'wr) phase \<times> hist) \<times> (('tx, 'wr) phase \<times> hist) \<Rightarrow> bool"
  for S :: "'tx sink" and M :: "'wr write_ops" where
  ps_left: "ep_step S M (snd b) a a' \<Longrightarrow> pair_step S M (a, b) (a', b)"
| ps_right: "ep_step S M (snd a) b b' \<Longrightarrow> pair_step S M (a, b) (a, b')"

text \<open>
  An endpoint that has sent and received nothing so far and whose task is in order (\<open>phase_ok\<close>), as that of
  every new task is.
\<close>

definition no_hist :: hist where
  "no_hist = \<lparr>h_sent = [], h_heard = {}\<rparr>"

definition pristine :: "('tx, 'wr) phase \<Rightarrow> bool" where
  "pristine p \<longleftrightarrow> phase_ok p \<and> (\<exists>t. running p = Some t \<and> t_store t = [] \<and> rx_seq t = ZERO \<and> rxed_reliable t = [] \<and>
     rxed_reliable_consumable t = [] \<and> delivered t = [])"

section \<open>Steps of one endpoint\<close>

lemma running_Some: "running p = Some t \<longleftrightarrow> p = Top t \<or> (\<exists>w. p = Waiting w t)"
  by (cases p) auto

lemma write_task_event:
  fixes t t' :: "('a, 'b) task"
  assumes "write_task M w t = Some (Some ev, t')"
  shows "ev \<noteq> LinkEvent i e" and "ev \<noteq> ConsumeReceived m permit"
proof -
  have "ev \<noteq> LinkEvent i e \<and> ev \<noteq> ConsumeReceived m permit"
    if "(case res of
           None \<Rightarrow> Some (None, u)
         | Some (Inr (SendData d)) \<Rightarrow> do { i \<leftarrow> w_sendable w; Some (Some (WriteRx i d), u) }
         | Some (Inr (FlushReq r)) \<Rightarrow> Some (Some (EvFlush r), u)
         | Some (Inl IfNoMatch) \<Rightarrow> Some (None, u)
         | Some (Inl IfDisconnected) \<Rightarrow> Some (Some WriteEnd, u)) = Some (Some ev, t')" for res and u :: "('a, 'b) task"
  proof (cases res)
    case (Some y)
    then show ?thesis
      using that by (cases y) (auto simp: bind_Some_iff split: send_req.splits recv_if_error.splits)
  qed (use that in simp)
  note res = this
  have "ev \<noteq> LinkEvent i e \<and> ev \<noteq> ConsumeReceived m permit"
  proof (cases "write_rx t")
    case None
    then show ?thesis using assms by (auto simp: write_task_def split: if_splits)
  next
    case (Some rx)
    then show ?thesis
      using assms unfolding write_task_def Let_def bind_Some_iff
      by (simp split: if_splits prod.splits add: bind_Some_iff) (elim exE conjE, rule res, assumption)
  qed
  then show "ev \<noteq> LinkEvent i e" "ev \<noteq> ConsumeReceived m permit" by blast+
qed

text \<open>The two kinds of steps are all steps of the loop.\<close>

lemma task_step_split:
  assumes "task_step S M p p'" and "p' \<noteq> Panicked"
  shows "deaf_step S M p p' \<or>
    (\<exists>w t i l now msg d l'. p = Waiting w t \<and> get_link t i = Some l \<and> link_emits S now l (Rx msg d) l' \<and>
      p' = after_event (handle_event S M now w (LinkEvent i (Rx msg d)) (put_link i l' t)))"
  using assms(1)
proof (cases rule: task_step.cases)
  case (st_event now w t ev t')
  show ?thesis
  proof (cases "is_rx ev")
    case True
    then obtain i msg d where ev: "ev = LinkEvent i (Rx msg d)" by (cases ev rule: is_rx.cases) auto
    from st_event(3) obtain l l' where "get_link t i = Some l" "link_emits S now l (Rx msg d) l'" "t' = put_link i l' t"
      unfolding ev by (cases rule: task_emits.cases) (auto dest: write_task_event(1))
    then show ?thesis using st_event(1,2) ev by blast
  next
    case False
    then show ?thesis using st_event ds_event by blast
  qed
qed (use assms in \<open>auto intro: ds_top ds_poll task_step.intros\<close>)

text \<open>Without hearing anything, the task moves silently or hands a message to the user.\<close>

lemma deaf_step_cases:
  assumes ok: "phase_ok p" and env: "phase_env p" and st: "deaf_step S M p p'" and r: "running p' = Some t'"
  obtains t where "running p = Some t" "task_moves t t'"
  | t m ms where "running p = Some t" "task_evolves t t'" "pkts (t_store t') = pkts (t_store t)"
      "rxed_reliable_consumable t = m # ms"
      "consume_received m (read_tx t) (t\<lparr>rxed_reliable_consumable := ms\<rparr>) = Some t'"
  using st
proof (cases rule: deaf_step.cases)
  case (ds_top t now)
  obtain res t1 where l: "loop_top S M now t = Some (res, t1)" "\<forall>w. res = Inr w \<longrightarrow> task_moves t t1"
    using loop_top_ok [of t S M now] ok env ds_top(1) by auto
  then have "task_moves t t'" using r ds_top(2) by (cases res) (auto simp: after_top_def)
  then show ?thesis using that(1) ds_top(1) by auto
next
  case (ds_event now w t ev t1)
  have ok': "task_ok t" "wait_ok w t" "wait_env w t" using ok env ds_event(1) by auto
  note ev = handle_event_ok [OF ok' ds_event(3)]
  have h: "handle_event S M now w ev t1 = Some (Inr (), t')"
    using r ds_event(2) by (auto simp: after_event_def split: option.splits sum.splits)
  show ?thesis
  proof (cases "loud_event ev")
    case False
    then have "task_moves t t'" using ev h by (simp add: event_ok_def flow_ok_def)
    then show ?thesis using that(1) ds_event(1) by auto
  next
    case True
    then obtain m permit where cm: "ev = ConsumeReceived m permit"
      using ds_event(4) by (cases ev rule: loud_event.cases) auto
    from ds_event(3) obtain ms where ms: "rxed_reliable_consumable t = m # ms" "permit = read_tx t"
      "t1 = t\<lparr>rxed_reliable_consumable := ms\<rparr>"
      unfolding cm by (cases rule: task_emits.cases) (auto dest: write_task_event(2))
    then have c: "consume_received m (read_tx t) (t\<lparr>rxed_reliable_consumable := ms\<rparr>) = Some t'"
      using h cm by (auto simp: handle_event_def continue_def)
    then show ?thesis
      using that(2) [of t m ms] consume_received_moves [OF ok'(1) ms(1), of "read_tx t"] ms(1) ds_event(1) by auto
  qed
next
  case (ds_poll w t w' t1)
  then have "t1 = t'" using r by simp
  from ds_poll(3) have "task_moves t t1"
  proof (cases rule: task_step.cases)
    case st_event
    then show ?thesis by (auto simp: after_event_def split: option.splits sum.splits)
  next
    case st_poll_write
    then have "core_eq t t1" using write_task_ok [of w t M] ok ds_poll(1) by auto
    then show ?thesis using task_moves_core ok ds_poll(1) by auto
  next
    case (st_poll_link i l now l')
    then have "tx_ok l" using ok ds_poll(1) tx_inv_link by (auto simp: task_ok_def ready_link_def)
    then show ?thesis
      using st_poll_link ok ds_poll(1) tx_task_frame [of l S now] put_kept_moves [of t i l l']
      by (auto simp: tx_idle_def)
  next
    case (st_poll_rx i l item l')
    then have "tx_ok l" using ok ds_poll(1) tx_inv_link by (auto simp: task_ok_def ready_link_def)
    then show ?thesis
      using st_poll_rx ok ds_poll(1) rx_item_frame [of l item None l'] put_kept_moves [of t i l l']
      by (auto simp: tx_ok_def tx_idle_def)
  qed
  then show ?thesis using that(1) ds_poll(1) \<open>t1 = t'\<close> by auto
qed


text \<open>Hearing a message is \<open>handle_received_msg\<close> on the link it came over.\<close>

lemma hear_result:
  assumes g: "get_link t i = Some l"
    and "running (after_event (handle_event S M now w (LinkEvent i (Rx msg d)) (put_link i l' t))) = Some t'"
  shows "handle_received_msg S now i msg d (put_link i l' t) = Some (Inr False, t')"
proof -
  let ?t = "put_link i l' t"
  have g': "get_link ?t i = Some l'" using g by simp
  then obtain res t1 where r: "handle_received_msg S now i msg d ?t = Some (res, t1)"
    using assms(2)
    by (auto simp: after_event_def handle_event_def handle_link_event_def handle_link_rx_def bind_Some_iff
        split: option.splits)
  show ?thesis
  proof (cases res)
    case (Inl e)
    then show ?thesis
      using assms(2) r g'
      by (auto simp: after_event_def handle_event_def handle_link_event_def handle_link_rx_def bind_Some_iff split: option.splits)
  next
    case (Inr b)
    then show ?thesis
      using assms(2) r g'
      by (cases b) (auto simp: after_event_def handle_event_def handle_link_event_def handle_link_rx_def)
  qed
qed

lemma map_sum_Inr: "map_sum f g a = Inr b \<longleftrightarrow> (\<exists>u. a = Inr u \<and> b = g u)"
  by (cases a) auto

lemma handle_numbered:
  assumes "to_link_msg m s = (msg, d)" and "get_link t i = Some l"
    and "handle_received_msg S now i msg d t = Some (Inr False, t')"
  shows "handle_received_reliable_msg now i s m t = Some (Inr (), t')"
  using assms
  by (cases m) (auto simp: handle_received_msg_def handle_reliable_def bind_Some_iff map_sum_Inr)

lemma handle_numbered_moves:
  assumes ok: "task_ok t" and h: "handle_received_reliable_msg now i s m t = Some (Inr (), t')"
  shows "task_evolves t t'" and "pkts (t_store t') = pkts (t_store t)"
proof -
  obtain l where l: "get_link t i = Some l"
    using h by (auto simp: handle_received_reliable_msg_def queue_ack_def bind_Some_iff)
  show "task_evolves t t'" "pkts (t_store t') = pkts (t_store t)"
    using handle_received_reliable_msg_ok [OF ok l, of now s m] h by auto
qed

text \<open>An acknowledgement that is not too late concerns the packet it names.\<close>

lemma acked_pid_window:
  assumes inv: "tx_inv t" and "n < length (t_store t)" and "length (t_store t) < n + 2 ^ 31"
    and a: "acked_pid t (seq_of n) = Some p"
  shows "p = n"
proof -
  let ?k = "length (t_store t) - n"
  have "tx_seq t = seq_of (n + ?k)" by (rule tx_inv_window [OF inv]) (use assms(2) in simp)
  then have "seq_sub (tx_seq t) (seq_of n) = int ?k"
    using seq_sub_of_nat [of ?k "seq_of n"] seq_of_offset [of n ?k] assms(3) by simp
  then show ?thesis using a assms(2) by (auto simp: acked_pid_def Let_def split: if_splits)
qed

lemma heard_ack_moves:
  assumes ok: "task_ok t" and "get_link t i = Some l" and win: "length (t_txed_packets t) \<le> 2 ^ 32"
    and n: "n < length (t_store t)" "length (t_store t) < n + 2 ^ 31"
    and h: "handle_received_msg S now i (Ack (seq_of n)) d t = Some (Inr False, t')"
  shows "task_evolves t t' \<and> length (t_store t') = length (t_store t) \<and> rx_quiet t t' \<and>
    (\<forall>k < length (t_store t). is_received (pkts (t_store t') ! k) \<longrightarrow> k = n \<or> is_received (pkts (t_store t) ! k))"
proof -
  have inv: "tx_inv t" using ok by (simp add: task_ok_def)
  obtain t2 where t2: "handle_ack now i (seq_of n) t = Some t2" "tx_acks t t2" "same_links t t2"
    "ledger_of t2 = led_ack i (acked_pid t (seq_of n)) (ledger_of t)"
    using handle_ack_ok [OF inv assms(2) win] by blast
  have eq: "t2 = t'" using h t2(1) assms(2) by (simp add: handle_received_msg_def)
  have pk: "pkts (t_store t') = g_pkts (led_ack i (acked_pid t (seq_of n)) (ledger_of t))"
    using arg_cong [OF t2(4), of g_pkts] eq by simp
  have "k = n \<or> is_received (pkts (t_store t) ! k)"
    if "k < length (t_store t)" "is_received (pkts (t_store t') ! k)" for k
    using that acked_pid_window [OF inv n] unfolding pk
    by (cases "k = n") (auto simp: led_ack_def led_swipe_def led_receive_def led_link_def Let_def nth_list_update
        split: option.splits if_splits pkt.splits)
  moreover have "length (pkts (t_store t')) = length (pkts (t_store t))"
    unfolding pk
    by (simp add: led_ack_def led_swipe_def led_receive_def led_link_def Let_def split: option.split pkt.split)
  moreover have "task_evolves t t'" using task_evolves_acks [OF ok t2(2,3)] eq by simp
  moreover have "rx_quiet t t'" using t2(2) eq rx_quiet_rest [of t t'] by (simp add: tx_acks_def)
  ultimately show ?thesis by simp
qed

section \<open>The invariant of both endpoints\<close>

text \<open>The packets of an endpoint are the messages of its history; what is acknowledged was received.\<close>

definition tx_hist :: "hist \<Rightarrow> hist \<Rightarrow> ('tx, 'wr) task \<Rightarrow> bool" where
  "tx_hist h hr t \<longleftrightarrow> length (h_sent h) = length (t_store t) \<and>
     (\<forall>k < length (t_store t). (\<forall>m. carries (pkts (t_store t) ! k) = Some m \<longrightarrow> h_sent h ! k = m) \<and>
        (is_received (pkts (t_store t) ! k) \<longrightarrow> k \<in> h_heard hr))"

text \<open>What was received is in order, and what was delivered is the beginning of what was sent.\<close>

definition rx_side :: "hist \<Rightarrow> hist \<Rightarrow> ('tx, 'wr) task \<Rightarrow> bool" where
  "rx_side h hr t \<longleftrightarrow>
     (\<exists>r. rx_hist ((!) (h_sent hr)) (h_heard h) r t \<and> (read_tx t \<longrightarrow> user_data t = payloads (take r (h_sent hr)))) \<and>
     (\<exists>ds. payloads (h_sent hr) = delivered t @ ds)"

text \<open>The histories fit: \<open>h\<close> received only messages of \<open>hr\<close>, and all but the last quarter of the number space.\<close>

definition hist_ok :: "hist \<Rightarrow> hist \<Rightarrow> bool" where
  "hist_ok h hr \<longleftrightarrow> h_heard h \<subseteq> {..<length (h_sent hr)} \<and> {..<length (h_sent hr) - unat ONE_QUARTER} \<subseteq> h_heard h"

definition ep_ok :: "hist \<Rightarrow> ('tx, 'wr) phase \<times> hist \<Rightarrow> bool" where
  "ep_ok hr e \<longleftrightarrow> (case e of (p, h) \<Rightarrow> phase_ok p \<and> hist_ok h hr \<and>
     (\<forall>t. running p = Some t \<longrightarrow> tx_hist h hr t \<and> rx_side h hr t))"

definition pair_ok :: "(('tx, 'wr) phase \<times> hist) \<times> (('tx, 'wr) phase \<times> hist) \<Rightarrow> bool" where
  "pair_ok s \<longleftrightarrow> (case s of (a, b) \<Rightarrow> ep_ok (snd b) a \<and> ep_ok (snd a) b)"

definition extends :: "hist \<Rightarrow> hist \<Rightarrow> bool" where
  "extends h h' \<longleftrightarrow> (\<exists>ms. h_sent h' = h_sent h @ ms) \<and> h_heard h \<subseteq> h_heard h'"

subsection \<open>The endpoint that does not move\<close>

lemma rx_hist_cong: "(\<And>n. n \<in> N \<Longrightarrow> f n = g n) \<Longrightarrow> rx_hist f N r t = rx_hist g N r t"
  unfolding rx_hist_def by (auto split: if_splits)

lemma rx_hist_frontier:
  assumes "rx_hist f N r t" and "N \<subseteq> {..<n}"
  shows "r \<le> n" and "k \<notin> N \<Longrightarrow> r \<le> k"
  using assms unfolding rx_hist_def by (metis lessThan_iff linorder_not_less order_refl subsetD, metis linorder_not_less)

lemma rx_side_extends:
  assumes "rx_side hr h t" and ok: "hist_ok hr h" and e: "extends h h'"
  shows "rx_side hr h' t"
proof -
  obtain ms where ms: "h_sent h' = h_sent h @ ms" using e by (auto simp: extends_def)
  have sub: "h_heard hr \<subseteq> {..<length (h_sent h)}" using ok by (simp add: hist_ok_def)
  from assms(1) obtain r where r: "rx_hist ((!) (h_sent h)) (h_heard hr) r t"
    "read_tx t \<longrightarrow> user_data t = payloads (take r (h_sent h))" by (auto simp: rx_side_def)
  have "rx_hist ((!) (h_sent h')) (h_heard hr) r t = rx_hist ((!) (h_sent h)) (h_heard hr) r t"
    by (rule rx_hist_cong) (use sub in \<open>auto simp: ms nth_append\<close>)
  moreover have "take r (h_sent h') = take r (h_sent h)" using rx_hist_frontier(1) [OF r(1) sub] ms by simp
  ultimately show ?thesis using r assms(1) by (auto simp: rx_side_def ms)
qed

lemma tx_hist_extends: "tx_hist hr h t \<Longrightarrow> extends h h' \<Longrightarrow> tx_hist hr h' t"
  by (auto simp: tx_hist_def extends_def)

subsection \<open>The endpoint that moves\<close>

lemma take_more:
  "r \<le> r' \<Longrightarrow> r' \<le> length xs \<Longrightarrow> payloads (take r' xs) = payloads (take r xs) @ payloads (map ((!) xs) [r..<r'])"
proof -
  assume a: "r \<le> r'" "r' \<le> length xs"
  have t: "take n xs = map ((!) xs) [0..<n]" if "n \<le> length xs" for n
    by (rule nth_equalityI) (use that in auto)
  have "[0..<r'] = [0..<r] @ [r..<r']" using a by (metis le_iff_add upt_add_eq_append zero_le)
  then show ?thesis using t a by simp
qed

lemma rx_side_quiet: "rx_quiet t t' \<Longrightarrow> rx_side h hr t \<Longrightarrow> rx_side h hr t'"
  by (auto simp: rx_side_def rx_quiet_def rx_fields_def rx_hist_def user_data_def)

lemma rx_side_consume:
  assumes rx: "rx_side h hr t" and m: "rxed_reliable_consumable t = m # ms"
    and c: "consume_received m (read_tx t) (t\<lparr>rxed_reliable_consumable := ms\<rparr>) = Some t'"
  shows "rx_side h hr t'"
proof -
  note hist = consume_received_hist [OF m c]
  obtain r where r: "rx_hist ((!) (h_sent hr)) (h_heard h) r t"
    "read_tx t \<longrightarrow> user_data t = payloads (take r (h_sent hr))" using rx by (auto simp: rx_side_def)
  obtain ds where ds: "payloads (h_sent hr) = delivered t @ ds" using rx by (auto simp: rx_side_def)
  have "\<exists>ds. payloads (h_sent hr) = delivered t' @ ds"
  proof (cases "\<exists>d. rm_msg m = Data d \<and> read_tx t")
    case True
    then obtain d where d: "rm_msg m = Data d" "read_tx t" by blast
    then have "delivered t' = delivered t @ [d]"
      using c by (auto simp: consume_received_def bind_Some_iff Let_def)
    moreover have "payloads (h_sent hr) = payloads (take r (h_sent hr)) @ payloads (drop r (h_sent hr))"
      by (metis append_take_drop_id payloads_simps(3))
    moreover have "payloads (take r (h_sent hr)) = delivered t @ d # payloads (map rm_msg ms)"
      using r(2) d m by (simp add: user_data_def)
    ultimately show ?thesis by simp
  next
    case False
    then have "delivered t' = delivered t"
      using c by (auto simp: consume_received_def bind_Some_iff Let_def split: reliable_msg.splits)
    then show ?thesis using ds by auto
  qed
  then show ?thesis using r hist by (auto simp: rx_side_def)
qed

lemma rx_side_numbered:
  assumes ok: "task_ok t" and rx: "rx_side h hr t" and hk: "hist_ok h hr"
    and n: "n < length (h_sent hr)" "k \<le> n + unat ONE_QUARTER" "k \<notin> h_heard h"
    and hd: "handle_received_reliable_msg now i (seq_of n) (h_sent hr ! n) t = Some (Inr (), t')"
  shows "rx_side (h\<lparr>h_heard := insert n (h_heard h)\<rparr>) hr t'"
proof -
  obtain r where r: "rx_hist ((!) (h_sent hr)) (h_heard h) r t"
    "read_tx t \<longrightarrow> user_data t = payloads (take r (h_sent hr))" using rx by (auto simp: rx_side_def)
  have "r \<le> k" using rx_hist_frontier(2) [OF r(1), of "length (h_sent hr)"] hk n(3) by (simp add: hist_ok_def)
  then have "r \<le> n + 0x3FFFFFFF" using n(2) by (simp add: ONE_QUARTER_eq)
  moreover have "r \<notin> h_heard h" using r(1) by (simp add: rx_hist_def)
  then have "length (h_sent hr) - unat ONE_QUARTER \<le> r" using hk by (auto simp: hist_ok_def linorder_not_less [symmetric])
  then have "n \<le> r + 0x3FFFFFFF" using n(1) by (simp add: ONE_QUARTER_eq)
  ultimately obtain r' where r': "r \<le> r'" "rx_hist ((!) (h_sent hr)) (insert n (h_heard h)) r' t'"
    "user_data t' = user_data t @ payloads (map ((!) (h_sent hr)) [r..<r'])"
    using arrival_in_order [OF ok r(1) _ _ hd] by blast
  have inv: "tx_inv t" using ok by (simp add: task_ok_def)
  have "r' \<le> length (h_sent hr)"
    by (rule rx_hist_frontier(1) [OF r'(2)]) (use hk n(1) in \<open>auto simp: hist_ok_def\<close>)
  moreover have "read_tx t' = read_tx t" by (rule handle_received_read_tx [OF inv hd])
  moreover have "delivered t' = delivered t"
  proof -
    obtain t1 where t1: "queue_ack now i (seq_of n) t = Some t1"
      using hd by (auto simp: handle_received_reliable_msg_def bind_Some_iff)
    have "delivered b = delivered a" if "store_reliable s m a = (x, b)" for a b :: "('a, 'b) task" and s m x
      using store_reliable_tx [OF that] by (simp add: tx_fields_eq_def)
    moreover have "delivered b = delivered a" if "forward_received a = Some b" for a b :: "('a, 'b) task"
      using that by (auto simp: forward_received_def bind_Some_iff)
    ultimately show ?thesis
      using hd t1 queue_ack_rx(2) [OF inv t1]
      by (auto simp: handle_received_reliable_msg_def bind_Some_iff split: if_splits sum.splits prod.splits)
  qed
  ultimately show ?thesis
    using r r' rx take_more [of r r' "h_sent hr"] by (auto simp: rx_side_def)
qed

lemma record_extends: "extends h (record_step p ns h)"
  by (auto simp: extends_def record_step_def split: option.split)

lemma record_running:
  "running p = Some t \<Longrightarrow> record_step p ns h =
     \<lparr>h_sent = h_sent h @ map (\<lambda>p. the (carries p)) (drop (length (h_sent h)) (pkts (t_store t))),
      h_heard = h_heard h \<union> ns\<rparr>"
  by (simp add: record_step_def)

text \<open>New packets are recorded, and an acknowledged packet is one that was received.\<close>

lemma tx_hist_record:
  assumes tx: "tx_hist h hr t" and ev: "evolves (pkts (t_store t)) (pkts (t_store t'))" and r: "running p = Some t'"
    and new: "\<And>k. length (t_store t) \<le> k \<Longrightarrow> k < length (t_store t') \<Longrightarrow> \<not> is_received (pkts (t_store t') ! k)"
    and old: "\<And>k. k < length (t_store t) \<Longrightarrow> is_received (pkts (t_store t') ! k) \<Longrightarrow>
      is_received (pkts (t_store t) ! k) \<or> k \<in> h_heard hr"
  shows "tx_hist (record_step p ns h) hr t'"
proof -
  let ?n = "length (t_store t)" and ?pk = "pkts (t_store t)" and ?pk' = "pkts (t_store t')"
  have len: "length (h_sent h) = ?n" "?n \<le> length (t_store t')" using tx ev by (simp_all add: tx_hist_def evolves_def)
  have "(carries (?pk' ! k) = Some m \<longrightarrow> h_sent (record_step p ns h) ! k = m) \<and>
      (is_received (?pk' ! k) \<longrightarrow> k \<in> h_heard hr)" if k: "k < length (t_store t')" for k m
  proof (cases "k < ?n")
    case True
    have h: "carries (?pk ! k) = Some m \<longrightarrow> h_sent h ! k = m" "is_received (?pk ! k) \<longrightarrow> k \<in> h_heard hr"
      using tx True unfolding tx_hist_def by blast+
    have "carries (?pk' ! k) = Some m \<Longrightarrow> carries (?pk ! k) = Some m"
      using ev True by (metis carries_None evolves_def length_pkts option.distinct(1))
    then show ?thesis
      using old [OF True] True len h by (auto simp: record_running [OF r] nth_append)
  next
    case False
    then show ?thesis using new [of k] k len by (auto simp: record_running [OF r] nth_append)
  qed
  then show ?thesis using len by (simp add: tx_hist_def record_running [OF r])
qed

lemma tx_hist_moves:
  assumes "tx_hist h hr t" and adv: "advances (pkts (t_store t)) (pkts (t_store t'))" and "running p = Some t'"
  shows "tx_hist (record_step p ns h) hr t'"
proof (rule tx_hist_record [OF assms(1) advances_evolves [OF adv] assms(3)])
  show "\<not> is_received (pkts (t_store t') ! k)" if "length (t_store t) \<le> k" "k < length (t_store t')" for k
    using adv that by (auto simp: advances_def)
  show "is_received (pkts (t_store t) ! k) \<or> k \<in> h_heard hr"
    if "k < length (t_store t)" "is_received (pkts (t_store t') ! k)" for k
    using adv that by (metis advances_def carries_None length_pkts)
qed

text \<open>With at most a quarter of the number space in flight, all older messages were received.\<close>

lemma tx_hist_window:
  assumes tx: "tx_hist h hr t" and inv: "tx_inv t" and c: "length (t_txed_packets t) \<le> unat ONE_QUARTER"
  shows "{..<length (h_sent h) - unat ONE_QUARTER} \<subseteq> h_heard hr"
proof
  fix k assume "k \<in> {..<length (h_sent h) - unat ONE_QUARTER}"
  then have k: "k + unat ONE_QUARTER < length (t_store t)" using tx by (simp add: tx_hist_def less_diff_conv)
  obtain lo where "lo \<le> length (t_store t)" "t_txed_packets t = [lo..<length (t_store t)]"
    by (rule tx_inv_window [OF inv])
  then have "k \<notin> set (t_txed_packets t)" using c k by simp
  then have "is_received (pkts (t_store t) ! k)" using inv k by (simp add: tx_inv_def ledger_inv_def)
  then show "k \<in> h_heard hr" using tx k unfolding tx_hist_def by (metis add_lessD1)
qed

lemma rx_side_record:
  assumes "rx_side (h\<lparr>h_heard := h_heard h \<union> ns\<rparr>) hr t" and "running p = Some t"
  shows "rx_side (record_step p ns h) hr t"
  using assms by (simp add: rx_side_def record_running)

lemma deaf_task_step: "deaf_step S M p p' \<Longrightarrow> task_step S M p p'"
  by (induction rule: deaf_step.induct) (auto intro: task_step.intros)

text \<open>The task of the endpoint that made a step: its two sides with the new history.\<close>

lemma deaf_sides:
  assumes ok: "ep_ok hr (p, h)" and env: "phase_env p" and st: "deaf_step S M p p'" and r: "running p' = Some t'"
  shows "tx_hist (record_step p' {} h) hr t' \<and> rx_side (record_step p' {} h) hr t'"
proof -
  have pk: "phase_ok p" using ok by (simp add: ep_ok_def)
  from pk env st r show ?thesis
  proof (cases rule: deaf_step_cases)
    case (1 t)
    then have "tx_hist h hr t" "rx_side h hr t" using ok by (simp_all add: ep_ok_def)
    then show ?thesis
      using tx_hist_moves [OF _ _ r, of h hr t "{}"] rx_side_quiet [of t t' h hr] rx_side_record [OF _ r, of h "{}" hr] 1(2)
      by (simp add: task_moves_def)
  next
    case (2 t m ms)
    then have "tx_hist h hr t" "rx_side h hr t" using ok by (simp_all add: ep_ok_def)
    then show ?thesis
      using tx_hist_moves [OF _ _ r, of h hr t "{}"] rx_side_consume [OF _ 2(4,5), of h hr]
        rx_side_record [OF _ r, of h "{}" hr] 2(3) by simp
  qed
qed

lemma hear_sides:
  assumes ok: "ep_ok hr (Waiting w t, h)" and hk: "hist_ok hr h" and env: "phase_env (Waiting w t)"
    and l: "get_link t i = Some l" and e: "link_emits S now l (Rx msg d) l'" and hs: "hears h hr msg d ns"
    and p': "p' = after_event (handle_event S M now w (LinkEvent i (Rx msg d)) (put_link i l' t))"
    and r: "running p' = Some t'"
  shows "tx_hist (record_step p' ns h) hr t' \<and> rx_side (record_step p' ns h) hr t'"
proof -
  let ?t = "put_link i l' t"
  have tok: "task_ok t" and tx: "tx_hist h hr t" and rx: "rx_side h hr t" and hh: "hist_ok h hr"
    using ok by (simp_all add: ep_ok_def)
  have inv: "tx_inv t" using tok by (simp add: task_ok_def)
  have win: "length (t_txed_packets t) \<le> 2 ^ 32" using env by (simp add: wait_env_def)
  have "tx_ok l" using tx_inv_link [OF inv l] by (simp add: ready_link_def)
  note fr = link_emits_frame [OF e this]
  have mv: "task_moves t ?t" by (rule put_kept_moves [OF tok l]) (use fr in blast)+
  have ok1: "task_ok ?t" and g: "get_link ?t i = Some l'" using mv l by (simp_all add: task_moves_def)
  have rx1: "rx_side h hr ?t" using rx_side_quiet [OF _ rx] mv by (simp add: task_moves_def)
  have hm: "handle_received_msg S now i msg d ?t = Some (Inr False, t')"
    by (rule hear_result [OF l]) (use r p' in simp)
  from hs show ?thesis
  proof (cases rule: hears.cases)
    case hear_plain
    have "msg \<noteq> LData s" for s using hear_plain by auto
    then have "heard_moves msg ?t t'"
      using handle_received_msg_ok [OF ok1 g, of msg d S now] hm win by auto
    then have "task_moves t t'" using hear_plain(2) task_moves_trans [OF mv] by (simp add: heard_moves_def)
    then show ?thesis
      using tx_hist_moves [OF tx _ r] rx_side_quiet [OF _ rx, of t'] rx_side_record [OF _ r, of h "{}" hr] hear_plain(1)
      by (simp add: task_moves_def)
  next
    case (hear_numbered n k)
    have hr': "handle_received_reliable_msg now i (seq_of n) (h_sent hr ! n) ?t = Some (Inr (), t')"
      by (rule handle_numbered [OF hear_numbered(5) g hm])
    have "advances (pkts (t_store t)) (pkts (t_store t'))" using handle_numbered_moves(2) [OF ok1 hr'] by simp
    then show ?thesis
      using tx_hist_moves [OF tx _ r] rx_side_numbered [OF ok1 rx1 hh hear_numbered(2-4) hr']
        rx_side_record [OF _ r, of h "{n}" hr] hear_numbered(1) by simp
  next
    case (hear_ack n)
    have n: "n < length (t_store ?t)" "length (t_store ?t) < n + 2 ^ 31"
      using hear_ack(4,5) hk tx by (auto simp: hist_ok_def tx_hist_def ONE_QUARTER_eq)
    have a: "task_evolves ?t t' \<and> length (t_store t') = length (t_store ?t) \<and> rx_quiet ?t t' \<and>
      (\<forall>k < length (t_store ?t). is_received (pkts (t_store t') ! k) \<longrightarrow> k = n \<or> is_received (pkts (t_store ?t) ! k))"
      by (rule heard_ack_moves [OF ok1 g _ n, where S = S and now = now and d = d]) (use win hm hear_ack(1) in simp_all)
    have "tx_hist (record_step p' ns h) hr t'"
      by (rule tx_hist_record [OF tx _ r]) (use a hear_ack(4) in \<open>auto simp: task_evolves_def\<close>)
    then show ?thesis
      using rx_side_quiet [OF _ rx1, of t'] a rx_side_record [OF _ r, of h "{}" hr] hear_ack(3) by simp
  qed
qed

lemma ep_step_ok:
  assumes ok: "ep_ok hr (p, h)" and hk: "hist_ok hr h" and st: "ep_step S M hr (p, h) (p', h')"
  shows "ep_ok hr (p', h') \<and> hist_ok hr h' \<and> extends h h'"
proof -
  from st have step: "phase_env p" "task_step S M p p'" "calm p'"
    by (cases rule: ep_step.cases; auto intro: deaf_task_step task_step.intros em_link)+
  then have pk: "phase_ok p'" using loop_step_ok [of p S M p'] ok by (auto simp: ep_ok_def intro: loop_step.intros)
  obtain ns where h': "h' = record_step p' ns h" and ns: "ns \<subseteq> {..<length (h_sent hr)}"
    and sides: "\<And>t'. running p' = Some t' \<Longrightarrow> tx_hist h' hr t' \<and> rx_side h' hr t'"
  proof -
    from st show ?thesis
    proof (cases rule: ep_step.cases)
      case ep_deaf
      then show ?thesis using that [of "{}"] deaf_sides [OF ok, of S M p'] by simp
    next
      case (ep_hear w t i l now msg d l' ns)
      then have "ns \<subseteq> {..<length (h_sent hr)}" by (auto elim: hears.cases)
      then show ?thesis
        using that [of ns] hear_sides [OF _ hk _ ep_hear(4-6)] ep_hear ok by auto
    qed
  qed
  have ex: "extends h h'" by (simp add: h' record_extends)
  have heard: "h_heard h' \<subseteq> {..<length (h_sent hr)}"
    using ok ns by (auto simp: h' record_step_def ep_ok_def hist_ok_def split: option.split)
  have "hist_ok h' hr" using ok heard ex by (auto simp: ep_ok_def hist_ok_def extends_def)
  moreover have "hist_ok hr h'"
  proof (cases "running p'")
    case None
    then show ?thesis using hk by (simp add: h' record_step_def)
  next
    case (Some t')
    then have "tx_inv t'" using pk by (auto simp: running_Some task_ok_def)
    then have "{..<length (h_sent h') - unat ONE_QUARTER} \<subseteq> h_heard hr"
      using tx_hist_window [of h' hr t'] sides [OF Some] step(3) Some by (simp add: calm_def)
    then show ?thesis using hk ex by (auto simp: hist_ok_def extends_def)
  qed
  ultimately show ?thesis using pk sides ex by (simp add: ep_ok_def)
qed

lemma ep_ok_extends: "ep_ok h b \<Longrightarrow> extends h h' \<Longrightarrow> hist_ok (snd b) h' \<Longrightarrow> ep_ok h' b"
  by (auto simp: ep_ok_def intro: tx_hist_extends rx_side_extends)

lemma pair_step_ok:
  assumes "pair_ok s" and "pair_step S M s s'"
  shows "pair_ok s'"
  using assms(2)
proof (cases rule: pair_step.cases)
  case (ps_left b a a')
  have ok: "ep_ok (snd b) a" "ep_ok (snd a) b" using assms(1) ps_left(1) by (simp_all add: pair_ok_def)
  then have "hist_ok (snd b) (snd a)" by (auto simp: ep_ok_def)
  then have "ep_ok (snd b) a' \<and> hist_ok (snd b) (snd a') \<and> extends (snd a) (snd a')"
    using ep_step_ok [of "snd b" "fst a" "snd a" S M "fst a'" "snd a'"] ok(1) ps_left(3) by simp
  then show ?thesis using ep_ok_extends [OF ok(2)] ps_left(2) by (simp add: pair_ok_def)
next
  case (ps_right a b b')
  have ok: "ep_ok (snd b) a" "ep_ok (snd a) b" using assms(1) ps_right(1) by (simp_all add: pair_ok_def)
  then have "hist_ok (snd a) (snd b)" by (auto simp: ep_ok_def)
  then have "ep_ok (snd a) b' \<and> hist_ok (snd a) (snd b') \<and> extends (snd b) (snd b')"
    using ep_step_ok [of "snd a" "fst b" "snd b" S M "fst b'" "snd b'"] ok(2) ps_right(3) by simp
  then show ?thesis using ep_ok_extends [OF ok(1)] ps_right(2) by (simp add: pair_ok_def)
qed

interpretation pr: step_system "pair_step S M" pair_ok "\<lambda>_ _. True" for S M
  by unfold_locales (use pair_step_ok in blast)+

lemma new_task_pristine:
  assumes "\<forall>l \<in> set ls. newly_created l"
  shows "pristine (Top (task_new now c rc cid dir wr ls))"
proof -
  have "\<forall>l \<in> set ls. fresh_link l" using assms newly_created_fresh by blast
  from task_new_ok [OF this, of now c rc cid dir wr] show ?thesis by (simp add: pristine_def task_new_def)
qed

lemma pristine_ok: "pristine p \<Longrightarrow> ep_ok no_hist (p, no_hist)"
  by (auto simp: pristine_def ep_ok_def no_hist_def hist_ok_def tx_hist_def rx_side_def rx_hist_def user_data_def
      seq_of_def ZERO_def intro!: exI [of _ "0 :: nat"])

section \<open>End-to-end delivery\<close>

lemma pair_delivery:
  assumes ok: "pair_ok ((pa, ha), (pb, hb))" and b: "running pb = Some tb"
  shows "(\<exists>ds. payloads (h_sent ha) = delivered tb @ ds) \<and>
    (\<exists>r. r \<notin> h_heard hb \<and> (\<forall>k < r. k \<in> h_heard hb) \<and> (read_tx tb \<longrightarrow> user_data tb = payloads (take r (h_sent ha)))) \<and>
    (\<forall>ta. running pa = Some ta \<longrightarrow>
       (\<forall>k < length (h_sent ha). k \<notin> h_heard hb \<longrightarrow> k \<in> set (t_txed_packets ta) \<and>
          carries (pkts (t_store ta) ! k) = Some (h_sent ha ! k)) \<and>
       (t_txed_packets ta = [] \<and> read_tx tb \<longrightarrow> user_data tb = payloads (h_sent ha)))"
proof -
  have ok: "ep_ok hb (pa, ha)" "ep_ok ha (pb, hb)" using ok by (simp_all add: pair_ok_def)
  then have rx: "rx_side hb ha tb" using b by (simp add: ep_ok_def)
  then obtain r where r: "rx_hist ((!) (h_sent ha)) (h_heard hb) r tb"
    "read_tx tb \<longrightarrow> user_data tb = payloads (take r (h_sent ha))" by (auto simp: rx_side_def)
  have held: "k \<in> set (t_txed_packets ta) \<and> carries (pkts (t_store ta) ! k) = Some (h_sent ha ! k)"
    if a: "running pa = Some ta" and k: "k < length (h_sent ha)" "k \<notin> h_heard hb" for ta k
  proof -
    have tx: "tx_hist ha hb ta" and inv: "tx_inv ta"
      using ok(1) a by (auto simp: ep_ok_def running_Some task_ok_def)
    have k': "k < length (t_store ta)" using tx k by (simp add: tx_hist_def)
    have nr: "\<not> is_received (pkts (t_store ta) ! k)" using tx k k' by (auto simp: tx_hist_def)
    then obtain m where m: "carries (pkts (t_store ta) ! k) = Some m" by (metis carries_None not_None_eq)
    then show ?thesis using kept_packet [OF inv k' m] tx k' by (auto simp: tx_hist_def)
  qed
  have "user_data tb = payloads (h_sent ha)"
    if a: "running pa = Some ta" and e: "t_txed_packets ta = []" "read_tx tb" for ta
  proof -
    have "r \<notin> h_heard hb" using r(1) by (simp add: rx_hist_def)
    then have "length (h_sent ha) \<le> r" using held [OF a, of r] e(1) by (auto simp: linorder_not_less [symmetric])
    then show ?thesis using r(2) e(2) by simp
  qed
  then show ?thesis using rx r held by (auto simp: rx_side_def rx_hist_def)
qed

text \<open>
  C1.  End-to-end delivery.  Both endpoints of a connection run their main loops; the links between them may lose,
  delay, repeat and reorder messages and acknowledgements and may come and go.  At any time, what the user of one
  endpoint has received is the beginning of what the other endpoint sent, and what is received or ready is
  exactly the messages before the first one that is missing.  A message that has not arrived is still held by its
  sender.  So when the sender has nothing left in flight, everything it sent has arrived.
\<close>

theorem end_to_end_delivery:
  assumes run: "(pair_step S M)\<^sup>*\<^sup>* ((p, no_hist), (q, no_hist)) ((pa, ha), (pb, hb))"
    and "pristine p" and "pristine q" and b: "running pb = Some tb"
  shows "(\<exists>ds. payloads (h_sent ha) = delivered tb @ ds) \<and>
    (\<exists>r. r \<notin> h_heard hb \<and> (\<forall>k < r. k \<in> h_heard hb) \<and> (read_tx tb \<longrightarrow> user_data tb = payloads (take r (h_sent ha)))) \<and>
    (\<forall>ta. running pa = Some ta \<longrightarrow>
       (\<forall>k < length (h_sent ha). k \<notin> h_heard hb \<longrightarrow> k \<in> set (t_txed_packets ta) \<and>
          carries (pkts (t_store ta) ! k) = Some (h_sent ha ! k)) \<and>
       (t_txed_packets ta = [] \<and> read_tx tb \<longrightarrow> user_data tb = payloads (h_sent ha)))"
proof -
  have "pair_ok ((p, no_hist), (q, no_hist))" 
    using pristine_ok [OF assms(2)] pristine_ok [OF assms(3)] by (simp add: pair_ok_def)
  then show ?thesis by (rule pair_delivery [OF pr.run_inv [OF run] b])
qed

text \<open>A run in which the first message crosses: one endpoint is about to send it, the other listens.\<close>

definition sending_task :: "(bytes list, send_req list) task" where
  "sending_task = (task_new 0 default_cfg (Some \<lparr>x_recv_buffer = 1000\<rparr>) (ConnId 1) Outgoing [SendData [1, 2]] [])
     \<lparr>t_links := [Some (sample_link (LinkId 7))], idle_links := [0]\<rparr>"

definition sending_wait :: wait where
  "sending_wait = \<lparr>w_consume_ack = False, w_seq_avail = True, w_space = 1000, w_resending = False, w_idling = True,
     w_no_link_since = None, w_next_ping = None, w_pong = None, w_unconfirmed = None, w_send = None,
     w_testing = None, w_confirm = None, w_sendable = Some 0, w_resendable = None, w_non_resendable = None\<rparr>"

definition listening_link :: "bytes list link_int" where
  "listening_link = (sample_link (LinkId 8))\<lparr>rxed_data_msg := Some (LData ZERO)\<rparr>"

definition listening_task :: "(bytes list, send_req list) task" where
  "listening_task = (task_new 0 default_cfg (Some \<lparr>x_recv_buffer = 1000\<rparr>) (ConnId 1) Incoming [] [])
     \<lparr>t_links := [Some listening_link]\<rparr>"

definition listening_wait :: wait where
  "listening_wait = \<lparr>w_consume_ack = False, w_seq_avail = True, w_space = 0, w_resending = False, w_idling = False,
     w_no_link_since = None, w_next_ping = None, w_pong = None, w_unconfirmed = None, w_send = None,
     w_testing = None, w_confirm = None, w_sendable = None, w_resendable = None, w_non_resendable = None\<rparr>"

lemma listening_ok: "task_ok listening_task"
  by (auto simp: task_ok_def tx_inv_def ledger_inv_def ready_inv_def ready_link_def rx_inv_def listening_task_def
      listening_link_def task_new_def tally_def sample_link_def link_new_def tx_ok_def tx_idle_def get_link_Some
      pkts_def seqs_def seq_of_def ZERO_def)

lemma listening_wait_ok: "wait_ok listening_wait listening_task" "wait_env listening_wait listening_task"
  by (simp_all add: wait_ok_def wait_env_def listening_wait_def listening_task_def task_new_def front_link_def)

lemma first_heard:
  assumes "l' = listening_link\<lparr>rxed_data_msg := None, lk_stats := st\<rparr>"
  shows "\<exists>t. handle_received_msg buffer_sink 9 0 (LData ZERO) (Some [1, 2]) (put_link 0 l' listening_task) =
      Some (Inr False, t) \<and> read_tx t \<and> t_txed_packets t = [] \<and> t_store t = []"
  by (simp add: assms handle_received_msg_def handle_reliable_def handle_received_reliable_msg_def queue_ack_def
      listening_task_def listening_link_def task_new_def store_reliable_def reliable_effect_def forward_received_def
      get_link_def put_link_def idle_remove_def nth_opt_def Let_def less_seq_def seq_cmp_def seq_sub_def
      seq_add_u32_def default_cfg_def ZERO_def u32_cmp_def is_consumable_def assert_that_def checked_sub_def
      USABLE_INTERVAL_def ONE_QUARTER_eq THREE_QUARTERS_eq word_le_nat_alt word_less_nat_alt)

lemma listening_pristine: "pristine (Waiting listening_wait listening_task)"
  using listening_ok listening_wait_ok(1) by (simp add: pristine_def listening_task_def task_new_def)

lemma sending_ok: "task_ok sending_task"
  by (auto simp: task_ok_def tx_inv_def ledger_inv_def ready_inv_def ready_link_def rx_inv_def sending_task_def
      task_new_def tally_def sample_link_def link_new_def tx_ok_def tx_idle_def get_link_Some pkts_def seqs_def
      seq_of_def ZERO_def)

lemma sending_wait_ok: "wait_ok sending_wait sending_task" "wait_env sending_wait sending_task"
  by (simp_all add: wait_ok_def wait_env_def sending_wait_def sending_task_def task_new_def front_link_def)

lemma sending_pristine: "pristine (Waiting sending_wait sending_task)"
  using sending_ok sending_wait_ok(1) by (simp add: pristine_def sending_task_def task_new_def)

lemma sending_step:
  "\<exists>t. ep_step buffer_sink list_mpsc h (Waiting sending_wait sending_task, no_hist)
     (Top t, \<lparr>h_sent = [Data [1, 2]], h_heard = {}\<rparr>)"
proof -
  let ?rx = "\<lparr>pr_rx = [], peeked = None\<rparr> :: (send_req, send_req list) peekable_receiver"
  let ?t1 = "sending_task\<lparr>write_rx := Some ?rx\<rparr>"
  have "recv_if list_mpsc c \<lparr>pr_rx = [SendData [1, 2]], peeked = None\<rparr> = Some (Some (Inr (SendData [1, 2])), ?rx)"
    if "c (SendData [1, 2])" for c
    using that by (simp add: recv_if_def peek_def try_recv_def list_mpsc_def)
  then have w: "write_task list_mpsc sending_wait sending_task = Some (Some (WriteRx 0 [1, 2]), ?t1)"
    by (simp add: write_task_def sending_wait_def sending_task_def task_new_def peekable_new_def)
  let ?tr = "idle_remove 0 ?t1"
  have l: "get_link ?tr 0 = Some (sample_link (LinkId 7))"
    by (simp add: sending_task_def idle_remove_def get_link_Some)
  have led: "ledger_of ?tr = ledger_of sending_task" by (simp add: ledger_of_def idle_remove_def fun_eq_iff get_link_at)
  have "ready_inv ?tr" using sending_ok by (auto simp: task_ok_def tx_inv_def ready_inv_def idle_remove_def get_link_at)
  then have inv: "tx_inv ?tr" using sending_ok led by (simp add: task_ok_def tx_inv_def)
  have g0: "get_link sending_task 0 = Some (sample_link (LinkId 7))" "lk_link_id (sample_link (LinkId 7)) = LinkId 7"
    "t_txed_packets sending_task = []" "t_store sending_task = []" "pkts [] = []"
    by (simp_all add: get_link_Some sample_link_def link_new_def sending_task_def task_new_def pkts_def)
  have idle: "tx_idle (sample_link (LinkId 7))" by (simp add: sample_link_def link_new_def tx_idle_def)
  obtain s t where t: "send_reliable_over_link buffer_sink 9 0 (Data [1, 2]) ?tr = Some (s, t)"
    "ledger_of t = led_send 0 (Data [1, 2]) (ledger_of sending_task)"
    using send_reliable_over_link_ok [OF inv l idle, of buffer_sink 9 "Data [1, 2]"] led by auto
  have "pkts (t_store t) = [PSent 0 (LinkId 7) (Data [1, 2])]" "t_txed_packets t = [0]"
    using arg_cong [OF t(2), of g_pkts] arg_cong [OF t(2), of g_txed] 
    by (simp_all add: led_send_def led_link_def g0)
  then have "record_step (Top t) {} no_hist = \<lparr>h_sent = [Data [1, 2]], h_heard = {}\<rparr>" "calm (Top t)"
    by (simp_all add: record_step_def no_hist_def calm_def ONE_QUARTER_eq)
  moreover have "after_event (handle_event buffer_sink list_mpsc 9 sending_wait (WriteRx 0 [1, 2]) ?t1) = Top t"
    using t(1) by (simp add: after_event_def handle_event_def send_reliable_def continue_def)
  moreover have "deaf_step buffer_sink list_mpsc (Waiting sending_wait sending_task)
      (after_event (handle_event buffer_sink list_mpsc 9 sending_wait (WriteRx 0 [1, 2]) ?t1))"
    by (rule ds_event [OF em_write [OF w]]) simp
  ultimately show ?thesis
    using ep_deaf [of "Waiting sending_wait sending_task" buffer_sink list_mpsc "Top t" h no_hist] sending_wait_ok(2)
    by auto
qed

lemma listening_step:
  "\<exists>t. ep_step buffer_sink list_mpsc \<lparr>h_sent = [Data [1, 2]], h_heard = {}\<rparr>
     (Waiting listening_wait listening_task, no_hist) (Top t, \<lparr>h_sent = [], h_heard = {0}\<rparr>) \<and> read_tx t"
proof -
  let ?l = "listening_link\<lparr>rxed_data_msg := None, lk_stats := statistican_record 0 2 (lk_stats listening_link)\<rparr>"
  let ?ha = "\<lparr>h_sent = [Data [1, 2]], h_heard = {}\<rparr>"
  let ?p = "after_event (handle_event buffer_sink list_mpsc 9 listening_wait (LinkEvent 0 (Rx (LData ZERO) (Some [1, 2])))
      (put_link 0 ?l listening_task))"
  obtain t where t: "handle_received_msg buffer_sink 9 0 (LData ZERO) (Some [1, 2]) (put_link 0 ?l listening_task) =
      Some (Inr False, t)" "read_tx t" "t_txed_packets t = []" "t_store t = []" using first_heard by blast
  have g: "get_link listening_task 0 = Some listening_link" by (simp add: listening_task_def get_link_Some)
  have p: "?p = Top t"
    using t(1) g by (simp add: after_event_def handle_event_def handle_link_event_def handle_link_rx_def)
  have e: "link_emits buffer_sink 9 listening_link (Rx (LData ZERO) (Some [1, 2])) ?l"
    by (rule emit_rx [where item = "Some (Inr [1, 2])"])
      (simp_all add: listening_link_def sample_link_def link_new_def event_check_def check_tx_failed_def rx_item_def Let_def
        numeral_2_eq_2)
  have "hears no_hist ?ha (LData ZERO) (Some [1, 2]) {0}"
    by (rule hear_numbered [of 0 _ 0]) (simp_all add: seq_of_def ZERO_def no_hist_def)
  from ep_hear [OF _ g e this refl, of listening_wait list_mpsc] p t(3) listening_wait_ok(2)
  have "ep_step buffer_sink list_mpsc ?ha (Waiting listening_wait listening_task, no_hist)
      (Top t, record_step (Top t) {0} no_hist)" by (simp add: calm_def)
  then show ?thesis using t(2,4) by (auto simp: record_step_def no_hist_def pkts_def)
qed

theorem end_to_end_delivery_witness:
  "\<exists>ta tb. (pair_step buffer_sink list_mpsc)\<^sup>*\<^sup>*
       ((Waiting sending_wait sending_task, no_hist), (Waiting listening_wait listening_task, no_hist))
       ((Top ta, \<lparr>h_sent = [Data [1, 2]], h_heard = {}\<rparr>), (Top tb, \<lparr>h_sent = [], h_heard = {0}\<rparr>)) \<and>
     user_data tb = [[1, 2]]"
proof -
  let ?ha = "\<lparr>h_sent = [Data [1, 2]], h_heard = {}\<rparr>" and ?hb = "\<lparr>h_sent = [], h_heard = {0}\<rparr>"
  obtain ta where a: "ep_step buffer_sink list_mpsc no_hist (Waiting sending_wait sending_task, no_hist) (Top ta, ?ha)"
    using sending_step by blast
  obtain tb where b: "ep_step buffer_sink list_mpsc ?ha (Waiting listening_wait listening_task, no_hist) (Top tb, ?hb)"
    "read_tx tb" using listening_step by blast
  have "pair_step buffer_sink list_mpsc
      ((Waiting sending_wait sending_task, no_hist), (Waiting listening_wait listening_task, no_hist))
      ((Top ta, ?ha), (Waiting listening_wait listening_task, no_hist))" by (rule ps_left) (use a in simp)
  moreover have "pair_step buffer_sink list_mpsc ((Top ta, ?ha), (Waiting listening_wait listening_task, no_hist))
      ((Top ta, ?ha), (Top tb, ?hb))" by (rule ps_right) (use b(1) in simp)
  ultimately have run: "(pair_step buffer_sink list_mpsc)\<^sup>*\<^sup>*
      ((Waiting sending_wait sending_task, no_hist), (Waiting listening_wait listening_task, no_hist))
      ((Top ta, ?ha), (Top tb, ?hb))" by simp
  from end_to_end_delivery [OF this sending_pristine listening_pristine, of tb] b(2) have
    "\<exists>r. r \<notin> {0} \<and> user_data tb = payloads (take r [Data [1, 2]])" by auto
  then obtain r where r: "r \<noteq> 0" "user_data tb = payloads (take r [Data [1, 2]])" by auto
  then have "user_data tb = [[1, 2]]" by (cases r) auto
  then show ?thesis using run by blast
qed

end
