(* ===== verification/Task_Races.thy ===== *)
theory Task_Races
  imports Task_Reach
begin

text \<open>
  What the main loop does with values it has computed before waiting: the deadline of the oldest
  packet in flight, the acknowledgement of consumed data over a link that was idle, and the progress
  of the resend queue.
\<close>

section \<open>Idle links\<close>

lemma unconfirm_all_idle:
  assumes "tx_inv t" and "unconfirm_all now us t = Some t'" and "\<forall>(i, r) \<in> set us. get_link t i \<noteq> None"
  shows "idle_links t' = filter (\<lambda>j. j \<notin> fst ` set us) (idle_links t)"
  using assms
proof (induction us arbitrary: t)
  case (Cons x us)
  obtain i r where x: "x = (i, r)" by force
  obtain l where l: "get_link t i = Some l" using Cons.prems(3) x by auto
  obtain t1 where t1: "unconfirm_link now i r t = Some t1" "tx_moves t t1" "same_links t t1"
    "idle_links t1 = filter (\<lambda>j. j \<noteq> i) (idle_links t)"
    using unconfirm_link_ok [OF Cons.prems(1) l, of now r] by blast
  have "unconfirm_all now us t1 = Some t'" using Cons.prems(2) t1(1) x by simp
  moreover have "tx_inv t1" using t1(2) by (simp add: tx_moves_def)
  moreover have "\<forall>(i, r) \<in> set us. get_link t1 i \<noteq> None"
    using Cons.prems(3) same_links_None [OF t1(3)] by auto
  ultimately show ?case using Cons.IH t1(4) x by (auto intro: filter_cong)
qed simp

lemma links_over_limit_cong: "t_links t' = t_links t \<Longrightarrow> t_cfg t' = t_cfg t \<Longrightarrow> links_over_limit t' = links_over_limit t"
  by (simp add: links_over_limit_def ping_spread_limits_def)

lemma links_over_limit_links: "\<forall>(i, r) \<in> set (links_over_limit t). get_link t i \<noteq> None"
  by (auto simp: links_over_limit_def Let_def get_link_at enum_links_set split: if_splits option.splits)

lemma loop_top_cfg [simp]:
  "t_cfg (send_stats now t) = t_cfg t" "t_cfg (snd (check_closed now t)) = t_cfg t" "t_cfg (notify_flushed t) = t_cfg t"
  by (auto simp: send_stats_def check_closed_def notify_flushed_def Let_def split: option.split)

lemma notify_connected_cfg: "notify_connected now t = Some t' \<Longrightarrow> t_cfg t' = t_cfg t"
  by (auto simp: notify_connected_def bind_Some_iff split: if_splits)

text \<open>The links that are idle when the loop waits are those that were idle before and are within the limits.\<close>

lemma loop_top_idle:
  assumes ok: "task_ok t" and lt: "loop_top S M now t = Some (Inr w, t')"
  shows "idle_links t' = filter (\<lambda>j. j \<notin> fst ` set (links_over_limit t)) (idle_links t) \<and>
    w_idling w = (idle_links t \<noteq> []) \<and> w_consume_ack w = is_consume_ack_required t"
proof -
  define tc where "tc = snd (check_closed now (send_stats now t))"
  obtain td tf tg testing where top: "notify_connected now tc = Some td"
    "check_link_limits now (notify_flushed td) = Some tf" "adjust_link_tx_limits M now tf = Some tg"
    "link_testing_all S now [0..<length (t_links (snd (links_not_working_since now tg)))]
       (snd (links_not_working_since now tg)) = Some (testing, t')"
    and w: "w_idling w = (idle_links t \<noteq> [])" "w_consume_ack w = is_consume_ack_required t"
    using lt by (auto simp: loop_top_def Let_def tc_def bind_Some_iff split_beta split: if_splits)
  define th where "th = snd (links_not_working_since now tg)"
  have c1: "core_eq t tc" using core_eq_trans [of t "send_stats now t"] by (simp add: tc_def)
  have okc: "task_ok tc" by (rule task_moves_ok [OF task_moves_core [OF ok c1]])
  have c2: "core_eq tc td" using notify_connected_ok [OF okc, of now] top(1) by auto
  define te where "te = notify_flushed td"
  have ce: "core_eq t te" using c1 c2 core_eq_trans core_loop_top(3) unfolding te_def by blast
  have inv: "tx_inv te" using task_moves_ok [OF task_moves_core [OF ok ce]] by (simp add: task_ok_def)
  have "t_cfg te = t_cfg t" using notify_connected_cfg [OF top(1)] by (simp add: te_def tc_def)
  then have lim: "links_over_limit te = links_over_limit t"
    using ce by (intro links_over_limit_cong) (simp_all add: core_eq_def)
  have "idle_links tf = filter (\<lambda>j. j \<notin> fst ` set (links_over_limit te)) (idle_links te)"
    using unconfirm_all_idle [OF inv _ links_over_limit_links] top(2) by (simp add: check_link_limits_def te_def)
  moreover have "idle_links te = idle_links t" using ce by (simp add: core_eq_def)
  moreover have invf: "tx_inv tf" using check_link_limits_ok [OF inv, of now] top(2) by (auto simp: te_def tx_moves_def)
  moreover have "idle_links tg = idle_links tf" and invg: "tx_inv tg"
    using adjust_link_tx_limits_ok [OF invf, of M now] top(3) by (auto simp: tx_moves_def)
  moreover have cgh: "core_eq tg th" by (simp add: th_def)
  moreover have "tx_inv th" "idle_links th = idle_links tg"
    using invg cgh tx_moves_other [OF invg] by (auto simp: core_eq_def tx_inv_def intro: ready_inv_cong [THEN iffD2])
  moreover have "idle_links t' = idle_links th"
    using link_testing_all_ok [OF \<open>tx_inv th\<close>, of "[0..<length (t_links th)]" S now] top(4) by (auto simp: th_def)
  ultimately show ?thesis using w lim by simp
qed

section \<open>Deadlines\<close>

fun in_flight :: "sent_status \<Rightarrow> bool" where
  "in_flight (Sent _ _ _ _ _ _) \<longleftrightarrow> True"
| "in_flight _ \<longleftrightarrow> False"

lemma confirm_timeout_loop_skip:
  assumes "\<forall>q \<in> set pre. q < length (t_store t) \<and> \<not> in_flight (sr_status (t_store t ! q))"
  shows "confirm_timeout_loop t (pre @ ps) = confirm_timeout_loop t ps"
  using assms
proof (induction pre)
  case (Cons q pre)
  then show ?case by (cases "sr_status (t_store t ! q)") (auto simp: nth_opt_def)
qed simp

section \<open>Concrete tasks\<close>

text \<open>A task with a packet to resend and a second link that is idle.\<close>

definition resend_task :: "(bytes list, send_req list) task" where
  "resend_task = (task_new 0 default_cfg (Some \<lparr>x_recv_buffer = 1000\<rparr>) (ConnId 1) Outgoing [] [])
     \<lparr>t_links := [Some (sample_link (LinkId 7)), Some ((sample_link (LinkId 8))\<lparr>lk_tx_polling := None\<rparr>)],
      t_store := [\<lparr>sr_seq = ZERO, sr_status = ResendQueued (Data [1, 2]) (LinkId 7)\<rparr>],
      t_txed_packets := [0], resend_queue := [0], t_txed_unacked := 2, txed_unconsumed := 2, tx_seq := seq_of 1,
      idle_links := [1]\<rparr>"

definition resend_wait :: wait where
  "resend_wait = \<lparr>w_consume_ack = False, w_seq_avail = True, w_space = 0, w_resending = True, w_idling = True,
     w_no_link_since = None, w_next_ping = None, w_pong = None, w_unconfirmed = None, w_send = None,
     w_testing = None, w_confirm = None, w_sendable = Some 1, w_resendable = Some 1,
     w_non_resendable = Some (LinkId 7)\<rparr>"

lemma resend_task_ok: "task_ok resend_task"
proof -
  have "x = 0 \<or> 0 < x" for x :: nat by auto
  then show ?thesis
    by (auto simp: task_ok_def tx_inv_def ledger_inv_def ready_inv_def ready_link_def rx_inv_def resend_task_def
        task_new_def tally_def sample_link_def link_new_def tx_ok_def tx_idle_def get_link_Some pkts_def
        seqs_def seq_of_def ZERO_def less_Suc_eq nth_Cons')
qed

lemma resend_wait_ok: "wait_ok resend_wait resend_task"
  by (simp add: wait_ok_def resend_wait_def resend_task_def get_link_Some front_link_def sample_link_def link_new_def)

text \<open>A task that has consumed data to acknowledge, whose idle link is slow and whose other link is fast.\<close>

definition race_cfg :: cfg where
  "race_cfg = default_cfg\<lparr>cfg_link := default_link_cfg\<lparr>max_ping := Some 100\<rparr>\<rparr>"

definition race_link :: "link_id \<Rightarrow> duration \<Rightarrow> bytes list link_int" where
  "race_link lid rt = (link_new lid 0 (ConnId 1) [] race_cfg \<lparr>x_recv_buffer = 1000\<rparr> None Outgoing rt [])
     \<lparr>lk_unconfirmed := None\<rparr>"

definition race_task :: "(bytes list, send_req list) task" where
  "race_task = (task_new 0 race_cfg (Some \<lparr>x_recv_buffer = 1000\<rparr>) (ConnId 1) Outgoing [] [])
     \<lparr>t_links := [Some ((race_link (LinkId 7) 200)\<lparr>lk_tx_polling := None\<rparr>), Some (race_link (LinkId 8) 5)],
      idle_links := [0], consumed_since_last_ack := unat (recv_buffer race_cfg)\<rparr>"

lemma race_task_ok: "task_ok race_task"
  by (auto simp: task_ok_def tx_inv_def ledger_inv_def ready_inv_def ready_link_def rx_inv_def race_task_def
      task_new_def tally_def race_link_def link_new_def tx_ok_def tx_idle_def get_link_Some pkts_def
      seqs_def seq_of_def ZERO_def less_Suc_eq nth_Cons')

section \<open>Properties\<close>

text \<open>
  C26. The deadline for acknowledgements is that of the oldest packet in flight: it is counted from
  when the packet was flushed (or sent, if it was not) and is at least the minimum and at most the
  maximum timeout configured for its link.  If the minimum is greater than the maximum, computing it
  panics.
\<close>

theorem oldest_packet_deadline:
  assumes inv: "tx_inv t" and q: "t_txed_packets t = pre @ p # post"
    and pre: "\<forall>q \<in> set pre. \<not> in_flight (sr_status (t_store t ! q))"
    and p: "sr_status (t_store t ! p) = Sent sent flushed i lid m resent" and l: "get_link t i = Some l"
  shows "if ack_timeout_min (lcfg l) \<le> ack_timeout_max (lcfg l)
    then \<exists>d. earliest_confirm_timeout t = Some (Some (i, d, flushed \<noteq> None)) \<and>
      case_option sent id flushed + ack_timeout_min (lcfg l) \<le> d \<and>
      d \<le> case_option sent id flushed + ack_timeout_max (lcfg l)
    else earliest_confirm_timeout t = None"
proof -
  have "\<forall>q \<in> set (t_txed_packets t). q < length (t_store t)" using tx_inv_packet [OF inv] by blast
  then have len: "\<forall>q \<in> set pre. q < length (t_store t)" "p < length (t_store t)" using q by auto
  have "confirm_timeout_loop t (pre @ p # post) = confirm_timeout_loop t (p # post)"
    by (rule confirm_timeout_loop_skip) (use len pre in blast)
  with len(2) show ?thesis using q p l
    by (auto simp: earliest_confirm_timeout_def nth_opt_def confirm_duration_def clamp_def assert_that_def Let_def
        split: option.split)
qed

theorem oldest_packet_deadline_witness:
  "\<exists>d. earliest_confirm_timeout busy_task = Some (Some (0, d, False)) \<and> 1 + from_secs 1 \<le> d \<and> d \<le> 1 + from_secs 30"
proof -
  have inv: "tx_inv busy_task" using busy_task_ok by (simp add: task_ok_def)
  have l: "get_link busy_task 0 = Some ((sample_link (LinkId 7))\<lparr>txed_unacked_data := 2\<rparr>)"
    by (simp add: busy_task_def get_link_Some)
  from oldest_packet_deadline [OF inv _ _ _ l, of "[]" 0 "[]" 1 None "LinkId 7" "Data [1, 2]" False] show ?thesis
    by (simp add: busy_task_def lcfg_def sample_link_def link_new_def default_cfg_def default_link_cfg_def
        from_secs_def)
qed



text \<open>
  C25. The acknowledgement of consumed data can panic the task: the loop notes that links are idle before
  it checks the limits of the links.  If every idle link then exceeds its ping limit, none is idle any
  more when the consumed data is to be acknowledged over an idle link.
\<close>

theorem consumed_ack_race:
  assumes ok: "task_ok t" and lt: "loop_top S M now t = Some (Inr w, t')"
    and ack: "is_consume_ack_required t" and idle: "idle_links t \<noteq> []"
    and slow: "\<forall>i \<in> set (idle_links t). (i, MaxPingExceeded) \<in> set (links_over_limit t)"
  shows "task_step S M (Waiting w t') Panicked"
proof -
  have "fst (i, MaxPingExceeded) \<in> fst ` set (links_over_limit t)" if "i \<in> set (idle_links t)" for i
    using slow that by (intro imageI) blast
  then have "idle_links t' = []" "w_idling w" "w_consume_ack w"
    using loop_top_idle [OF ok lt] ack idle by (auto simp: filter_empty_conv)
  moreover from this have "write_task M w t' = Some (Some SendConsumed, t')" by (simp add: write_task_def)
  from st_event [OF em_write [OF this], of S now] calculation show ?thesis
    by (simp add: handle_event_def send_consumed_def assert_that_def continue_def after_event_def)
qed

theorem consumed_ack_race_witness:
  "\<exists>w t'. loop_top buffer_sink list_mpsc 10 race_task = Some (Inr w, t') \<and>
     task_step buffer_sink list_mpsc (Waiting w t') Panicked"
proof -
  have "timeouts_ordered race_task"
    by (auto simp: timeouts_ordered_def race_task_def get_link_Some race_link_def link_new_def lcfg_def race_cfg_def
        default_link_cfg_def from_secs_def nth_Cons' split: if_splits)
  moreover have "read_tx race_task" "links_available race_task"
    by (simp_all add: race_task_def task_new_def links_available_def)
  ultimately obtain w t' where lt: "loop_top buffer_sink list_mpsc 10 race_task = Some (Inr w, t')"
    using loop_top_waits [OF race_task_ok] by blast
  have "is_consume_ack_required race_task"
    by (simp add: is_consume_ack_required_def race_task_def task_new_def race_cfg_def default_cfg_def)
  moreover have "(0, MaxPingExceeded) \<in> set (links_over_limit race_task)"
    by (simp add: links_over_limit_def Let_def race_task_def enum_links_def race_link_def link_new_def lcfg_def
        race_cfg_def opt_all_def is_blocked_def)
  moreover have "idle_links race_task = [0]" by (simp add: race_task_def)
  ultimately show ?thesis using consumed_ack_race [OF race_task_ok lt] lt by auto
qed

end
