(* ===== verification/Alc.thy ===== *)
theory Alc
  imports Task_State
begin

text \<open>
  The handles through which the user sends and receives (\<open>aggligator/src/alc\<close>): the sender and its
  sink, the receiver and its stream, and the channel they are made from.

  The channels of \<open>tokio\<close> behind the sending handle are a state of type \<open>'w\<close> with its operations in
  the record \<open>sender_env\<close>; what the handles rely on is the predicate \<open>sender_law\<close>.  The receiving
  queue is the one of theory \<open>Peekable\<close>.  The current value of the watch channel that holds the
  receive error is an argument.
\<close>

section \<open>The environment of the sending half\<close>

text \<open>
  A poll gives \<open>None\<close> while it is pending.  \<open>se_send\<close> and \<open>se_recv_oneshot\<close> are the outcomes of
  awaiting \<open>mpsc::Sender::send\<close> and a one-shot receiver.  Starting to send through a
  \<open>PollSender\<close> that has not reserved a place is a panic.
\<close>

record 'w sender_env =
  se_send :: "'w \<Rightarrow> send_req \<Rightarrow> (unit + unit) \<times> 'w"
  se_tx_is_closed :: "'w \<Rightarrow> bool"
  se_poll_ready :: "'w \<Rightarrow> (unit + unit) option \<times> 'w"
  se_start_send :: "'w \<Rightarrow> send_req \<Rightarrow> ((unit + unit) \<times> 'w) option"
  se_is_closed :: "'w \<Rightarrow> bool"
  se_poll_close :: "'w \<Rightarrow> (unit + unit) option \<times> 'w"
  se_oneshot :: "'w \<Rightarrow> nat \<times> 'w"
  se_recv_oneshot :: "'w \<Rightarrow> nat \<Rightarrow> (unit + unit) \<times> 'w"
  se_poll_oneshot :: "'w \<Rightarrow> nat \<Rightarrow> (unit + unit) option \<times> 'w"
  se_error :: "'w \<Rightarrow> send_error"

text \<open>
  What \<open>tokio_util::sync::PollSender\<close> and the one-shot channel document, for the requests that were
  put into the queue so far (\<open>sent\<close>) and the presence of a reserved place (\<open>reserved\<close>).
\<close>

definition sender_law :: "'w sender_env \<Rightarrow> ('w \<Rightarrow> send_req list) \<Rightarrow> ('w \<Rightarrow> bool) \<Rightarrow> bool" where
  "sender_law E sent reserved \<longleftrightarrow>
     (\<forall>w r w'. se_poll_ready E w = (r, w') \<longrightarrow> sent w' = sent w \<and> (r = Some (Inr ()) \<longrightarrow> reserved w')) \<and>
     (\<forall>w q. reserved w \<longrightarrow> (\<exists>r w'. se_start_send E w q = Some (r, w') \<and>
        sent w' = (case r of Inr _ \<Rightarrow> sent w @ [q] | Inl _ \<Rightarrow> sent w))) \<and>
     (\<forall>w r w'. se_poll_close E w = (r, w') \<longrightarrow> sent w' = sent w \<and> r \<noteq> Some (Inl ())) \<and>
     (\<forall>w i w'. se_oneshot E w = (i, w') \<longrightarrow> sent w' = sent w \<and> reserved w' = reserved w) \<and>
     (\<forall>w i r w'. se_poll_oneshot E w i = (r, w') \<longrightarrow> sent w' = sent w)"

section \<open>Sender\<close>

definition max_send_size :: "exchanged_cfg \<Rightarrow> usize" where
  "max_send_size rc = max (unat (x_recv_buffer rc) div 2) 2 - 1"

record sender =
  sn_cfg :: cfg
  sn_remote_cfg :: exchanged_cfg
  sn_conn_id :: conn_id

definition sender_new :: "cfg \<Rightarrow> exchanged_cfg \<Rightarrow> conn_id \<Rightarrow> sender" where
  "sender_new c rc i = \<lparr>sn_cfg = c, sn_remote_cfg = rc, sn_conn_id = i\<rparr>"

definition sender_max_size :: "sender \<Rightarrow> usize" where
  "sender_max_size s = max_send_size (sn_remote_cfg s)"

definition sender_send ::
  "'w sender_env \<Rightarrow> sender \<Rightarrow> bytes \<Rightarrow> 'w \<Rightarrow> (send_error + unit) \<times> 'w" where
  "sender_send E s data w =
     (if length data > sender_max_size s then (Inl SDataTooBig, w)
      else
        (case se_send E w (SendData data) of
           (Inl _, w) \<Rightarrow> (Inl (se_error E w), w)
         | (Inr _, w) \<Rightarrow> (Inr (), w)))"

definition sender_flush :: "'w sender_env \<Rightarrow> sender \<Rightarrow> 'w \<Rightarrow> (send_error + unit) \<times> 'w" where
  "sender_flush E s w =
     (if ignore_flush (sn_cfg s) then
        (if se_tx_is_closed E w then (Inl (se_error E w), w) else (Inr (), w))
      else
        (case se_oneshot E w of (r, w) \<Rightarrow>
           (case se_send E w (FlushReq r) of
              (Inl _, w) \<Rightarrow> (Inl (se_error E w), w)
            | (Inr _, w) \<Rightarrow>
                (case se_recv_oneshot E w r of
                   (Inl _, w) \<Rightarrow> (Inl (se_error E w), w)
                 | (Inr _, w) \<Rightarrow> (Inr (), w)))))"

section \<open>Sink\<close>

record sender_sink =
  ss_cfg :: cfg
  ss_remote_cfg :: exchanged_cfg
  ss_conn_id :: conn_id
  flushed_rx :: "nat option"
  ss_closed :: bool

definition into_sink :: "sender \<Rightarrow> sender_sink" where
  "into_sink s = \<lparr>ss_cfg = sn_cfg s, ss_remote_cfg = sn_remote_cfg s, ss_conn_id = sn_conn_id s,
     flushed_rx = None, ss_closed = False\<rparr>"

definition sink_max_size :: "sender_sink \<Rightarrow> usize" where
  "sink_max_size s = max_send_size (ss_remote_cfg s)"

text \<open>A result of the environment with its error replaced by the published send error.\<close>

definition map_tx_err :: "'w sender_env \<Rightarrow> 'w \<Rightarrow> unit + unit \<Rightarrow> send_error + unit" where
  "map_tx_err E w r = (case r of Inl _ \<Rightarrow> Inl (se_error E w) | Inr _ \<Rightarrow> Inr ())"

definition sink_poll_tx ::
  "'w sender_env \<Rightarrow> sender_sink \<times> 'w \<Rightarrow> (send_error + unit) option \<times> sender_sink \<times> 'w" where
  "sink_poll_tx E = (\<lambda>(s, w).
     case se_poll_ready E w of (r, w) \<Rightarrow> (map_option (map_tx_err E w) r, s, w))"

definition sink_poll_ready ::
  "'w sender_env \<Rightarrow> sender_sink \<times> 'w \<Rightarrow> (send_error + unit) option \<times> sender_sink \<times> 'w" where
  "sink_poll_ready E = (\<lambda>(s, w).
     if ss_closed s then (Some (Inl SShutdown), s, w)
     else
       (case flushed_rx s of
          None \<Rightarrow> sink_poll_tx E (s, w)
        | Some r \<Rightarrow>
            (case se_poll_oneshot E w r of
               (None, w) \<Rightarrow> (None, s, w)
             | (Some (Inl _), w) \<Rightarrow> (Some (Inl (se_error E w)), s\<lparr>flushed_rx := None\<rparr>, w)
             | (Some (Inr _), w) \<Rightarrow> sink_poll_tx E (s\<lparr>flushed_rx := None\<rparr>, w))))"

definition sink_start_send ::
  "'w sender_env \<Rightarrow> bytes \<Rightarrow> sender_sink \<times> 'w \<Rightarrow> ((send_error + unit) \<times> sender_sink \<times> 'w) option" where
  "sink_start_send E item = (\<lambda>(s, w).
     if ss_closed s then Some (Inl SShutdown, s, w)
     else if length item > sink_max_size s then Some (Inl SDataTooBig, s, w)
     else do {
       (r, w) \<leftarrow> se_start_send E w (SendData item);
       Some (map_tx_err E w r, s, w)
     })"

text \<open>The last part of \<open>poll_flush\<close>; the \<open>unwrap\<close> of the one-shot receiver is a panic.\<close>

definition sink_await_flushed ::
  "'w sender_env \<Rightarrow> sender_sink \<times> 'w \<Rightarrow> ((send_error + unit) option \<times> sender_sink \<times> 'w) option" where
  "sink_await_flushed E = (\<lambda>(s, w). do {
     r \<leftarrow> flushed_rx s;
     (case se_poll_oneshot E w r of
        (None, w) \<Rightarrow> Some (None, s, w)
      | (Some res, w) \<Rightarrow> Some (Some (map_tx_err E w res), s\<lparr>flushed_rx := None\<rparr>, w))
   })"

definition sink_poll_flush ::
  "'w sender_env \<Rightarrow> sender_sink \<times> 'w \<Rightarrow> ((send_error + unit) option \<times> sender_sink \<times> 'w) option" where
  "sink_poll_flush E = (\<lambda>(s, w).
     if ss_closed s then Some (Some (Inr ()), s, w)
     else if ignore_flush (ss_cfg s) then
       Some (Some (if se_is_closed E w then Inl (se_error E w) else Inr ()), s, w)
     else if flushed_rx s = None then
       (case se_poll_ready E w of
          (None, w) \<Rightarrow> Some (None, s, w)
        | (Some (Inl _), w) \<Rightarrow> Some (Some (Inl (se_error E w)), s, w)
        | (Some (Inr _), w) \<Rightarrow>
            (case se_oneshot E w of (r, w) \<Rightarrow> do {
               (res, w) \<leftarrow> se_start_send E w (FlushReq r);
               (case res of
                  Inl _ \<Rightarrow> Some (Some (Inl (se_error E w)), s, w)
                | Inr _ \<Rightarrow> sink_await_flushed E (s\<lparr>flushed_rx := Some r\<rparr>, w))
             }))
     else sink_await_flushed E (s, w))"

definition sink_poll_close ::
  "'w sender_env \<Rightarrow> sender_sink \<times> 'w \<Rightarrow> ((send_error + unit) option \<times> sender_sink \<times> 'w) option" where
  "sink_poll_close E = (\<lambda>(s, w).
     if ss_closed s then Some (Some (Inr ()), s, w)
     else do {
       (r, s, w) \<leftarrow> sink_poll_flush E (s, w);
       (case r of
          None \<Rightarrow> Some (None, s, w)
        | Some (Inl e) \<Rightarrow> Some (Some (Inl e), s, w)
        | Some (Inr _) \<Rightarrow>
            (case se_poll_close E w of
               (None, w) \<Rightarrow> Some (None, s, w)
             | (Some (Inl _), w) \<Rightarrow> None
             | (Some (Inr _), w) \<Rightarrow> Some (Some (Inr ()), s\<lparr>ss_closed := True\<rparr>, w)))
     })"

definition max_packet_size :: "sender_sink \<Rightarrow> usize" where
  "max_packet_size s = min (io_write_size (ss_cfg s)) (unat (x_recv_buffer (ss_remote_cfg s)))"

definition poll_write ::
  "'w sender_env \<Rightarrow> bytes \<Rightarrow> sender_sink \<times> 'w \<Rightarrow> (usize io_result option \<times> sender_sink \<times> 'w) option" where
  "poll_write E buf sw =
     (case sink_poll_ready E sw of
        (None, sw) \<Rightarrow> Some (None, sw)
      | (Some (Inl e), sw) \<Rightarrow> Some (Some (Inl (send_error_to_io e)), sw)
      | (Some (Inr _), sw) \<Rightarrow>
          (let len = min (length buf) (max_packet_size (fst sw)) in do {
             (r, sw) \<leftarrow> sink_start_send E (take len buf) sw;
             (case r of
                Inl e \<Rightarrow> Some (Some (Inl (send_error_to_io e)), sw)
              | Inr _ \<Rightarrow> Some (Some (Inr len), sw))
           }))"

definition to_io :: "(send_error + unit) option \<Rightarrow> unit io_result option" where
  "to_io = map_option (map_sum send_error_to_io id)"

definition poll_flush_io ::
  "'w sender_env \<Rightarrow> sender_sink \<times> 'w \<Rightarrow> (unit io_result option \<times> sender_sink \<times> 'w) option" where
  "poll_flush_io E sw = map_option (\<lambda>(r, sw). (to_io r, sw)) (sink_poll_flush E sw)"

definition poll_shutdown ::
  "'w sender_env \<Rightarrow> sender_sink \<times> 'w \<Rightarrow> (unit io_result option \<times> sender_sink \<times> 'w) option" where
  "poll_shutdown E sw = map_option (\<lambda>(r, sw). (to_io r, sw)) (sink_poll_close E sw)"

section \<open>Receiver\<close>

record ('rx, 'ct) receiver =
  rc_conn_id :: conn_id
  rc_rx :: 'rx
  rc_closed_tx :: 'ct

definition receiver_new :: "conn_id \<Rightarrow> 'rx \<Rightarrow> 'ct \<Rightarrow> ('rx, 'ct) receiver" where
  "receiver_new i rx ct = \<lparr>rc_conn_id = i, rc_rx = rx, rc_closed_tx = ct\<rparr>"

text \<open>One poll; the future of \<open>recv\<close> is polled in the same way.\<close>

definition poll_recv ::
  "(bytes, 'rx) mpsc \<Rightarrow> recv_error option \<Rightarrow> ('rx, 'ct) receiver \<Rightarrow>
   (recv_error + bytes option) option \<times> ('rx, 'ct) receiver" where
  "poll_recv M err r =
     (case mp_poll_recv M (rc_rx r) of
        (None, rx) \<Rightarrow> (None, r\<lparr>rc_rx := rx\<rparr>)
      | (Some (Some data), rx) \<Rightarrow> (Some (Inr (Some data)), r\<lparr>rc_rx := rx\<rparr>)
      | (Some None, rx) \<Rightarrow>
          (case err of
             None \<Rightarrow> (Some (Inr None), r\<lparr>rc_rx := rx\<rparr>)
           | Some e \<Rightarrow> (Some (Inl e), r\<lparr>rc_rx := rx\<rparr>)))"

text \<open>The result of \<open>try_send\<close> is ignored, so closing is the state after it.\<close>

definition receiver_close :: "('ct \<Rightarrow> 'ct) \<Rightarrow> ('rx, 'ct) receiver \<Rightarrow> ('rx, 'ct) receiver" where
  "receiver_close try_send r = r\<lparr>rc_closed_tx := try_send (rc_closed_tx r)\<rparr>"

record ('rx, 'ct) receiver_stream =
  rs_receiver :: "('rx, 'ct) receiver"
  rs_buf :: bytes

definition receiver_into_stream :: "('rx, 'ct) receiver \<Rightarrow> ('rx, 'ct) receiver_stream" where
  "receiver_into_stream r = \<lparr>rs_receiver = r, rs_buf = []\<rparr>"

definition stream_close :: "('ct \<Rightarrow> 'ct) \<Rightarrow> ('rx, 'ct) receiver_stream \<Rightarrow> ('rx, 'ct) receiver_stream" where
  "stream_close try_send s = s\<lparr>rs_receiver := receiver_close try_send (rs_receiver s)\<rparr>"

fun transpose :: "recv_error + bytes option \<Rightarrow> (recv_error + bytes) option" where
  "transpose (Inr (Some d)) = Some (Inr d)"
| "transpose (Inr None) = None"
| "transpose (Inl e) = Some (Inl e)"

definition poll_next ::
  "(bytes, 'rx) mpsc \<Rightarrow> recv_error option \<Rightarrow> ('rx, 'ct) receiver_stream \<Rightarrow>
   (recv_error + bytes) option option \<times> ('rx, 'ct) receiver_stream" where
  "poll_next M err s =
     (if rs_buf s \<noteq> [] then (Some (Some (Inr (rs_buf s))), s\<lparr>rs_buf := []\<rparr>)
      else
        (case poll_recv M err (rs_receiver s) of
           (r, rc) \<Rightarrow> (map_option transpose r, s\<lparr>rs_receiver := rc\<rparr>)))"

text \<open>The bytes put into a buffer with \<open>n\<close> bytes remaining.\<close>

definition take_buffered ::
  "usize \<Rightarrow> ('rx, 'ct) receiver_stream \<Rightarrow> bytes \<times> ('rx, 'ct) receiver_stream" where
  "take_buffered n s =
     (let len = min n (length (rs_buf s)) in (take len (rs_buf s), s\<lparr>rs_buf := drop len (rs_buf s)\<rparr>))"

definition poll_read ::
  "(bytes, 'rx) mpsc \<Rightarrow> recv_error option \<Rightarrow> usize \<Rightarrow> ('rx, 'ct) receiver_stream \<Rightarrow>
   bytes io_result option \<times> ('rx, 'ct) receiver_stream" where
  "poll_read M err n s =
     (if rs_buf s = [] then
        (case poll_recv M err (rs_receiver s) of
           (None, rc) \<Rightarrow> (None, s\<lparr>rs_receiver := rc\<rparr>)
         | (Some (Inl e), rc) \<Rightarrow> (Some (Inl (recv_error_to_io e)), s\<lparr>rs_receiver := rc\<rparr>)
         | (Some (Inr (Some data)), rc) \<Rightarrow>
             (case take_buffered n (s\<lparr>rs_receiver := rc, rs_buf := data\<rparr>) of (bs, s) \<Rightarrow> (Some (Inr bs), s))
         | (Some (Inr None), rc) \<Rightarrow>
             (case take_buffered n (s\<lparr>rs_receiver := rc\<rparr>) of (bs, s) \<Rightarrow> (Some (Inr bs), s)))
      else (case take_buffered n s of (bs, s) \<Rightarrow> (Some (Inr bs), s)))"

section \<open>Channel\<close>

record ('rx, 'ct) channel =
  ch_cfg :: cfg
  ch_remote_cfg :: "exchanged_cfg option"
  ch_conn_id :: conn_id
  ch_rx :: 'rx
  ch_rx_closed :: 'ct

definition channel_new ::
  "cfg \<Rightarrow> exchanged_cfg option \<Rightarrow> conn_id \<Rightarrow> 'rx \<Rightarrow> 'ct \<Rightarrow> ('rx, 'ct) channel" where
  "channel_new c rc i rx ct =
     \<lparr>ch_cfg = c, ch_remote_cfg = rc, ch_conn_id = i, ch_rx = rx, ch_rx_closed = ct\<rparr>"

definition set_remote_cfg :: "exchanged_cfg \<Rightarrow> ('rx, 'ct) channel \<Rightarrow> ('rx, 'ct) channel option" where
  "set_remote_cfg rc c = do {
     _ \<leftarrow> assert_that (ch_remote_cfg c = None);
     Some (c\<lparr>ch_remote_cfg := Some rc\<rparr>)
   }"

definition into_tx_rx :: "('rx, 'ct) channel \<Rightarrow> (sender \<times> ('rx, 'ct) receiver) option" where
  "into_tx_rx c = do {
     rc \<leftarrow> ch_remote_cfg c;
     Some (sender_new (ch_cfg c) rc (ch_conn_id c), receiver_new (ch_conn_id c) (ch_rx c) (ch_rx_closed c))
   }"

record ('rx, 'ct) stream =
  st_tx :: sender_sink
  st_rx :: "('rx, 'ct) receiver_stream"

definition channel_into_stream :: "('rx, 'ct) channel \<Rightarrow> ('rx, 'ct) stream option" where
  "channel_into_stream c = do {
     (tx, rx) \<leftarrow> into_tx_rx c;
     Some \<lparr>st_tx = into_sink tx, st_rx = receiver_into_stream rx\<rparr>
   }"

definition into_split :: "('rx, 'ct) stream \<Rightarrow> ('rx, 'ct) receiver_stream \<times> sender_sink" where
  "into_split s = (st_rx s, st_tx s)"

section \<open>Use of the sink\<close>

lemma min_nat_zero: "min a b = (0::nat) \<longleftrightarrow> a = 0 \<or> b = 0"
  by (auto simp: min_def)

text \<open>
  A user writes, flushes and shuts down in any order; in between the state of the queue changes
  (\<open>Elsewhere\<close>) because the task takes requests and answers them.  A run gives the bytes that the
  writes reported as accepted.
\<close>

datatype 'w sink_op = Write bytes | Flush | Shutdown | Elsewhere "'w \<Rightarrow> 'w"

fun sink_op_run :: "'w sender_env \<Rightarrow> 'w sink_op \<Rightarrow> sender_sink \<times> 'w \<Rightarrow> (bytes \<times> sender_sink \<times> 'w) option" where
  "sink_op_run E (Write buf) sw =
     map_option (\<lambda>(r, sw). (case r of Some (Inr n) \<Rightarrow> take n buf | _ \<Rightarrow> [], sw)) (poll_write E buf sw)"
| "sink_op_run E Flush sw = map_option (\<lambda>(r, sw). ([], sw)) (poll_flush_io E sw)"
| "sink_op_run E Shutdown sw = map_option (\<lambda>(r, sw). ([], sw)) (poll_shutdown E sw)"
| "sink_op_run E (Elsewhere f) (s, w) = Some ([], s, f w)"

fun sink_run :: "'w sender_env \<Rightarrow> 'w sink_op list \<Rightarrow> sender_sink \<times> 'w \<Rightarrow> (bytes \<times> sender_sink \<times> 'w) option" where
  "sink_run E [] sw = Some ([], sw)"
| "sink_run E (op # ops) sw = do {
     (acc, sw) \<leftarrow> sink_op_run E op sw;
     (acc', sw) \<leftarrow> sink_run E ops sw;
     Some (acc @ acc', sw)
   }"

fun packets :: "send_req list \<Rightarrow> bytes list" where
  "packets [] = []"
| "packets (SendData d # qs) = d # packets qs"
| "packets (FlushReq i # qs) = packets qs"

lemma packets_append [simp]: "packets (a @ b) = packets a @ packets b"
  by (induction a rule: packets.induct) auto

definition quiet :: "('w \<Rightarrow> send_req list) \<Rightarrow> 'w sink_op \<Rightarrow> bool" where
  "quiet sent op \<longleftrightarrow> (\<forall>f. op = Elsewhere f \<longrightarrow> (\<forall>w. sent (f w) = sent w))"

text \<open>A flush that is not yet answered is the last request in the queue.\<close>

definition flush_last :: "('w \<Rightarrow> send_req list) \<Rightarrow> sender_sink \<times> 'w \<Rightarrow> bool" where
  "flush_last sent = (\<lambda>(s, w). \<forall>i. flushed_rx s = Some i \<longrightarrow> (\<exists>qs. sent w = qs @ [FlushReq i]))"

definition same_sink :: "sender_sink \<Rightarrow> sender_sink \<Rightarrow> bool" where
  "same_sink s s' \<longleftrightarrow> ss_cfg s' = ss_cfg s \<and> ss_remote_cfg s' = ss_remote_cfg s \<and> (ss_closed s \<longrightarrow> s' = s)"

lemma same_sink_refl [simp]: "same_sink s s"
  by (simp add: same_sink_def)

lemma same_sink_trans: "same_sink a b \<Longrightarrow> same_sink b c \<Longrightarrow> same_sink a c"
  by (auto simp: same_sink_def)

lemma sender_law_ready:
  "sender_law E sent rsv \<Longrightarrow> se_poll_ready E w = (r, w') \<Longrightarrow>
     sent w' = sent w \<and> (r = Some (Inr ()) \<longrightarrow> rsv w')"
  by (auto simp: sender_law_def)

lemma sender_law_send:
  assumes "sender_law E sent rsv" and "rsv w"
  obtains r w' where "se_start_send E w q = Some (r, w')"
    "sent w' = (case r of Inr _ \<Rightarrow> sent w @ [q] | Inl _ \<Rightarrow> sent w)"
  using assms unfolding sender_law_def by blast

lemma sender_law_rest:
  "sender_law E sent rsv \<Longrightarrow> se_poll_close E w = (r, w') \<Longrightarrow> sent w' = sent w \<and> r \<noteq> Some (Inl ())"
  "sender_law E sent rsv \<Longrightarrow> se_oneshot E w = (i, w') \<Longrightarrow> sent w' = sent w \<and> rsv w' = rsv w"
  "sender_law E sent rsv \<Longrightarrow> se_poll_oneshot E w i = (r, w') \<Longrightarrow> sent w' = sent w"
  by (simp_all add: sender_law_def)

lemma sink_poll_ready_ok:
  assumes law: "sender_law E sent rsv" and res: "sink_poll_ready E (s, w) = (r, s', w')"
  shows "sent w' = sent w \<and> same_sink s s' \<and> (ss_closed s' \<longleftrightarrow> ss_closed s) \<and>
    (flushed_rx s' = None \<or> s' = s) \<and>
    (r = Some (Inr ()) \<longrightarrow> rsv w' \<and> flushed_rx s' = None \<and> \<not> ss_closed s)"
  using res sender_law_ready [OF law] sender_law_rest(3) [OF law]
  by (auto simp: sink_poll_ready_def sink_poll_tx_def same_sink_def map_tx_err_def
      split: if_splits option.splits prod.splits sum.splits)

lemma sink_start_send_ok:
  assumes law: "sender_law E sent rsv" and "rsv w" and "\<not> ss_closed s"
  shows "\<exists>r w'. sink_start_send E d (s, w) = Some (r, s, w') \<and>
    sent w' = sent w @ (if r = Inr () then [SendData d] else []) \<and>
    (r = Inr () \<longrightarrow> length d \<le> sink_max_size s)"
proof -
  obtain r w' where "se_start_send E w (SendData d) = Some (r, w')"
    "sent w' = (case r of Inr _ \<Rightarrow> sent w @ [SendData d] | Inl _ \<Rightarrow> sent w)"
    by (rule sender_law_send [OF law \<open>rsv w\<close>, of "SendData d"])
  then show ?thesis using assms(3)
    by (auto simp: sink_start_send_def map_tx_err_def split: sum.splits)
qed

lemma sink_await_flushed_ok:
  assumes law: "sender_law E sent rsv" and fl: "flushed_rx s = Some i" and op: "\<not> ss_closed s"
  shows "\<exists>r s' w'. sink_await_flushed E (s, w) = Some (r, s', w') \<and> sent w' = sent w \<and> same_sink s s' \<and>
    ss_closed s' = ss_closed s \<and> (flushed_rx s' = None \<or> s' = s)"
  using fl op sender_law_rest(3) [OF law, of w i]
  by (auto simp: sink_await_flushed_def same_sink_def split: prod.split option.split)

lemma sink_poll_flush_ok:
  assumes law: "sender_law E sent rsv" and fl: "flush_last sent (s, w)"
  shows "\<exists>r s' w' qs. sink_poll_flush E (s, w) = Some (r, s', w') \<and> sent w' = sent w @ qs \<and>
    packets qs = [] \<and> same_sink s s' \<and> ss_closed s' = ss_closed s \<and> flush_last sent (s', w') \<and>
    (ss_closed s \<longrightarrow> qs = [])"
proof (cases "ss_closed s \<or> ignore_flush (ss_cfg s)")
  case True
  then show ?thesis using fl
    by (intro exI [of _ "Some (if ss_closed s \<or> \<not> se_is_closed E w then Inr () else Inl (se_error E w))"]
        exI [of _ s] exI [of _ w] exI [of _ "[]"]) (auto simp: sink_poll_flush_def)
next
  case False
  show ?thesis
  proof (cases "flushed_rx s")
    case (Some i)
    obtain r s' w' where a: "sink_await_flushed E (s, w) = Some (r, s', w')" "sent w' = sent w"
      "same_sink s s'" "ss_closed s' = ss_closed s" "flushed_rx s' = None \<or> s' = s"
      using sink_await_flushed_ok [OF law Some, of w] False by blast
    have "flush_last sent (s', w')" using a fl by (auto simp: flush_last_def)
    then show ?thesis using a False Some by (intro exI conjI) (auto simp: sink_poll_flush_def)
  next
    case None
    obtain r w1 where p: "se_poll_ready E w = (r, w1)" by force
    note pr = sender_law_ready [OF law p]
    show ?thesis
    proof (cases "r = Some (Inr ())")
      case False': False
      then show ?thesis using pr p False None
        by (intro exI [of _ "map_option (map_tx_err E w1) r"] exI [of _ s] exI [of _ w1] exI [of _ "[]"])
          (auto simp: sink_poll_flush_def flush_last_def map_tx_err_def split: option.split sum.split)
    next
      case True
      obtain i w2 where o: "se_oneshot E w1 = (i, w2)" by force
      note os = sender_law_rest(2) [OF law o]
      have rsv: "rsv w2" using os pr True by simp
      obtain r3 w3 where st: "se_start_send E w2 (FlushReq i) = Some (r3, w3)"
        "sent w3 = (case r3 of Inr _ \<Rightarrow> sent w2 @ [FlushReq i] | Inl _ \<Rightarrow> sent w2)"
        by (rule sender_law_send [OF law rsv, of "FlushReq i"])
      show ?thesis
      proof (cases r3)
        case (Inl e)
        then show ?thesis using st os pr p o True False None
          by (intro exI conjI) (auto simp: sink_poll_flush_def flush_last_def)
      next
        case (Inr u)
        obtain r4 s' w' where a: "sink_await_flushed E (s\<lparr>flushed_rx := Some i\<rparr>, w3) = Some (r4, s', w')"
          "sent w' = sent w3" "same_sink (s\<lparr>flushed_rx := Some i\<rparr>) s'" "ss_closed s' = ss_closed s"
          "flushed_rx s' = None \<or> s' = s\<lparr>flushed_rx := Some i\<rparr>"
          using sink_await_flushed_ok [OF law, of "s\<lparr>flushed_rx := Some i\<rparr>" i w3] False by auto
        have eq: "sent w' = sent w @ [FlushReq i]" using a st os pr Inr by simp
        have "flush_last sent (s', w')" using a(5) eq by (auto simp: flush_last_def)
        moreover have "same_sink s s'" using a(3) False by (simp add: same_sink_def)
        ultimately show ?thesis using eq a st p o True False None Inr
          by (intro exI [of _ r4] exI [of _ s'] exI [of _ w'] exI [of _ "[FlushReq i]"])
            (auto simp: sink_poll_flush_def)
      qed
    qed
  qed
qed

lemma sink_poll_close_ok:
  assumes law: "sender_law E sent rsv" and fl: "flush_last sent (s, w)"
  shows "\<exists>r s' w' qs. sink_poll_close E (s, w) = Some (r, s', w') \<and> sent w' = sent w @ qs \<and>
    packets qs = [] \<and> same_sink s s' \<and> flush_last sent (s', w') \<and> (ss_closed s \<longrightarrow> qs = []) \<and>
    (r = Some (Inr ()) \<longrightarrow> ss_closed s')"
proof (cases "ss_closed s")
  case True
  then show ?thesis using fl by (intro exI conjI) (auto simp: sink_poll_close_def)
next
  case False
  obtain r s1 w1 qs where f: "sink_poll_flush E (s, w) = Some (r, s1, w1)" "sent w1 = sent w @ qs"
    "packets qs = []" "same_sink s s1" "ss_closed s1 = ss_closed s" "flush_last sent (s1, w1)"
    using sink_poll_flush_ok [OF assms] by blast
  obtain r2 w2 where c: "se_poll_close E w1 = (r2, w2)" by force
  note cl = sender_law_rest(1) [OF law c]
  have fl2: "flush_last sent (s1, w2)" "flush_last sent (s1\<lparr>ss_closed := True\<rparr>, w2)"
    using f(6) cl by (auto simp: flush_last_def)
  show ?thesis
  proof (cases "r = Some (Inr ()) \<and> r2 = Some (Inr ())")
    case True
    then show ?thesis using f c cl fl2 False
      by (intro exI [of _ r] exI [of _ "s1\<lparr>ss_closed := True\<rparr>"] exI [of _ w2] exI [of _ qs])
        (auto simp: sink_poll_close_def same_sink_def)
  next
    case other: False
    show ?thesis
    proof (cases "r = Some (Inr ())")
      case True
      then have "r2 = None" using other cl by (cases r2; cases "the r2") auto
      then show ?thesis using f c cl fl2 False True
        by (intro exI [of _ None] exI [of _ s1] exI [of _ w2] exI [of _ qs])
          (auto simp: sink_poll_close_def)
    next
      case nr: False
      then show ?thesis using f False
        by (intro exI [of _ r] exI [of _ s1] exI [of _ w1] exI [of _ qs])
          (auto simp: sink_poll_close_def split: option.split sum.split)
    qed
  qed
qed

lemma poll_write_ok:
  assumes law: "sender_law E sent rsv" and fl: "flush_last sent (s, w)"
  shows "\<exists>r s' w'. poll_write E buf (s, w) = Some (r, s', w') \<and> same_sink s s' \<and> flush_last sent (s', w') \<and>
    (case r of
       Some (Inr n) \<Rightarrow> n = min (length buf) (max_packet_size s) \<and> n \<le> sink_max_size s \<and> \<not> ss_closed s \<and>
         sent w' = sent w @ [SendData (take n buf)]
     | _ \<Rightarrow> sent w' = sent w)"
proof -
  obtain r s1 w1 where p: "sink_poll_ready E (s, w) = (r, s1, w1)" by (metis prod_cases3)
  note pr = sink_poll_ready_ok [OF law p]
  have fl1: "flush_last sent (s1, w1)" using pr fl by (auto simp: flush_last_def)
  show ?thesis
  proof (cases "r = Some (Inr ())")
    case True
    let ?d = "take (min (length buf) (max_packet_size s1)) buf"
    obtain r2 w2 where st: "sink_start_send E ?d (s1, w1) = Some (r2, s1, w2)"
      "sent w2 = sent w1 @ (if r2 = Inr () then [SendData ?d] else [])"
      "r2 = Inr () \<longrightarrow> length ?d \<le> sink_max_size s1"
      using sink_start_send_ok [OF law, of w1 s1 ?d] pr True by blast
    have same: "max_packet_size s1 = max_packet_size s" "sink_max_size s1 = sink_max_size s"
      using pr by (simp_all add: max_packet_size_def sink_max_size_def same_sink_def)
    show ?thesis using p True st pr same
      by (cases r2) (auto simp: poll_write_def flush_last_def Let_def)
  next
    case False
    then have "poll_write E buf (s, w) = Some (map_option (map_sum send_error_to_io (\<lambda>_. 0)) r, s1, w1)"
      using p by (auto simp: poll_write_def split: option.split sum.split)
    moreover have "\<And>u. r \<noteq> Some (Inr u)" using False by simp
    ultimately show ?thesis using pr fl1 by (cases r; cases "the r") auto
  qed
qed

text \<open>
  Every operation adds requests to the end of the queue, and no other bytes than those it reports as
  accepted.
\<close>

definition sink_adds ::
  "('w \<Rightarrow> send_req list) \<Rightarrow> bool \<Rightarrow> sender_sink \<times> 'w \<Rightarrow> bytes \<Rightarrow> sender_sink \<times> 'w \<Rightarrow> bool" where
  "sink_adds sent nonempty = (\<lambda>(s, w) acc (s', w'). \<exists>qs. sent w' = sent w @ qs \<and> concat (packets qs) = acc \<and>
     same_sink s s' \<and> flush_last sent (s', w') \<and> (\<forall>d \<in> set (packets qs). length d \<le> sink_max_size s) \<and>
     (nonempty \<and> 0 < max_packet_size s \<longrightarrow> [] \<notin> set (packets qs)) \<and> (ss_closed s \<longrightarrow> qs = []))"

lemma sink_op_ok:
  assumes law: "sender_law E sent rsv" and fl: "flush_last sent (s, w)" and q: "quiet sent op"
  shows "\<exists>acc sw'. sink_op_run E op (s, w) = Some (acc, sw') \<and>
    sink_adds sent (op \<noteq> Write []) (s, w) acc sw'"
proof (cases op)
  case (Write buf)
  obtain r s' w' where p: "poll_write E buf (s, w) = Some (r, s', w')" "same_sink s s'"
    "flush_last sent (s', w')"
    "case r of
       Some (Inr n) \<Rightarrow> n = min (length buf) (max_packet_size s) \<and> n \<le> sink_max_size s \<and> \<not> ss_closed s \<and>
         sent w' = sent w @ [SendData (take n buf)]
     | _ \<Rightarrow> sent w' = sent w"
    using poll_write_ok [OF law fl, of buf] by blast
  show ?thesis
  proof (cases "\<exists>n. r = Some (Inr n)")
    case True
    then obtain n where r: "r = Some (Inr n)" by blast
    then have "sink_adds sent (buf \<noteq> []) (s, w) (take n buf) (s', w')"
      using p by (auto simp: sink_adds_def min_nat_zero intro!: exI [of _ "[SendData (take n buf)]"])
    then show ?thesis using p(1) Write r by simp
  next
    case False
    then have "sent w' = sent w" "(case r of Some (Inr n) \<Rightarrow> take n buf | _ \<Rightarrow> []) = []"
      using p(4) by (auto split: option.splits sum.splits)
    then show ?thesis using p Write by (auto simp: sink_adds_def intro!: exI [of _ "[]"])
  qed
next
  case Flush
  obtain r s' w' qs where "sink_poll_flush E (s, w) = Some (r, s', w')" "sent w' = sent w @ qs"
    "packets qs = []" "same_sink s s'" "flush_last sent (s', w')" "ss_closed s \<longrightarrow> qs = []"
    using sink_poll_flush_ok [OF law fl] by blast
  then show ?thesis using Flush by (auto simp: sink_adds_def poll_flush_io_def intro!: exI [of _ qs])
next
  case Shutdown
  obtain r s' w' qs where "sink_poll_close E (s, w) = Some (r, s', w')" "sent w' = sent w @ qs"
    "packets qs = []" "same_sink s s'" "flush_last sent (s', w')" "ss_closed s \<longrightarrow> qs = []"
    using sink_poll_close_ok [OF law fl] by blast
  then show ?thesis using Shutdown by (auto simp: sink_adds_def poll_shutdown_def intro!: exI [of _ qs])
next
  case (Elsewhere f)
  then show ?thesis using q fl by (auto simp: sink_adds_def quiet_def flush_last_def)
qed

lemma sink_adds_trans:
  assumes "sink_adds sent a (s, w) acc (s1, w1)" and "sink_adds sent b (s1, w1) acc' sw'"
  shows "sink_adds sent (a \<and> b) (s, w) (acc @ acc') sw'"
proof -
  obtain s' w' where sw: "sw' = (s', w')" by force
  obtain qs where q: "sent w1 = sent w @ qs" "concat (packets qs) = acc" "same_sink s s1"
    "\<forall>d \<in> set (packets qs). length d \<le> sink_max_size s" "a \<and> 0 < max_packet_size s \<longrightarrow> [] \<notin> set (packets qs)"
    "ss_closed s \<longrightarrow> qs = []"
    using assms(1) by (auto simp: sink_adds_def)
  obtain qs' where q': "sent w' = sent w1 @ qs'" "concat (packets qs') = acc'" "same_sink s1 s'"
    "flush_last sent (s', w')" "\<forall>d \<in> set (packets qs'). length d \<le> sink_max_size s1"
    "b \<and> 0 < max_packet_size s1 \<longrightarrow> [] \<notin> set (packets qs')" "ss_closed s1 \<longrightarrow> qs' = []"
    using assms(2) sw by (auto simp: sink_adds_def)
  have "sink_max_size s1 = sink_max_size s" "max_packet_size s1 = max_packet_size s" "ss_closed s \<longrightarrow> s1 = s"
    using q(3) by (auto simp: same_sink_def sink_max_size_def max_packet_size_def)
  then show ?thesis unfolding sw sink_adds_def
    using q q' same_sink_trans [OF q(3) q'(3)] by (auto intro!: exI [of _ "qs @ qs'"])
qed

lemma sink_run_ok:
  assumes law: "sender_law E sent rsv" and fl: "flush_last sent (s, w)" and q: "\<forall>op \<in> set ops. quiet sent op"
  shows "\<exists>acc sw'. sink_run E ops (s, w) = Some (acc, sw') \<and>
    sink_adds sent (Write [] \<notin> set ops) (s, w) acc sw'"
  using fl q
proof (induction ops arbitrary: s w)
  case Nil
  then show ?case by (auto simp: sink_adds_def)
next
  case (Cons op ops)
  obtain acc s1 w1 where o: "sink_op_run E op (s, w) = Some (acc, s1, w1)"
    "sink_adds sent (op \<noteq> Write []) (s, w) acc (s1, w1)"
    using sink_op_ok [OF law Cons.prems(1), of op] Cons.prems(2) by auto
  then have "flush_last sent (s1, w1)" by (auto simp: sink_adds_def)
  then obtain acc' sw' where r: "sink_run E ops (s1, w1) = Some (acc', sw')"
    "sink_adds sent (Write [] \<notin> set ops) (s1, w1) acc' sw'"
    using Cons.IH [of s1 w1] Cons.prems(2) by fastforce
  have "sink_run E (op # ops) (s, w) = Some (acc @ acc', sw')" using o(1) r(1) by simp
  moreover have "sink_adds sent (Write [] \<notin> set (op # ops)) (s, w) (acc @ acc') sw'"
    using sink_adds_trans [OF o(2) r(2)] by (auto simp: sink_adds_def)
  ultimately show ?case by blast
qed

lemma into_sink_flush_last [simp]: "flush_last sent (into_sink s, w)"
  by (simp add: flush_last_def into_sink_def)

section \<open>Use of the stream\<close>

text \<open>The bytes that a stream will still deliver, and a sequence of reads into buffers of given sizes.\<close>

definition rs_left :: "('rx \<Rightarrow> bytes list) \<Rightarrow> ('rx, 'ct) receiver_stream \<Rightarrow> bytes" where
  "rs_left queued s = rs_buf s @ concat (queued (rc_rx (rs_receiver s)))"

definition rs_queue :: "('rx \<Rightarrow> bytes list) \<Rightarrow> ('rx, 'ct) receiver_stream \<Rightarrow> bytes list" where
  "rs_queue queued s = queued (rc_rx (rs_receiver s))"

fun read_run ::
  "(bytes, 'rx) mpsc \<Rightarrow> (usize \<times> recv_error option) list \<Rightarrow> ('rx, 'ct) receiver_stream \<Rightarrow>
   bytes io_result option list \<times> ('rx, 'ct) receiver_stream" where
  "read_run M [] s = ([], s)"
| "read_run M ((n, err) # ns) s =
     (case poll_read M err n s of (r, s) \<Rightarrow> case read_run M ns s of (rs, s) \<Rightarrow> (r # rs, s))"

fun bytes_read :: "bytes io_result option \<Rightarrow> bytes" where
  "bytes_read (Some (Inr bs)) = bs"
| "bytes_read _ = []"

lemma take_buffered_ok:
  "take_buffered n s = (bs, s') \<Longrightarrow> bs @ rs_left queued s' = rs_left queued s \<and> length bs \<le> n \<and>
     rs_queue queued s' = rs_queue queued s \<and> (0 < n \<and> rs_buf s \<noteq> [] \<longrightarrow> bs \<noteq> [])"
  by (auto simp: take_buffered_def Let_def rs_left_def rs_queue_def min_nat_zero)

lemma poll_read_ok:
  assumes law: "mpsc_law M queued" and res: "poll_read M err n s = (r, s')"
  shows "bytes_read r @ rs_left queued s' = rs_left queued s \<and> length (bytes_read r) \<le> n \<and>
    set (rs_queue queued s') \<subseteq> set (rs_queue queued s) \<and>
    (0 < n \<and> [] \<notin> set (rs_queue queued s) \<and> rs_left queued s \<noteq> [] \<longrightarrow> (\<exists>bs. r = Some (Inr bs) \<and> bs \<noteq> []))"
proof (cases "rs_buf s = []")
  case False
  then show ?thesis using res take_buffered_ok [of n s _ s' queued]
    by (auto simp: poll_read_def split: prod.splits)
next
  case empty: True
  obtain m rx where p: "mp_poll_recv M (rc_rx (rs_receiver s)) = (m, rx)" by force
  show ?thesis
  proof (cases "\<exists>d. m = Some (Some d)")
    case True
    then obtain d where m: "m = Some (Some d)" by blast
    let ?s = "s\<lparr>rs_receiver := (rs_receiver s)\<lparr>rc_rx := rx\<rparr>, rs_buf := d\<rparr>"
    obtain bs where t: "take_buffered n ?s = (bs, s')" "r = Some (Inr bs)"
      using res p m empty by (auto simp: poll_read_def poll_recv_def split: prod.splits)
    have q: "rs_queue queued s = d # queued rx"
      using mpsc_law_poll(1) [OF law p [unfolded m]] by (simp add: rs_queue_def)
    have "rs_left queued ?s = rs_left queued s" "rs_queue queued ?s = queued rx"
      using q empty by (simp_all add: rs_left_def rs_queue_def)
    then show ?thesis using take_buffered_ok [OF t(1), of queued] t(2) q by auto
  next
    case False
    have q: "queued (rc_rx (rs_receiver s)) = []" "queued rx = []"
      using False p mpsc_law_poll(2,3) [OF law] by (cases m; cases "the m"; force)+
    have "bytes_read r = [] \<and> rs_buf s' = [] \<and> rc_rx (rs_receiver s') = rx"
      using res p empty False
      by (auto simp: poll_read_def poll_recv_def take_buffered_def split: option.splits prod.splits)
    then show ?thesis using q empty by (auto simp: rs_left_def rs_queue_def)
  qed
qed

text \<open>
  With buffers that are not empty every read delivers at least one byte as long as there are bytes to
  deliver, if no packet is empty.
\<close>

lemma read_run_ok:
  assumes law: "mpsc_law M queued" and res: "read_run M ns s = (rs, s')"
    and ns: "\<forall>(n, err) \<in> set ns. 0 < n" and ne: "[] \<notin> set (rs_queue queued s)"
  shows "concat (map bytes_read rs) @ rs_left queued s' = rs_left queued s \<and> length rs = length ns \<and>
    (rs_left queued s' \<noteq> [] \<longrightarrow> (\<forall>r \<in> set rs. \<exists>bs. r = Some (Inr bs) \<and> bs \<noteq> [])) \<and>
    (length (rs_left queued s) \<le> length ns \<longrightarrow> rs_left queued s' = [])"
  using res ns ne
proof (induction ns arbitrary: s rs)
  case Nil
  then show ?case by auto
next
  case (Cons ne ns)
  obtain n err where ne: "ne = (n, err)" by force
  obtain r s1 where p: "poll_read M err n s = (r, s1)" by force
  obtain rs' where r: "read_run M ns s1 = (rs', s')" "rs = r # rs'"
    using Cons.prems(1) p ne by (auto split: prod.splits)
  note pr = poll_read_ok [OF law p]
  have "[] \<notin> set (rs_queue queued s1)" using pr Cons.prems(3) by auto
  note ih = Cons.IH [OF r(1) _ this]
  have n: "0 < n" using Cons.prems(2) ne by simp
  have len: "length (rs_left queued s1) < length (rs_left queued s) \<or> rs_left queued s1 = []"
  proof (cases "rs_left queued s = []")
    case False
    then obtain bs where "r = Some (Inr bs)" "bs \<noteq> []" using pr n Cons.prems(3) by blast
    then show ?thesis using pr by (metis bytes_read.simps(1) length_append less_add_same_cancel2 length_greater_0_conv)
  qed (use pr in auto)
  have left: "rs_left queued s' \<noteq> [] \<Longrightarrow> rs_left queued s \<noteq> []"
    using pr ih Cons.prems(2) by force
  show ?case using pr ih r(2) len left n Cons.prems(2,3) by (auto simp: ne)
qed

section \<open>Properties\<close>

subsection \<open>A queue to evaluate on\<close>

text \<open>
  The requests sent, the number of the next one-shot channel and the number of those answered; a
  place is always free.
\<close>

definition list_env :: "(send_req list \<times> nat \<times> nat) sender_env" where
  "list_env = \<lparr>
     se_send = (\<lambda>(qs, k, a) q. (Inr (), (qs @ [q], k, a))),
     se_tx_is_closed = (\<lambda>_. False),
     se_poll_ready = (\<lambda>w. (Some (Inr ()), w)),
     se_start_send = (\<lambda>(qs, k, a) q. Some (Inr (), (qs @ [q], k, a))),
     se_is_closed = (\<lambda>_. False),
     se_poll_close = (\<lambda>w. (Some (Inr ()), w)),
     se_oneshot = (\<lambda>(qs, k, a). (k, (qs, k + 1, a))),
     se_recv_oneshot = (\<lambda>w i. (Inr (), w)),
     se_poll_oneshot = (\<lambda>(qs, k, a) i. (if i < a then Some (Inr ()) else None, (qs, k, a))),
     se_error = (\<lambda>_. STaskTerminated)\<rparr>"

lemma list_env_law: "sender_law list_env fst (\<lambda>_. True)"
  by (auto simp: sender_law_def list_env_def)

definition small_cfg :: cfg where
  "small_cfg = default_cfg\<lparr>io_write_size := 3\<rparr>"

definition sample_sink :: sender_sink where
  "sample_sink = into_sink (sender_new small_cfg \<lparr>x_recv_buffer = 100\<rparr> (ConnId 1))"

definition shut_sink :: sender_sink where
  "shut_sink = sample_sink\<lparr>ss_cfg := small_cfg\<lparr>ignore_flush := True\<rparr>\<rparr>"

definition sample_stream :: "bytes list \<Rightarrow> (bytes list, unit) receiver_stream" where
  "sample_stream q = receiver_into_stream (receiver_new (ConnId 1) q ())"

definition sample_ops :: "(send_req list \<times> nat \<times> nat) sink_op list" where
  "sample_ops = [Write [1, 2, 3, 4], Flush, Elsewhere (\<lambda>(qs, k, a). (qs, k, k)), Write [6, 7], Shutdown]"

definition sample_reads :: "(usize \<times> recv_error option) list" where
  "sample_reads = [(2, None), (2, None), (9, None), (9, None), (9, None)]"

lemma sample_writes_run:
  "sink_run list_env sample_ops (sample_sink, [], 0, 0) = Some ([1, 2, 3, 6, 7],
     sample_sink\<lparr>flushed_rx := Some 1\<rparr>, [SendData [1, 2, 3], FlushReq 0, SendData [6, 7], FlushReq 1], 2, 1)"
  by (simp add: sample_ops_def sample_sink_def into_sink_def sender_new_def small_cfg_def default_cfg_def list_env_def
      poll_write_def sink_poll_ready_def sink_poll_tx_def sink_start_send_def sink_max_size_def max_send_size_def
      max_packet_size_def map_tx_err_def poll_flush_io_def poll_shutdown_def sink_poll_flush_def
      sink_poll_close_def sink_await_flushed_def to_io_def)

lemma answer_all_quiet: "quiet fst (Elsewhere (\<lambda>(qs, k, a). (qs, k, k)))"
  by (auto simp: quiet_def)

subsection \<open>Theorems\<close>



text \<open>
  C29. Flushing covers everything accepted before: whatever the user does with the sink, a flush
  request that has not been answered is the last request in the queue, so that no data overtakes it,
  and the sink sends no more data until it is answered.
\<close>

theorem flush_covers_accepted:
  assumes "sender_law E sent rsv" and "\<forall>op \<in> set ops. quiet sent op"
  shows "\<exists>acc s' w' qs. sink_run E ops (into_sink sn, w) = Some (acc, s', w') \<and> sent w' = sent w @ qs \<and>
    concat (packets qs) = acc \<and> (\<forall>d \<in> set (packets qs). length d \<le> max_send_size (sn_remote_cfg sn)) \<and>
    (\<forall>i. flushed_rx s' = Some i \<longrightarrow> (\<exists>qs'. sent w' = qs' @ [FlushReq i]))"
proof -
  obtain acc s' w' where r: "sink_run E ops (into_sink sn, w) = Some (acc, s', w')"
    "sink_adds sent (Write [] \<notin> set ops) (into_sink sn, w) acc (s', w')"
    using sink_run_ok [OF assms(1) into_sink_flush_last assms(2), of sn w] by auto
  then show ?thesis by (auto simp: sink_adds_def flush_last_def sink_max_size_def into_sink_def)
qed

theorem flush_covers_accepted_witness:
  "\<exists>acc s' w' qs. sink_run list_env [Write [1, 2], Flush, Write [3]] (sample_sink, [], 0, 0) = Some (acc, s', w') \<and>
    fst w' = [] @ qs \<and> concat (packets qs) = acc \<and> (\<forall>i. flushed_rx s' = Some i \<longrightarrow> (\<exists>qs'. fst w' = qs' @ [FlushReq i]))"
  using flush_covers_accepted [OF list_env_law, of "[Write [1, 2], Flush, Write [3]]"
      "sender_new small_cfg \<lparr>x_recv_buffer = 100\<rparr> (ConnId 1)" "([], 0, 0)"]
  by (auto simp: quiet_def sample_sink_def)

text \<open>
  After a shutdown has succeeded the sink is silent: nothing that is done with it puts a request
  into the queue, and every write fails with a broken pipe.
\<close>

theorem closed_sink_silent:
  assumes "sender_law E sent rsv" and "flush_last sent (s, w)" and "\<forall>op \<in> set ops. quiet sent op"
    and "poll_shutdown E (s, w) = Some (Some (Inr ()), s1, w1)"
  shows "\<exists>w'. sink_run E ops (s1, w1) = Some ([], s1, w') \<and> sent w' = sent w1 \<and>
    poll_write E buf (s1, w') =
      Some (Some (Inl (IoError BrokenPipe ''connection was shut down or closed locally'')), s1, w')"
proof -
  obtain r s' w' where c: "sink_poll_close E (s, w) = Some (r, s', w')" "flush_last sent (s', w')"
    "r = Some (Inr ()) \<longrightarrow> ss_closed s'"
    using sink_poll_close_ok [OF assms(1,2)] by blast
  have "r = Some (Inr ())" "s' = s1" "w' = w1"
    using assms(4) c(1) by (auto simp: poll_shutdown_def to_io_def) (metis obj_sumE map_sum.simps(1) old.unit.exhaust sum.distinct(1))
  then have cl: "ss_closed s1" "flush_last sent (s1, w1)" using c by auto
  obtain acc s2 w2 where r: "sink_run E ops (s1, w1) = Some (acc, s2, w2)"
    "sink_adds sent (Write [] \<notin> set ops) (s1, w1) acc (s2, w2)"
    using sink_run_ok [OF assms(1) cl(2) assms(3)] by auto
  then have "s2 = s1" "acc = []" "sent w2 = sent w1" using cl(1) by (auto simp: sink_adds_def same_sink_def)
  then show ?thesis using r(1) cl(1)
    by (auto simp: poll_write_def sink_poll_ready_def send_error_to_io_def)
qed

theorem closed_sink_silent_witness:
  "\<exists>w'. sink_run list_env [Write [1], Flush, Shutdown] (shut_sink\<lparr>ss_closed := True\<rparr>, [], 0, 0) =
     Some ([], shut_sink\<lparr>ss_closed := True\<rparr>, w') \<and> fst w' = []"
proof -
  have "poll_shutdown list_env (shut_sink, [], 0, 0) =
    Some (Some (Inr ()), shut_sink\<lparr>ss_closed := True\<rparr>, [], 0, 0)"
    by (simp add: shut_sink_def sample_sink_def into_sink_def poll_shutdown_def sink_poll_close_def
        sink_poll_flush_def list_env_def to_io_def sender_new_def)
  moreover have "flush_last fst (shut_sink, [], 0, 0)"
    by (simp add: shut_sink_def sample_sink_def flush_last_def into_sink_def)
  moreover have "\<forall>op \<in> set [Write [1], Flush, Shutdown]. quiet fst op" by (simp add: quiet_def)
  ultimately show ?thesis using closed_sink_silent [OF list_env_law] by (metis fst_conv)
qed

text \<open>
  C30. The limit that a write applies to its packets is not the limit that the sink checks.  Over a
  sink that is ready and a queue that takes every request, there is a write that fails because its
  data is too big exactly if the configured write size is at least half of the receive buffer of the
  remote endpoint, although writes are cut to packets precisely to be accepted.
\<close>

theorem write_too_big_iff:
  assumes ready: "sink_poll_ready E (s, w) = (Some (Inr ()), s', w')" and open_sink: "\<not> ss_closed s"
    and same: "ss_cfg s' = ss_cfg s" "ss_remote_cfg s' = ss_remote_cfg s" "\<not> ss_closed s'"
    and takes: "\<forall>q. \<exists>w''. se_start_send E w' q = Some (Inr (), w'')"
    and rb: "2 \<le> unat (x_recv_buffer (ss_remote_cfg s))"
  shows "(\<exists>buf. poll_write E buf (s, w) = Some (Some (Inl (send_error_to_io SDataTooBig)), s', w')) \<longleftrightarrow>
    max (unat (x_recv_buffer (ss_remote_cfg s)) div 2) 2 \<le> io_write_size (ss_cfg s)"
proof -
  have lim: "max_packet_size s' = max_packet_size s" "sink_max_size s' = max_send_size (ss_remote_cfg s)"
    using same by (simp_all add: max_packet_size_def sink_max_size_def)
  have "(\<exists>sw. poll_write E buf (s, w) = Some (Some (Inl (send_error_to_io SDataTooBig)), s', w')) \<longleftrightarrow>
     max_send_size (ss_remote_cfg s) < min (length buf) (max_packet_size s)" for buf
  proof -
    obtain w'' where "se_start_send E w' (SendData (take (min (length buf) (max_packet_size s)) buf)) = Some (Inr (), w'')"
      using takes by blast
    then show ?thesis using ready same(3) lim
      by (auto simp: poll_write_def sink_start_send_def Let_def map_tx_err_def)
  qed
  then have "(\<exists>buf. poll_write E buf (s, w) = Some (Some (Inl (send_error_to_io SDataTooBig)), s', w')) \<longleftrightarrow>
     (\<exists>buf :: bytes. max_send_size (ss_remote_cfg s) < min (length buf) (max_packet_size s))" by auto
  also have "\<dots> \<longleftrightarrow> max_send_size (ss_remote_cfg s) < max_packet_size s"
    by (metis Ex_list_of_length min.absorb_iff2 min_less_iff_conj order_refl min.cobounded2 less_le_trans)
  also have "\<dots> \<longleftrightarrow> max (unat (x_recv_buffer (ss_remote_cfg s)) div 2) 2 \<le> io_write_size (ss_cfg s)"
    using rb by (auto simp: max_send_size_def max_packet_size_def)
  finally show ?thesis .
qed

theorem write_too_big_iff_witness:
  "\<exists>buf. poll_write list_env buf (sample_sink\<lparr>ss_remote_cfg := \<lparr>x_recv_buffer = 4\<rparr>\<rparr>, [], 0, 0) =
     Some (Some (Inl (send_error_to_io SDataTooBig)), sample_sink\<lparr>ss_remote_cfg := \<lparr>x_recv_buffer = 4\<rparr>\<rparr>, [], 0, 0)"
  using write_too_big_iff [of list_env "sample_sink\<lparr>ss_remote_cfg := \<lparr>x_recv_buffer = 4\<rparr>\<rparr>" "([], 0, 0)"
      "sample_sink\<lparr>ss_remote_cfg := \<lparr>x_recv_buffer = 4\<rparr>\<rparr>" "([], 0, 0)"]
  by (simp add: sample_sink_def into_sink_def sender_new_def sink_poll_ready_def sink_poll_tx_def list_env_def
      map_tx_err_def small_cfg_def)

text \<open>
  C31. A write of no bytes sends an empty packet, and a reader takes an empty packet for the end of the
  stream: the read succeeds with no bytes although data follows.
\<close>

theorem empty_packet_reads_as_end:
  assumes "mpsc_law M queued" and "mp_poll_recv M (rc_rx (rs_receiver s)) = (Some (Some []), rx)" and "rs_buf s = []"
  shows "\<exists>s'. poll_read M err n s = (Some (Inr []), s') \<and> rs_left queued s' = rs_left queued s"
  using assms mpsc_law_poll(1) [OF assms(1,2)]
  by (auto simp: poll_read_def poll_recv_def take_buffered_def rs_left_def)

theorem empty_packet_reads_as_end_witness:
  "\<exists>s'. poll_read list_mpsc None 10 (sample_stream [[], [5, 6]]) = (Some (Inr []), s') \<and> rs_left id s' = [5, 6]"
  using empty_packet_reads_as_end [OF list_mpsc_law, of "sample_stream [[], [5, 6]]" "[[5, 6]]" None 10]
  by (simp add: sample_stream_def receiver_new_def receiver_into_stream_def list_mpsc_def rs_left_def)

end
