(* ===== verification/Handshake.thy ===== *)
theory Handshake
  imports Alc
begin

text \<open>
  Adding a link: the handshake of the connecting side (\<open>Control::add\<close> of
  \<open>aggligator/src/control.rs\<close>) and of the accepting side (the first half of \<open>Server::add_incoming\<close> of
  \<open>aggligator/src/connect.rs\<close>), and the construction of the parts of a connection
  (\<open>aggligator/src/agg/mod.rs\<close>).

  The key exchange belongs to \<open>x25519_dalek\<close>: it is a record of its two operations, and what the
  handshake relies on is \<open>dh_law\<close>.  The link is a state with the outcomes of awaiting its two
  operations; an outcome \<open>None\<close> means that the time limit of the handshake passed first.
  A function that awaits is cut at its awaits and locks into steps, because other calls on the same
  connection run in between; it is put together from them again.
\<close>

section \<open>Environment\<close>

record dh =
  dh_public :: "bytes \<Rightarrow> bytes"
  dh_shared :: "bytes \<Rightarrow> bytes \<Rightarrow> bytes"

definition dh_law :: "dh \<Rightarrow> bool" where
  "dh_law D \<longleftrightarrow> (\<forall>a b. dh_shared D a (dh_public D b) = dh_shared D b (dh_public D a)) \<and>
     (\<forall>a. length (dh_public D a) = 32)"

record 'l wire =
  wi_send :: "'l \<Rightarrow> bytes \<Rightarrow> unit io_result option \<times> 'l"
  wi_recv :: "'l \<Rightarrow> bytes io_result option option \<times> 'l"

text \<open>The conversion of \<open>Elapsed\<close> into an I/O error.\<close>

definition elapsed_err :: io_error where
  "elapsed_err = IoError TimedOut ''deadline has elapsed''"

section \<open>Control\<close>

text \<open>
  The part of a connection that the clones of its handle share, and the fatal errors that were
  reported to the task.
\<close>

record control =
  ct_cfg :: cfg
  ct_conn_id :: conn_id
  ct_server_id :: "server_id option"
  ct_remote_server_id :: "server_id option"
  ct_direction :: direction
  ct_connected :: bool
  ct_fatal :: "fatal_connect_error list"

text \<open>
  The answer to the first message: what was received of the server's public key, server identifier,
  configuration and user data.  The comparison and the update are one step under the lock.
\<close>

datatype welcome_data = WelcomeData (wd_key: bytes) (wd_server: server_id) (wd_cfg: exchanged_cfg) (wd_user: bytes)

fun expect_welcome :: "link_msg io_result \<Rightarrow> add_link_error + welcome_data" where
  "expect_welcome (Inl e) = Inl (AIo e)"
| "expect_welcome (Inr (Welcome _ key sid ud xc)) = Inr (WelcomeData key sid xc ud)"
| "expect_welcome (Inr _) = Inl (AIo (protocol_err ''expected Welcome message''))"

definition check_server_id :: "server_id \<Rightarrow> control \<Rightarrow> (add_link_error + unit) \<times> control" where
  "check_server_id sid c =
     (case ct_remote_server_id c of
        Some s \<Rightarrow>
          if s \<noteq> sid then
            (Inl (AServerIdMismatch s sid),
             if disconnect_on_server_id_mismatch (ct_cfg c) then c\<lparr>ct_fatal := ct_fatal c @ [FServerIdMismatch]\<rparr>
             else c)
          else (Inr (), c)
      | None \<Rightarrow> (Inr (), c\<lparr>ct_remote_server_id := Some sid\<rparr>))"

definition connect_msg :: "dh \<Rightarrow> bytes \<Rightarrow> bytes \<Rightarrow> bytes \<Rightarrow> control \<Rightarrow> link_msg" where
  "connect_msg D secret key user_data c =
     Connect 0 (dh_public D secret) (ct_server_id c) (enc_new (ct_conn_id c) (dh_shared D secret key))
       (ct_connected c) user_data (exchanged_from_cfg (ct_cfg c))"

fun add_reply :: "link_msg io_result \<Rightarrow> control \<Rightarrow> (add_link_error + bool) \<times> control" where
  "add_reply (Inl e) c = (Inl (AIo e), c)"
| "add_reply (Inr Accepted) c = (Inr (ct_connected c), c\<lparr>ct_connected := True\<rparr>)"
| "add_reply (Inr (Refused reason)) c =
     (Inl (add_link_error_of_refused reason),
      if reason = Closed then c\<lparr>ct_fatal := ct_fatal c @ [FClosed]\<rparr> else c)"
| "add_reply (Inr _) c = (Inl (AIo (protocol_err ''expected Accepted or Refused message'')), c)"

text \<open>Sending and receiving a message over the link within the time limit.\<close>

definition wire_send_msg :: "'l wire \<Rightarrow> link_msg \<Rightarrow> 'l \<Rightarrow> (unit io_result \<times> 'l) option" where
  "wire_send_msg W m l = do {
     bs \<leftarrow> msg_encode m;
     (case wi_send W l bs of (r, l) \<Rightarrow> Some (case r of None \<Rightarrow> Inl elapsed_err | Some r \<Rightarrow> r, l))
   }"

definition wire_recv_msg :: "'l wire \<Rightarrow> 'l \<Rightarrow> link_msg io_result \<times> 'l" where
  "wire_recv_msg W l =
     (case wi_recv W l of (r, l) \<Rightarrow> (case r of None \<Rightarrow> Inl elapsed_err | Some item \<Rightarrow> msg_recv item, l))"

definition add_handshake ::
  "dh \<Rightarrow> 'l wire \<Rightarrow> bytes \<Rightarrow> bytes \<Rightarrow> control \<Rightarrow> 'l \<Rightarrow>
   ((add_link_error + exchanged_cfg \<times> bytes \<times> bool) \<times> control \<times> 'l) option" where
  "add_handshake D W secret user_data c l =
     (case wire_recv_msg W l of (m, l) \<Rightarrow>
        (case expect_welcome m of
           Inl e \<Rightarrow> Some (Inl e, c, l)
         | Inr (WelcomeData key sid xc ud) \<Rightarrow>
             (case check_server_id sid c of
                (Inl e, c) \<Rightarrow> Some (Inl e, c, l)
              | (Inr _, c) \<Rightarrow> do {
                  (r, l) \<leftarrow> wire_send_msg W (connect_msg D secret key user_data c) l;
                  (case r of
                     Inl e \<Rightarrow> Some (Inl (AIo e), c, l)
                   | Inr _ \<Rightarrow>
                       (case wire_recv_msg W l of (m, l) \<Rightarrow>
                          (case add_reply m c of
                             (Inl e, c) \<Rightarrow> Some (Inl e, c, l)
                           | (Inr was_connected, c) \<Rightarrow> Some (Inr (xc, ud, was_connected), c, l))))
                })))"

text \<open>
  \<open>Control::add\<close>.  The times at which the Connect message is sent and the answer arrives are
  arguments, as are the identifier generated for the link and whether the task still takes links.
\<close>

definition control_add ::
  "dh \<Rightarrow> 'l wire \<Rightarrow> bytes \<Rightarrow> bytes \<Rightarrow> link_cfg option \<Rightarrow> link_id \<Rightarrow> instant \<Rightarrow> instant \<Rightarrow> bool \<Rightarrow>
   control \<Rightarrow> 'l \<Rightarrow> ((add_link_error + 'l link_int) \<times> control) option" where
  "control_add D W secret user_data lc lid start done task_takes c l = do {
     _ \<leftarrow> assert_that (length user_data \<le> 65535);
     (r, c, l) \<leftarrow> add_handshake D W secret user_data c l;
     (case r of
        Inl e \<Rightarrow> Some (Inl e, c)
      | Inr (xc, ud, _) \<Rightarrow>
          (let link = link_new lid done (ct_conn_id c) l (ct_cfg c) xc lc Outgoing (elapsed done start) ud in
           if task_takes then Some (Inr link, c) else Some (Inl AConnectionClosed, c)))
   }"

definition add_link_display :: "(server_id \<Rightarrow> string) \<Rightarrow> add_link_error \<Rightarrow> string" where
  "add_link_display show_id e =
     (case e of
        AIo err \<Rightarrow> ''IO error: '' @ err_msg err
      | AServerIdMismatch expected present \<Rightarrow>
          ''connected to server '' @ show_id expected @ '' but link connects to server '' @ show_id present
      | ANotListening \<Rightarrow> ''not listening''
      | AConnectionClosed \<Rightarrow> ''connection closed''
      | AConnectionRefused \<Rightarrow> ''connection refused''
      | ALinkRefused \<Rightarrow> ''link refused''
      | AAbortedByServer \<Rightarrow> ''connection aborted by server'')"

definition add_link_to_io :: "(server_id \<Rightarrow> string) \<Rightarrow> add_link_error \<Rightarrow> io_error" where
  "add_link_to_io show_id e =
     (case e of AIo err \<Rightarrow> err | _ \<Rightarrow> IoError ConnectionRefused (add_link_display show_id e))"

section \<open>The accepting side\<close>

datatype incoming_error = IIo io_error | IRefused | INotListening | IClosed | IServerDropped

fun incoming_display :: "incoming_error \<Rightarrow> string" where
  "incoming_display (IIo err) = ''IO error: '' @ err_msg err"
| "incoming_display IRefused = ''connection refused''"
| "incoming_display INotListening = ''not listening''"
| "incoming_display IClosed = ''connection was closed''"
| "incoming_display IServerDropped = ''server dropped''"

fun incoming_to_io :: "incoming_error \<Rightarrow> io_error" where
  "incoming_to_io (IIo err) = err"
| "incoming_to_io IRefused = IoError ConnectionRefused (incoming_display IRefused)"
| "incoming_to_io INotListening = IoError ConnectionRefused (incoming_display INotListening)"
| "incoming_to_io IClosed = IoError ConnectionAborted (incoming_display IClosed)"
| "incoming_to_io IServerDropped = IoError ConnectionRefused (incoming_display IServerDropped)"

definition welcome_msg :: "dh \<Rightarrow> bytes \<Rightarrow> server_id \<Rightarrow> bytes \<Rightarrow> cfg \<Rightarrow> link_msg" where
  "welcome_msg D secret sid user_data c =
     Welcome 0 (dh_public D secret) sid user_data (exchanged_from_cfg c)"

text \<open>What the accepting side learns from the handshake.\<close>

record request =
  rq_remote_server_id :: "server_id option"
  rq_conn_id :: conn_id
  rq_existing :: bool
  rq_remote_cfg :: exchanged_cfg
  rq_roundtrip :: duration
  rq_remote_user_data :: bytes

fun expect_connect :: "dh \<Rightarrow> bytes \<Rightarrow> duration \<Rightarrow> link_msg io_result \<Rightarrow> incoming_error + request" where
  "expect_connect D secret rt (Inl e) = Inl (IIo e)"
| "expect_connect D secret rt (Inr (Connect _ key sid ecid existing ud xc)) =
     Inr \<lparr>rq_remote_server_id = sid, rq_conn_id = enc_decrypt ecid (dh_shared D secret key),
          rq_existing = existing, rq_remote_cfg = xc, rq_roundtrip = rt, rq_remote_user_data = ud\<rparr>"
| "expect_connect D secret rt (Inr _) = Inl (IIo (protocol_err ''expected Connect message''))"

definition server_handshake ::
  "dh \<Rightarrow> 'l wire \<Rightarrow> bytes \<Rightarrow> server_id \<Rightarrow> bytes \<Rightarrow> cfg \<Rightarrow> instant \<Rightarrow> instant \<Rightarrow> 'l \<Rightarrow>
   ((incoming_error + request) \<times> 'l) option" where
  "server_handshake D W secret sid user_data c start done l = do {
     (r, l) \<leftarrow> wire_send_msg W (welcome_msg D secret sid user_data c) l;
     (case r of
        Inl e \<Rightarrow> Some (Inl (IIo e), l)
      | Inr _ \<Rightarrow>
          (case wire_recv_msg W l of (m, l) \<Rightarrow>
             Some (expect_connect D secret (elapsed done start) m, l)))
   }"

section \<open>Parts of a connection\<close>

record ('tx, 'wr, 'rx, 'ct) agg_parts =
  ap_task :: "('tx, 'wr) task"
  ap_channel :: "('rx, 'ct) channel"
  ap_control :: control

text \<open>The queues created for the connection are arguments: the ends the task and the user get.\<close>

definition agg_parts_new ::
  "instant \<Rightarrow> 'wr \<Rightarrow> 'rx \<Rightarrow> 'ct \<Rightarrow> cfg \<Rightarrow> conn_id \<Rightarrow> direction \<Rightarrow> server_id option \<Rightarrow> server_id option \<Rightarrow>
   'tx link_int list \<Rightarrow> ('tx, 'wr, 'rx, 'ct) agg_parts" where
  "agg_parts_new now wr rx ct c cid dir sid rsid links =
     (let remote_cfg = (case links of [] \<Rightarrow> None | l # _ \<Rightarrow> Some (lk_remote_cfg l)) in
      \<lparr>ap_task = task_new now c remote_cfg cid dir wr links,
       ap_channel = channel_new c remote_cfg cid rx ct,
       ap_control = \<lparr>ct_cfg = c, ct_conn_id = cid, ct_server_id = sid, ct_remote_server_id = rsid,
         ct_direction = dir, ct_connected = (links \<noteq> []), ct_fatal = []\<rparr>\<rparr>)"

section \<open>Concurrent calls of \<open>add\<close>\<close>

text \<open>
  A call is between two of its awaits: it waits for the welcome, has checked the server identifier
  and is about to send, waits for the answer, or has returned.
\<close>

datatype add_call =
    AddWaits | AddChecked welcome_data | AddSent welcome_data | AddOk welcome_data | AddFailed add_link_error

inductive add_step :: "control \<times> add_call \<Rightarrow> control \<times> add_call \<Rightarrow> bool" where
  ad_invalid: "expect_welcome m = Inl e \<Longrightarrow> add_step (c, AddWaits) (c, AddFailed e)"
| ad_check: "expect_welcome m = Inr wd \<Longrightarrow> check_server_id (wd_server wd) c = (Inr (), c') \<Longrightarrow>
    add_step (c, AddWaits) (c', AddChecked wd)"
| ad_mismatch: "expect_welcome m = Inr wd \<Longrightarrow> check_server_id (wd_server wd) c = (Inl e, c') \<Longrightarrow>
    add_step (c, AddWaits) (c', AddFailed e)"
| ad_send: "add_step (c, AddChecked wd) (c, AddSent wd)"
| ad_send_err: "add_step (c, AddChecked wd) (c, AddFailed (AIo e))"
| ad_accepted: "add_reply m c = (Inr b, c') \<Longrightarrow> add_step (c, AddSent wd) (c', AddOk wd)"
| ad_refused: "add_reply m c = (Inl e, c') \<Longrightarrow> add_step (c, AddSent wd) (c', AddFailed e)"

inductive adds_step :: "control \<times> add_call list \<Rightarrow> control \<times> add_call list \<Rightarrow> bool" where
  as_call: "adds_step (c, calls) (c, calls @ [AddWaits])"
| as_step: "i < length calls \<Longrightarrow> add_step (c, calls ! i) (c', a) \<Longrightarrow> adds_step (c, calls) (c', calls[i := a])"

inductive_cases add_stepE: "add_step (c, a) (c', a')"

section \<open>Lemmas\<close>

lemma recv_encoded:
  assumes "msg_ok m" and "\<And>n. m \<noteq> TestData n" and "msg_encode m = Some bs"
  shows "msg_recv (Some (Inr bs)) = Inr m"
proof -
  have "msg_write m = Inr bs" using assms(3) by (simp add: msg_encode_Some)
  from consumes_msg [OF assms(1,2) this] have "msg_read_from (bs @ []) = Inr (m, [])"
    unfolding consumes_def by blast
  then show ?thesis by (simp add: msg_recv_def msg_read_def)
qed

lemma welcome_msg_ok:
  "dh_law D \<Longrightarrow> server_id_ok sid \<Longrightarrow> length ud \<le> 65535 \<Longrightarrow> cfg_ok c \<Longrightarrow> msg_ok (welcome_msg D secret sid ud c)"
  by (simp add: welcome_msg_def dh_law_def exchanged_cfg_ok_def exchanged_from_cfg_def cfg_ok_def word_gt_0)

lemma connect_msg_ok:
  "dh_law D \<Longrightarrow> \<forall>s \<in> set_option (ct_server_id c). server_id_ok s \<Longrightarrow> length ud \<le> 65535 \<Longrightarrow> cfg_ok (ct_cfg c) \<Longrightarrow>
     msg_ok (connect_msg D secret key ud c)"
  by (simp add: connect_msg_def dh_law_def exchanged_cfg_ok_def exchanged_from_cfg_def cfg_ok_def word_gt_0)

lemma check_server_id_ok:
  "ct_remote_server_id c = None \<or> ct_remote_server_id c = Some sid \<Longrightarrow>
     check_server_id sid c = (Inr (), c\<lparr>ct_remote_server_id := Some sid\<rparr>)"
  by (auto simp: check_server_id_def)

lemma check_server_id_result:
  assumes "check_server_id sid c = (r, c')"
  shows "ct_conn_id c' = ct_conn_id c \<and> ct_connected c' = ct_connected c \<and>
    (\<forall>s. ct_remote_server_id c = Some s \<longrightarrow> ct_remote_server_id c' = Some s) \<and>
    (r = Inr () \<longrightarrow> ct_remote_server_id c' = Some sid)"
  using assms by (auto simp: check_server_id_def split: option.splits if_splits)

lemma add_reply_result:
  assumes "add_reply m c = (r, c')"
  shows "ct_conn_id c' = ct_conn_id c \<and> (ct_connected c \<longrightarrow> ct_connected c') \<and>
    ct_remote_server_id c' = ct_remote_server_id c \<and> (\<forall>b. r = Inr b \<longrightarrow> ct_connected c')"
  using assms by (cases "(m, c)" rule: add_reply.cases) auto

subsection \<open>Runs of concurrent calls\<close>

fun call_server :: "add_call \<Rightarrow> server_id option" where
  "call_server (AddChecked wd) = Some (wd_server wd)"
| "call_server (AddSent wd) = Some (wd_server wd)"
| "call_server (AddOk wd) = Some (wd_server wd)"
| "call_server _ = None"

definition call_inv :: "control \<Rightarrow> add_call \<Rightarrow> bool" where
  "call_inv c a \<longleftrightarrow> (\<forall>s. call_server a = Some s \<longrightarrow> ct_remote_server_id c = Some s) \<and>
     (\<forall>wd. a = AddOk wd \<longrightarrow> ct_connected c)"

definition adds_inv :: "control \<times> add_call list \<Rightarrow> bool" where
  "adds_inv = (\<lambda>(c, calls). \<forall>a \<in> set calls. call_inv c a)"

definition ctl_moves :: "control \<Rightarrow> control \<Rightarrow> bool" where
  "ctl_moves c c' \<longleftrightarrow> ct_conn_id c' = ct_conn_id c \<and> (ct_connected c \<longrightarrow> ct_connected c') \<and>
     (\<forall>s. ct_remote_server_id c = Some s \<longrightarrow> ct_remote_server_id c' = Some s)"

lemma call_inv_moves: "call_inv c a \<Longrightarrow> ctl_moves c c' \<Longrightarrow> call_inv c' a"
  by (auto simp: call_inv_def ctl_moves_def)

lemma add_step_ok:
  assumes "add_step (c, a) (c', a')" and "call_inv c a"
  shows "ctl_moves c c' \<and> call_inv c' a'"
  using assms
  by (elim add_stepE) (auto simp: ctl_moves_def call_inv_def dest: check_server_id_result add_reply_result)

lemma adds_step_ok:
  assumes "adds_step s s'" and "adds_inv s"
  shows "adds_inv s' \<and> ctl_moves (fst s) (fst s')"
  using assms(1)
proof (cases rule: adds_step.cases)
  case (as_call c calls)
  then show ?thesis using assms(2) by (auto simp: adds_inv_def call_inv_def ctl_moves_def)
next
  case (as_step i calls c c' a)
  have "ctl_moves c c' \<and> call_inv c' a"
    using add_step_ok [OF as_step(4)] assms(2) as_step(1,3) by (auto simp: adds_inv_def)
  then show ?thesis using as_step(1,2) assms(2) set_update_subset_insert [of calls i a]
    by (auto simp: adds_inv_def intro: call_inv_moves)
qed

interpretation ad: step_system adds_step adds_inv "\<lambda>s s'. ctl_moves (fst s) (fst s')"
proof unfold_locales
  fix s s' s''
  show "adds_inv s \<Longrightarrow> adds_step s s' \<Longrightarrow> adds_inv s'"
    and "adds_inv s \<Longrightarrow> adds_step s s' \<Longrightarrow> ctl_moves (fst s) (fst s')"
    using adds_step_ok by blast+
  show "ctl_moves (fst s) (fst s)"
    and "ctl_moves (fst s) (fst s') \<Longrightarrow> ctl_moves (fst s') (fst s'') \<Longrightarrow> ctl_moves (fst s) (fst s'')"
    by (simp_all add: ctl_moves_def)
qed

section \<open>Properties\<close>

text \<open>A key exchange, a link and a client to apply the properties on.\<close>

definition pad32 :: "bytes \<Rightarrow> bytes" where
  "pad32 a = take 32 (a @ replicate 32 0)"

definition pad_dh :: dh where
  "pad_dh = \<lparr>dh_public = pad32, dh_shared = (\<lambda>a p. map2 (+) (pad32 a) p)\<rparr>"

lemma map2_plus_commute: "map2 (+) xs ys = map2 (+) ys (xs :: bytes)"
  by (induction xs ys rule: list_induct2') (auto simp: add.commute)

lemma length_pad32: "length (pad32 a) = 32"
  by (auto simp: pad32_def min_def)

lemma pad_dh_law: "dh_law pad_dh"
  by (simp add: dh_law_def pad_dh_def map2_plus_commute length_pad32)

definition sample_control :: control where
  "sample_control = ap_control (agg_parts_new 0 () () () default_cfg (ConnId 77) Outgoing None None ([] :: unit link_int list))"

definition wire_ops :: "(bytes list \<times> bytes list) wire" where
  "wire_ops = \<lparr>wi_send = (\<lambda>(i, out) bs. (Some (Inr ()), (i, out @ [bs]))),
     wi_recv = (\<lambda>(i, out). case i of [] \<Rightarrow> (Some None, (i, out)) | bs # i \<Rightarrow> (Some (Some (Inr bs)), (i, out)))\<rparr>"

definition sample_welcome :: bytes where
  "sample_welcome = (case msg_encode (welcome_msg pad_dh [3] (ServerId 9) [1] default_cfg) of Some bs \<Rightarrow> bs | None \<Rightarrow> [])"

definition sample_connect :: bytes where
  "sample_connect = (case msg_encode (connect_msg pad_dh [4] (dh_public pad_dh [3]) [2]
     (sample_control\<lparr>ct_remote_server_id := Some (ServerId 9)\<rparr>)) of Some bs \<Rightarrow> bs | None \<Rightarrow> [])"

text \<open>
  C7. The two sides of a handshake agree: if each side receives what the other sent, the accepting
  side learns the connection identifier, the server identifier, the configuration and the user data
  of the connecting side and whether it believes the connection to exist, and the connecting side
  learns the configuration and the user data of the accepting side and pins its server identifier.
  The connection identifier survives its encryption because both sides derive the same secret.
\<close>

theorem handshake_agrees:
  assumes dh: "dh_law D" and sid: "server_id_ok sid" "\<forall>s \<in> set_option (ct_server_id c). server_id_ok s"
    and ud: "length uds \<le> 65535" "length udc \<le> 65535" and cfg: "cfg_ok cs" "cfg_ok (ct_cfg c)"
    and rs: "ct_remote_server_id c = None \<or> ct_remote_server_id c = Some sid"
    and c': "c' = c\<lparr>ct_remote_server_id := Some sid\<rparr>"
    and bytes: "msg_encode (welcome_msg D ss sid uds cs) = Some bw"
      "msg_encode (connect_msg D sc (dh_public D ss) udc c') = Some bc" "msg_encode Accepted = Some br"
    and server: "wi_send WS ls bw = (Some (Inr ()), ls1)" "wi_recv WS ls1 = (Some (Some (Inr bc)), ls2)"
    and client: "wi_recv WC lc = (Some (Some (Inr bw)), lc1)" "wi_send WC lc1 bc = (Some (Inr ()), lc2)"
      "wi_recv WC lc2 = (Some (Some (Inr br)), lc3)"
  shows "server_handshake D WS ss sid uds cs start fin ls =
      Some (Inr \<lparr>rq_remote_server_id = ct_server_id c, rq_conn_id = ct_conn_id c, rq_existing = ct_connected c,
        rq_remote_cfg = exchanged_from_cfg (ct_cfg c), rq_roundtrip = elapsed fin start,
        rq_remote_user_data = udc\<rparr>, ls2) \<and>
    add_handshake D WC sc udc c lc =
      Some (Inr (exchanged_from_cfg cs, uds, ct_connected c), c'\<lparr>ct_connected := True\<rparr>, lc3)"
    (is "?server \<and> ?client")
proof -
  have c'_simps: "ct_conn_id c' = ct_conn_id c" "ct_server_id c' = ct_server_id c" "ct_cfg c' = ct_cfg c"
    "ct_connected c' = ct_connected c" by (simp_all add: c')
  have w: "msg_recv (Some (Inr bw)) = Inr (welcome_msg D ss sid uds cs)"
    by (rule recv_encoded [OF welcome_msg_ok [OF dh sid(1) ud(1) cfg(1)] _ bytes(1)]) (simp add: welcome_msg_def)
  have "msg_ok (connect_msg D sc (dh_public D ss) udc c')"
    using connect_msg_ok [OF dh _ ud(2)] sid(2) cfg(2) c'_simps by simp
  then have k: "msg_recv (Some (Inr bc)) = Inr (connect_msg D sc (dh_public D ss) udc c')"
    by (rule recv_encoded [OF _ _ bytes(2)]) (simp add: connect_msg_def)
  have r: "msg_recv (Some (Inr br)) = Inr Accepted" by (rule recv_encoded [OF _ _ bytes(3)]) simp_all
  have secret: "dh_shared D ss (dh_public D sc) = dh_shared D sc (dh_public D ss)" using dh by (simp add: dh_law_def)
  have cid: "enc_decrypt (enc_new i k) k = i" for i k by (simp add: enc_decrypt_def enc_new_def Let_def)
  have ?server using bytes(1) server k
    by (simp add: server_handshake_def wire_send_msg_def wire_recv_msg_def connect_msg_def secret cid c'_simps)
  moreover have ?client using bytes(2) client w r
    by (simp add: add_handshake_def wire_send_msg_def wire_recv_msg_def welcome_msg_def
        check_server_id_ok [OF rs] c' [symmetric] c'_simps)
  ultimately show ?thesis ..
qed

theorem handshake_agrees_witness:
  "server_handshake pad_dh wire_ops [3] (ServerId 9) [1] default_cfg 10 15 ([sample_connect], []) =
      Some (Inr \<lparr>rq_remote_server_id = None, rq_conn_id = ConnId 77, rq_existing = False,
        rq_remote_cfg = \<lparr>x_recv_buffer = recv_buffer default_cfg\<rparr>, rq_roundtrip = 5, rq_remote_user_data = [2]\<rparr>,
        [], [sample_welcome]) \<and>
   add_handshake pad_dh wire_ops [4] [2] sample_control ([sample_welcome, wr_u8 3], []) =
      Some (Inr (\<lparr>x_recv_buffer = recv_buffer default_cfg\<rparr>, [1], False),
        sample_control\<lparr>ct_remote_server_id := Some (ServerId 9), ct_connected := True\<rparr>, [], [sample_connect])"
proof -
  have e: "msg_encode (welcome_msg pad_dh [3] (ServerId 9) [1] default_cfg) = Some sample_welcome"
    "msg_encode (connect_msg pad_dh [4] (dh_public pad_dh [3]) [2]
       (sample_control\<lparr>ct_remote_server_id := Some (ServerId 9)\<rparr>)) = Some sample_connect"
    "msg_encode Accepted = Some (wr_u8 3)"
    by (simp_all add: sample_welcome_def sample_connect_def welcome_msg_def connect_msg_def msg_encode_def
        write_user_data_def)
  have "ct_server_id sample_control = None" "ct_cfg sample_control = default_cfg"
    "ct_remote_server_id sample_control = None" "ct_conn_id sample_control = ConnId 77" "\<not> ct_connected sample_control"
    by (simp_all add: sample_control_def agg_parts_new_def)
  then show ?thesis
    using handshake_agrees [OF pad_dh_law _ _ _ _ default_cfg_ok _ _ refl e, where WS = wire_ops and WC = wire_ops
      and ls = "([sample_connect], [])" and lc = "([sample_welcome, wr_u8 3], [])" and start = 10 and fin = 15]
    by (simp add: default_cfg_ok server_id_ok_def wire_ops_def exchanged_from_cfg_def elapsed_def)
qed

text \<open>
  C14. Whatever calls add links to a connection at the same time, and whatever their links deliver, every
  link that is added leads to the server whose identifier the connection has pinned.  The pinned
  identifier never changes, a connection that counts as connected stays so, and its own identifier
  stays the same.
\<close>

theorem remote_server_pinned:
  assumes "adds_step\<^sup>*\<^sup>* (c, []) (c', calls)"
  shows "(\<forall>wd. AddOk wd \<in> set calls \<longrightarrow> ct_remote_server_id c' = Some (wd_server wd) \<and> ct_connected c') \<and>
    (\<forall>s. ct_remote_server_id c = Some s \<longrightarrow> ct_remote_server_id c' = Some s) \<and>
    (ct_connected c \<longrightarrow> ct_connected c') \<and> ct_conn_id c' = ct_conn_id c"
proof -
  have "adds_inv (c, [])" by (simp add: adds_inv_def)
  with ad.run_inv [OF assms] ad.run_moves [OF assms] show ?thesis
    by (fastforce simp: adds_inv_def call_inv_def ctl_moves_def)
qed

lemma sample_adds:
  "adds_step\<^sup>*\<^sup>* (sample_control, [])
     (sample_control\<lparr>ct_remote_server_id := Some (ServerId 9), ct_connected := True\<rparr>,
      [AddOk (WelcomeData [] (ServerId 9) \<lparr>x_recv_buffer = 1\<rparr> [])])"
proof -
  let ?w = "Welcome 0 [] (ServerId 9) [] \<lparr>x_recv_buffer = 1\<rparr>" and ?d = "WelcomeData [] (ServerId 9) \<lparr>x_recv_buffer = 1\<rparr> []"
  let ?c = "sample_control\<lparr>ct_remote_server_id := Some (ServerId 9)\<rparr>"
  have 1: "adds_step (sample_control, []) (sample_control, [AddWaits])"
    using as_call [of sample_control "[]"] by simp
  have "check_server_id (ServerId 9) sample_control = (Inr (), ?c)"
    by (rule check_server_id_ok) (simp add: sample_control_def agg_parts_new_def)
  then have 2: "adds_step (sample_control, [AddWaits]) (?c, [AddChecked ?d])"
    using as_step [of 0 "[AddWaits]" sample_control ?c "AddChecked ?d"]
      ad_check [of "Inr ?w" ?d sample_control ?c] by simp
  have 3: "adds_step (?c, [AddChecked ?d]) (?c, [AddSent ?d])"
    using as_step [of 0 "[AddChecked ?d]" ?c ?c "AddSent ?d"] ad_send by simp
  have 4: "adds_step (?c, [AddSent ?d]) (?c\<lparr>ct_connected := True\<rparr>, [AddOk ?d])"
    using as_step [of 0 "[AddSent ?d]" ?c "?c\<lparr>ct_connected := True\<rparr>" "AddOk ?d"]
      ad_accepted [of "Inr Accepted" ?c _ "?c\<lparr>ct_connected := True\<rparr>" ?d] by simp
  from 1 2 3 4 show ?thesis by (meson rtranclp.rtrancl_into_rtrancl rtranclp.rtrancl_refl)
qed

theorem remote_server_pinned_witness:
  "ct_remote_server_id (sample_control\<lparr>ct_remote_server_id := Some (ServerId 9), ct_connected := True\<rparr>) =
     Some (wd_server (WelcomeData [] (ServerId 9) \<lparr>x_recv_buffer = 1\<rparr> []))"
  using remote_server_pinned [OF sample_adds] by simp

end
