(* ===== verification/Connect.thy ===== *)
theory Connect
  imports Handshake
begin

text \<open>
  The server that dispatches incoming links to connections, and the establishment of connections
  (\<open>aggligator/src/connect.rs\<close>).

  The bounded queues of \<open>tokio\<close> are known by numbers in a state of queues, with their operations in a
  record; what the server relies on is \<open>queue_law\<close>.  There are three families of queues: links for a
  connection, incoming connections for a listener, and identifiers of closed connections.
  \<open>add_incoming\<close> is a sequence of steps of a call between its locks and awaits, since calls for
  several links run at the same time.
\<close>

section \<open>Queues\<close>

text \<open>
  \<open>qe_reserve\<close> is the outcome of awaiting a place in the queue, \<open>qe_send\<close> puts a message into the
  place reserved; the left side is the error of a closed (or, for \<open>qe_try_send\<close>, a full) queue.
\<close>

record ('m, 'w) queue_env =
  qe_channel :: "usize \<Rightarrow> 'w \<Rightarrow> nat \<times> 'w"
  qe_is_closed :: "nat \<Rightarrow> 'w \<Rightarrow> bool"
  qe_reserve :: "nat \<Rightarrow> 'w \<Rightarrow> (unit + unit) \<times> 'w"
  qe_send :: "nat \<Rightarrow> 'm \<Rightarrow> 'w \<Rightarrow> 'w"
  qe_try_send :: "nat \<Rightarrow> 'm \<Rightarrow> 'w \<Rightarrow> (unit + unit) \<times> 'w"
  qe_try_recv :: "nat \<Rightarrow> 'w \<Rightarrow> (try_recv_error + 'm) \<times> 'w"
  qe_recv :: "nat \<Rightarrow> 'w \<Rightarrow> 'm option \<times> 'w"
  qe_close :: "nat \<Rightarrow> 'w \<Rightarrow> 'w"

definition queue_law :: "('m, 'w) queue_env \<Rightarrow> ('w \<Rightarrow> nat set) \<Rightarrow> ('w \<Rightarrow> nat \<Rightarrow> 'm list) \<Rightarrow> bool" where
  "queue_law Q used items \<longleftrightarrow>
     (\<forall>n w h w'. qe_channel Q n w = (h, w') \<longrightarrow>
        h \<notin> used w \<and> used w' = insert h (used w) \<and> items w' = (items w)(h := [])) \<and>
     (\<forall>h w r w'. qe_reserve Q h w = (r, w') \<longrightarrow> used w' = used w \<and> items w' = items w) \<and>
     (\<forall>h m w. used (qe_send Q h m w) = used w \<and>
        items (qe_send Q h m w) = (items w)(h := items w h @ [m])) \<and>
     (\<forall>h m w r w'. qe_try_send Q h m w = (r, w') \<longrightarrow> used w' = used w \<and>
        items w' = (items w)(h := items w h @ (if r = Inr () then [m] else []))) \<and>
     (\<forall>h w r w'. qe_try_recv Q h w = (r, w') \<longrightarrow> used w' = used w \<and>
        (case r of
           Inr m \<Rightarrow> items w h = m # items w' h \<and> (\<forall>k. k \<noteq> h \<longrightarrow> items w' k = items w k)
         | Inl _ \<Rightarrow> items w h = [] \<and> items w' = items w))"

text \<open>\<open>while let Ok(m) = rx.try_recv()\<close>: everything the queue holds.\<close>

partial_function (option) drain :: "('m, 'w) queue_env \<Rightarrow> nat \<Rightarrow> 'w \<Rightarrow> ('m list \<times> 'w) option" where
  "drain Q h w =
     (case qe_try_recv Q h w of
        (Inl _, w) \<Rightarrow> Some ([], w)
      | (Inr m, w) \<Rightarrow> Option.bind (drain Q h w) (\<lambda>(ms, w). Some (m # ms, w)))"

section \<open>Incoming connections\<close>

record 'l incoming =
  in_cfg :: cfg
  in_conn_id :: conn_id
  in_server_id :: server_id
  in_remote_server_id :: "server_id option"
  in_link :: nat
  in_links :: "'l link_int list"

definition update_links ::
  "('l link_int, 'w) queue_env \<Rightarrow> 'l incoming \<Rightarrow> 'w \<Rightarrow> ('l incoming \<times> 'w) option" where
  "update_links L i w = do {
     (ls, w) \<leftarrow> drain L (in_link i) w;
     Some (i\<lparr>in_links := in_links i @ ls\<rparr>, w)
   }"

definition link_remote_user_datas ::
  "('l link_int, 'w) queue_env \<Rightarrow> 'l incoming \<Rightarrow> 'w \<Rightarrow> (bytes list \<times> 'l incoming \<times> 'w) option" where
  "link_remote_user_datas L i w = do {
     (i, w) \<leftarrow> update_links L i w;
     Some (map remote_user_data (in_links i), i, w)
   }"

definition link_added ::
  "('l link_int, 'w) queue_env \<Rightarrow> 'l incoming \<Rightarrow> 'w \<Rightarrow> (incoming_error + unit) \<times> 'l incoming \<times> 'w" where
  "link_added L i w =
     (case qe_recv L (in_link i) w of
        (None, w) \<Rightarrow> (Inl IServerDropped, i, w)
      | (Some l, w) \<Rightarrow> (Inr (), i\<lparr>in_links := in_links i @ [l]\<rparr>, w))"

definition incoming_accept ::
  "('l link_int, 'w) queue_env \<Rightarrow> instant \<Rightarrow> 'wr \<Rightarrow> 'rx \<Rightarrow> 'ct \<Rightarrow> 'l incoming \<Rightarrow> 'w \<Rightarrow>
   (('l, 'wr, 'rx, 'ct) agg_parts \<times> 'w) option" where
  "incoming_accept L now wr rx ct i w = do {
     (i, w) \<leftarrow> update_links L i w;
     Some (agg_parts_new now wr rx ct (in_cfg i) (in_conn_id i) Incoming (Some (in_server_id i))
       (in_remote_server_id i) (in_links i), w)
   }"

text \<open>
  Refusing tells every link; the results are ignored and the whole is cut off by a time limit, so
  that any part of the links may have sent the message.
\<close>

inductive refuse_links :: "'l sink \<Rightarrow> instant \<Rightarrow> 'l link_int list \<Rightarrow> 'l link_int list \<Rightarrow> bool"
  for S :: "'l sink" and now :: instant where
  rf_nil: "refuse_links S now [] []"
| rf_sent: "send_msg_and_flush S now (Refused ConnRefused) l r l' \<Longrightarrow> refuse_links S now ls ls' \<Longrightarrow>
    refuse_links S now (l # ls) (l' # ls')"
| rf_cut: "refuse_links S now ls ls' \<Longrightarrow> refuse_links S now (l # ls) (l # ls')"

inductive incoming_refuse ::
  "('l link_int, 'w) queue_env \<Rightarrow> 'l sink \<Rightarrow> instant \<Rightarrow> 'l incoming \<Rightarrow> 'w \<Rightarrow> 'l link_int list \<Rightarrow> 'w \<Rightarrow> bool"
  for L :: "('l link_int, 'w) queue_env" and S :: "'l sink" and now :: instant where
  "update_links L i (qe_close L (in_link i) w) = Some (i', w') \<Longrightarrow> refuse_links S now (in_links i') ls \<Longrightarrow>
   incoming_refuse L S now i w ls w'"

section \<open>Server\<close>

record ('w, 'v, 'u) server =
  si_cfg :: cfg
  si_server_id :: server_id
  si_conns :: "conn_id \<rightharpoonup> nat"
  si_closed_conns :: nat
  si_listen_tx :: nat
  si_links :: 'w
  si_listeners :: 'v
  si_closed :: 'u

text \<open>
  \<open>ServerInner::new\<close>: the receiver of the first listen queue is dropped, so that it is closed.  The queue
  of closed connections is unbounded; its capacity has no meaning.
\<close>

definition server_new ::
  "('i, 'v) queue_env \<Rightarrow> (conn_id, 'u) queue_env \<Rightarrow> cfg \<Rightarrow> server_id \<Rightarrow> 'w \<Rightarrow> 'v \<Rightarrow> 'u \<Rightarrow> ('w, 'v, 'u) server" where
  "server_new I C c sid w v u =
     (case qe_channel C 0 u of (cl, u) \<Rightarrow>
      case qe_channel I (connect_queue c) v of (li, v) \<Rightarrow>
        \<lparr>si_cfg = c, si_server_id = sid, si_conns = Map.empty, si_closed_conns = cl, si_listen_tx = li,
         si_links = w, si_listeners = qe_close I li v, si_closed = u\<rparr>)"

definition cleanup_links :: "(conn_id, 'u) queue_env \<Rightarrow> ('w, 'v, 'u) server \<Rightarrow> ('w, 'v, 'u) server option" where
  "cleanup_links C s = do {
     (ids, u) \<leftarrow> drain C (si_closed_conns s) (si_closed s);
     Some (s\<lparr>si_closed := u, si_conns := foldl (\<lambda>m i. m(i := None)) (si_conns s) ids\<rparr>)
   }"

datatype listen_error = AlreadyListening

definition listen_to_io :: "listen_error \<Rightarrow> io_error" where
  "listen_to_io e = IoError AddrInUse ''already listening''"

definition listen ::
  "('i, 'v) queue_env \<Rightarrow> ('w, 'v, 'u) server \<Rightarrow> (listen_error + nat) \<times> ('w, 'v, 'u) server" where
  "listen I s =
     (if \<not> qe_is_closed I (si_listen_tx s) (si_listeners s) then (Inl AlreadyListening, s)
      else
        (case qe_channel I (connect_queue (si_cfg s)) (si_listeners s) of
           (h, v) \<Rightarrow> (Inr h, s\<lparr>si_listen_tx := h, si_listeners := v\<rparr>)))"

definition server_connect ::
  "('l link_int, 'w) queue_env \<Rightarrow> instant \<Rightarrow> 'wr \<Rightarrow> 'rx \<Rightarrow> 'ct \<Rightarrow> conn_id \<Rightarrow> ('w, 'v, 'u) server \<Rightarrow>
   ('l, 'wr, 'rx, 'ct) agg_parts \<times> ('w, 'v, 'u) server" where
  "server_connect L now wr rx ct cid s =
     (case qe_channel L (connect_queue (si_cfg s)) (si_links s) of
        (h, w) \<Rightarrow>
          (agg_parts_new now wr rx ct (si_cfg s) cid Outgoing (Some (si_server_id s)) None [],
           s\<lparr>si_links := w, si_conns := (si_conns s)(cid \<mapsto> h)\<rparr>))"

definition listener_next ::
  "('i, 'v) queue_env \<Rightarrow> nat \<Rightarrow> ('w, 'v, 'u) server \<Rightarrow> (incoming_error + 'i) \<times> ('w, 'v, 'u) server" where
  "listener_next I h s =
     (case qe_recv I h (si_listeners s) of
        (None, v) \<Rightarrow> (Inl IServerDropped, s\<lparr>si_listeners := v\<rparr>)
      | (Some i, v) \<Rightarrow> (Inr i, s\<lparr>si_listeners := v\<rparr>))"

subsection \<open>Dispatching a link\<close>

datatype decision =
    Existing nat
  | NewConn nat nat
  | Refuse refused_reason incoming_error
  | NeedPermit

text \<open>
  One round of the loop under the lock.  The permit is the queue of the listener in which a place was
  reserved, or the error of a closed queue.
\<close>

definition dispatch_round ::
  "('l link_int, 'w) queue_env \<Rightarrow> conn_id \<Rightarrow> bool \<Rightarrow> (unit + nat) option \<Rightarrow> ('w, 'v, 'u) server \<Rightarrow>
   decision \<times> ('w, 'v, 'u) server" where
  "dispatch_round L cid existing permit s =
     (case si_conns s cid of
        Some h \<Rightarrow> (Existing h, s)
      | None \<Rightarrow>
          if \<not> existing then
            (case permit of
               Some (Inr p) \<Rightarrow>
                 (case qe_channel L (connect_queue (si_cfg s)) (si_links s) of
                    (h, w) \<Rightarrow> (NewConn h p, s\<lparr>si_links := w, si_conns := (si_conns s)(cid \<mapsto> h)\<rparr>))
             | Some (Inl _) \<Rightarrow> (Refuse NotListening INotListening, s)
             | None \<Rightarrow> (NeedPermit, s))
          else (Refuse Closed IClosed, s))"

lemma dispatch_round_again: "dispatch_round L cid existing p s = (NeedPermit, s') \<Longrightarrow> p = None"
  by (auto simp: dispatch_round_def split: option.splits if_splits sum.splits prod.splits)

text \<open>
  The loop.  \<open>await\<close> gives the permit and the state of the server when the permit is obtained: other
  calls have run in the meantime.
\<close>

function dispatch_loop ::
  "('l link_int, 'w) queue_env \<Rightarrow> (('w, 'v, 'u) server \<Rightarrow> (unit + nat) \<times> ('w, 'v, 'u) server) \<Rightarrow> conn_id \<Rightarrow> bool \<Rightarrow>
   bool \<Rightarrow> ('w, 'v, 'u) server \<Rightarrow> decision \<times> ('w, 'v, 'u) server" where
  "dispatch_loop L await cid existing need s =
     (case (if need then (case await s of (p, s) \<Rightarrow> (Some p, s)) else (None, s)) of
        (p, s) \<Rightarrow>
          (case dispatch_round L cid existing p s of
             (NeedPermit, s) \<Rightarrow> dispatch_loop L await cid existing True s
           | r \<Rightarrow> r))"
  by pat_completeness auto
termination
  by (relation "measure (\<lambda>(L, await, cid, existing, need, s). if need then 0 else 1)")
    (auto split: if_splits prod.splits dest: dispatch_round_again [OF sym])

declare dispatch_loop.simps [simp del]

subsection \<open>The steps of \<open>add_incoming\<close>\<close>

definition incoming_link ::
  "('w, 'v, 'u) server \<Rightarrow> link_id \<Rightarrow> instant \<Rightarrow> 'l \<Rightarrow> link_cfg option \<Rightarrow> request \<Rightarrow> 'l link_int" where
  "incoming_link s lid now l lc rq =
     link_new lid now (rq_conn_id rq) l (si_cfg s) (rq_remote_cfg rq) lc Incoming (rq_roundtrip rq)
       (rq_remote_user_data rq)"

definition new_incoming :: "('w, 'v, 'u) server \<Rightarrow> request \<Rightarrow> nat \<Rightarrow> 'l incoming" where
  "new_incoming s rq h =
     \<lparr>in_cfg = si_cfg s, in_conn_id = rq_conn_id rq, in_server_id = si_server_id s,
      in_remote_server_id = rq_remote_server_id rq, in_link = h, in_links = []\<rparr>"

text \<open>
  A call: it has entered, knows the request of the remote endpoint, needs a place with a listener,
  waits for it or has got it, has decided, holds a place in the queue of an existing connection, has put its link
  into the queue of a new connection, or has returned.
\<close>

datatype 'l in_call =
    InEntered
  | InRequest request
  | InNeed request
  | InWait request nat
  | InPermit request "unit + nat"
  | InDecided request decision
  | InPlace request nat
  | InStarted request nat nat "'l link_int"
  | InOk request "'l link_int"
  | InErr incoming_error
  | InPanic

inductive in_step ::
  "('l link_int, 'w) queue_env \<Rightarrow> ('l incoming, 'v) queue_env \<Rightarrow>
   ('w, 'v, 'u) server \<times> 'l in_call \<Rightarrow> ('w, 'v, 'u) server \<times> 'l in_call \<Rightarrow> bool"
  for L :: "('l link_int, 'w) queue_env" and I :: "('l incoming, 'v) queue_env" where
  in_handshake: "expect_connect D secret rt m = Inr rq \<Longrightarrow> in_step L I (s, InEntered) (s, InRequest rq)"
| in_handshake_err: "in_step L I (s, InEntered) (s, InErr (IIo e))"
| in_dispatch: "dispatch_round L (rq_conn_id rq) (rq_existing rq) None s = (d, s') \<Longrightarrow>
    in_step L I (s, InRequest rq) (s', if d = NeedPermit then InNeed rq else InDecided rq d)"
| in_wait: "in_step L I (s, InNeed rq) (s, InWait rq (si_listen_tx s))"
| in_permit: "qe_reserve I h (si_listeners s) = (r, v) \<Longrightarrow>
    in_step L I (s, InWait rq h) (s\<lparr>si_listeners := v\<rparr>, InPermit rq (map_sum id (\<lambda>_. h) r))"
| in_dispatch_again: "dispatch_round L (rq_conn_id rq) (rq_existing rq) (Some p) s = (d, s') \<Longrightarrow>
    in_step L I (s, InPermit rq p) (s', InDecided rq d)"
| in_existing: "qe_reserve L h (si_links s) = (Inr (), w) \<Longrightarrow>
    in_step L I (s, InDecided rq (Existing h)) (s\<lparr>si_links := w\<rparr>, InPlace rq h)"
| in_existing_closed: "qe_reserve L h (si_links s) = (Inl (), w) \<Longrightarrow> e = IClosed \<or> (\<exists>io. e = IIo io) \<Longrightarrow>
    in_step L I (s, InDecided rq (Existing h)) (s\<lparr>si_links := w\<rparr>, InErr e)"
| in_join: "l = incoming_link s lid now t lc rq \<Longrightarrow>
    in_step L I (s, InPlace rq h) (s\<lparr>si_links := qe_send L h l (si_links s)\<rparr>, InOk rq l)"
| in_start: "l = incoming_link s lid now t lc rq \<Longrightarrow> qe_try_send L h l (si_links s) = (Inr (), w) \<Longrightarrow>
    in_step L I (s, InDecided rq (NewConn h p)) (s\<lparr>si_links := w\<rparr>, InStarted rq h p l)"
| in_start_panic: "l = incoming_link s lid now t lc rq \<Longrightarrow> qe_try_send L h l (si_links s) = (Inl (), w) \<Longrightarrow>
    in_step L I (s, InDecided rq (NewConn h p)) (s\<lparr>si_links := w\<rparr>, InPanic)"
| in_announce:
    "in_step L I (s, InStarted rq h p l)
      (s\<lparr>si_listeners := qe_send I p (new_incoming s rq h) (si_listeners s)\<rparr>, InOk rq l)"
| in_refuse: "e = err \<or> (\<exists>io. e = IIo io) \<Longrightarrow>
    in_step L I (s, InDecided rq (Refuse reason err)) (s, InErr e)"

inductive_cases in_stepE: "in_step L I (s, a) (s', a')"

section \<open>Outgoing connections\<close>

datatype connect_error = ConnectTimeout

definition connect_to_io :: "connect_error \<Rightarrow> io_error" where
  "connect_to_io e = IoError TimedOut ''connect timeout''"

text \<open>The outcome of awaiting the configuration of the remote endpoint is an argument.\<close>

definition outgoing_connect ::
  "unit + exchanged_cfg \<Rightarrow> ('rx, 'ct) channel \<Rightarrow> (connect_error + ('rx, 'ct) channel) option" where
  "outgoing_connect connected_rx c =
     (case connected_rx of
        Inl _ \<Rightarrow> Some (Inl ConnectTimeout)
      | Inr rc \<Rightarrow> map_option Inr (set_remote_cfg rc c))"

text \<open>The function \<open>connect\<close>: a connection of outgoing links only.\<close>

definition connect ::
  "instant \<Rightarrow> 'wr \<Rightarrow> 'rx \<Rightarrow> 'ct \<Rightarrow> conn_id \<Rightarrow> cfg \<Rightarrow> ('l, 'wr, 'rx, 'ct) agg_parts" where
  "connect now wr rx ct cid c = agg_parts_new now wr rx ct c cid Outgoing None None []"

section \<open>Runs of the server\<close>

text \<open>
  Calls of \<open>add_incoming\<close> start (with the clean-up of closed connections) and advance in any order, with
  calls of \<open>listen\<close> and \<open>connect\<close> in between.  Elsewhere connections take links out of their queues,
  listeners take connections, and identifiers of closed connections are reported.
\<close>

inductive srv_step ::
  "('l link_int, 'w) queue_env \<Rightarrow> ('l incoming, 'v) queue_env \<Rightarrow> (conn_id, 'u) queue_env \<Rightarrow>
   ('w \<Rightarrow> nat set) \<Rightarrow> ('w \<Rightarrow> nat \<Rightarrow> 'l link_int list) \<Rightarrow>
   ('w, 'v, 'u) server \<times> 'l in_call list \<Rightarrow> ('w, 'v, 'u) server \<times> 'l in_call list \<Rightarrow> bool"
  for L :: "('l link_int, 'w) queue_env" and I :: "('l incoming, 'v) queue_env"
    and C :: "(conn_id, 'u) queue_env" and used :: "'w \<Rightarrow> nat set" and items :: "'w \<Rightarrow> nat \<Rightarrow> 'l link_int list" where
  sv_call: "length (user_data :: bytes) \<le> 65535 \<Longrightarrow> cleanup_links C s = Some s' \<Longrightarrow>
    srv_step L I C used items (s, calls) (s', calls @ [InEntered])"
| sv_step: "i < length calls \<Longrightarrow> in_step L I (s, calls ! i) (s', a) \<Longrightarrow>
    srv_step L I C used items (s, calls) (s', calls[i := a])"
| sv_listen: "listen I s = (r, s') \<Longrightarrow> srv_step L I C used items (s, calls) (s', calls)"
| sv_connect: "s' = snd (server_connect L now () () () cid s :: ('l, unit, unit, unit) agg_parts \<times> ('w, 'v, 'u) server) \<Longrightarrow>
    srv_step L I C used items (s, calls) (s', calls)"
| sv_links: "used w = used (si_links s) \<Longrightarrow> \<forall>h. set (items w h) \<subseteq> set (items (si_links s) h) \<Longrightarrow>
    srv_step L I C used items (s, calls) (s\<lparr>si_links := w\<rparr>, calls)"
| sv_listeners: "srv_step L I C used items (s, calls) (s\<lparr>si_listeners := v\<rparr>, calls)"
| sv_closed: "srv_step L I C used items (s, calls) (s\<lparr>si_closed := u\<rparr>, calls)"

text \<open>
  The invariant: every queue of links belongs to one connection (\<open>own\<close>), the one it is registered for
  and that all its links and all calls that refer to it are for.
\<close>

fun call_own :: "(nat \<rightharpoonup> conn_id) \<Rightarrow> 'l in_call \<Rightarrow> bool" where
  "call_own own (InDecided rq (Existing h)) \<longleftrightarrow> own h = Some (rq_conn_id rq)"
| "call_own own (InDecided rq (NewConn h p)) \<longleftrightarrow> own h = Some (rq_conn_id rq) \<and> \<not> rq_existing rq"
| "call_own own (InPlace rq h) \<longleftrightarrow> own h = Some (rq_conn_id rq)"
| "call_own own (InStarted rq h p l) \<longleftrightarrow>
     own h = Some (rq_conn_id rq) \<and> lk_conn_id l = rq_conn_id rq \<and> \<not> rq_existing rq"
| "call_own own (InOk rq l) \<longleftrightarrow> lk_conn_id l = rq_conn_id rq"
| "call_own own _ \<longleftrightarrow> True"

definition server_own ::
  "('w \<Rightarrow> nat set) \<Rightarrow> ('w \<Rightarrow> nat \<Rightarrow> 'l link_int list) \<Rightarrow> (nat \<rightharpoonup> conn_id) \<Rightarrow> ('w, 'v, 'u) server \<Rightarrow> bool" where
  "server_own used items own s \<longleftrightarrow>
     (\<forall>cid h. si_conns s cid = Some h \<longrightarrow> own h = Some cid) \<and> dom own \<subseteq> used (si_links s) \<and>
     (\<forall>h. \<forall>l \<in> set (items (si_links s) h). own h = Some (lk_conn_id l))"

definition same_server :: "('w, 'v, 'u) server \<Rightarrow> ('w, 'v, 'u) server \<Rightarrow> bool" where
  "same_server s s' \<longleftrightarrow> si_cfg s' = si_cfg s \<and> si_server_id s' = si_server_id s"

lemma queue_law_channel:
  "queue_law Q used items \<Longrightarrow> qe_channel Q n w = (h, w') \<Longrightarrow>
     h \<notin> used w \<and> used w' = insert h (used w) \<and> items w' = (items w)(h := [])"
  by (simp add: queue_law_def)

lemma queue_law_reserve:
  "queue_law Q used items \<Longrightarrow> qe_reserve Q h w = (r, w') \<Longrightarrow> used w' = used w \<and> items w' = items w"
  by (simp add: queue_law_def)

lemma queue_law_send:
  "queue_law Q used items \<Longrightarrow> used (qe_send Q h m w) = used w \<and>
     items (qe_send Q h m w) = (items w)(h := items w h @ [m])"
  by (simp add: queue_law_def)

lemma queue_law_try_send:
  "queue_law Q used items \<Longrightarrow> qe_try_send Q h m w = (r, w') \<Longrightarrow> used w' = used w \<and>
     items w' = (items w)(h := items w h @ (if r = Inr () then [m] else []))"
  by (simp add: queue_law_def)

lemma queue_law_recv:
  assumes "queue_law Q used items" and "qe_try_recv Q h w = (r, w')"
  shows "used w' = used w \<and> (case r of
     Inr m \<Rightarrow> items w h = m # items w' h \<and> (\<forall>k. k \<noteq> h \<longrightarrow> items w' k = items w k)
   | Inl _ \<Rightarrow> items w h = [] \<and> items w' = items w)"
proof -
  have "\<forall>h w r w'. qe_try_recv Q h w = (r, w') \<longrightarrow> used w' = used w \<and> (case r of
     Inr m \<Rightarrow> items w h = m # items w' h \<and> (\<forall>k. k \<noteq> h \<longrightarrow> items w' k = items w k)
   | Inl _ \<Rightarrow> items w h = [] \<and> items w' = items w)"
    using assms(1) unfolding queue_law_def by (elim conjE) assumption
  with assms(2) show ?thesis by blast
qed

text \<open>Draining a queue ends and gives everything in it.\<close>

lemma drain_all:
  assumes "queue_law Q used items"
  shows "\<exists>w'. drain Q h w = Some (items w h, w') \<and> items w' h = []"
proof (induction "items w h" arbitrary: w)
  case Nil
  obtain r w' where r: "qe_try_recv Q h w = (r, w')" by force
  note q = queue_law_recv [OF assms r]
  with Nil obtain e where e: "r = Inl e" by (cases r) auto
  with q have "items w' = items w" by simp
  moreover have "drain Q h w = Some ([], w')" by (subst drain.simps) (simp add: r e)
  ultimately show ?case using Nil by (intro exI [of _ w']) simp
next
  case (Cons m ms)
  obtain r w' where r: "qe_try_recv Q h w = (r, w')" by force
  note q = queue_law_recv [OF assms r]
  with Cons(2) have m: "r = Inr m" "items w' h = ms" by (cases r; simp)+
  then obtain w'' where d: "drain Q h w' = Some (ms, w'')" "items w'' h = []"
    using Cons(1) [of w'] by blast
  have "drain Q h w = Some (m # ms, w'')" by (subst drain.simps) (simp add: r m d)
  then show ?case using d(2) Cons(2) by (intro exI [of _ w'']) simp
qed

lemma call_own_mono: "call_own own a \<Longrightarrow> own \<subseteq>\<^sub>m own' \<Longrightarrow> call_own own' a"
  by (cases "(own, a)" rule: call_own.cases) (auto simp: map_le_def dom_def)

lemma server_own_frame:
  "server_own used items own s \<Longrightarrow> si_conns s' = si_conns s \<Longrightarrow> used (si_links s') = used (si_links s) \<Longrightarrow>
     \<forall>h. set (items (si_links s') h) \<subseteq> set (items (si_links s) h) \<Longrightarrow> server_own used items own s'"
  by (fastforce simp: server_own_def)

text \<open>A queue that is created for a connection extends the ownership.\<close>

lemma server_own_channel:
  assumes law: "queue_law L used items" and own: "server_own used items own s"
    and q: "qe_channel L n (si_links s) = (h, w)"
  shows "server_own used items (own(h \<mapsto> cid)) (s\<lparr>si_links := w, si_conns := (si_conns s)(cid \<mapsto> h)\<rparr>) \<and>
    own \<subseteq>\<^sub>m own(h \<mapsto> cid)"
proof -
  note ch = queue_law_channel [OF law q]
  then have "h \<notin> dom own" using own by (auto simp: server_own_def)
  moreover have "si_conns s c \<noteq> Some h" for c using own calculation by (auto simp: server_own_def)
  ultimately show ?thesis using ch own by (auto simp: server_own_def map_le_def)
qed

lemma server_own_put:
  "server_own used items own s \<Longrightarrow> own h = Some (lk_conn_id l) \<Longrightarrow> used w = used (si_links s) \<Longrightarrow>
     items w = (items (si_links s))(h := items (si_links s) h @ [l]) \<Longrightarrow> s' = s\<lparr>si_links := w\<rparr> \<Longrightarrow>
     server_own used items own s'"
  by (auto simp: server_own_def)

lemma dispatch_round_own:
  assumes law: "queue_law L used items" and own: "server_own used items own s"
    and d: "dispatch_round L (rq_conn_id rq) (rq_existing rq) p s = (d, s')"
  shows "\<exists>own'. own \<subseteq>\<^sub>m own' \<and> server_own used items own' s' \<and> call_own own' (InDecided rq d) \<and> same_server s s'"
proof (cases "\<exists>h q. d = NewConn h q")
  case True
  then obtain h q w where n: "d = NewConn h q" "qe_channel L (connect_queue (si_cfg s)) (si_links s) = (h, w)"
    "s' = s\<lparr>si_links := w, si_conns := (si_conns s)(rq_conn_id rq \<mapsto> h)\<rparr>" "\<not> rq_existing rq"
    using d by (auto simp: dispatch_round_def split: option.splits if_splits sum.splits prod.splits)
  then show ?thesis using server_own_channel [OF law own n(2), of "rq_conn_id rq"]
    by (intro exI [of _ "own(h \<mapsto> rq_conn_id rq)"]) (simp add: same_server_def)
next
  case False
  then have "s' = s \<and> (\<forall>h. d = Existing h \<longrightarrow> si_conns s (rq_conn_id rq) = Some h)"
    using d by (auto simp: dispatch_round_def split: option.splits if_splits sum.splits prod.splits)
  then show ?thesis using own False
    by (intro exI [of _ own]) (cases d; auto simp: server_own_def same_server_def)
qed

lemma in_step_own:
  assumes law: "queue_law L used items" and own: "server_own used items own s" and ca: "call_own own a"
    and st: "in_step L I (s, a) (s', a')"
  shows "\<exists>own'. own \<subseteq>\<^sub>m own' \<and> server_own used items own' s' \<and> call_own own' a' \<and> same_server s s'"
proof -
  have keep: ?thesis if "server_own used items own s'" "call_own own a'" "same_server s s'"
    using that by (intro exI [of _ own]) simp
  from st show ?thesis
  proof (cases rule: in_step.cases)
    case (in_dispatch rq d)
    from dispatch_round_own [OF law own in_dispatch(3)] show ?thesis using in_dispatch(2) by auto
  next
    case (in_dispatch_again rq p d)
    from dispatch_round_own [OF law own in_dispatch_again(3)] show ?thesis using in_dispatch_again(2) by auto
  next
    case (in_existing h w rq)
    show ?thesis using queue_law_reserve [OF law in_existing(4)] own ca in_existing(1-3)
      by (intro keep) (auto simp: same_server_def server_own_def)
  next
    case (in_existing_closed h w e rq)
    show ?thesis using queue_law_reserve [OF law in_existing_closed(4)] own in_existing_closed(1-3)
      by (intro keep) (auto simp: same_server_def server_own_def)
  next
    case (in_join l lid now t lc rq h)
    have "lk_conn_id l = rq_conn_id rq" by (simp add: in_join(4) incoming_link_def link_new_def)
    then show ?thesis using queue_law_send [OF law, of h l "si_links s"] ca in_join(1-3)
      by (intro keep server_own_put [OF own, of h l "qe_send L h l (si_links s)"]) (auto simp: same_server_def)
  next
    case (in_start l lid now t lc rq h w p)
    have "lk_conn_id l = rq_conn_id rq" by (simp add: in_start(4) incoming_link_def link_new_def)
    then show ?thesis using queue_law_try_send [OF law in_start(5)] ca in_start(1-3)
      by (intro keep server_own_put [OF own, of h l w]) (auto simp: same_server_def)
  next
    case (in_start_panic l lid now t lc rq h w p)
    show ?thesis using queue_law_try_send [OF law in_start_panic(5)] own in_start_panic(1-3)
      by (intro keep) (auto simp: same_server_def server_own_def)
  qed (rule keep; use own ca in \<open>auto simp: same_server_def server_own_def\<close>)+
qed

lemma remove_all_Some:
  "foldl (\<lambda>m i. m(i := None)) m ids k = Some (v :: nat) \<Longrightarrow> m k = Some v"
proof (induction ids arbitrary: m)
  case (Cons i ids)
  from Cons.IH [of "m(i := None)"] Cons.prems show ?case by (auto split: if_splits)
qed simp

lemma cleanup_links_own:
  assumes own: "server_own used items own s" and c: "cleanup_links C s = Some s'"
  shows "server_own used items own s' \<and> same_server s s'"
proof -
  obtain ids u where "s' = s\<lparr>si_closed := u, si_conns := foldl (\<lambda>m i. m(i := None)) (si_conns s) ids\<rparr>"
    using c by (auto simp: cleanup_links_def bind_Some_iff split: prod.splits)
  then show ?thesis using own by (auto simp: server_own_def same_server_def dest: remove_all_Some)
qed

definition srv_inv ::
  "('w \<Rightarrow> nat set) \<Rightarrow> ('w \<Rightarrow> nat \<Rightarrow> 'l link_int list) \<Rightarrow> ('w, 'v, 'u) server \<times> 'l in_call list \<Rightarrow> bool" where
  "srv_inv used items = (\<lambda>(s, calls). \<exists>own. server_own used items own s \<and> (\<forall>a \<in> set calls. call_own own a))"

lemma srv_invI:
  "server_own used items own s \<Longrightarrow> \<forall>a \<in> set calls. call_own own a \<Longrightarrow> srv_inv used items (s, calls)"
  by (auto simp: srv_inv_def)

lemma srv_step_ok:
  assumes law: "queue_law L used items" and st: "srv_step L I C used items p p'" and inv: "srv_inv used items p"
  shows "srv_inv used items p' \<and> same_server (fst p) (fst p')"
proof -
  obtain s calls own where p: "p = (s, calls)" and own: "server_own used items own s" "\<forall>a \<in> set calls. call_own own a"
    using inv by (cases p) (auto simp: srv_inv_def)
  from st [unfolded p] show ?thesis
  proof (cases rule: srv_step.cases)
    case (sv_call ud s')
    then show ?thesis using cleanup_links_own [OF own(1) sv_call(3)] own(2) p
      by (auto intro!: srv_invI [of used items own])
  next
    case (sv_step i s' a)
    have "call_own own (calls ! i)" using own(2) sv_step(2) by simp
    from in_step_own [OF law own(1) this sv_step(3)] obtain own' where
      o: "own \<subseteq>\<^sub>m own'" "server_own used items own' s'" "call_own own' a" "same_server s s'" by blast
    have "\<forall>b \<in> set (calls[i := a]). call_own own' b"
      using set_update_subset_insert [of calls i a] o(3) own(2) call_own_mono [OF _ o(1)] by blast
    then show ?thesis using srv_invI [OF o(2)] o(4) sv_step(1) p by simp
  next
    case (sv_listen r s')
    then show ?thesis using own p
      by (auto simp: listen_def server_own_def same_server_def split: if_splits prod.splits intro!: srv_invI [of used items own])
  next
    case (sv_connect s' now cid)
    obtain h w where q: "qe_channel L (connect_queue (si_cfg s)) (si_links s) = (h, w)" by force
    note e = server_own_channel [OF law own(1) q, of cid]
    have "\<forall>a \<in> set calls. call_own (own(h \<mapsto> cid)) a" using e own(2) call_own_mono by blast
    moreover have "s' = s\<lparr>si_links := w, si_conns := (si_conns s)(cid \<mapsto> h)\<rparr>"
      using sv_connect(2) q by (simp add: server_connect_def)
    ultimately show ?thesis using srv_invI [of used items "own(h \<mapsto> cid)" s' calls] e sv_connect(1) p
      by (simp add: same_server_def)
  next
    case (sv_links w)
    then show ?thesis using server_own_frame [OF own(1), of "s\<lparr>si_links := w\<rparr>"] own(2) p
      by (auto simp: same_server_def intro: srv_invI)
  next
    case (sv_listeners v)
    then show ?thesis using server_own_frame [OF own(1), of "s\<lparr>si_listeners := v\<rparr>"] own(2) p
      by (auto simp: same_server_def intro: srv_invI)
  next
    case (sv_closed u)
    then show ?thesis using server_own_frame [OF own(1), of "s\<lparr>si_closed := u\<rparr>"] own(2) p
      by (auto simp: same_server_def intro: srv_invI)
  qed
qed

interpretation sv: step_system "srv_step L I C used items"
  "\<lambda>p. queue_law L used items \<and> srv_inv used items p" "\<lambda>p p'. same_server (fst p) (fst p')"
  for L I C used items
proof unfold_locales
  fix p p' p''
  show "queue_law L used items \<and> srv_inv used items p \<Longrightarrow> srv_step L I C used items p p' \<Longrightarrow>
      queue_law L used items \<and> srv_inv used items p'"
    and "queue_law L used items \<and> srv_inv used items p \<Longrightarrow> srv_step L I C used items p p' \<Longrightarrow>
      same_server (fst p) (fst p')"
    using srv_step_ok by blast+
  show "same_server (fst p) (fst p)"
    and "same_server (fst p) (fst p') \<Longrightarrow> same_server (fst p') (fst p'') \<Longrightarrow> same_server (fst p) (fst p'')"
    by (simp_all add: same_server_def)
qed

section \<open>Properties\<close>

text \<open>
  Queues to evaluate on: the next number, the messages, the capacities and the closed queues.
  Waiting for a place in a full queue counts as never getting one.
\<close>

record 'm queues =
  qs_next :: nat
  qs_items :: "nat \<Rightarrow> 'm list"
  qs_cap :: "nat \<Rightarrow> nat"
  qs_closed :: "nat \<Rightarrow> bool"

definition no_queues :: "'m queues" where
  "no_queues = \<lparr>qs_next = 0, qs_items = (\<lambda>_. []), qs_cap = (\<lambda>_. 0), qs_closed = (\<lambda>_. True)\<rparr>"

definition list_queues :: "('m, 'm queues) queue_env" where
  "list_queues = \<lparr>
     qe_channel = (\<lambda>n q. (qs_next q, q\<lparr>qs_next := qs_next q + 1, qs_items := (qs_items q)(qs_next q := []),
       qs_cap := (qs_cap q)(qs_next q := n), qs_closed := (qs_closed q)(qs_next q := False)\<rparr>)),
     qe_is_closed = (\<lambda>h q. qs_closed q h),
     qe_reserve = (\<lambda>h q. (if qs_closed q h \<or> length (qs_items q h) \<ge> qs_cap q h then Inl () else Inr (), q)),
     qe_send = (\<lambda>h m q. q\<lparr>qs_items := (qs_items q)(h := qs_items q h @ [m])\<rparr>),
     qe_try_send = (\<lambda>h m q. if qs_closed q h \<or> length (qs_items q h) \<ge> qs_cap q h then (Inl (), q)
       else (Inr (), q\<lparr>qs_items := (qs_items q)(h := qs_items q h @ [m])\<rparr>)),
     qe_try_recv = (\<lambda>h q. case qs_items q h of [] \<Rightarrow> (Inl TryEmpty, q)
       | m # ms \<Rightarrow> (Inr m, q\<lparr>qs_items := (qs_items q)(h := ms)\<rparr>)),
     qe_recv = (\<lambda>h q. case qs_items q h of [] \<Rightarrow> (None, q)
       | m # ms \<Rightarrow> (Some m, q\<lparr>qs_items := (qs_items q)(h := ms)\<rparr>)),
     qe_close = (\<lambda>h q. q\<lparr>qs_closed := (qs_closed q)(h := True)\<rparr>)\<rparr>"

lemma list_queues_law: "queue_law list_queues (\<lambda>q. {..< qs_next q}) qs_items"
  by (auto simp: queue_law_def list_queues_def lessThan_Suc split: if_splits list.splits)

definition sample_request :: request where
  "sample_request = \<lparr>rq_remote_server_id = None, rq_conn_id = ConnId 77, rq_existing = False,
     rq_remote_cfg = \<lparr>x_recv_buffer = 1000\<rparr>, rq_roundtrip = 5, rq_remote_user_data = []\<rparr>"

text \<open>A server with one registered connection, whose queue of links has one place and is empty.\<close>

definition small_server :: "(unit link_int queues, unit incoming queues, conn_id queues) server" where
  "small_server = \<lparr>si_cfg = default_cfg\<lparr>connect_queue := 1\<rparr>, si_server_id = ServerId 9,
     si_conns = [ConnId 77 \<mapsto> 0], si_closed_conns = 0, si_listen_tx = 0,
     si_links = snd (qe_channel list_queues 1 no_queues), si_listeners = no_queues, si_closed = no_queues\<rparr>"

definition empty_server :: "(unit link_int queues, unit incoming queues, conn_id queues) server" where
  "empty_server = server_new list_queues list_queues default_cfg (ServerId 9) no_queues no_queues no_queues"

definition sample_incoming_link :: "unit link_int" where
  "sample_incoming_link = incoming_link small_server (LinkId 5) 20 () None sample_request"

text \<open>
  C8. Links never get to another connection: in every run of the server with any number of concurrent
  calls, a queue of links is registered for at most one connection, every link in it belongs to that
  connection, and a call that succeeds has added a link for the connection whose identifier it
  decrypted.  A call for a link of an existing connection never starts a new one.  The server keeps
  its configuration and its identifier.
\<close>

theorem links_join_own_connection:
  assumes run: "(srv_step L I C used items)\<^sup>*\<^sup>* (s0, []) (s, calls)" and law: "queue_law L used items"
    and init: "si_conns s0 = Map.empty" "\<forall>h. items (si_links s0) h = []"
  shows "(\<forall>cid h l. si_conns s cid = Some h \<and> l \<in> set (items (si_links s) h) \<longrightarrow> lk_conn_id l = cid) \<and>
    (\<forall>cid cid' h. si_conns s cid = Some h \<and> si_conns s cid' = Some h \<longrightarrow> cid = cid') \<and>
    (\<forall>rq l. InOk rq l \<in> set calls \<longrightarrow> lk_conn_id l = rq_conn_id rq) \<and>
    (\<forall>rq h p. InDecided rq (NewConn h p) \<in> set calls \<longrightarrow> \<not> rq_existing rq) \<and>
    si_cfg s = si_cfg s0 \<and> si_server_id s = si_server_id s0"
proof -
  have i0: "queue_law L used items \<and> srv_inv used items (s0, [])"
    using init law by (auto simp: server_own_def intro!: srv_invI [of _ _ Map.empty])
  obtain own where own: "server_own used items own s" "\<forall>a \<in> set calls. call_own own a"
    using sv.run_inv [OF run i0] by (auto simp: srv_inv_def)
  have "(\<forall>rq l. InOk rq l \<in> set calls \<longrightarrow> lk_conn_id l = rq_conn_id rq) \<and>
    (\<forall>rq h p. InDecided rq (NewConn h p) \<in> set calls \<longrightarrow> \<not> rq_existing rq)"
    using own(2) call_own.simps(2,5) by blast
  moreover have "(\<forall>cid h l. si_conns s cid = Some h \<and> l \<in> set (items (si_links s) h) \<longrightarrow> lk_conn_id l = cid) \<and>
    (\<forall>cid cid' h. si_conns s cid = Some h \<and> si_conns s cid' = Some h \<longrightarrow> cid = cid')"
    using own(1) unfolding server_own_def by (metis option.inject)
  moreover have "same_server s0 s" using sv.run_moves [OF run i0] by simp
  ultimately show ?thesis by (simp add: same_server_def)
qed

theorem links_join_own_connection_witness:
  "\<exists>s calls. (srv_step list_queues list_queues list_queues (\<lambda>q. {..< qs_next q}) qs_items)\<^sup>*\<^sup>*
      (empty_server, []) (s, calls) \<and> si_conns s (ConnId 3) = Some 0 \<and>
    (\<forall>cid. si_conns s cid = Some 0 \<longrightarrow> cid = ConnId 3)"
proof -
  let ?s = "snd (server_connect list_queues 0 () () () (ConnId 3) empty_server ::
    (unit, unit, unit, unit) agg_parts \<times> _)"
  have run: "(srv_step list_queues list_queues list_queues (\<lambda>q. {..< qs_next q}) qs_items)\<^sup>*\<^sup>*
      (empty_server, []) (?s, [])"
    by (rule r_into_rtranclp, rule sv_connect [OF refl])
  have c: "si_conns ?s (ConnId 3) = Some 0"
    by (simp add: server_connect_def empty_server_def server_new_def list_queues_def no_queues_def)
  have "si_conns empty_server = Map.empty" "\<forall>h. qs_items (si_links empty_server) h = []"
    by (simp_all add: empty_server_def server_new_def list_queues_def no_queues_def)
  note own = links_join_own_connection [OF run list_queues_law this]
  have "\<forall>cid. si_conns ?s cid = Some 0 \<longrightarrow> cid = ConnId 3" using own c by blast
  with run c show ?thesis by blast
qed

text \<open>
  C10. The loop that decides what to do with a link ends after at most two rounds, whatever other calls do
  while it waits, and decides as follows: a link of a registered connection joins it; otherwise a link
  whose endpoint believes the connection to exist is refused as closed; otherwise, after a place with
  the listener was awaited, the link joins a connection that was registered in the meantime, is
  refused if nobody listens, or is registered as a new connection with a queue of its own.
\<close>

theorem dispatch_decides:
  "dispatch_loop L await cid existing False s =
     (case si_conns s cid of
        Some h \<Rightarrow> (Existing h, s)
      | None \<Rightarrow>
          if existing then (Refuse Closed IClosed, s)
          else
            let (permit, s') = await s in
            (case si_conns s' cid of
               Some h \<Rightarrow> (Existing h, s')
             | None \<Rightarrow>
                 (case permit of
                    Inl _ \<Rightarrow> (Refuse NotListening INotListening, s')
                  | Inr p \<Rightarrow>
                      let (h, w) = qe_channel L (connect_queue (si_cfg s')) (si_links s') in
                      (NewConn h p, s'\<lparr>si_links := w, si_conns := (si_conns s')(cid \<mapsto> h)\<rparr>))))"
proof -
  obtain p s' where a: "await s = (p, s')" by force
  have again: "dispatch_loop L await cid False True s = dispatch_round L cid False (Some p) s'"
  proof (cases "dispatch_round L cid False (Some p) s'")
    case (Pair d s'')
    then show ?thesis using dispatch_round_again [of L cid False "Some p" s' s'']
      by (subst dispatch_loop.simps) (cases d; simp add: a)
  qed
  show ?thesis
    by (subst dispatch_loop.simps)
      (auto simp: a dispatch_round_def again Let_def split: option.split sum.split prod.split)
qed

text \<open>
  C11. A connection that a listener hands out is usable: the first link is in its queue before the
  connection is announced, so that accepting it, after whatever other links have arrived, gives a
  channel that knows the configuration of the remote endpoint (splitting it cannot panic), a control
  handle that counts as connected, and a task that starts with all links that have arrived.
\<close>

theorem new_connection_usable:
  assumes law: "queue_law L used items"
    and start: "in_step L I (s, InDecided rq (NewConn h p)) (s1, InStarted rq h p l)"
    and later: "\<exists>ls. items w h = items (si_links s1) h @ ls"
  shows "\<exists>parts w'. incoming_accept L now wr rx ct (new_incoming s1 rq h) w = Some (parts, w') \<and>
    into_tx_rx (ap_channel parts) \<noteq> None \<and> ct_connected (ap_control parts) \<and>
    ct_conn_id (ap_control parts) = rq_conn_id rq \<and> init_links (ap_task parts) = items w h \<and>
    l \<in> set (init_links (ap_task parts)) \<and> items w' h = []"
proof -
  obtain w1 where "qe_try_send L h l (si_links s) = (Inr (), w1)" "s1 = s\<lparr>si_links := w1\<rparr>"
    using start by (auto elim: in_stepE)
  then have l: "l \<in> set (items w h)" using queue_law_try_send [OF law] later by fastforce
  obtain w' where d: "drain L h w = Some (items w h, w')" "items w' h = []" using drain_all [OF law] by blast
  define i where "i = (new_incoming s1 rq h)\<lparr>in_links := items w h\<rparr>"
  have "incoming_accept L now wr rx ct (new_incoming s1 rq h) w =
    Some (agg_parts_new now wr rx ct (in_cfg i) (in_conn_id i) Incoming (Some (in_server_id i))
      (in_remote_server_id i) (items w h), w')"
    using d(1) by (simp add: incoming_accept_def update_links_def new_incoming_def i_def)
  then show ?thesis using l d(2)
    by (auto simp: agg_parts_new_def channel_new_def into_tx_rx_def i_def new_incoming_def task_new_def Let_def
        split: list.splits)
qed

theorem new_connection_usable_witness:
  "\<exists>parts w'. incoming_accept list_queues 30 () () () (new_incoming small_server sample_request 0 :: unit incoming)
      (qe_send list_queues 0 sample_incoming_link (si_links small_server)) = Some (parts, w') \<and>
    into_tx_rx (ap_channel parts) \<noteq> None"
proof -
  let ?w = "qe_send list_queues 0 sample_incoming_link (si_links small_server)"
  have "qe_try_send list_queues 0 sample_incoming_link (si_links small_server) = (Inr (), ?w)"
    by (simp add: list_queues_def small_server_def no_queues_def)
  then have "in_step list_queues list_queues (small_server, InDecided sample_request (NewConn 0 0))
    (small_server\<lparr>si_links := ?w\<rparr>, InStarted sample_request 0 0 sample_incoming_link)"
    by (intro in_start [of _ _ "LinkId 5" 20 "()" None]) (simp_all add: sample_incoming_link_def)
  from new_connection_usable [OF list_queues_law this, of ?w 30 "()" "()" "()"] show ?thesis
    by (auto simp: new_incoming_def)
qed

text \<open>
  C40. The first link of a new connection can panic the server: the queue of the connection is visible to
  other calls as soon as it is registered, but the first link is put into it later and without
  waiting, assuming that there is a place.  If a second link of the same connection arrives in
  between and fills the queue, the first call panics.
\<close>

theorem new_link_overtaken_panics:
  assumes ij: "i < length calls" "j < length calls" "i \<noteq> j"
    and calls: "calls ! i = InDecided rq (NewConn h p)" "calls ! j = InRequest rq'"
    and conn: "si_conns s (rq_conn_id rq') = Some h"
    and second: "qe_reserve L h (si_links s) = (Inr (), w1)"
    and full: "\<forall>l l' :: 'l link_int. \<exists>w2. qe_try_send L h l (qe_send L h l' w1) = (Inl (), w2)"
  shows "\<exists>s' calls'. (srv_step L I C used items)\<^sup>*\<^sup>* (s, calls) (s', calls') \<and> InPanic \<in> set calls'"
proof -
  let ?S = "srv_step L I C used items"
  obtain t :: 'l where True by blast
  let ?s1 = "s\<lparr>si_links := w1\<rparr>"
  define l' where "l' = incoming_link ?s1 (LinkId 0) 0 t None rq'"
  let ?s2 = "?s1\<lparr>si_links := qe_send L h l' w1\<rparr>"
  define l where "l = incoming_link ?s2 (LinkId 1) 0 t None rq"
  obtain w2 where w2: "qe_try_send L h l (qe_send L h l' w1) = (Inl (), w2)" using full by blast
  let ?c1 = "calls[j := InDecided rq' (Existing h)]" and ?c2 = "calls[j := InPlace rq' h]"
    and ?c3 = "calls[j := InOk rq' l']"
  have d: "dispatch_round L (rq_conn_id rq') (rq_existing rq') None s = (Existing h, s)"
    using conn by (simp add: dispatch_round_def)
  have "?S (s, calls) (s, ?c1)"
    using sv_step [of j calls L I s s "InDecided rq' (Existing h)"] in_dispatch [OF d] ij calls by simp
  moreover have "?S (s, ?c1) (?s1, ?c2)"
    using sv_step [of j ?c1 L I s ?s1 "InPlace rq' h"] in_existing [OF second] ij by simp
  moreover have "?S (?s1, ?c2) (?s2, ?c3)"
    using sv_step [of j ?c2 L I ?s1 ?s2 "InOk rq' l'"] in_join [OF l'_def, of L I h] ij by simp
  moreover have "?S (?s2, ?c3) (?s2\<lparr>si_links := w2\<rparr>, ?c3[i := InPanic])"
    using sv_step [of i ?c3 L I ?s2 "?s2\<lparr>si_links := w2\<rparr>" InPanic] in_start_panic [OF l_def, of L h w2 I p] w2 ij calls
    by simp
  ultimately have "?S\<^sup>*\<^sup>* (s, calls) (?s2\<lparr>si_links := w2\<rparr>, ?c3[i := InPanic])"
    by (meson converse_rtranclp_into_rtranclp rtranclp.rtrancl_refl)
  moreover have "InPanic \<in> set (?c3[i := InPanic])" using ij by (simp add: set_update_memI)
  ultimately show ?thesis by blast
qed

theorem new_link_overtaken_panics_witness:
  "\<exists>s' calls'. (srv_step list_queues list_queues list_queues (\<lambda>q. {..< qs_next q}) qs_items)\<^sup>*\<^sup>*
     (small_server, [InDecided sample_request (NewConn 0 0), InRequest sample_request]) (s', calls') \<and>
     InPanic \<in> set calls'"
proof (rule new_link_overtaken_panics [of 0 _ 1])
  show "si_conns small_server (rq_conn_id sample_request) = Some 0"
    by (simp add: small_server_def sample_request_def)
  show "qe_reserve list_queues 0 (si_links small_server) = (Inr (), si_links small_server)"
    by (simp add: small_server_def list_queues_def no_queues_def)
  show "\<forall>l l'. \<exists>w2. qe_try_send list_queues 0 l (qe_send list_queues 0 l' (si_links small_server)) = (Inl (), w2)"
    by (simp add: small_server_def list_queues_def no_queues_def)
qed simp_all

end
