(* ===== verification/Owned_Id.thy ===== *)
theory Owned_Id
  imports Connect
begin

text \<open>
  Identifiers as texts and identifiers with an owner (\<open>aggligator/src/id.rs\<close>), and the life of a
  connection in the registry of the server (\<open>aggligator/src/connect.rs\<close>).

  An \<open>OwnedConnId\<close> is a shared pointer (\<open>Arc\<close>) to an identifier and the sender of a queue; when the last
  handle is dropped the identifier is sent.  The pointers live in a list of cells, each with the number of its
  handles, and are known by their position.  The \<open>Incoming\<close> of a new connection and later its task hold
  a handle, so that the server hears of the end of a connection whatever way it ends.
\<close>

section \<open>Identifiers as texts\<close>

definition hex_digit :: "nat \<Rightarrow> char" where
  "hex_digit d = char_of (if d < 10 then 48 + d else 87 + d)"

fun hex_text :: "nat \<Rightarrow> string" where
  "hex_text n = (if n < 16 then [hex_digit n] else hex_text (n div 16) @ [hex_digit (n mod 16)])"

declare hex_text.simps [simp del]

text \<open>The format \<open>{:016x}\<close>: at least 16 digits, padded with zeros.\<close>

definition hex016 :: "u128 \<Rightarrow> string" where
  "hex016 x = (let s = hex_text (unat x) in replicate (16 - length s) (CHR ''0'') @ s)"

definition debug_id :: "u128 \<Rightarrow> string" where
  "debug_id x = take 6 (hex016 x)"

definition conn_id_text :: "conn_id \<Rightarrow> string" where "conn_id_text c = hex016 (conn_raw c)"
definition link_id_text :: "link_id \<Rightarrow> string" where "link_id_text c = hex016 (link_raw c)"
definition server_id_text :: "server_id \<Rightarrow> string" where "server_id_text c = hex016 (server_raw c)"

definition conn_id_debug :: "conn_id \<Rightarrow> string" where "conn_id_debug c = debug_id (conn_raw c)"
definition link_id_debug :: "link_id \<Rightarrow> string" where "link_id_debug c = debug_id (link_raw c)"
definition server_id_debug :: "server_id \<Rightarrow> string" where "server_id_debug c = debug_id (server_raw c)"

definition encrypted_conn_id_debug :: "encrypted_conn_id \<Rightarrow> string" where
  "encrypted_conn_id_debug c = ''*'' @ debug_id (enc_raw c) @ ''*''"

text \<open>
  New identifiers, from a random number.  The generator gives a server identifier a number from 1 up,
  so that making it non-zero cannot fail.
\<close>

definition conn_id_generate :: "u128 \<Rightarrow> conn_id" where "conn_id_generate r = ConnId r"
definition link_id_generate :: "u128 \<Rightarrow> link_id" where "link_id_generate r = LinkId r"

definition server_id_generate :: "u128 \<Rightarrow> server_id option" where
  "server_id_generate r = (if r = 0 then None else Some (ServerId r))"

text \<open>The text of an identifier determines it; the reading of hexadecimal digits is its inverse.\<close>

definition hex_value :: "char \<Rightarrow> nat" where
  "hex_value c = (let k = of_char c in if k < 58 then k - 48 else k - 87)"

definition unhex :: "string \<Rightarrow> nat" where
  "unhex s = foldl (\<lambda>a c. 16 * a + hex_value c) 0 s"

lemma hex_value_digit [simp]: "d < 16 \<Longrightarrow> hex_value (hex_digit d) = d"
  by (simp add: hex_value_def hex_digit_def Let_def)

lemma unhex_text: "unhex (hex_text n) = n"
proof (induction n rule: hex_text.induct)
  case (1 n)
  show ?case
  proof (cases "n < 16")
    case False
    then show ?thesis using 1 by (subst hex_text.simps) (simp add: unhex_def)
  qed (subst hex_text.simps, simp add: unhex_def)
qed

lemma unhex_zeros [simp]: "unhex (replicate k (CHR ''0'') @ s) = unhex s"
proof (induction k)
  case (Suc k)
  have "hex_value (CHR ''0'') = 0" by (simp add: hex_value_def)
  with Suc show ?case by (simp add: unhex_def)
qed simp

lemma unhex_hex016 [simp]: "unhex (hex016 x) = unat x"
  by (simp add: hex016_def Let_def unhex_text)

lemma hex016_inj [simp]: "hex016 x = hex016 y \<longleftrightarrow> x = y"
  by (metis unhex_hex016 word_unat_eq_iff)

lemma id_texts_injective:
  "(conn_id_text c = conn_id_text c' \<longleftrightarrow> c = c') \<and> (link_id_text l = link_id_text l' \<longleftrightarrow> l = l') \<and>
   (server_id_text s = server_id_text s' \<longleftrightarrow> s = s')"
  by (auto simp: conn_id_text_def link_id_text_def server_id_text_def conn_id.expand link_id.expand server_id.expand)

section \<open>Shared identifiers\<close>

record owned_inner =
  oi_id :: conn_id
  oi_dropped_tx :: "nat option"

type_synonym arcs = "(owned_inner \<times> nat) list"

definition owned_new :: "conn_id \<Rightarrow> nat \<Rightarrow> arcs \<Rightarrow> nat \<times> arcs" where
  "owned_new cid q a = (length a, a @ [(\<lparr>oi_id = cid, oi_dropped_tx = Some q\<rparr>, 1)])"

definition owned_untracked :: "conn_id \<Rightarrow> arcs \<Rightarrow> nat \<times> arcs" where
  "owned_untracked cid a = (length a, a @ [(\<lparr>oi_id = cid, oi_dropped_tx = None\<rparr>, 1)])"

definition owned_get :: "arcs \<Rightarrow> nat \<Rightarrow> conn_id" where
  "owned_get a k = oi_id (fst (a ! k))"

definition owned_clone :: "nat \<Rightarrow> arcs \<Rightarrow> arcs" where
  "owned_clone k a = a[k := (fst (a ! k), snd (a ! k) + 1)]"

text \<open>\<open>Drop for OwnedConnIdInner\<close>, and the drop of a handle; sending to a server that is gone is ignored.\<close>

definition inner_drop :: "(conn_id, 'u) queue_env \<Rightarrow> owned_inner \<Rightarrow> 'u \<Rightarrow> owned_inner \<times> 'u" where
  "inner_drop C i u =
     (case oi_dropped_tx i of
        Some q \<Rightarrow> (i\<lparr>oi_dropped_tx := None\<rparr>, qe_send C q (oi_id i) u)
      | None \<Rightarrow> (i, u))"

definition owned_drop :: "(conn_id, 'u) queue_env \<Rightarrow> nat \<Rightarrow> arcs \<Rightarrow> 'u \<Rightarrow> arcs \<times> 'u" where
  "owned_drop C k a u =
     (case a ! k of (i, n) \<Rightarrow>
        if n = 1 then (case inner_drop C i u of (i, u) \<Rightarrow> (a[k := (i, 0)], u))
        else (a[k := (i, n - 1)], u))"

text \<open>
  \<open>AggParts::new\<close> clones the handle for the task and drops its own: the cells are as before, so that
  from then on the task is the owner.
\<close>

lemma parts_take_over:
  "k < length a \<Longrightarrow> 0 < snd (a ! k) \<Longrightarrow> owned_drop C k (owned_clone k a) u = (a, u)"
  by (simp add: owned_drop_def owned_clone_def)

section \<open>The life of connections at a server\<close>

text \<open>
  The runs of the server as in \<open>srv_step\<close>, now with the owners of connection identifiers: announcing a new
  connection and starting an outgoing one create an owner, handles are cloned and dropped at any time
  (an \<open>Incoming\<close> that is refused or never accepted, a task that ends or is aborted), and the queue of closed
  connections holds what they report.  A random identifier of an outgoing connection is not in use.
\<close>

type_synonym ('w, 'v, 'u, 'l) life = "(('w, 'v, 'u) server \<times> 'l in_call list) \<times> arcs"

fun starting :: "'l in_call \<Rightarrow> conn_id option" where
  "starting (InDecided rq (NewConn h p)) = Some (rq_conn_id rq)"
| "starting (InStarted rq h p l) = Some (rq_conn_id rq)"
| "starting _ = None"

inductive life_step ::
  "('l link_int, 'w) queue_env \<Rightarrow> ('l incoming, 'v) queue_env \<Rightarrow> (conn_id, 'u) queue_env \<Rightarrow>
   ('w, 'v, 'u, 'l) life \<Rightarrow> ('w, 'v, 'u, 'l) life \<Rightarrow> bool"
  for L :: "('l link_int, 'w) queue_env" and I :: "('l incoming, 'v) queue_env"
    and C :: "(conn_id, 'u) queue_env" where
  lf_call: "length (user_data :: bytes) \<le> 65535 \<Longrightarrow> cleanup_links C s = Some s' \<Longrightarrow>
    life_step L I C ((s, calls), a) ((s', calls @ [InEntered]), a)"
| lf_step: "i < length calls \<Longrightarrow> in_step L I (s, calls ! i) (s', b) \<Longrightarrow>
    \<forall>rq h p l. calls ! i \<noteq> InStarted rq h p l \<Longrightarrow>
    life_step L I C ((s, calls), a) ((s', calls[i := b]), a)"
| lf_announce: "i < length calls \<Longrightarrow> calls ! i = InStarted rq h p l \<Longrightarrow> in_step L I (s, calls ! i) (s', b) \<Longrightarrow>
    owned_new (rq_conn_id rq) (si_closed_conns s) a = (k, a') \<Longrightarrow>
    life_step L I C ((s, calls), a) ((s', calls[i := b]), a')"
| lf_listen: "listen I s = (r, s') \<Longrightarrow> life_step L I C ((s, calls), a) ((s', calls), a)"
| lf_connect: "si_conns s cid = None \<Longrightarrow>
    s' = snd (server_connect L now () () () cid s :: ('l, unit, unit, unit) agg_parts \<times> ('w, 'v, 'u) server) \<Longrightarrow>
    owned_new cid (si_closed_conns s) a = (k, a') \<Longrightarrow> life_step L I C ((s, calls), a) ((s', calls), a')"
| lf_clone: "k < length a \<Longrightarrow> 0 < snd (a ! k) \<Longrightarrow> life_step L I C (p, a) (p, owned_clone k a)"
| lf_drop: "k < length a \<Longrightarrow> 0 < snd (a ! k) \<Longrightarrow> owned_drop C k a (si_closed s) = (a', u) \<Longrightarrow>
    life_step L I C ((s, calls), a) ((s\<lparr>si_closed := u\<rparr>, calls), a')"
| lf_links: "life_step L I C ((s, calls), a) ((s\<lparr>si_links := w\<rparr>, calls), a)"
| lf_listeners: "life_step L I C ((s, calls), a) ((s\<lparr>si_listeners := v\<rparr>, calls), a)"

text \<open>
  Everything that stands for a registered connection: its owner, a call that is about to create the owner,
  and the report of its end.  The numbers of the three together are the registry.
\<close>

definition how_many :: "('a \<Rightarrow> bool) \<Rightarrow> 'a list \<Rightarrow> nat" where
  "how_many P xs = (\<Sum>x\<leftarrow>xs. if P x then 1 else 0)"

lemma how_many_simps [simp]:
  "how_many P [] = 0" "how_many P (x # xs) = (if P x then 1 else 0) + how_many P xs" "how_many P (xs @ ys) = how_many P xs + how_many P ys"
  by (simp_all add: how_many_def)

lemma how_many_update:
  "i < length xs \<Longrightarrow> how_many P (xs[i := y]) + (if P (xs ! i) then 1 else 0) = how_many P xs + (if P y then 1 else 0)"
  unfolding how_many_def by (rule sum_list_map_update)

lemma how_many_pos: "0 < how_many P xs \<longleftrightarrow> (\<exists>x \<in> set xs. P x)"
  by (induction xs) auto

lemma how_many_unique:
  assumes "how_many P xs \<le> 1" "i < length xs" "j < length xs" "P (xs ! i)" "P (xs ! j)"
  shows "i = j"
proof (rule ccontr)
  assume "i \<noteq> j"
  have "how_many (\<lambda>x. P x) (take i xs @ xs ! i # drop (Suc i) xs) \<le> 1" using assms(1,2) by (simp add: id_take_nth_drop [symmetric])
  then have "how_many P (take i xs) = 0" "how_many P (drop (Suc i) xs) = 0" using assms(4) by simp_all
  then have "\<forall>x \<in> set (take i xs) \<union> set (drop (Suc i) xs). \<not> P x" by (metis UnE less_irrefl how_many_pos)
  moreover have "xs ! j \<in> set (take i xs) \<union> set (drop (Suc i) xs)"
    using \<open>i \<noteq> j\<close> assms(3) by (cases "j < i") (auto simp: in_set_conv_nth intro: exI [of _ j] exI [of _ "j - Suc i"])
  ultimately show False using assms(5) by blast
qed

definition owner_of :: "conn_id \<Rightarrow> nat \<Rightarrow> owned_inner \<times> nat \<Rightarrow> bool" where
  "owner_of cid q = (\<lambda>(i, n). oi_id i = cid \<and> oi_dropped_tx i = Some q)"

definition standing :: "('u \<Rightarrow> nat \<Rightarrow> conn_id list) \<Rightarrow> ('w, 'v, 'u, 'l) life \<Rightarrow> conn_id \<Rightarrow> nat" where
  "standing closed = (\<lambda>((s, calls), a) cid.
     how_many (owner_of cid (si_closed_conns s)) a + how_many (\<lambda>c. starting c = Some cid) calls +
     how_many (\<lambda>c. c = cid) (closed (si_closed s) (si_closed_conns s)))"

definition registered :: "('w, 'v, 'u) server \<Rightarrow> conn_id \<Rightarrow> nat" where
  "registered s cid = (if si_conns s cid = None then 0 else 1)"

definition life_ok :: "('u \<Rightarrow> nat \<Rightarrow> conn_id list) \<Rightarrow> ('w, 'v, 'u, 'l) life \<Rightarrow> bool" where
  "life_ok closed = (\<lambda>((s, calls), a).
     (\<forall>cid. standing closed ((s, calls), a) cid \<le> registered s cid) \<and>
     (InPanic \<notin> set calls \<longrightarrow> (\<forall>cid. standing closed ((s, calls), a) cid = registered s cid)) \<and>
     (\<forall>c \<in> set a. oi_dropped_tx (fst c) \<noteq> None \<longrightarrow> 0 < snd c \<and> oi_dropped_tx (fst c) = Some (si_closed_conns s)))"

definition starts :: "'l in_call \<Rightarrow> conn_id \<Rightarrow> nat" where
  "starts c cid = (if starting c = Some cid then 1 else 0)"

lemma dispatch_round_starts:
  "dispatch_round (L :: ('l link_int, 'w) queue_env) (rq_conn_id rq) e p s = (d, s') \<Longrightarrow>
     (\<forall>cid. starts (if d = NeedPermit then InNeed rq else InDecided rq d :: 'l in_call) cid + registered s cid = registered s' cid) \<and>
     (\<forall>cid. starts (InDecided rq d :: 'l in_call) cid + registered s cid = registered s' cid) \<and>
     si_closed s' = si_closed s \<and> si_closed_conns s' = si_closed_conns s"
  by (auto simp: dispatch_round_def starts_def registered_def split: option.splits if_splits sum.splits prod.splits)

text \<open>What a step of a call does to the calls that are starting a connection and to the registry.\<close>

lemma in_step_starts:
  assumes "in_step L I (s, c) (s', b)"
  shows "c \<noteq> InPanic \<and> si_closed s' = si_closed s \<and> si_closed_conns s' = si_closed_conns s \<and>
    (case c of InStarted rq h p l \<Rightarrow> starting b = None \<and> b \<noteq> InPanic \<and> si_conns s' = si_conns s
     | _ \<Rightarrow> (\<forall>cid. starts b cid + registered s cid = starts c cid + registered s' cid) \<or>
          b = InPanic \<and> si_conns s' = si_conns s)"
  using assms
proof (cases rule: in_step.cases)
  case (in_dispatch rq d)
  then show ?thesis using dispatch_round_starts [OF in_dispatch(3)]
    by (cases "d = NeedPermit") (simp_all add: starts_def [of "InRequest rq"])
next
  case (in_dispatch_again rq p d)
  then show ?thesis using dispatch_round_starts [OF in_dispatch_again(3)]
    by (simp add: starts_def [of "InPermit rq p"])
qed (auto simp: starts_def registered_def)

lemma life_okI:
  assumes ok: "life_ok closed ((s, calls), a)"
    and bal: "\<And>cid. standing closed ((s', calls'), a') cid + registered s cid = standing closed ((s, calls), a) cid + registered s' cid"
    and cells: "\<forall>c \<in> set a'. oi_dropped_tx (fst c) \<noteq> None \<longrightarrow>
       0 < snd c \<and> oi_dropped_tx (fst c) = Some (si_closed_conns s')"
    and p: "InPanic \<in> set calls \<longrightarrow> InPanic \<in> set calls'"
  shows "life_ok closed ((s', calls'), a')"
proof -
  have "standing closed ((s', calls'), a') cid \<le> registered s' cid" for cid
  proof -
    have "standing closed ((s, calls), a) cid \<le> registered s cid" using ok by (simp add: life_ok_def)
    then show ?thesis using bal [of cid] by linarith
  qed
  moreover have "InPanic \<notin> set calls' \<longrightarrow> standing closed ((s', calls'), a') cid = registered s' cid" for cid
    using bal [of cid] ok p by (auto simp: life_ok_def)
  ultimately show ?thesis using cells by (simp add: life_ok_def)
qed

lemma life_ok_cells:
  "life_ok closed ((s, calls), a) \<Longrightarrow> c \<in> set a \<Longrightarrow> oi_dropped_tx (fst c) \<noteq> None \<Longrightarrow>
     0 < snd c \<and> oi_dropped_tx (fst c) = Some (si_closed_conns s)"
  by (simp add: life_ok_def)

lemma life_ok_same:
  "life_ok closed ((s, calls), a) \<Longrightarrow> si_conns s' = si_conns s \<Longrightarrow> si_closed s' = si_closed s \<Longrightarrow>
     si_closed_conns s' = si_closed_conns s \<Longrightarrow> life_ok closed ((s', calls), a)"
  by (simp add: life_ok_def standing_def registered_def)

text \<open>A new owner for a connection that is registered at the same moment, or that a call was starting.\<close>

lemma life_ok_new_owner:
  assumes ok: "life_ok closed ((s, calls), a)" and n: "owned_new cid (si_closed_conns s) a = (k, a')"
    and s': "si_closed s' = si_closed s" "si_closed_conns s' = si_closed_conns s"
    and bal: "\<And>c. how_many (\<lambda>b. starting b = Some c) calls' + (if c = cid then 1 else 0) + registered s c =
      how_many (\<lambda>b. starting b = Some c) calls + registered s' c"
    and p: "InPanic \<in> set calls \<longrightarrow> InPanic \<in> set calls'"
  shows "life_ok closed ((s', calls'), a')"
proof (rule life_okI [OF ok _ _ p])
  have a': "a' = a @ [(\<lparr>oi_id = cid, oi_dropped_tx = Some (si_closed_conns s)\<rparr>, 1)]" using n by (simp add: owned_new_def)
  then show "standing closed ((s', calls'), a') c + registered s c = standing closed ((s, calls), a) c + registered s' c" for c
    using bal [of c] s' by (auto simp: standing_def owner_of_def)
  show "\<forall>c \<in> set a'. oi_dropped_tx (fst c) \<noteq> None \<longrightarrow>
      0 < snd c \<and> oi_dropped_tx (fst c) = Some (si_closed_conns s')"
    using life_ok_cells [OF ok] a' s' by auto
qed

text \<open>Cleaning up removes what has reported its end from the registry, and nothing else.\<close>

lemma remove_all_apply: "foldl (\<lambda>m i. m(i := None)) m ids k = (if k \<in> set ids then None else m k)"
  by (induction ids arbitrary: m) auto

lemma cleanup_links_spec:
  assumes law: "queue_law C used closed"
  shows "\<exists>u. cleanup_links C s = Some (s\<lparr>si_closed := u,
      si_conns := \<lambda>cid. if cid \<in> set (closed (si_closed s) (si_closed_conns s)) then None else si_conns s cid\<rparr>) \<and>
    closed u (si_closed_conns s) = []"
proof -
  obtain u where u: "drain C (si_closed_conns s) (si_closed s) = Some (closed (si_closed s) (si_closed_conns s), u)"
    "closed u (si_closed_conns s) = []" using drain_all [OF law] by blast
  have "foldl (\<lambda>m i. m(i := None)) (si_conns s) ids =
    (\<lambda>cid. if cid \<in> set ids then None else si_conns s cid)" for ids by (rule ext) (rule remove_all_apply)
  then show ?thesis using u by (intro exI [of _ u]) (simp add: cleanup_links_def)
qed

lemma life_ok_cleanup:
  assumes law: "queue_law C used closed" and ok: "life_ok closed ((s, calls), a)"
    and c: "cleanup_links C s = Some s'"
  shows "life_ok closed ((s', calls), a)"
proof (rule life_okI [OF ok])
  let ?ids = "closed (si_closed s) (si_closed_conns s)"
  obtain u where s': "s' = s\<lparr>si_closed := u, si_conns := \<lambda>cid. if cid \<in> set ?ids then None else si_conns s cid\<rparr>"
    and u: "closed u (si_closed_conns s) = []" using cleanup_links_spec [OF law, of s] c by auto
  fix cid
  have le: "standing closed ((s, calls), a) cid \<le> registered s cid" using ok by (simp add: life_ok_def)
  have t: "0 < how_many (\<lambda>c. c = cid) ?ids \<longleftrightarrow> cid \<in> set ?ids" by (auto simp: how_many_pos)
  show "standing closed ((s', calls), a) cid + registered s cid = standing closed ((s, calls), a) cid + registered s' cid"
  proof (cases "cid \<in> set ?ids")
    case True
    with t le have "standing closed ((s, calls), a) cid = 1" "registered s cid = 1" "how_many (\<lambda>c. c = cid) ?ids = 1"
      by (auto simp: registered_def standing_def split: if_splits)
    then show ?thesis using s' u True by (simp add: standing_def registered_def)
  next
    case False
    with t have "how_many (\<lambda>c. c = cid) ?ids = 0" by simp
    then show ?thesis using s' u False by (simp add: standing_def registered_def)
  qed
qed (use life_ok_cells [OF ok] cleanup_links_spec [OF law, of s] c in auto)

lemma life_ok_drop:
  assumes law: "queue_law C used closed" and ok: "life_ok closed ((s, calls), a)"
    and k: "k < length a" "0 < snd (a ! k)" and d: "owned_drop C k a (si_closed s) = (a', u)"
  shows "life_ok closed ((s\<lparr>si_closed := u\<rparr>, calls), a')"
proof (rule life_okI [OF ok])
  let ?q = "si_closed_conns s"
  obtain i n where c: "a ! k = (i, n)" by force
  note cell = life_ok_cells [OF ok nth_mem [OF k(1)]]
  have tu: "how_many P (a[k := y]) + (if P (i, n) then 1 else 0) = how_many P a + (if P y then 1 else 0)" for P y
    using how_many_update [OF k(1), of P y] c by simp
  show "standing closed ((s\<lparr>si_closed := u\<rparr>, calls), a') cid + registered s cid =
      standing closed ((s, calls), a) cid + registered (s\<lparr>si_closed := u\<rparr>) cid" for cid
  proof (cases "n = 1 \<and> oi_dropped_tx i \<noteq> None")
    case True
    then have q: "oi_dropped_tx i = Some ?q" using cell c by simp
    then have "a' = a[k := (i\<lparr>oi_dropped_tx := None\<rparr>, 0)]" "u = qe_send C ?q (oi_id i) (si_closed s)"
      using d c True by (simp_all add: owned_drop_def inner_drop_def)
    then show ?thesis using tu [of "owner_of cid ?q" "(i\<lparr>oi_dropped_tx := None\<rparr>, 0)"] q
        queue_law_send [OF law, of ?q "oi_id i" "si_closed s"]
      by (auto simp: standing_def registered_def owner_of_def split: if_splits)
  next
    case False
    then have "a' = a[k := (i, n - 1)]" "u = si_closed s"
      using d c k(2) by (auto simp: owned_drop_def inner_drop_def split: option.splits if_splits)
    then show ?thesis using tu [of "owner_of cid ?q" "(i, n - 1)"]
      by (auto simp: standing_def registered_def owner_of_def split: if_splits)
  qed
  define y where "y = a' ! k"
  have "a' = a[k := y] \<and> (oi_dropped_tx (fst y) \<noteq> None \<longrightarrow> fst y = i \<and> 0 < snd y)"
    unfolding y_def using d c k by (auto simp: owned_drop_def inner_drop_def split: option.splits if_splits)
  then show "\<forall>c \<in> set a'. oi_dropped_tx (fst c) \<noteq> None \<longrightarrow>
      0 < snd c \<and> oi_dropped_tx (fst c) = Some (si_closed_conns (s\<lparr>si_closed := u\<rparr>))"
    using life_ok_cells [OF ok] cell c set_update_subset_insert [of a k] by fastforce
qed simp

lemma life_ok_clone:
  assumes ok: "life_ok closed ((s, calls), a)" and k: "k < length a" "0 < snd (a ! k)"
  shows "life_ok closed ((s, calls), owned_clone k a)"
proof (rule life_okI [OF ok])
  obtain i n where c: "a ! k = (i, n)" by force
  show "standing closed ((s, calls), owned_clone k a) cid + registered s cid =
      standing closed ((s, calls), a) cid + registered s cid" for cid
    using how_many_update [OF k(1), of "owner_of cid (si_closed_conns s)" "(i, n + 1)"] c
    by (auto simp: standing_def owned_clone_def owner_of_def split: if_splits)
  show "\<forall>c \<in> set (owned_clone k a). oi_dropped_tx (fst c) \<noteq> None \<longrightarrow>
      0 < snd c \<and> oi_dropped_tx (fst c) = Some (si_closed_conns s)"
    using life_ok_cells [OF ok] life_ok_cells [OF ok nth_mem [OF k(1)]] set_update_subset_insert [of a k]
    by (fastforce simp: owned_clone_def)
qed simp

lemma member_update: "x \<in> set xs \<Longrightarrow> i < length xs \<Longrightarrow> xs ! i \<noteq> x \<Longrightarrow> x \<in> set (xs[i := y])"
  by (metis in_set_conv_nth length_list_update nth_list_update_neq)

text \<open>Every step keeps the registry exact.\<close>

lemma life_step_ok:
  assumes law: "queue_law C used closed" and st: "life_step L I C p p'" and inv: "life_ok closed p"
  shows "life_ok closed p'"
  using st inv
proof (cases rule: life_step.cases)
  case (lf_call ud s s' calls a)
  have "life_ok closed ((s', calls), a)" using life_ok_cleanup [OF law _ lf_call(4)] inv lf_call(1) by simp
  then have "life_ok closed ((s', calls @ [InEntered]), a)"
    by (rule life_okI) (use life_ok_cells [OF \<open>life_ok closed ((s', calls), a)\<close>] in \<open>auto simp: standing_def\<close>)
  then show ?thesis using lf_call(2) by simp
next
  case (lf_step i calls s s' b a)
  note ok = inv [unfolded lf_step(1)] and t = in_step_starts [OF lf_step(4)]
  have np: "calls ! i \<noteq> InPanic" and same: "si_closed s' = si_closed s" "si_closed_conns s' = si_closed_conns s"
    using t by simp_all
  have keep: "InPanic \<in> set calls \<longrightarrow> InPanic \<in> set (calls[i := b])"
    using np by (auto intro: member_update [OF _ lf_step(3)])
  have tu: "how_many (\<lambda>c. starting c = Some cid) (calls[i := b]) + starts (calls ! i) cid =
      how_many (\<lambda>c. starting c = Some cid) calls + starts b cid" for cid
    using how_many_update [OF lf_step(3), of "\<lambda>c. starting c = Some cid" b] by (simp add: starts_def)
  have cases: "(\<forall>cid. starts b cid + registered s cid = starts (calls ! i) cid + registered s' cid) \<or>
      b = InPanic \<and> si_conns s' = si_conns s"
    using t lf_step(5) by (cases "calls ! i") auto
  have st: "standing closed ((s', calls[i := b]), a) cid + starts (calls ! i) cid =
      standing closed ((s, calls), a) cid + starts b cid" for cid
    using tu [of cid] same by (simp add: standing_def)
  show ?thesis
  proof (cases "b = InPanic")
    case True
    then have "InPanic \<in> set (calls[i := b])" using lf_step(3) by (simp add: set_update_memI)
    moreover have "standing closed ((s', calls[i := b]), a) cid \<le> registered s' cid" for cid
    proof -
      have "standing closed ((s, calls), a) cid \<le> registered s cid" using ok by (simp add: life_ok_def)
      moreover have "starts b cid = 0" using True by (simp add: starts_def)
      moreover from cases have "starts b cid + registered s cid = starts (calls ! i) cid + registered s' cid \<or>
        registered s' cid = registered s cid" by (metis registered_def)
      ultimately show ?thesis using st [of cid] by linarith
    qed
    ultimately show ?thesis using life_ok_cells [OF ok] same lf_step(2) by (auto simp: life_ok_def)
  next
    case False
    then have bal: "starts b cid + registered s cid = starts (calls ! i) cid + registered s' cid" for cid
      using cases by blast
    have "standing closed ((s', calls[i := b]), a) cid + registered s cid =
        standing closed ((s, calls), a) cid + registered s' cid" for cid
      using st [of cid] bal [of cid] by linarith
    then have "life_ok closed ((s', calls[i := b]), a)"
      by (rule life_okI [OF ok]) (use life_ok_cells [OF ok] same keep in auto)
    then show ?thesis using lf_step(2) by simp
  qed
next
  case (lf_announce i calls rq h p l s s' b a k a')
  note ok = inv [unfolded lf_announce(1)] and t = in_step_starts [OF lf_announce(5)]
  then have b: "starting b = None" "si_closed s' = si_closed s" "si_closed_conns s' = si_closed_conns s"
    "si_conns s' = si_conns s" using lf_announce(4) by simp_all
  have "InPanic \<in> set calls \<longrightarrow> InPanic \<in> set (calls[i := b])"
    using lf_announce(4) by (auto intro: member_update [OF _ lf_announce(3)])
  moreover have "how_many (\<lambda>b. starting b = Some c) (calls[i := b]) + (if c = rq_conn_id rq then 1 else 0) + registered s c =
      how_many (\<lambda>b. starting b = Some c) calls + registered s' c" for c
    using how_many_update [OF lf_announce(3), of "\<lambda>b. starting b = Some c" b] b lf_announce(4)
    by (auto simp: registered_def split: if_splits)
  ultimately show ?thesis using life_ok_new_owner [OF ok lf_announce(6) b(2,3)] lf_announce(2) by blast
next
  case (lf_connect s cid s' now a k a' calls)
  note ok = inv [unfolded lf_connect(1)]
  have s': "si_closed s' = si_closed s" "si_closed_conns s' = si_closed_conns s"
    "\<exists>h. si_conns s' = (si_conns s)(cid \<mapsto> h)"
    using lf_connect(4) by (auto simp: server_connect_def split: prod.splits)
  have "how_many (\<lambda>b. starting b = Some c) calls + (if c = cid then 1 else 0) + registered s c =
      how_many (\<lambda>b. starting b = Some c) calls + registered s' c" for c
    using s'(3) lf_connect(3) by (auto simp: registered_def)
  then show ?thesis using life_ok_new_owner [OF ok lf_connect(5) s'(1,2)] lf_connect(2) by blast
next
  case (lf_clone k a p)
  then show ?thesis using inv by (cases p) (auto intro: life_ok_clone)
qed (auto simp: listen_def split: if_splits prod.splits intro: life_ok_drop [OF law] elim!: life_ok_same)

interpretation lf: step_system "life_step L I C" "\<lambda>p. queue_law C used closed \<and> life_ok closed p" "\<lambda>_ _. True"
  for L I C used closed
  by unfold_locales (auto dest: life_step_ok)

text \<open>What the invariant says of owners, cleaning up and the registry.\<close>

definition owns :: "arcs \<Rightarrow> nat \<Rightarrow> bool" where
  "owns a k \<longleftrightarrow> k < length a \<and> oi_dropped_tx (fst (a ! k)) \<noteq> None"

lemma owner_of_get:
  assumes ok: "life_ok closed ((s, calls), a)" and k: "owns a k"
  shows "owner_of (owned_get a k) (si_closed_conns s) (a ! k) \<and> 0 < snd (a ! k) \<and>
    0 < how_many (owner_of (owned_get a k) (si_closed_conns s)) a"
proof -
  have o: "owner_of (owned_get a k) (si_closed_conns s) (a ! k) \<and> 0 < snd (a ! k)"
    using life_ok_cells [OF ok nth_mem] k by (simp add: owner_of_def owned_get_def owns_def split_beta)
  then show ?thesis using k unfolding how_many_pos owns_def by (metis nth_mem)
qed

lemma life_ok_owner:
  assumes ok: "life_ok closed ((s, calls), a)" and k: "owns a k"
  shows "si_conns s (owned_get a k) \<noteq> None \<and> owned_get a k \<notin> set (closed (si_closed s) (si_closed_conns s)) \<and>
    (\<forall>j. owns a j \<and> owned_get a j = owned_get a k \<longrightarrow> j = k)"
proof -
  let ?P = "owner_of (owned_get a k) (si_closed_conns s)"
  have le: "standing closed ((s, calls), a) (owned_get a k) \<le> registered s (owned_get a k)"
    using ok by (simp add: life_ok_def)
  note own = owner_of_get [OF ok k]
  have "how_many ?P a \<le> 1" using le by (simp add: standing_def registered_def split: if_splits)
  then have "j = k" if "owns a j" "owned_get a j = owned_get a k" for j
    using how_many_unique [of ?P a j k] own owner_of_get [OF ok that(1)] that k by (simp add: owns_def)
  then show ?thesis
    using own le how_many_pos [of "\<lambda>c. c = owned_get a k" "closed (si_closed s) (si_closed_conns s)"]
    by (auto simp: standing_def registered_def split: if_splits)
qed

lemma life_ok_registered:
  assumes ok: "life_ok closed ((s, calls), a)" and "InPanic \<notin> set calls"
    and cid: "cid \<notin> set (closed (si_closed s) (si_closed_conns s))" "si_conns s cid \<noteq> None"
  shows "(\<exists>k. owns a k \<and> owned_get a k = cid) \<or> (\<exists>b \<in> set calls. starting b = Some cid)"
proof -
  have "standing closed ((s, calls), a) cid = 1" using assms by (simp add: life_ok_def registered_def)
  moreover have "how_many (\<lambda>c. c = cid) (closed (si_closed s) (si_closed_conns s)) = 0"
    using cid(1) how_many_pos [of "\<lambda>c. c = cid"] by (metis gr0I)
  ultimately have "0 < how_many (owner_of cid (si_closed_conns s)) a \<or> 0 < how_many (\<lambda>b. starting b = Some cid) calls"
    by (auto simp: standing_def)
  then show ?thesis
    unfolding how_many_pos in_set_conv_nth Bex_def by (fastforce simp: owner_of_def owned_get_def owns_def)
qed

section \<open>Properties\<close>



end
