(* ===== verification/Io_Codec.thy ===== *)
theory Io_Codec
  imports Cfg
begin

text \<open>
  The integrity codec for stream-based links (\<open>aggligator/src/io/codec.rs\<close>) and the flush filter
  around the writer of such a link (\<open>aggligator/src/io/mod.rs\<close>).  The checksum function is
  third-party code and an argument of the definitions.  Reserving buffer memory has no effect on
  the bytes and is left out.
\<close>

section \<open>The codec\<close>

datatype integrity_error = PacketTooBig | SeqSkipped | DataCorrupted

fun integrity_display :: "integrity_error \<Rightarrow> string" where
  "integrity_display PacketTooBig = ''packet too big''"
| "integrity_display SeqSkipped = ''sequence number skipped''"
| "integrity_display DataCorrupted = ''data corrupted''"

record header =
  hd_length :: u32
  hd_checksum :: u32

datatype decode_state = Header | DataState header

record integrity_codec =
  max_frame_len :: u32
  cd_state :: decode_state
  decode_seq :: u16
  encode_seq :: u16

definition HEADER_LEN :: usize where
  "HEADER_LEN = 4 + 2 + 4"

definition codec_new :: integrity_codec where
  "codec_new = \<lparr>max_frame_len = 8 * 1024 * 1024, cd_state = Header, decode_seq = 0, encode_seq = 0\<rparr>"

definition set_max_packet_size :: "integrity_codec \<Rightarrow> u32 \<Rightarrow> integrity_codec" where
  "set_max_packet_size c n = c\<lparr>max_frame_len := n\<rparr>"

definition invalid_data :: "integrity_error \<Rightarrow> io_error" where
  "invalid_data e = IoError InvalidData (integrity_display e)"

text \<open>\<open>get_u32\<close> and \<open>get_u16\<close> take an integer off the front of the buffer.\<close>

definition get_u32 :: "bytes \<Rightarrow> u32 \<times> bytes" where
  "get_u32 src = (of_nat (be_to_nat (take 4 src)), drop 4 src)"

definition get_u16 :: "bytes \<Rightarrow> u16 \<times> bytes" where
  "get_u16 src = (of_nat (be_to_nat (take 2 src)), drop 2 src)"

definition decode_header ::
  "integrity_codec \<Rightarrow> bytes \<Rightarrow> header option io_result \<times> integrity_codec \<times> bytes" where
  "decode_header c src =
     (if length src < HEADER_LEN then (Inr None, c, src)
      else let (len, src) = get_u32 src in
        if len > max_frame_len c then (Inl (invalid_data PacketTooBig), c, src)
        else let (s, src) = get_u16 src in
          if s \<noteq> decode_seq c then (Inl (invalid_data SeqSkipped), c, src)
          else let c = c\<lparr>decode_seq := decode_seq c + 1\<rparr>; (checksum, src) = get_u32 src
            in (Inr (Some \<lparr>hd_length = len, hd_checksum = checksum\<rparr>), c, src))"

definition decode_data ::
  "(bytes \<Rightarrow> u32) \<Rightarrow> header \<Rightarrow> bytes \<Rightarrow> bytes option io_result \<times> bytes" where
  "decode_data crc h src =
     (if length src < unat (hd_length h) then (Inr None, src)
      else let d = take (unat (hd_length h)) src; src = drop (unat (hd_length h)) src in
        if hd_checksum h \<noteq> crc d then (Inl (invalid_data DataCorrupted), src)
        else (Inr (Some d), src))"

definition decode_with ::
  "(bytes \<Rightarrow> u32) \<Rightarrow> header \<Rightarrow> integrity_codec \<Rightarrow> bytes \<Rightarrow> bytes option io_result \<times> integrity_codec \<times> bytes"
where
  "decode_with crc h c src =
     (case decode_data crc h src of
        (Inl e, src) \<Rightarrow> (Inl e, c, src)
      | (Inr (Some d), src) \<Rightarrow> (Inr (Some d), c\<lparr>cd_state := Header\<rparr>, src)
      | (Inr None, src) \<Rightarrow> (Inr None, c, src))"

definition decode ::
  "(bytes \<Rightarrow> u32) \<Rightarrow> integrity_codec \<Rightarrow> bytes \<Rightarrow> bytes option io_result \<times> integrity_codec \<times> bytes" where
  "decode crc c src =
     (case cd_state c of
        Header \<Rightarrow>
          (case decode_header c src of
             (Inl e, c, src) \<Rightarrow> (Inl e, c, src)
           | (Inr None, c, src) \<Rightarrow> (Inr None, c, src)
           | (Inr (Some h), c, src) \<Rightarrow> decode_with crc h (c\<lparr>cd_state := DataState h\<rparr>) src)
      | DataState h \<Rightarrow> decode_with crc h c src)"

text \<open>The bytes appended to the output buffer, or the error.\<close>

definition encode :: "(bytes \<Rightarrow> u32) \<Rightarrow> integrity_codec \<Rightarrow> bytes \<Rightarrow> bytes io_result \<times> integrity_codec" where
  "encode crc c d =
     (if length d > unat (max_frame_len c)
      then (Inl (IoError InvalidInput (integrity_display PacketTooBig)), c)
      else (Inr (wr_u32 (of_nat (length d)) @ wr_u16 (encode_seq c) @ wr_u32 (crc d) @ d),
            c\<lparr>encode_seq := encode_seq c + 1\<rparr>))"

section \<open>The flush filter\<close>

text \<open>
  The writer below the framing layer accepts a flush only while \<open>flush_allowed\<close> is set, which
  the sink does around its own flush and close.  \<open>inner_flush\<close> and \<open>framed_flush\<close> are the
  third-party writer and framing layer, as state transformers with a result.
\<close>

record 'w filter_flush =
  ff_inner :: 'w
  flush_allowed :: bool

definition filter_flush_new :: "'w \<Rightarrow> 'w filter_flush" where
  "filter_flush_new w = \<lparr>ff_inner = w, flush_allowed = False\<rparr>"

definition ff_poll_write ::
  "('w \<Rightarrow> bytes \<Rightarrow> usize io_result option \<times> 'w) \<Rightarrow> 'w filter_flush \<Rightarrow> bytes \<Rightarrow>
   usize io_result option \<times> 'w filter_flush" where
  "ff_poll_write inner_write f buf =
     (let (r, w) = inner_write (ff_inner f) buf in (r, f\<lparr>ff_inner := w\<rparr>))"

definition ff_poll_flush ::
  "('w \<Rightarrow> unit io_result option \<times> 'w) \<Rightarrow> 'w filter_flush \<Rightarrow> unit io_result option \<times> 'w filter_flush" where
  "ff_poll_flush inner_flush f =
     (if \<not> flush_allowed f then (Some (Inr ()), f)
      else let (r, w) = inner_flush (ff_inner f) in (r, f\<lparr>ff_inner := w\<rparr>))"

definition iotx_poll_flush ::
  "('w filter_flush \<Rightarrow> unit io_result option \<times> 'w filter_flush) \<Rightarrow> 'w filter_flush \<Rightarrow>
   unit io_result option \<times> 'w filter_flush" where
  "iotx_poll_flush framed_flush f =
     (let (res, f) = framed_flush (f\<lparr>flush_allowed := True\<rparr>) in (res, f\<lparr>flush_allowed := False\<rparr>))"

definition iotx_poll_close ::
  "('w filter_flush \<Rightarrow> unit io_result option \<times> 'w filter_flush) \<Rightarrow> 'w filter_flush \<Rightarrow>
   unit io_result option \<times> 'w filter_flush" where
  "iotx_poll_close framed_close f =
     (let (res, f) = framed_close (f\<lparr>flush_allowed := True\<rparr>) in (res, f\<lparr>flush_allowed := False\<rparr>))"

section \<open>Decoding a stream of chunks\<close>

text \<open>
  The framing layer appends what it reads to the buffer and calls \<open>decode\<close> until it asks for
  more bytes.  \<open>decode_rank\<close> shrinks with every packet, so the loop ends.
\<close>

definition decode_rank :: "integrity_codec \<Rightarrow> bytes \<Rightarrow> nat" where
  "decode_rank c src = 2 * length src + (case cd_state c of Header \<Rightarrow> 0 | DataState _ \<Rightarrow> 1)"

lemma decode_data_length:
  "decode_data crc h src = (Inr (Some d), src') \<Longrightarrow> length src' \<le> length src"
  by (auto simp: decode_data_def Let_def split: if_splits)

lemma decode_header_length:
  "decode_header c src = (Inr (Some h), c', src') \<Longrightarrow> length src' + 10 = length src"
  by (auto simp: decode_header_def Let_def get_u32_def get_u16_def HEADER_LEN_def split: if_splits)

lemma decode_with_rank:
  assumes "decode_with crc h c src = (Inr (Some d), c', src')"
  shows "length src' \<le> length src \<and> cd_state c' = Header"
  using assms decode_data_length [of crc h src]
  by (auto simp: decode_with_def split: prod.splits sum.splits option.splits)

lemma decode_decreases:
  assumes "decode crc c src = (Inr (Some d), c', src')"
  shows "decode_rank c' src' < decode_rank c src"
proof (cases "cd_state c")
  case Header
  with assms obtain h c1 s1 where "decode_header c src = (Inr (Some h), c1, s1)"
    and "decode_with crc h (c1\<lparr>cd_state := DataState h\<rparr>) s1 = (Inr (Some d), c', src')"
    by (auto simp: decode_def split: prod.splits sum.splits option.splits)
  then have "length src' + 10 \<le> length src" "cd_state c' = Header"
    using decode_header_length decode_with_rank by fastforce+
  then show ?thesis by (simp add: decode_rank_def Header)
next
  case (DataState h)
  with assms have "decode_with crc h c src = (Inr (Some d), c', src')"
    by (simp add: decode_def)
  then show ?thesis using decode_with_rank by (fastforce simp: decode_rank_def DataState)
qed

function decode_drain ::
  "(bytes \<Rightarrow> u32) \<Rightarrow> integrity_codec \<Rightarrow> bytes \<Rightarrow> bytes list \<times> io_error option \<times> integrity_codec \<times> bytes"
where
  "decode_drain crc c src =
     (case decode crc c src of
        (Inl e, c', src') \<Rightarrow> ([], Some e, c', src')
      | (Inr None, c', src') \<Rightarrow> ([], None, c', src')
      | (Inr (Some d), c', src') \<Rightarrow> apfst (Cons d) (decode_drain crc c' src'))"
  by pat_completeness auto
termination
  by (relation "measure (\<lambda>(crc, c, src). decode_rank c src)") (auto dest: sym intro: decode_decreases)

declare decode_drain.simps [simp del]

fun decode_chunks ::
  "(bytes \<Rightarrow> u32) \<Rightarrow> integrity_codec \<Rightarrow> bytes \<Rightarrow> bytes list \<Rightarrow> bytes list \<times> io_error option \<times> integrity_codec \<times> bytes"
where
  "decode_chunks crc c buf [] = ([], None, c, buf)"
| "decode_chunks crc c buf (x # xs) =
     (case decode_drain crc c (buf @ x) of
        (ps, Some e, c', buf') \<Rightarrow> (ps, Some e, c', buf')
      | (ps, None, c', buf') \<Rightarrow> apfst ((@) ps) (decode_chunks crc c' buf' xs))"

text \<open>Encoding a list of packets one after the other.\<close>

fun encode_all ::
  "(bytes \<Rightarrow> u32) \<Rightarrow> integrity_codec \<Rightarrow> bytes list \<Rightarrow> bytes io_result \<times> integrity_codec" where
  "encode_all crc c [] = (Inr [], c)"
| "encode_all crc c (p # ps) =
     (case encode crc c p of
        (Inl e, c) \<Rightarrow> (Inl e, c)
      | (Inr b, c) \<Rightarrow> (case encode_all crc c ps of
            (Inl e, c) \<Rightarrow> (Inl e, c)
          | (Inr bs, c) \<Rightarrow> (Inr (b @ bs), c)))"

section \<open>The interface of incremental decoders\<close>

text \<open>
  A decoder that depends only on the bytes seen so far and not on how they are cut into chunks:
  further bytes never change a packet or an error already found, and a decoder that asked for
  more continues as if it had seen all bytes at once.
\<close>

locale incremental_decoder =
  fixes dec :: "'d \<Rightarrow> bytes \<Rightarrow> ('e + 'p option) \<times> 'd \<times> bytes"
    and drain :: "'d \<Rightarrow> bytes \<Rightarrow> 'p list \<times> 'e option \<times> 'd \<times> bytes"
    and rank :: "'d \<Rightarrow> bytes \<Rightarrow> nat"
  assumes dec_packet: "dec c b = (Inr (Some p), c', b') \<Longrightarrow> dec c (b @ xs) = (Inr (Some p), c', b' @ xs)"
    and dec_more: "dec c b = (Inr None, c', b') \<Longrightarrow> dec c (b @ xs) = dec c' (b' @ xs)"
    and dec_error: "dec c b = (Inl e, c', b') \<Longrightarrow> dec c (b @ xs) = (Inl e, c', b' @ xs)"
    and dec_rank: "dec c b = (Inr (Some p), c', b') \<Longrightarrow> rank c' b' < rank c b"
    and drain_unfold: "drain c b =
      (case dec c b of
         (Inl e, c', b') \<Rightarrow> ([], Some e, c', b')
       | (Inr None, c', b') \<Rightarrow> ([], None, c', b')
       | (Inr (Some p), c', b') \<Rightarrow> apfst (Cons p) (drain c' b'))"
begin

lemma drain_more:
  "drain c b = (ps, None, c', b') \<Longrightarrow> drain c (b @ xs) = apfst ((@) ps) (drain c' (b' @ xs))"
proof (induction "rank c b" arbitrary: c b ps rule: less_induct)
  case less
  show ?case
  proof (cases "dec c b")
    case (fields r c1 b1)
    consider (err) e where "r = Inl e" | (more) "r = Inr None" | (packet) p where "r = Inr (Some p)"
      by (cases r) auto
    then show ?thesis
    proof cases
      case err
      with fields less.prems show ?thesis by (simp add: drain_unfold [of c b])
    next
      case more
      with fields less.prems have "ps = []" "c1 = c'" "b1 = b'"
        by (simp_all add: drain_unfold [of c b])
      moreover have "drain c (b @ xs) = drain c1 (b1 @ xs)"
        using dec_more fields more by (simp add: drain_unfold [of c "b @ xs"] drain_unfold [of c1])
      moreover have "apfst ((@) []) z = z" for z :: "'p list \<times> 'e option \<times> 'd \<times> bytes"
        by (cases z) simp
      ultimately show ?thesis by simp
    next
      case packet
      with fields less.prems obtain qs where qs: "drain c1 b1 = (qs, None, c', b')" "ps = p # qs"
        by (cases "drain c1 b1") (auto simp: drain_unfold [of c b])
      have "drain c1 (b1 @ xs) = apfst ((@) qs) (drain c' (b' @ xs))"
        using less.hyps dec_rank fields packet qs(1) by blast
      with qs(2) dec_packet fields packet show ?thesis
        by (cases "drain c' (b' @ xs)") (simp add: drain_unfold [of c "b @ xs"])
    qed
  qed
qed

lemma drain_error:
  "drain c b = (ps, Some e, c', b') \<Longrightarrow> drain c (b @ xs) = (ps, Some e, c', b' @ xs)"
proof (induction "rank c b" arbitrary: c b ps rule: less_induct)
  case less
  show ?case
  proof (cases "dec c b")
    case (fields r c1 b1)
    consider (err) e where "r = Inl e" | (more) "r = Inr None" | (packet) p where "r = Inr (Some p)"
      by (cases r) auto
    then show ?thesis
    proof cases
      case err
      with fields less.prems dec_error show ?thesis
        by (simp add: drain_unfold [of c b] drain_unfold [of c "b @ xs"])
    next
      case more
      with fields less.prems show ?thesis by (simp add: drain_unfold [of c b])
    next
      case packet
      with fields less.prems obtain qs where qs: "drain c1 b1 = (qs, Some e, c', b')" "ps = p # qs"
        by (cases "drain c1 b1") (auto simp: drain_unfold [of c b])
      have "drain c1 (b1 @ xs) = (qs, Some e, c', b' @ xs)"
        using less.hyps dec_rank fields packet qs(1) by blast
      with qs(2) dec_packet fields packet show ?thesis
        by (simp add: drain_unfold [of c "b @ xs"])
    qed
  qed
qed

end

lemma decode_data_append:
  assumes "decode_data crc h b = (r, b')" and "r \<noteq> Inr None"
  shows "decode_data crc h (b @ xs) = (r, b' @ xs)"
  using assms by (auto simp: decode_data_def Let_def split: if_splits)

lemma decode_data_short: "decode_data crc h b = (Inr None, b') \<Longrightarrow> b' = b"
  by (auto simp: decode_data_def Let_def split: if_splits)

lemma decode_header_append:
  assumes "decode_header c b = (r, c', b')" and "r \<noteq> Inr None"
  shows "decode_header c (b @ xs) = (r, c', b' @ xs)"
  using assms
  by (auto simp: decode_header_def Let_def get_u32_def get_u16_def HEADER_LEN_def split: if_splits)

lemma decode_header_short: "decode_header c b = (Inr None, c', b') \<Longrightarrow> c' = c \<and> b' = b"
  by (auto simp: decode_header_def Let_def get_u32_def get_u16_def split: if_splits)

lemma decode_with_append:
  assumes "decode_with crc h c b = (r, c', b')" and "r \<noteq> Inr None"
  shows "decode_with crc h c (b @ xs) = (r, c', b' @ xs)"
proof (cases "decode_data crc h b")
  case (Pair r1 b1)
  with assms have "r1 = r" "b1 = b'"
    by (auto simp: decode_with_def split: sum.splits option.splits)
  with Pair assms decode_data_append [of crc h b r b' xs] show ?thesis
    by (auto simp: decode_with_def split: sum.splits option.splits)
qed

lemma decode_with_short: "decode_with crc h c b = (Inr None, c', b') \<Longrightarrow> c' = c \<and> b' = b"
  by (auto simp: decode_with_def dest: decode_data_short split: prod.splits sum.splits option.splits)

lemma decode_header_state: "decode_header c b = (r, c', b') \<Longrightarrow> cd_state c' = cd_state c"
  by (auto simp: decode_header_def Let_def get_u32_def get_u16_def split: if_splits)

lemma decode_append:
  assumes "decode crc c b = (r, c', b')" and "r \<noteq> Inr None"
  shows "decode crc c (b @ xs) = (r, c', b' @ xs)"
proof (cases "cd_state c")
  case Header
  obtain r1 c1 b1 where h: "decode_header c b = (r1, c1, b1)" by (cases "decode_header c b")
  with assms Header have "r1 \<noteq> Inr None" by (auto simp: decode_def)
  with decode_header_append [OF h this, of xs] h assms Header show ?thesis
    by (auto simp: decode_def decode_with_append split: sum.splits option.splits)
next
  case (DataState h)
  with assms show ?thesis by (simp add: decode_def decode_with_append)
qed

lemma decode_continue:
  assumes "decode crc c b = (Inr None, c', b')"
  shows "decode crc c (b @ xs) = decode crc c' (b' @ xs)"
proof (cases "cd_state c")
  case Header
  obtain r1 c1 b1 where h: "decode_header c b = (r1, c1, b1)" by (cases "decode_header c b")
  show ?thesis
  proof (cases r1)
    case (Inl e)
    with h assms Header show ?thesis by (simp add: decode_def)
  next
    case (Inr ho)
    show ?thesis
    proof (cases ho)
      case None
      with h Inr assms Header decode_header_short [of c b c1 b1] show ?thesis
        by (simp add: decode_def)
    next
      case (Some hh)
      with Inr h have "decode_header c (b @ xs) = (Inr (Some hh), c1, b1 @ xs)"
        using decode_header_append by blast
      moreover have "decode_with crc hh (c1\<lparr>cd_state := DataState hh\<rparr>) b1 = (Inr None, c', b')"
        using h Inr Some assms Header by (simp add: decode_def)
      then have "c' = c1\<lparr>cd_state := DataState hh\<rparr>" "b' = b1"
        using decode_with_short by blast+
      ultimately show ?thesis using Header by (simp add: decode_def)
    qed
  qed
next
  case (DataState h)
  with assms decode_with_short [of crc h c b c' b'] show ?thesis by (simp add: decode_def)
qed

interpretation cd: incremental_decoder "decode crc" "decode_drain crc" decode_rank
  by unfold_locales
    (auto intro: decode_append decode_continue decode_decreases decode_drain.simps)

lemma decode_chunks_drain:
  "xs \<noteq> [] \<Longrightarrow>
    fst (decode_chunks crc c buf xs) = fst (decode_drain crc c (buf @ concat xs)) \<and>
    fst (snd (decode_chunks crc c buf xs)) = fst (snd (decode_drain crc c (buf @ concat xs)))"
proof (induction xs arbitrary: c buf)
  case Nil
  then show ?case by simp
next
  case (Cons x xs)
  obtain ps r c' b' where d: "decode_drain crc c (buf @ x) = (ps, r, c', b')"
    by (cases "decode_drain crc c (buf @ x)")
  show ?case
  proof (cases r)
    case (Some e)
    with d cd.drain_error [of crc c "buf @ x" ps e c' b' "concat xs"] show ?thesis by simp
  next
    case None
    show ?thesis
    proof (cases "xs = []")
      case True
      with d None show ?thesis by simp
    next
      case False
      with d None Cons.IH [of c' b'] cd.drain_more [of crc c "buf @ x" ps c' b' "concat xs"]
      show ?thesis
        by (cases "decode_chunks crc c' b' xs"; cases "decode_drain crc c' (b' @ concat xs)") simp
    qed
  qed
qed

section \<open>Frames\<close>

lemma get_u32_wr [simp]: "get_u32 (wr_u32 w @ xs) = (w, xs)"
  using be_to_nat_unat [of 4 w] by (simp add: get_u32_def wr_u32_def)

lemma get_u16_wr [simp]: "get_u16 (wr_u16 w @ xs) = (w, xs)"
  using be_to_nat_unat [of 2 w] by (simp add: get_u16_def wr_u16_def)

lemma decode_good_frame:
  assumes "cd_state c = Header" and "unat len = length d" and "len \<le> max_frame_len c"
    and "s = decode_seq c" and "ck = crc d"
  shows "decode crc c (wr_u32 len @ wr_u16 s @ wr_u32 ck @ d @ rest) =
    (Inr (Some d), c\<lparr>decode_seq := decode_seq c + 1\<rparr>, rest)"
  using assms
  by (simp add: decode_def decode_header_def decode_with_def decode_data_def HEADER_LEN_def Let_def
      not_less)

lemma encode_ok:
  "length d \<le> unat (max_frame_len e) \<Longrightarrow>
    encode crc e d = (Inr (wr_u32 (of_nat (length d)) @ wr_u16 (encode_seq e) @ wr_u32 (crc d) @ d),
      e\<lparr>encode_seq := encode_seq e + 1\<rparr>)"
  by (simp add: encode_def)

lemma encode_all_ok:
  "\<forall>p \<in> set ps. length p \<le> unat (max_frame_len e) \<Longrightarrow> \<exists>bs e'. encode_all crc e ps = (Inr bs, e')"
proof (induction ps arbitrary: e)
  case (Cons p ps)
  obtain bs e' where "encode_all crc (e\<lparr>encode_seq := encode_seq e + 1\<rparr>) ps = (Inr bs, e')"
    using Cons.IH [of "e\<lparr>encode_seq := encode_seq e + 1\<rparr>"] Cons.prems by auto
  with Cons.prems show ?case by (simp add: encode_ok)
qed simp

lemma decode_drain_Nil: "cd_state c = Header \<Longrightarrow> decode_drain crc c [] = ([], None, c, [])"
  by (simp add: decode_drain.simps [of crc c] decode_def decode_header_def HEADER_LEN_def)

lemma decode_drain_encoded:
  assumes "encode_all crc e ps = (Inr bs, e')"
    and "\<forall>p \<in> set ps. length p \<le> unat (max_frame_len e)"
    and "max_frame_len e \<le> max_frame_len c" and "cd_state c = Header" and "decode_seq c = encode_seq e"
  shows "decode_drain crc c bs = (ps, None, c\<lparr>decode_seq := encode_seq e'\<rparr>, [])"
  using assms
proof (induction ps arbitrary: e c bs)
  case Nil
  then show ?case by (simp add: decode_drain_Nil)
next
  case (Cons p ps)
  define e1 where "e1 = e\<lparr>encode_seq := encode_seq e + 1\<rparr>"
  define c1 where "c1 = c\<lparr>decode_seq := decode_seq c + 1\<rparr>"
  have enc: "encode crc e p = (Inr (wr_u32 (of_nat (length p)) @ wr_u16 (encode_seq e) @
      wr_u32 (crc p) @ p), e1)"
    using Cons.prems(2) by (simp add: encode_ok e1_def)
  then obtain bs1 where bs1: "encode_all crc e1 ps = (Inr bs1, e')"
    and bs: "bs = wr_u32 (of_nat (length p)) @ wr_u16 (encode_seq e) @ wr_u32 (crc p) @ p @ bs1"
    using Cons.prems(1) by (auto split: prod.splits sum.splits)
  have "length p \<le> unat (max_frame_len e)" using Cons.prems(2) by simp
  moreover have "unat (max_frame_len e) < 2 ^ 32" using unsigned_less [of "max_frame_len e"] by simp
  ultimately have "unat (of_nat (length p) :: u32) = length p" by (simp add: unat_of_nat)
  moreover from this have "of_nat (length p) \<le> max_frame_len c"
    using Cons.prems(2,3) by (simp add: word_le_nat_alt)
  ultimately have "decode crc c bs = (Inr (Some p), c1, bs1)"
    using decode_good_frame [of c "of_nat (length p)" p "encode_seq e" "crc p" crc bs1] Cons.prems(4,5)
    by (simp add: bs c1_def)
  moreover have "decode_drain crc c1 bs1 = (ps, None, c1\<lparr>decode_seq := encode_seq e'\<rparr>, [])"
    using Cons.IH [OF bs1] Cons.prems(2-5) by (simp add: e1_def c1_def)
  ultimately show ?case by (simp add: decode_drain.simps [of crc c] c1_def)
qed

section \<open>Properties\<close>

text \<open>
  C18. Stream transparency of the integrity codec: packets no larger than the maximum are always
  encoded, and however the resulting bytes are cut into chunks on the way, the decoder of the
  other side hands out exactly these packets in order and without an error.
\<close>

theorem codec_stream_transparent:
  assumes "\<forall>p \<in> set ps. length p \<le> unat (max_frame_len e)"
    and "max_frame_len e \<le> max_frame_len c" and "cd_state c = Header" and "decode_seq c = encode_seq e"
  shows "\<exists>bs e'. encode_all crc e ps = (Inr bs, e') \<and>
    (\<forall>chunks. concat chunks = bs \<longrightarrow>
      fst (decode_chunks crc c [] chunks) = ps \<and> fst (snd (decode_chunks crc c [] chunks)) = None)"
proof -
  obtain bs e' where enc: "encode_all crc e ps = (Inr bs, e')" using encode_all_ok [OF assms(1)] by blast
  have drain: "decode_drain crc c bs = (ps, None, c\<lparr>decode_seq := encode_seq e'\<rparr>, [])"
    by (rule decode_drain_encoded [OF enc assms])
  have "fst (decode_chunks crc c [] chunks) = ps \<and> fst (snd (decode_chunks crc c [] chunks)) = None"
    if "concat chunks = bs" for chunks
  proof (cases "chunks = []")
    case True
    with that drain assms(3) show ?thesis by (simp add: decode_drain_Nil)
  next
    case False
    with that drain decode_chunks_drain [of chunks crc c "[]"] show ?thesis by simp
  qed
  with enc show ?thesis by blast
qed

theorem codec_stream_transparent_witness:
  "\<exists>bs e'. encode_all (\<lambda>_. 7) codec_new [[1, 2], [], [3]] = (Inr bs, e') \<and>
    (\<forall>chunks. concat chunks = bs \<longrightarrow>
      fst (decode_chunks (\<lambda>_. 7) codec_new [] chunks) = [[1, 2], [], [3]] \<and>
      fst (snd (decode_chunks (\<lambda>_. 7) codec_new [] chunks)) = None)"
  by (rule codec_stream_transparent) (simp_all add: codec_new_def)

text \<open>
  C19. A complete frame is accepted exactly if its length is within the maximum, it carries the
  next sequence number and the checksum of its payload; otherwise the first violated condition
  names the error.
\<close>

theorem codec_accepts_iff:
  assumes "cd_state c = Header" and "unat len = length d"
  shows "fst (decode crc c (wr_u32 len @ wr_u16 s @ wr_u32 ck @ d @ rest)) =
      (if len > max_frame_len c then Inl (invalid_data PacketTooBig)
       else if s \<noteq> decode_seq c then Inl (invalid_data SeqSkipped)
       else if ck \<noteq> crc d then Inl (invalid_data DataCorrupted)
       else Inr (Some d))"
  using assms
  by (simp add: decode_def decode_header_def decode_with_def decode_data_def HEADER_LEN_def Let_def)

theorem codec_accepts_iff_witness:
  "fst (decode (\<lambda>_. 7) codec_new (wr_u32 1 @ wr_u16 0 @ wr_u32 8 @ [5] @ [])) =
    Inl (invalid_data DataCorrupted)"
  using codec_accepts_iff [of codec_new 1 "[5]" "\<lambda>_. 7" 0 8 "[]"] by (simp add: codec_new_def)

text \<open>
  The flush filter keeps the writer from being flushed except by an explicit flush of the
  sink: outside of it the filter reports success without touching the writer, and the filter is
  closed again after every flush and close whatever the framing layer did.
\<close>

theorem flush_only_on_request:
  "ff_poll_flush inner_flush (filter_flush_new w) = (Some (Inr ()), filter_flush_new w) \<and>
   \<not> flush_allowed (snd (iotx_poll_flush framed f)) \<and>
   \<not> flush_allowed (snd (iotx_poll_close framed f)) \<and>
   fst (iotx_poll_flush (ff_poll_flush inner_flush) f) = fst (inner_flush (ff_inner f))"
  by (simp add: ff_poll_flush_def filter_flush_new_def iotx_poll_flush_def iotx_poll_close_def
      Let_def split: prod.split)

end
