(* ===== verification/Transport.thy ===== *)
theory Transport
  imports Connect Io_Codec
begin

text \<open>
  The vocabulary of transports (\<open>aggligator/src/transport/mod.rs\<close>) and what the connector and the
  acceptor have in common: link tags and their order, link errors, boxed streams
  (\<open>aggligator/src/io/mod.rs\<close>), the stack of wrappers, the choice of the configuration of a new link, and
  the link filter over all active transports.

  Link tags are objects of the user, with the methods of the trait \<open>LinkTag\<close> in a record.  A value of
  the type of tags stands for all tags that compare equal, so that a \<open>HashSet\<close> of tags is a set.
\<close>

section \<open>Link tags\<close>

record 'g tag_ops =
  tg_transport_name :: "'g \<Rightarrow> string"
  tg_type_id :: "'g \<Rightarrow> nat"
  tg_dyn_cmp :: "'g \<Rightarrow> 'g \<Rightarrow> ordering"
  tg_user_data :: "'g \<Rightarrow> bytes"
  tg_link_cfg :: "'g \<Rightarrow> link_cfg \<Rightarrow> link_cfg"
  tg_display :: "'g \<Rightarrow> string"

fun ord_then :: "ordering \<Rightarrow> ordering \<Rightarrow> ordering" where
  "ord_then Equal o2 = o2"
| "ord_then o1 _ = o1"

fun ord_reverse :: "ordering \<Rightarrow> ordering" where
  "ord_reverse Less = Greater"
| "ord_reverse Equal = Equal"
| "ord_reverse Greater = Less"

definition nat_cmp :: "nat \<Rightarrow> nat \<Rightarrow> ordering" where
  "nat_cmp a b = (if a < b then Less else if a = b then Equal else Greater)"

fun str_cmp :: "string \<Rightarrow> string \<Rightarrow> ordering" where
  "str_cmp [] [] = Equal"
| "str_cmp [] (_ # _) = Less"
| "str_cmp (_ # _) [] = Greater"
| "str_cmp (a # as) (b # bs) = ord_then (nat_cmp (of_char a) (of_char b)) (str_cmp as bs)"

definition tag_cmp :: "'g tag_ops \<Rightarrow> 'g \<Rightarrow> 'g \<Rightarrow> ordering" where
  "tag_cmp T a b =
     ord_then (str_cmp (tg_transport_name T a) (tg_transport_name T b))
       (ord_then (nat_cmp (tg_type_id T a) (tg_type_id T b)) (tg_dyn_cmp T a b))"

definition tag_eq :: "'g tag_ops \<Rightarrow> 'g \<Rightarrow> 'g \<Rightarrow> bool" where
  "tag_eq T a b \<longleftrightarrow> tag_cmp T a b = Equal"

text \<open>The contract of \<open>Ord\<close>, on a set of values: a total order up to \<open>Equal\<close>.\<close>

definition ord_law :: "'a set \<Rightarrow> ('a \<Rightarrow> 'a \<Rightarrow> ordering) \<Rightarrow> bool" where
  "ord_law A cmp \<longleftrightarrow>
     (\<forall>a \<in> A. cmp a a = Equal) \<and>
     (\<forall>a \<in> A. \<forall>b \<in> A. cmp b a = ord_reverse (cmp a b)) \<and>
     (\<forall>a \<in> A. \<forall>b \<in> A. \<forall>c \<in> A. cmp a b = Less \<longrightarrow> cmp b c \<noteq> Greater \<longrightarrow> cmp a c = Less) \<and>
     (\<forall>a \<in> A. \<forall>b \<in> A. \<forall>c \<in> A. cmp a b = Equal \<longrightarrow> cmp a c = cmp b c)"

section \<open>Link errors\<close>

record 'g link_error =
  le_id :: "conn_id option"
  le_tag :: 'g
  le_error :: io_error

definition link_error_outgoing :: "conn_id \<Rightarrow> 'g \<Rightarrow> io_error \<Rightarrow> 'g link_error" where
  "link_error_outgoing cid tag e = \<lparr>le_id = Some cid, le_tag = tag, le_error = e\<rparr>"

definition link_error_incoming :: "'g \<Rightarrow> io_error \<Rightarrow> 'g link_error" where
  "link_error_incoming tag e = \<lparr>le_id = None, le_tag = tag, le_error = e\<rparr>"

definition link_error_direction :: "'g link_error \<Rightarrow> direction" where
  "link_error_direction e = (if le_id e \<noteq> None then Outgoing else Incoming)"

definition link_error_display :: "'g tag_ops \<Rightarrow> 'g link_error \<Rightarrow> string" where
  "link_error_display T e = tg_display T (le_tag e) @ '': '' @ err_msg (le_error e)"

definition name_mismatch :: io_error where
  "name_mismatch = IoError OtherError ''link tag transport name mismatch''"

section \<open>Boxed streams\<close>

text \<open>
  A stream is made of packets, or of bytes that can be read and written.  The latter is put into
  the integrity codec; the capacity is that of its buffers, \<open>None\<close> being the default of \<open>tokio_util\<close>.
\<close>

datatype ('p, 'r, 'w) stream_box = TxRx 'p | Io 'r 'w

datatype ('p, 'r, 'w) tx_rx_box =
    PacketBox 'p
  | FramedBox "'w filter_flush" integrity_codec 'r integrity_codec "usize option"

fun into_tx_rx_box :: "('p, 'r, 'w) stream_box \<Rightarrow> ('p, 'r, 'w) tx_rx_box" where
  "into_tx_rx_box (TxRx p) = PacketBox p"
| "into_tx_rx_box (Io r w) = FramedBox (filter_flush_new w) codec_new r codec_new None"

fun into_tx_rx_with_capacity :: "usize \<Rightarrow> ('p, 'r, 'w) stream_box \<Rightarrow> ('p, 'r, 'w) tx_rx_box" where
  "into_tx_rx_with_capacity cap (TxRx p) = PacketBox p"
| "into_tx_rx_with_capacity cap (Io r w) = FramedBox (filter_flush_new w) codec_new r codec_new (Some cap)"

text \<open>A wrapper turns a stream into another or fails; which of its outcomes occurs is not known.\<close>

type_synonym 'st wrapper = "'st \<Rightarrow> 'st io_result \<Rightarrow> bool"

section \<open>Configuration of a link\<close>

text \<open>
  The tag and then the user may change the configuration of the connection for the link.  A result
  equal to it is not kept as a configuration of the link.
\<close>

definition tag_link_cfg :: "'g tag_ops \<Rightarrow> ('g \<Rightarrow> link_cfg \<Rightarrow> link_cfg) \<Rightarrow> 'g \<Rightarrow> cfg \<Rightarrow> usize \<times> link_cfg option" where
  "tag_link_cfg T link_cfg_fn tag c =
     (let lc = link_cfg_fn tag (tg_link_cfg T tag (cfg_link c)) in
      (io_packet_size lc, if lc = cfg_link c then None else Some lc))"

section \<open>Link filter\<close>

text \<open>
  The transports that are still alive are asked in the order in which they were added, until one
  rejects the link.
\<close>

fun transports_filter :: "(nat \<Rightarrow> bool) \<Rightarrow> (nat \<Rightarrow> 'k \<Rightarrow> 'k list \<Rightarrow> bool) \<Rightarrow> nat list \<Rightarrow> 'k \<Rightarrow> 'k list \<Rightarrow> bool" where
  "transports_filter alive filt [] link others = True"
| "transports_filter alive filt (t # ts) link others =
     (if \<not> alive t then transports_filter alive filt ts link others
      else if \<not> filt t link others then False
      else transports_filter alive filt ts link others)"

text \<open>A transport is added: the references to transports that are gone are dropped first.\<close>

definition add_active :: "(nat \<Rightarrow> bool) \<Rightarrow> nat \<Rightarrow> nat list \<Rightarrow> nat list" where
  "add_active alive t ts = filter alive ts @ [t]"

section \<open>Sets of running tasks\<close>

text \<open>The task that has ended is taken out of a \<open>FuturesUnordered\<close>.\<close>

definition remove_nth :: "nat \<Rightarrow> 'a list \<Rightarrow> 'a list" where
  "remove_nth i xs = take i xs @ drop (Suc i) xs"

section \<open>Lemmas\<close>

lemma ord_then_eq_Equal [simp]: "ord_then o1 o2 = Equal \<longleftrightarrow> o1 = Equal \<and> o2 = Equal"
  by (cases o1) auto

lemma ord_reverse_then [simp]: "ord_reverse (ord_then o1 o2) = ord_then (ord_reverse o1) (ord_reverse o2)"
  by (cases o1) auto

lemma nat_cmp_law: "ord_law A nat_cmp"
  by (auto simp: ord_law_def nat_cmp_def)

lemma nat_cmp_Equal [simp]: "nat_cmp a b = Equal \<longleftrightarrow> a = b"
  by (simp add: nat_cmp_def)

lemma ord_lawD:
  assumes "ord_law A cmp" and "a \<in> A" and "b \<in> A" and "c \<in> A"
  shows ord_law_refl: "cmp a a = Equal"
    and ord_law_reverse: "cmp b a = ord_reverse (cmp a b)"
    and ord_law_less: "cmp a b = Less \<Longrightarrow> cmp b c \<noteq> Greater \<Longrightarrow> cmp a c = Less"
    and ord_law_equal: "cmp a b = Equal \<Longrightarrow> cmp a c = cmp b c"
  using assms unfolding ord_law_def by blast+

text \<open>Lexicographic composition: the second order matters where the first says \<open>Equal\<close>.\<close>

lemma ord_law_then:
  assumes c1: "ord_law A c1" and c2: "\<And>a. a \<in> A \<Longrightarrow> ord_law {b \<in> A. c1 a b = Equal} c2"
  shows "ord_law A (\<lambda>a b. ord_then (c1 a b) (c2 a b))"
  unfolding ord_law_def
proof (intro conjI ballI impI)
  fix a assume a: "a \<in> A"
  have "c1 a a = Equal" by (rule ord_law_refl [OF c1 a a a])
  moreover from this have "c2 a a = Equal" using ord_law_refl [OF c2 [OF a], of a a a] a by simp
  ultimately show "ord_then (c1 a a) (c2 a a) = Equal" by simp
next
  fix a b assume ab: "a \<in> A" "b \<in> A"
  have aa: "c1 a a = Equal" by (rule ord_law_refl [OF c1 ab ab(1)])
  have "c1 a b = Equal \<Longrightarrow> c2 b a = ord_reverse (c2 a b)"
    using ord_law_reverse [OF c2 [OF ab(1)], of a b a] ab aa by simp
  then show "ord_then (c1 b a) (c2 b a) = ord_reverse (ord_then (c1 a b) (c2 a b))"
    unfolding ord_law_reverse [OF c1 ab ab(1)] by (cases "c1 a b") simp_all
next
  fix a b c assume abc: "a \<in> A" "b \<in> A" "c \<in> A"
  note c1_less = ord_law_less [OF c1 abc] and c1_eq = ord_law_equal [OF c1 abc]
  have aa: "c1 a a = Equal" by (rule ord_law_refl [OF c1 abc])
  note c2_less = ord_law_less [OF c2 [OF abc(1)], of a b c] and c2_eq = ord_law_equal [OF c2 [OF abc(1)], of a b c]
  {
    assume "ord_then (c1 a b) (c2 a b) = Less" and "ord_then (c1 b c) (c2 b c) \<noteq> Greater"
    then show "ord_then (c1 a c) (c2 a c) = Less"
      using c1_less c1_eq c2_less abc aa by (cases "c1 a b"; cases "c1 b c") simp_all
  next
    assume "ord_then (c1 a b) (c2 a b) = Equal"
    then show "ord_then (c1 a c) (c2 a c) = ord_then (c1 b c) (c2 b c)"
      using c1_eq c2_eq abc aa by (cases "c1 b c") simp_all
  }
qed

lemma str_cmp_Equal [simp]: "str_cmp a b = Equal \<longleftrightarrow> a = b"
  by (induction a b rule: str_cmp.induct) auto

lemma str_cmp_reverse: "str_cmp b a = ord_reverse (str_cmp a b)"
  by (induction a b rule: str_cmp.induct) (auto simp: nat_cmp_def)

lemma str_cmp_less: "str_cmp a b = Less \<Longrightarrow> str_cmp b c \<noteq> Greater \<Longrightarrow> str_cmp a c = Less"
proof (induction a b arbitrary: c rule: str_cmp.induct)
  case (2 b bs)
  then show ?case by (cases c) auto
next
  case (4 a as b bs)
  then show ?case by (cases c) (auto simp: nat_cmp_def split: if_splits)
qed auto

lemma str_cmp_law: "ord_law A (\<lambda>a b. str_cmp (f a) (f b))"
  unfolding ord_law_def by (intro conjI ballI impI str_cmp_reverse) (auto intro: str_cmp_less)

lemma ord_law_mono: "ord_law A cmp \<Longrightarrow> B \<subseteq> A \<Longrightarrow> ord_law B cmp"
  unfolding ord_law_def by blast

text \<open>
  If the methods of each type of tags satisfy the contract of \<open>Ord\<close>, so does the comparison of tags of
  different transports and types, and its equality is an equivalence.
\<close>

lemma tag_cmp_law:
  assumes "\<And>n i. ord_law {g. tg_transport_name T g = n \<and> tg_type_id T g = i} (tg_dyn_cmp T)"
  shows "ord_law UNIV (tag_cmp T)"
proof -
  have id_law: "ord_law A (\<lambda>a b. nat_cmp (tg_type_id T a) (tg_type_id T b))" for A
    by (auto simp: ord_law_def nat_cmp_def)
  have dyn: "ord_law {b \<in> {b \<in> UNIV. str_cmp (tg_transport_name T a) (tg_transport_name T b) = Equal}.
      nat_cmp (tg_type_id T a') (tg_type_id T b) = Equal} (tg_dyn_cmp T)" for a a'
    by (rule ord_law_mono [OF assms [of "tg_transport_name T a" "tg_type_id T a'"]]) auto
  have "ord_law UNIV (\<lambda>a b. ord_then (str_cmp (tg_transport_name T a) (tg_transport_name T b))
      (ord_then (nat_cmp (tg_type_id T a) (tg_type_id T b)) (tg_dyn_cmp T a b)))"
    by (intro ord_law_then str_cmp_law id_law dyn)
  moreover have "tag_cmp T = (\<lambda>a b. ord_then (str_cmp (tg_transport_name T a) (tg_transport_name T b))
      (ord_then (nat_cmp (tg_type_id T a) (tg_type_id T b)) (tg_dyn_cmp T a b)))"
    by (intro ext) (simp add: tag_cmp_def)
  ultimately show ?thesis by simp
qed

lemma transports_filter_iff:
  "transports_filter alive filt ts link others \<longleftrightarrow> (\<forall>t \<in> set ts. alive t \<longrightarrow> filt t link others)"
  by (induction ts) auto

lemma tag_link_cfg_used:
  "tag_link_cfg T f tag c = (n, lc) \<Longrightarrow>
     n = io_packet_size (case lc of None \<Rightarrow> cfg_link c | Some l \<Rightarrow> l) \<and> lc \<noteq> Some (cfg_link c)"
  by (auto simp: tag_link_cfg_def Let_def split: if_splits)

lemma remove_nth_props:
  assumes "distinct (map f xs)" and "i < length xs"
  shows "distinct (map f (remove_nth i xs))" and "f ` set (remove_nth i xs) = f ` set xs - {f (xs ! i)}"
    and "set (remove_nth i xs) \<subseteq> set xs"
proof -
  have xs: "map f xs = map f (take i xs) @ f (xs ! i) # map f (drop (Suc i) xs)"
    using assms(2) by (subst id_take_nth_drop [of i xs]) simp_all
  show "distinct (map f (remove_nth i xs))" using assms(1) unfolding xs by (auto simp: remove_nth_def)
  have "f ` set xs = set (map f xs)" by simp
  then show "f ` set (remove_nth i xs) = f ` set xs - {f (xs ! i)}"
    using assms(1) unfolding xs by (auto simp: remove_nth_def)
  show "set (remove_nth i xs) \<subseteq> set xs" by (auto simp: remove_nth_def dest: in_set_takeD in_set_dropD)
qed

lemma set_remove_nth: "set (remove_nth i xs) \<subseteq> set xs"
  by (auto simp: remove_nth_def dest: in_set_takeD in_set_dropD)

lemma distinct_remove_nth: "distinct xs \<Longrightarrow> distinct (remove_nth i xs)"
  using set_take_disj_set_drop_if_distinct [of xs i "Suc i"] by (simp add: remove_nth_def)

end
