(* ===== verification/Connector.thy ===== *)
theory Connector
  imports Transport
begin

text \<open>
  The connector (\<open>aggligator/src/transport/connector.rs\<close>): the task of each connecting transport with one
  asynchronous attempt per link tag, and the task that manages all transports and publishes their tags.

  A transport, the wrappers and the function that configures links belong to the user; they are the
  fields of \<open>connector_env\<close>.  A task is cut at its awaits: every phase of a connection attempt is a
  place where the source waits.  What the task tells the outside (calls of the transport's methods,
  link errors, requests to disconnect) is recorded in lists.
\<close>

section \<open>Environment\<close>

record ('g, 'p, 'r, 'w) connector_env =
  ce_tags :: "'g tag_ops"
  ce_name :: string
  ce_connect :: "'g \<Rightarrow> ('p, 'r, 'w) stream_box io_result \<Rightarrow> bool"
  ce_wrappers :: "('p, 'r, 'w) stream_box wrapper list"
  ce_link_cfg_fn :: "'g \<Rightarrow> link_cfg \<Rightarrow> link_cfg"
  ce_reconnect_delay :: duration
  ce_show_id :: "server_id \<Rightarrow> string"

text \<open>A handle of a link of the connection.\<close>

record 'g link_handle =
  lh_id :: link_id
  lh_tag :: 'g
  lh_remote_user_data :: bytes

text \<open>The calls of the methods of the transport.\<close>

datatype 'g transport_call =
    ConnectCall 'g
  | ConnectedLinks "'g link_handle list"
  | LinkDisconnected 'g "io_error + disconnect_reason"

section \<open>Connection attempts\<close>

text \<open>
  The phases of an attempt: not yet polled; connecting the transport; within the wrappers; adding
  the link to the connection; telling the transport that this failed; waiting before the next
  attempt; connected, with the time before which the attempt does not end; telling the transport
  that the link was disconnected; and waiting for that time.
\<close>

datatype ('p, 'r, 'w) connect_phase =
    CtNew
  | CtConnect
  | CtWrap "('p, 'r, 'w) stream_box" nat
  | CtAdd "('p, 'r, 'w) tx_rx_box" "link_cfg option" add_call
  | CtFailed io_error
  | CtRetry instant
  | CtUp link_id instant
  | CtNotify link_id disconnect_reason instant
  | CtDown link_id disconnect_reason instant
  | CtPanic

record ('g, 'p, 'r, 'w) connect_task =
  ck_tag :: 'g
  ck_phase :: "('p, 'r, 'w) connect_phase"

text \<open>The links that are told to disconnect when the attempt is dropped.\<close>

fun held_links :: "('p, 'r, 'w) connect_phase \<Rightarrow> link_id list" where
  "held_links (CtUp l _) = [l]"
| "held_links (CtNotify l _ _) = [l]"
| "held_links (CtDown l _ _) = [l]"
| "held_links _ = []"

text \<open>The task is at the top of its loop, tells the transport the links it has seen, waits, or is over.\<close>

datatype 'g transport_phase =
    TtTop
  | TtNotify "'g link_handle list"
  | TtSelect
  | TtEnded "unit io_result"
  | TtPanicked

record ('g, 'p, 'r, 'w) transport_task =
  tt_phase :: "'g transport_phase"
  tt_now :: instant
  tt_control :: control
  tt_links :: "'g link_handle list"
  tt_tags :: "'g set"
  tt_disabled :: "'g set"
  tt_tags_changed :: bool
  tt_fw_tags :: "'g set"
  tt_connecting :: "'g set"
  tt_tasks :: "('g, 'p, 'r, 'w) connect_task list"
  tt_rejected :: "'g set"
  tt_calls :: "(instant \<times> 'g transport_call) list"
  tt_errors :: "'g link_error list"
  tt_disconnects :: "link_id list"

definition transport_start ::
  "instant \<Rightarrow> control \<Rightarrow> 'g link_handle list \<Rightarrow> 'g set \<Rightarrow> ('g, 'p, 'r, 'w) transport_task" where
  "transport_start now c links disabled =
     \<lparr>tt_phase = TtTop, tt_now = now, tt_control = c, tt_links = links, tt_tags = {}, tt_disabled = disabled,
      tt_tags_changed = True, tt_fw_tags = {}, tt_connecting = {}, tt_tasks = [], tt_rejected = {},
      tt_calls = [], tt_errors = [], tt_disconnects = []\<rparr>"

definition call_transport ::
  "'g transport_call \<Rightarrow> ('g, 'p, 'r, 'w) transport_task \<Rightarrow> ('g, 'p, 'r, 'w) transport_task" where
  "call_transport call s = s\<lparr>tt_calls := tt_calls s @ [(tt_now s, call)]\<rparr>"

definition publish_error ::
  "'g \<Rightarrow> io_error \<Rightarrow> ('g, 'p, 'r, 'w) transport_task \<Rightarrow> ('g, 'p, 'r, 'w) transport_task" where
  "publish_error tag e s =
     s\<lparr>tt_errors := tt_errors s @ [link_error_outgoing (ct_conn_id (tt_control s)) tag e]\<rparr>"

text \<open>
  A step of the attempt for a tag.  \<open>control.add\<close> panics if the user data of the tag is too long, and
  otherwise advances by the steps of \<open>add_step\<close>; after its handshake the connection may be gone.
\<close>

inductive connect_step ::
  "('g, 'p, 'r, 'w) connector_env \<Rightarrow> 'g \<Rightarrow>
   ('g, 'p, 'r, 'w) transport_task \<times> ('p, 'r, 'w) connect_phase \<Rightarrow>
   ('g, 'p, 'r, 'w) transport_task \<times> ('p, 'r, 'w) connect_phase \<Rightarrow> bool"
  for E :: "('g, 'p, 'r, 'w) connector_env" and tag :: 'g where
  ck_start: "connect_step E tag (s, CtNew) (call_transport (ConnectCall tag) s, CtConnect)"
| ck_connect: "ce_connect E tag (Inr st) \<Longrightarrow> connect_step E tag (s, CtConnect) (s, CtWrap st 0)"
| ck_connect_err: "ce_connect E tag (Inl e) \<Longrightarrow>
    connect_step E tag (s, CtConnect) (publish_error tag e s, CtRetry (tt_now s + ce_reconnect_delay E))"
| ck_wrap: "i < length (ce_wrappers E) \<Longrightarrow> (ce_wrappers E ! i) st (Inr st') \<Longrightarrow>
    connect_step E tag (s, CtWrap st i) (s, CtWrap st' (Suc i))"
| ck_wrap_err: "i < length (ce_wrappers E) \<Longrightarrow> (ce_wrappers E ! i) st (Inl e) \<Longrightarrow>
    connect_step E tag (s, CtWrap st i) (call_transport (LinkDisconnected tag (Inl e)) s, CtFailed e)"
| ck_wrapped: "tag_link_cfg (ce_tags E) (ce_link_cfg_fn E) tag (ct_cfg (tt_control s)) = (cap, lc) \<Longrightarrow>
    connect_step E tag (s, CtWrap st (length (ce_wrappers E)))
      (s, if length (tg_user_data (ce_tags E) tag) \<le> 65535
          then CtAdd (into_tx_rx_with_capacity cap st) lc AddWaits else CtPanic)"
| ck_add: "add_step (tt_control s, a) (c, a') \<Longrightarrow>
    connect_step E tag (s, CtAdd b lc a) (s\<lparr>tt_control := c\<rparr>, CtAdd b lc a')"
| ck_added: "connect_step E tag (s, CtAdd b lc (AddOk wd)) (s, CtUp l (tt_now s + ce_reconnect_delay E))"
| ck_add_closed: "e = add_link_to_io (ce_show_id E) AConnectionClosed \<Longrightarrow>
    connect_step E tag (s, CtAdd b lc (AddOk wd)) (call_transport (LinkDisconnected tag (Inl e)) s, CtFailed e)"
| ck_add_err: "e = add_link_to_io (ce_show_id E) err \<Longrightarrow>
    connect_step E tag (s, CtAdd b lc (AddFailed err)) (call_transport (LinkDisconnected tag (Inl e)) s, CtFailed e)"
| ck_failed: "connect_step E tag (s, CtFailed e)
    (publish_error tag e s, CtRetry (tt_now s + ce_reconnect_delay E))"
| ck_disconnected: "connect_step E tag (s, CtUp l until)
    (call_transport (LinkDisconnected tag (Inr reason)) s, CtNotify l reason until)"
| ck_notified: "connect_step E tag (s, CtNotify l reason until)
    (publish_error tag (disconnect_to_io reason) s, CtDown l reason until)"

inductive_cases connect_stepE: "connect_step E tag (s, p) (s', p')"

text \<open>The value of an attempt that has ended.\<close>

fun connect_result :: "instant \<Rightarrow> ('p, 'r, 'w) connect_phase \<Rightarrow> disconnect_reason option option" where
  "connect_result now (CtRetry until) = (if until \<le> now then Some None else None)"
| "connect_result now (CtDown l reason until) = (if until \<le> now then Some (Some reason) else None)"
| "connect_result now _ = None"

section \<open>The task of a transport\<close>

text \<open>The task ends: its attempts are dropped, which disconnects their links.\<close>

definition transport_end ::
  "unit io_result \<Rightarrow> ('g, 'p, 'r, 'w) transport_task \<Rightarrow> ('g, 'p, 'r, 'w) transport_task" where
  "transport_end res s =
     s\<lparr>tt_phase := TtEnded res, tt_tasks := [],
       tt_disconnects := tt_disconnects s @ concat (map (held_links \<circ> ck_phase) (tt_tasks s))\<rparr>"

fun start_tags ::
  "('g, 'p, 'r, 'w) connector_env \<Rightarrow> 'g link_handle list \<Rightarrow> 'g list \<Rightarrow> ('g, 'p, 'r, 'w) transport_task \<Rightarrow>
   io_error option \<times> ('g, 'p, 'r, 'w) transport_task" where
  "start_tags E links [] s = (None, s)"
| "start_tags E links (tag # ts) s =
     (if tg_transport_name (ce_tags E) tag \<noteq> ce_name E then (Some name_mismatch, s)
      else if tag \<in> tt_connecting s \<or> tag \<in> tt_disabled s \<or> tag \<in> tt_rejected s \<or> (\<exists>l \<in> set links. lh_tag l = tag)
      then start_tags E links ts s
      else start_tags E links ts
        (s\<lparr>tt_connecting := insert tag (tt_connecting s),
           tt_tasks := tt_tasks s @ [\<lparr>ck_tag = tag, ck_phase = CtNew\<rparr>]\<rparr>))"

text \<open>
  One round of the loop up to the \<open>select!\<close>, after the transport was told the links; \<open>ts\<close> is the order
  in which the set of tags is iterated.
\<close>

definition transport_round ::
  "('g, 'p, 'r, 'w) connector_env \<Rightarrow> 'g link_handle list \<Rightarrow> 'g list \<Rightarrow> ('g, 'p, 'r, 'w) transport_task \<Rightarrow>
   ('g, 'p, 'r, 'w) transport_task" where
  "transport_round E links ts s =
     (let s = s\<lparr>tt_disconnects := tt_disconnects s @ map lh_id (filter (\<lambda>l. lh_tag l \<in> tt_disabled s) links)\<rparr>;
          s = (if tt_tags_changed s then s\<lparr>tt_fw_tags := tt_tags s, tt_tags_changed := False\<rparr> else s)
      in (case start_tags E links ts s of
            (None, s) \<Rightarrow> s\<lparr>tt_phase := TtSelect\<rparr>
          | (Some e, s) \<Rightarrow> transport_end (Inl e) s))"

text \<open>
  An attempt has ended: a tag rejected by the link filter is blocked, and the end of a link for any other
  reason unblocks all tags.
\<close>

definition connect_finished ::
  "'g \<Rightarrow> disconnect_reason option \<Rightarrow> ('g, 'p, 'r, 'w) transport_task \<Rightarrow> ('g, 'p, 'r, 'w) transport_task" where
  "connect_finished tag reason s =
     s\<lparr>tt_connecting := tt_connecting s - {tag},
       tt_rejected :=
         (case reason of
            Some LinkFilter \<Rightarrow> insert tag (tt_rejected s)
          | Some _ \<Rightarrow> {}
          | None \<Rightarrow> tt_rejected s)\<rparr>"

text \<open>
  The steps of the task and of its surroundings: time passes, the connection publishes other links, the
  transport other tags and the user other disabled tags, and other attempts use the control handle.
  \<open>tt_end\<close> stands for the end of the discovery of tags, the removal of the transport and the end of the
  connection.
\<close>

inductive transport_step ::
  "('g, 'p, 'r, 'w) connector_env \<Rightarrow> ('g, 'p, 'r, 'w) transport_task \<Rightarrow> ('g, 'p, 'r, 'w) transport_task \<Rightarrow> bool"
  for E :: "('g, 'p, 'r, 'w) connector_env" where
  tr_time: "tt_now s \<le> now \<Longrightarrow> transport_step E s (s\<lparr>tt_now := now\<rparr>)"
| tr_links: "transport_step E s (s\<lparr>tt_links := links\<rparr>)"
| tr_tags: "transport_step E s (s\<lparr>tt_tags := tags\<rparr>)"
| tr_disabled: "transport_step E s (s\<lparr>tt_disabled := tags\<rparr>)"
| tr_control: "ctl_moves (tt_control s) c \<Longrightarrow> transport_step E s (s\<lparr>tt_control := c\<rparr>)"
| tr_top: "tt_phase s = TtTop \<Longrightarrow>
    transport_step E s (call_transport (ConnectedLinks (tt_links s)) (s\<lparr>tt_phase := TtNotify (tt_links s)\<rparr>))"
| tr_round: "tt_phase s = TtNotify links \<Longrightarrow> distinct ts \<Longrightarrow> set ts = tt_tags s \<Longrightarrow>
    transport_step E s (transport_round E links ts s)"
| tr_poll: "tt_phase s = TtSelect \<Longrightarrow> i < length (tt_tasks s) \<Longrightarrow> tt_tasks s ! i = k \<Longrightarrow>
    connect_step E (ck_tag k) (s, ck_phase k) (s', p) \<Longrightarrow>
    transport_step E s (if p = CtPanic then s'\<lparr>tt_phase := TtPanicked\<rparr>
      else s'\<lparr>tt_tasks := (tt_tasks s)[i := k\<lparr>ck_phase := p\<rparr>]\<rparr>)"
| tr_finished: "tt_phase s = TtSelect \<Longrightarrow> i < length (tt_tasks s) \<Longrightarrow> tt_tasks s ! i = k \<Longrightarrow>
    connect_result (tt_now s) (ck_phase k) = Some reason \<Longrightarrow>
    transport_step E s (connect_finished (ck_tag k) reason
      (s\<lparr>tt_phase := TtTop, tt_tasks := remove_nth i (tt_tasks s),
         tt_disconnects := tt_disconnects s @ held_links (ck_phase k)\<rparr>))"
| tr_wake: "tt_phase s = TtSelect \<Longrightarrow> transport_step E s (s\<lparr>tt_phase := TtTop\<rparr>)"
| tr_tags_changed: "tt_phase s = TtSelect \<Longrightarrow>
    transport_step E s (s\<lparr>tt_phase := TtTop, tt_tags_changed := True\<rparr>)"
| tr_end: "tt_phase s = TtSelect \<Longrightarrow> transport_step E s (transport_end res s)"

section \<open>Discipline of connection attempts\<close>

text \<open>The times at which the transport was asked to connect a tag.\<close>

definition attempts :: "'g \<Rightarrow> (instant \<times> 'g transport_call) list \<Rightarrow> instant list" where
  "attempts tag calls = map fst (filter (\<lambda>(t, call). call = ConnectCall tag) calls)"

text \<open>A time that is at least the reconnect delay after every attempt made so far.\<close>

fun due :: "duration \<Rightarrow> instant \<Rightarrow> ('p, 'r, 'w) connect_phase \<Rightarrow> instant" where
  "due d now CtNew = now"
| "due d now (CtRetry until) = until"
| "due d now (CtUp l until) = until"
| "due d now (CtNotify l reason until) = until"
| "due d now (CtDown l reason until) = until"
| "due d now _ = now + d"

definition spaced :: "duration \<Rightarrow> instant list \<Rightarrow> bool" where
  "spaced d = sorted_wrt (\<lambda>t t'. t + d \<le> t')"

definition settled :: "duration \<Rightarrow> instant \<Rightarrow> instant list \<Rightarrow> bool" where
  "settled d until ts \<longleftrightarrow> (\<forall>t \<in> set ts. t + d \<le> until)"

definition not_over :: "('g, 'p, 'r, 'w) transport_task \<Rightarrow> bool" where
  "not_over s \<longleftrightarrow> (case tt_phase s of TtEnded _ \<Rightarrow> False | TtPanicked \<Rightarrow> False | _ \<Rightarrow> True)"

definition task_ok ::
  "('g, 'p, 'r, 'w) connector_env \<Rightarrow> ('g, 'p, 'r, 'w) transport_task \<Rightarrow> ('g, 'p, 'r, 'w) connect_task \<Rightarrow> bool" where
  "task_ok E s k \<longleftrightarrow> tg_transport_name (ce_tags E) (ck_tag k) = ce_name E \<and>
     settled (ce_reconnect_delay E) (due (ce_reconnect_delay E) (tt_now s) (ck_phase k)) (attempts (ck_tag k) (tt_calls s))"

definition live_inv :: "('g, 'p, 'r, 'w) connector_env \<Rightarrow> ('g, 'p, 'r, 'w) transport_task \<Rightarrow> bool" where
  "live_inv E s \<longleftrightarrow> distinct (map ck_tag (tt_tasks s)) \<and> tt_connecting s = ck_tag ` set (tt_tasks s) \<and>
     tt_connecting s \<inter> tt_rejected s = {} \<and> (\<forall>k \<in> set (tt_tasks s). task_ok E s k) \<and>
     (\<forall>g. g \<notin> tt_connecting s \<longrightarrow> settled (ce_reconnect_delay E) (tt_now s) (attempts g (tt_calls s)))"

definition transport_inv :: "('g, 'p, 'r, 'w) connector_env \<Rightarrow> ('g, 'p, 'r, 'w) transport_task \<Rightarrow> bool" where
  "transport_inv E s \<longleftrightarrow> (\<forall>g. spaced (ce_reconnect_delay E) (attempts g (tt_calls s))) \<and> (not_over s \<longrightarrow> live_inv E s)"

definition calls_grow :: "('g, 'p, 'r, 'w) transport_task \<Rightarrow> ('g, 'p, 'r, 'w) transport_task \<Rightarrow> bool" where
  "calls_grow s s' \<longleftrightarrow> tt_now s \<le> tt_now s' \<and> (\<exists>cs. tt_calls s' = tt_calls s @ cs)"

lemma attempts_append [simp]: "attempts g (xs @ ys) = attempts g xs @ attempts g ys"
  by (simp add: attempts_def)

lemma attempts_Nil [simp]: "attempts g [] = []"
  by (simp add: attempts_def)

lemma attempts_one [simp]: "attempts g [(t, call)] = (if call = ConnectCall g then [t] else [])"
  by (simp add: attempts_def)

lemma settled_mono: "settled d u ts \<Longrightarrow> u \<le> u' \<Longrightarrow> settled d u' ts"
  by (auto simp: settled_def)

lemma settled_append [simp]: "settled d u (xs @ ys) \<longleftrightarrow> settled d u xs \<and> settled d u ys"
  by (auto simp: settled_def)

lemma settled_one [simp]: "settled d u [t] \<longleftrightarrow> t + d \<le> u"
  by (simp add: settled_def)

lemma settled_Nil [simp]: "settled d u []"
  by (simp add: settled_def)

lemma spaced_snoc [simp]: "spaced d (ts @ [t]) \<longleftrightarrow> spaced d ts \<and> settled d t ts"
  by (auto simp: spaced_def settled_def sorted_wrt_append)

lemma due_mono: "now \<le> now' \<Longrightarrow> due d now p \<le> due d now' p"
  by (cases p) auto

lemma connect_result_due: "connect_result now p = Some r \<Longrightarrow> due d now p \<le> now"
  by (cases p) (auto split: if_splits)

lemma task_ok_time: "task_ok E s k \<Longrightarrow> tt_now s \<le> now \<Longrightarrow> task_ok E (s\<lparr>tt_now := now\<rparr>) k"
  by (auto simp: task_ok_def intro: settled_mono due_mono)

text \<open>What a step of an attempt changes in the state of its task.\<close>

lemma connect_step_frame:
  assumes "connect_step E tag (s, p) (s', p')"
  shows "tt_phase s' = tt_phase s" and "tt_now s' = tt_now s" and "tt_tasks s' = tt_tasks s"
    and "tt_connecting s' = tt_connecting s" and "tt_rejected s' = tt_rejected s"
    and "tt_tags s' = tt_tags s"
    and "calls_grow s s'"
    and "g \<noteq> tag \<or> p \<noteq> CtNew \<Longrightarrow> attempts g (tt_calls s') = attempts g (tt_calls s)"
    and "p = CtNew \<Longrightarrow> attempts tag (tt_calls s') = attempts tag (tt_calls s) @ [tt_now s] \<and> p' = CtConnect"
    and "p \<noteq> CtNew \<Longrightarrow> p' \<noteq> CtPanic \<Longrightarrow> due (ce_reconnect_delay E) (tt_now s) p \<le> due (ce_reconnect_delay E) (tt_now s) p'"
  using assms
  by (cases rule: connect_step.cases; force simp: call_transport_def publish_error_def calls_grow_def)+

text \<open>What a round does to the attempts.\<close>

definition may_start :: "'g link_handle list \<Rightarrow> ('g, 'p, 'r, 'w) transport_task \<Rightarrow> 'g \<Rightarrow> bool" where
  "may_start links s tag \<longleftrightarrow> tag \<notin> tt_connecting s \<and> tag \<notin> tt_disabled s \<and> tag \<notin> tt_rejected s \<and> tag \<notin> lh_tag ` set links"

definition new_task :: "'g \<Rightarrow> ('g, 'p, 'r, 'w) connect_task" where
  "new_task tag = \<lparr>ck_tag = tag, ck_phase = CtNew\<rparr>"

lemma start_tags_ok:
  assumes "\<forall>tag \<in> set ts. tg_transport_name (ce_tags E) tag = ce_name E" and "distinct ts"
  shows "start_tags E links ts s =
    (None, s\<lparr>tt_connecting := tt_connecting s \<union> set (filter (may_start links s) ts),
             tt_tasks := tt_tasks s @ map new_task (filter (may_start links s) ts)\<rparr>)"
  using assms
proof (induction ts arbitrary: s)
  case (Cons tag ts)
  show ?case
  proof (cases "may_start links s tag")
    case True
    let ?s = "s\<lparr>tt_connecting := insert tag (tt_connecting s), tt_tasks := tt_tasks s @ [\<lparr>ck_tag = tag, ck_phase = CtNew\<rparr>]\<rparr>"
    have "filter (may_start links ?s) ts = filter (may_start links s) ts"
      using Cons.prems(2) by (intro filter_cong) (auto simp: may_start_def)
    moreover have "start_tags E links (tag # ts) s = start_tags E links ts ?s"
      using True Cons.prems(1) by (auto simp: may_start_def)
    ultimately show ?thesis using True Cons.IH [of ?s] Cons.prems by (simp add: new_task_def)
  next
    case False
    then have "start_tags E links (tag # ts) s = start_tags E links ts s"
      using Cons.prems(1) by (auto simp: may_start_def)
    then show ?thesis using False Cons by simp
  qed
qed simp

lemma start_tags_mismatch:
  assumes "tag \<in> set ts" and "tg_transport_name (ce_tags E) tag \<noteq> ce_name E"
  shows "\<exists>s'. start_tags E links ts s = (Some name_mismatch, s')"
  using assms by (induction ts arbitrary: s) auto

lemma start_tags_frame:
  assumes "start_tags E links ts s = (r, s')"
  shows "tt_calls s' = tt_calls s" and "tt_now s' = tt_now s" and "tt_rejected s' = tt_rejected s" and "tt_tags s' = tt_tags s"
  using assms by (induction ts arbitrary: s) (auto split: if_splits)

lemma start_tags_tasks: "set (tt_tasks s) \<subseteq> set (tt_tasks (snd (start_tags E links ts s)))"
proof (induction ts arbitrary: s)
  case (Cons tag ts)
  let ?s = "s\<lparr>tt_connecting := insert tag (tt_connecting s), tt_tasks := tt_tasks s @ [\<lparr>ck_tag = tag, ck_phase = CtNew\<rparr>]\<rparr>"
  have "set (tt_tasks s) \<subseteq> set (tt_tasks (snd (start_tags E links ts ?s)))" using Cons.IH [of ?s] by simp
  with Cons.IH [of s] show ?case by simp
qed simp

lemma transport_round_ok:
  assumes "\<forall>tag \<in> set ts. tg_transport_name (ce_tags E) tag = ce_name E" and "distinct ts"
  shows "transport_round E links ts s =
    s\<lparr>tt_phase := TtSelect,
      tt_disconnects := tt_disconnects s @ map lh_id (filter (\<lambda>l. lh_tag l \<in> tt_disabled s) links),
      tt_fw_tags := (if tt_tags_changed s then tt_tags s else tt_fw_tags s), tt_tags_changed := False,
      tt_connecting := tt_connecting s \<union> set (filter (may_start links s) ts),
      tt_tasks := tt_tasks s @ map new_task (filter (may_start links s) ts)\<rparr>"
proof -
  let ?d = "tt_disconnects s @ map lh_id (filter (\<lambda>l. lh_tag l \<in> tt_disabled s) links)"
  let ?s = "s\<lparr>tt_disconnects := ?d\<rparr>"
  let ?t = "if tt_tags_changed ?s then ?s\<lparr>tt_fw_tags := tt_tags ?s, tt_tags_changed := False\<rparr> else ?s"
  have "may_start links ?t = may_start links s" by (intro ext) (simp add: may_start_def)
  then have st: "start_tags E links ts ?t =
    (None, ?t\<lparr>tt_connecting := tt_connecting s \<union> set (filter (may_start links s) ts),
       tt_tasks := tt_tasks s @ map new_task (filter (may_start links s) ts)\<rparr>)"
    using start_tags_ok [OF assms, of links ?t] by simp
  have "transport_round E links ts s = ?t\<lparr>tt_connecting := tt_connecting s \<union> set (filter (may_start links s) ts),
       tt_tasks := tt_tasks s @ map new_task (filter (may_start links s) ts), tt_phase := TtSelect\<rparr>"
    unfolding transport_round_def Let_def st by simp
  then show ?thesis by (intro transport_task.equality) simp_all
qed

lemma transport_round_mismatch:
  assumes "tag \<in> set ts" and "tg_transport_name (ce_tags E) tag \<noteq> ce_name E"
  shows "\<exists>s'. transport_round E links ts s = transport_end (Inl name_mismatch) s' \<and> tt_calls s' = tt_calls s \<and>
    tt_now s' = tt_now s \<and> tt_tags s' = tt_tags s \<and> tt_rejected s' = tt_rejected s \<and> set (tt_tasks s) \<subseteq> set (tt_tasks s')"
proof -
  let ?s = "s\<lparr>tt_disconnects := tt_disconnects s @ map lh_id (filter (\<lambda>l. lh_tag l \<in> tt_disabled s) links)\<rparr>"
  let ?t = "if tt_tags_changed ?s then ?s\<lparr>tt_fw_tags := tt_tags ?s, tt_tags_changed := False\<rparr> else ?s"
  obtain s' where s': "start_tags E links ts ?t = (Some name_mismatch, s')"
    using start_tags_mismatch [where s = ?t, OF assms] by blast
  then have "transport_round E links ts s = transport_end (Inl name_mismatch) s'"
    unfolding transport_round_def Let_def s' by simp
  moreover have "set (tt_tasks s) \<subseteq> set (tt_tasks s')" using start_tags_tasks [of ?t E links ts] unfolding s'
    by (cases "tt_tags_changed s") simp_all
  ultimately show ?thesis using start_tags_frame [OF s'] by (intro exI [of _ s']) simp
qed

lemma live_inv_start:
  assumes "live_inv E s" and "\<forall>tag \<in> set ts. tg_transport_name (ce_tags E) tag = ce_name E \<and> may_start links s tag"
    and "distinct ts"
  shows "live_inv E (s\<lparr>tt_phase := ph, tt_disconnects := dis, tt_fw_tags := fw, tt_tags_changed := ch,
    tt_connecting := tt_connecting s \<union> set ts, tt_tasks := tt_tasks s @ map new_task ts\<rparr>)"
proof -
  have "map (ck_tag \<circ> new_task) ts = ts" by (simp add: new_task_def comp_def)
  moreover have "set ts \<inter> ck_tag ` set (tt_tasks s) = {}" and "set ts \<inter> tt_rejected s = {}"
    using assms(1,2) by (auto simp: live_inv_def may_start_def)
  ultimately show ?thesis using assms
    by (auto simp: live_inv_def task_ok_def new_task_def may_start_def image_Un image_image Int_Un_distrib2 comp_def)
qed

lemma live_inv_finished:
  assumes inv: "live_inv E s" and i: "i < length (tt_tasks s)"
    and res: "connect_result (tt_now s) (ck_phase (tt_tasks s ! i)) = Some reason"
  shows "live_inv E (connect_finished (ck_tag (tt_tasks s ! i)) reason
    (s\<lparr>tt_phase := ph, tt_tasks := remove_nth i (tt_tasks s), tt_disconnects := dis\<rparr>))" (is "live_inv E ?s'")
proof -
  let ?k = "tt_tasks s ! i"
  have dist: "distinct (map ck_tag (tt_tasks s))" and con: "tt_connecting s = ck_tag ` set (tt_tasks s)"
    and k: "task_ok E s ?k" using inv i by (auto simp: live_inv_def)
  have "settled (ce_reconnect_delay E) (tt_now s) (attempts (ck_tag ?k) (tt_calls s))"
    using k connect_result_due [OF res] by (auto simp: task_ok_def intro: settled_mono)
  moreover have "tt_rejected ?s' \<subseteq> insert (ck_tag ?k) (tt_rejected s)"
    by (auto simp: connect_finished_def split: option.splits disconnect_reason.splits)
  moreover note remove_nth_props [OF dist i]
  ultimately show ?thesis using inv con
    by (auto simp: live_inv_def task_ok_def connect_finished_def)
qed

lemma live_inv_poll:
  assumes inv: "live_inv E s" and i: "i < length (tt_tasks s)"
    and st: "connect_step E (ck_tag (tt_tasks s ! i)) (s, ck_phase (tt_tasks s ! i)) (s', p)" and p: "p \<noteq> CtPanic"
  shows "live_inv E (s'\<lparr>tt_tasks := (tt_tasks s)[i := (tt_tasks s ! i)\<lparr>ck_phase := p\<rparr>]\<rparr>)" (is "live_inv E ?s'")
proof -
  let ?k = "tt_tasks s ! i" and ?d = "ce_reconnect_delay E"
  note frame = connect_step_frame [OF st]
  have tags: "map ck_tag (tt_tasks ?s') = map ck_tag (tt_tasks s)"
    using i list_update_id [of "map ck_tag (tt_tasks s)" i] by (simp add: map_update nth_map)
  have dist: "distinct (map ck_tag (tt_tasks s))" and con: "tt_connecting s = ck_tag ` set (tt_tasks s)"
    and ok: "\<And>k. k \<in> set (tt_tasks s) \<Longrightarrow> task_ok E s k" using inv by (auto simp: live_inv_def)
  have other: "attempts g (tt_calls s') = attempts g (tt_calls s)" if "g \<noteq> ck_tag ?k" for g using frame(8) that by blast
  have changed: "task_ok E ?s' (?k\<lparr>ck_phase := p\<rparr>)"
  proof (cases "ck_phase ?k = CtNew")
    case True
    then show ?thesis using frame(2,9) ok [of ?k] i by (auto simp: task_ok_def intro: settled_mono)
  next
    case False
    then show ?thesis using frame(2) frame(8) [of "ck_tag ?k"] frame(10) ok [of ?k] i p
      by (auto simp: task_ok_def intro: settled_mono)
  qed
  have "task_ok E ?s' k'" if k': "k' \<in> set (tt_tasks ?s')" for k'
  proof -
    from k' obtain j where j: "j < length (tt_tasks s)" "k' = (tt_tasks ?s') ! j" by (auto simp: in_set_conv_nth)
    show ?thesis
    proof (cases "j = i")
      case False
      then have "ck_tag (tt_tasks s ! j) \<noteq> ck_tag ?k" using dist i j(1) nth_eq_iff_index_eq [of "map ck_tag (tt_tasks s)" j i] by simp
      then show ?thesis using ok [of "tt_tasks s ! j"] j False other frame(2) by (auto simp: task_ok_def)
    qed (use changed i j in simp)
  qed
  moreover have "ck_tag ` set (tt_tasks ?s') = ck_tag ` set (tt_tasks s)" using tags by (metis set_map)
  moreover have "settled ?d (tt_now s) (attempts g (tt_calls s'))" if "g \<notin> tt_connecting s" for g
  proof -
    have "g \<noteq> ck_tag ?k" using that i con by auto
    with inv that show ?thesis unfolding live_inv_def by (simp add: other)
  qed
  moreover have "ck_tag ` set (tt_tasks s) \<inter> tt_rejected s = {}" using inv unfolding live_inv_def by (metis (no_types))
  ultimately show ?thesis using dist con frame(2,4,5) tags by (simp add: live_inv_def)
qed

lemma spaced_poll:
  assumes "live_inv E s" and "i < length (tt_tasks s)"
    and st: "connect_step E (ck_tag (tt_tasks s ! i)) (s, ck_phase (tt_tasks s ! i)) (s', p)"
    and "spaced (ce_reconnect_delay E) (attempts g (tt_calls s))"
  shows "spaced (ce_reconnect_delay E) (attempts g (tt_calls s'))"
proof (cases "g = ck_tag (tt_tasks s ! i) \<and> ck_phase (tt_tasks s ! i) = CtNew")
  case True
  moreover have "task_ok E s (tt_tasks s ! i)" using assms(1,2) by (simp add: live_inv_def)
  ultimately show ?thesis using connect_step_frame(9) [OF st] assms(4) by (simp add: task_ok_def)
next
  case False
  then show ?thesis using connect_step_frame(8) [OF st, of g] assms(4) by auto
qed

lemma transport_round_step:
  assumes inv: "transport_inv E s" and ph: "tt_phase s = TtNotify links" and "distinct ts"
  shows "transport_inv E (transport_round E links ts s) \<and> calls_grow s (transport_round E links ts s)"
proof (cases "\<forall>tag \<in> set ts. tg_transport_name (ce_tags E) tag = ce_name E")
  case True
  have "live_inv E s" using inv ph by (simp add: transport_inv_def not_over_def)
  then have "live_inv E (transport_round E links ts s)"
    unfolding transport_round_ok [OF True assms(3)]
  proof (rule live_inv_start [where links = links])
    show "\<forall>tag \<in> set (filter (may_start links s) ts). tg_transport_name (ce_tags E) tag = ce_name E \<and> may_start links s tag"
      using True by simp
    show "distinct (filter (may_start links s) ts)" using assms(3) by simp
  qed
  then show ?thesis using inv transport_round_ok [OF True assms(3), of links s]
    by (simp add: transport_inv_def calls_grow_def)
next
  case False
  then obtain tag where "tag \<in> set ts" "tg_transport_name (ce_tags E) tag \<noteq> ce_name E" by blast
  from transport_round_mismatch [OF this, of links s] obtain s' where
    "transport_round E links ts s = transport_end (Inl name_mismatch) s'"
    "tt_calls s' = tt_calls s" "tt_now s' = tt_now s" by (elim exE conjE)
  then show ?thesis using inv by (simp add: transport_inv_def calls_grow_def transport_end_def not_over_def)
qed

lemma transport_inv_change:
  assumes "transport_inv E s" and "tt_tasks s' = tt_tasks s" and "tt_connecting s' = tt_connecting s"
    and "tt_rejected s' = tt_rejected s" and "tt_now s \<le> tt_now s'" and "not_over s' \<Longrightarrow> not_over s"
    and att: "\<And>g. attempts g (tt_calls s') = attempts g (tt_calls s)"
  shows "transport_inv E s'"
proof -
  have "task_ok E s k \<Longrightarrow> task_ok E s' k" for k
    using due_mono [OF assms(5)] unfolding task_ok_def att by (blast intro: settled_mono)
  moreover have "settled d (tt_now s) ts \<Longrightarrow> settled d (tt_now s') ts" for d ts using assms(5) by (rule settled_mono [rotated])
  ultimately show ?thesis using assms(1,6) unfolding transport_inv_def live_inv_def assms(2-4) att by blast
qed

lemma transport_step_ok:
  assumes "transport_step E s s'" and inv: "transport_inv E s"
  shows "transport_inv E s' \<and> calls_grow s s'"
  using assms(1)
proof (cases rule: transport_step.cases)
  case (tr_time now)
  then have "transport_inv E s'" by (intro transport_inv_change [OF inv]) (simp_all add: not_over_def)
  with tr_time show ?thesis by (simp add: calls_grow_def)
next
  case tr_top
  then have "transport_inv E s'"
    by (intro transport_inv_change [OF inv]) (simp_all add: not_over_def call_transport_def)
  with tr_top show ?thesis by (simp add: calls_grow_def call_transport_def)
next
  case (tr_round links ts)
  then show ?thesis using transport_round_step [OF inv] by blast
next
  case (tr_poll i k t p)
  then have live: "live_inv E s" using inv by (simp add: transport_inv_def not_over_def)
  note st = tr_poll(5) [folded tr_poll(4)]
  have "calls_grow s s'" using connect_step_frame(7) [OF st] tr_poll(1) by (simp add: calls_grow_def)
  moreover have "\<forall>g. spaced (ce_reconnect_delay E) (attempts g (tt_calls s'))"
    using inv spaced_poll [OF live tr_poll(3) st] tr_poll(1) by (simp add: transport_inv_def)
  moreover have "not_over s' \<Longrightarrow> live_inv E s'"
    using live_inv_poll [OF live tr_poll(3) st] tr_poll(1,4) by (auto simp: not_over_def split: if_splits)
  ultimately show ?thesis by (simp add: transport_inv_def)
next
  case (tr_finished i k reason)
  then have "live_inv E s" using inv by (simp add: transport_inv_def not_over_def)
  from live_inv_finished [OF this tr_finished(3)] tr_finished(4,5) have "live_inv E s'"
    unfolding tr_finished(1) by blast
  then show ?thesis using inv by (simp add: tr_finished(1) transport_inv_def calls_grow_def connect_finished_def)
next
  case (tr_end res)
  then show ?thesis using inv by (simp add: transport_inv_def calls_grow_def not_over_def transport_end_def)
qed (intro conjI transport_inv_change [OF inv]; simp add: not_over_def calls_grow_def)+

interpretation tt: step_system "transport_step E" "transport_inv E" calls_grow
  for E :: "('g, 'p, 'r, 'w) connector_env"
proof unfold_locales
  fix s s' s'' :: "('g, 'p, 'r, 'w) transport_task"
  show "transport_inv E s \<Longrightarrow> transport_step E s s' \<Longrightarrow> transport_inv E s'"
    and "transport_inv E s \<Longrightarrow> transport_step E s s' \<Longrightarrow> calls_grow s s'"
    using transport_step_ok by blast+
  show "calls_grow s s" by (simp add: calls_grow_def)
  show "calls_grow s s' \<Longrightarrow> calls_grow s' s'' \<Longrightarrow> calls_grow s s''" by (auto simp: calls_grow_def)
qed

lemma transport_start_inv: "transport_inv E (transport_start now c links dis)"
  by (simp add: transport_inv_def live_inv_def transport_start_def spaced_def)

text \<open>A blocked tag without attempts of the transport stays blocked.\<close>

lemma stuck_step:
  assumes "tag \<in> tt_rejected s" and "tt_tags s \<subseteq> {tag}" and "tt_tasks s = []"
    and st: "transport_step E s s'" and "tt_tags s' \<subseteq> {tag}"
  shows "attempts tag (tt_calls s') = attempts tag (tt_calls s) \<and> tag \<in> tt_rejected s' \<and> tt_tags s' \<subseteq> {tag} \<and> tt_tasks s' = []"
  using st
proof (cases rule: transport_step.cases)
  case (tr_round links ts)
  have none: "filter (may_start links s) ts = []"
    using tr_round assms(1,2) by (auto simp: may_start_def filter_empty_conv)
  show ?thesis
  proof (cases "\<forall>tag \<in> set ts. tg_transport_name (ce_tags E) tag = ce_name E")
    case True
    show ?thesis using assms none unfolding tr_round(1) transport_round_ok [OF True tr_round(3)] by simp
  next
    case False
    then obtain g where "g \<in> set ts" "tg_transport_name (ce_tags E) g \<noteq> ce_name E" by blast
    from transport_round_mismatch [OF this, of links s] obtain t where
      "transport_round E links ts s = transport_end (Inl name_mismatch) t" "tt_calls t = tt_calls s"
      "tt_tags t = tt_tags s" "tt_rejected t = tt_rejected s" by (elim exE conjE)
    then show ?thesis using assms tr_round(1) by (simp add: transport_end_def)
  qed
qed (use assms in \<open>simp_all add: call_transport_def transport_end_def\<close>)

section \<open>A concrete transport\<close>

text \<open>
  One tag, a transport that may fail or succeed, and a control handle of a connection whose server is
  known.  \<open>demo_at\<close>: the task has reached a state in which the only attempt is in the given phase.
\<close>

definition demo_env :: "(nat, unit, unit, unit) connector_env" where
  "demo_env = \<lparr>ce_tags = \<lparr>tg_transport_name = (\<lambda>_. ''tcp''), tg_type_id = (\<lambda>_. 0), tg_dyn_cmp = nat_cmp,
       tg_user_data = (\<lambda>_. []), tg_link_cfg = (\<lambda>_ lc. lc), tg_display = (\<lambda>_. ''tag'')\<rparr>,
     ce_name = ''tcp'', ce_connect = (\<lambda>_ _. True), ce_wrappers = [], ce_link_cfg_fn = (\<lambda>_ lc. lc),
     ce_reconnect_delay = 10, ce_show_id = (\<lambda>_. ''server'')\<rparr>"

definition demo_control :: control where
  "demo_control = \<lparr>ct_cfg = default_cfg, ct_conn_id = ConnId 1, ct_server_id = None,
     ct_remote_server_id = Some (ServerId 2), ct_direction = Outgoing, ct_connected = True, ct_fatal = []\<rparr>"

definition demo_start :: "(nat, unit, unit, unit) transport_task" where
  "demo_start = transport_start 0 demo_control [] {}"

definition demo_at ::
  "(unit, unit, unit) connect_phase \<Rightarrow> instant \<Rightarrow> instant list \<Rightarrow> (nat, unit, unit, unit) transport_task \<Rightarrow> bool" where
  "demo_at p now ats s \<longleftrightarrow> (transport_step demo_env)\<^sup>*\<^sup>* demo_start s \<and> tt_phase s = TtSelect \<and>
     tt_now s = now \<and> tt_control s = demo_control \<and> tt_tags s = {7} \<and> tt_disabled s = {} \<and> tt_links s = [] \<and>
     tt_connecting s = {7} \<and> tt_rejected s = {} \<and> tt_tasks s = [\<lparr>ck_tag = 7, ck_phase = p\<rparr>] \<and>
     attempts 7 (tt_calls s) = ats"

lemma connect_step_env:
  "connect_step E tag (s, p) (s', p') \<Longrightarrow> tt_disabled s' = tt_disabled s \<and> tt_links s' = tt_links s"
  by (erule connect_stepE) (simp_all add: call_transport_def publish_error_def)

lemma transport_step_poll_one:
  assumes "tt_phase s = TtSelect" and "tt_tasks s = [k]" and "connect_step E (ck_tag k) (s, ck_phase k) (s', p)" and "p \<noteq> CtPanic"
  shows "transport_step E s (s'\<lparr>tt_tasks := [k\<lparr>ck_phase := p\<rparr>]\<rparr>)"
  using transport_step.tr_poll [of s 0 k E s' p] assms by simp

lemma demo_step:
  assumes at: "demo_at p now ats s" and st: "connect_step demo_env 7 (s, p) (s', p')" and "p' \<noteq> CtPanic"
    and "tt_control s' = demo_control"
  shows "\<exists>s''. demo_at p' now (if p = CtNew then ats @ [now] else ats) s''"
proof -
  let ?s = "s'\<lparr>tt_tasks := [\<lparr>ck_tag = 7, ck_phase = p'\<rparr>]\<rparr>"
  have "transport_step demo_env s ?s"
    using transport_step_poll_one [of s "\<lparr>ck_tag = 7, ck_phase = p\<rparr>" demo_env s' p'] at st assms(3)
    by (simp add: demo_at_def)
  then have "(transport_step demo_env)\<^sup>*\<^sup>* demo_start ?s" using at unfolding demo_at_def by (meson rtranclp.rtrancl_into_rtrancl)
  then have "demo_at p' now (if p = CtNew then ats @ [now] else ats) ?s"
    using at assms(4) connect_step_frame(1-6) [OF st] connect_step_frame(8) [OF st, of 7] connect_step_frame(9) [OF st]
      connect_step_env [OF st] by (auto simp: demo_at_def)
  then show ?thesis ..
qed

text \<open>From the top of the loop with one available tag that is not blocked, the attempt starts.\<close>

lemma demo_round:
  assumes "(transport_step demo_env)\<^sup>*\<^sup>* demo_start s" and "tt_phase s = TtTop" and "tt_tags s = {7}"
    and "tt_disabled s = {}" and "tt_links s = []" and "tt_connecting s = {}" and "tt_rejected s = {}"
    and "tt_tasks s = []" and "tt_control s = demo_control"
  shows "\<exists>s'. demo_at CtNew (tt_now s) (attempts 7 (tt_calls s)) s'"
proof -
  let ?a = "call_transport (ConnectedLinks (tt_links s)) (s\<lparr>tt_phase := TtNotify (tt_links s)\<rparr>)"
  let ?b = "transport_round demo_env [] [7] ?a"
  have a: "transport_step demo_env s ?a" by (rule transport_step.tr_top) (rule assms)
  have "transport_step demo_env ?a ?b"
    by (rule transport_step.tr_round) (simp_all add: call_transport_def assms)
  then have "(transport_step demo_env)\<^sup>*\<^sup>* demo_start ?b" using assms(1) a by (meson rtranclp.rtrancl_into_rtrancl)
  moreover have "?b = ?a\<lparr>tt_phase := TtSelect, tt_disconnects := tt_disconnects s,
      tt_fw_tags := (if tt_tags_changed s then {7} else tt_fw_tags s), tt_tags_changed := False,
      tt_connecting := {7}, tt_tasks := [new_task 7]\<rparr>"
    by (subst transport_round_ok) (simp_all add: demo_env_def may_start_def call_transport_def assms)
  ultimately have "demo_at CtNew (tt_now s) (attempts 7 (tt_calls s)) ?b"
    by (simp add: demo_at_def call_transport_def new_task_def assms)
  then show ?thesis ..
qed

lemma demo_first: "\<exists>s. demo_at CtNew 0 [] s"
proof -
  let ?s = "demo_start\<lparr>tt_tags := {7}\<rparr>"
  have "(transport_step demo_env)\<^sup>*\<^sup>* demo_start ?s" by (rule r_into_rtranclp) (rule transport_step.tr_tags)
  from demo_round [OF this] show ?thesis by (simp add: demo_start_def transport_start_def)
qed

text \<open>An attempt that has ended, at the time at which it may end.\<close>

lemma demo_finish:
  assumes at: "demo_at p now ats s" and "now \<le> until" and res: "connect_result until p = Some reason"
  shows "\<exists>s'. (transport_step demo_env)\<^sup>*\<^sup>* demo_start s' \<and> tt_phase s' = TtTop \<and> tt_tags s' = {7} \<and> tt_disabled s' = {} \<and>
    tt_links s' = [] \<and> tt_connecting s' = {} \<and> tt_tasks s' = [] \<and> tt_control s' = demo_control \<and> tt_now s' = until \<and>
    attempts 7 (tt_calls s') = ats \<and>
    tt_rejected s' = (case reason of Some LinkFilter \<Rightarrow> {7} | _ \<Rightarrow> {})"
proof -
  let ?k = "\<lparr>ck_tag = 7, ck_phase = p\<rparr>" and ?t = "s\<lparr>tt_now := until\<rparr>"
  let ?u = "connect_finished 7 reason (?t\<lparr>tt_phase := TtTop, tt_tasks := remove_nth 0 (tt_tasks ?t),
    tt_disconnects := tt_disconnects ?t @ held_links p\<rparr>)"
  have "transport_step demo_env s ?t" using at assms(2) by (intro transport_step.tr_time) (simp add: demo_at_def)
  moreover have "transport_step demo_env ?t ?u"
    using transport_step.tr_finished [of ?t 0 ?k reason demo_env] at res by (simp add: demo_at_def)
  ultimately have "(transport_step demo_env)\<^sup>*\<^sup>* demo_start ?u"
    using at unfolding demo_at_def by (meson rtranclp.rtrancl_into_rtrancl)
  then show ?thesis using at
    by (intro exI [of _ ?u]) (simp add: demo_at_def connect_finished_def remove_nth_def split: option.splits disconnect_reason.splits)
qed

lemma demo_connect_failed: "\<exists>s. demo_at (CtRetry 10) 0 [0] s"
proof -
  obtain s where "demo_at CtNew 0 [] s" using demo_first ..
  from demo_step [OF this connect_step.ck_start] this obtain s where s: "demo_at CtConnect 0 [0] s"
    by (auto simp: demo_at_def call_transport_def)
  have "connect_step demo_env 7 (s, CtConnect) (publish_error 7 elapsed_err s, CtRetry 10)"
    using connect_step.ck_connect_err [of demo_env 7 elapsed_err s] s by (simp add: demo_at_def demo_env_def)
  from demo_step [OF s this] s show ?thesis by (simp add: demo_at_def publish_error_def)
qed

text \<open>The attempt fails and is repeated after the delay.\<close>

lemma demo_two_attempts: "\<exists>s. demo_at CtConnect 10 [0, 10] s"
proof -
  obtain s where "demo_at (CtRetry 10) 0 [0] s" using demo_connect_failed ..
  from demo_finish [OF this, of 10 None] obtain s where "(transport_step demo_env)\<^sup>*\<^sup>* demo_start s" "tt_phase s = TtTop"
    "tt_tags s = {7}" "tt_disabled s = {}" "tt_links s = []" "tt_connecting s = {}" "tt_rejected s = {}" "tt_tasks s = []"
    "tt_control s = demo_control" "tt_now s = 10" "attempts 7 (tt_calls s) = [0]" by auto
  with demo_round [of s] obtain s where s: "demo_at CtNew 10 [0] s" by auto
  from demo_step [OF this connect_step.ck_start] s show ?thesis by (simp add: demo_at_def call_transport_def)
qed

text \<open>The link is connected, rejected by the link filter, and its tag is blocked.\<close>

lemma demo_rejected:
  "\<exists>s. (transport_step demo_env)\<^sup>*\<^sup>* demo_start s \<and> tt_phase s = TtTop \<and> tt_tags s = {7} \<and> tt_tasks s = [] \<and>
     7 \<in> tt_rejected s \<and> attempts 7 (tt_calls s) = [0] \<and> tt_now s \<le> 1000000"
proof -
  let ?wd = "WelcomeData [] (ServerId 2) \<lparr>x_recv_buffer = 1\<rparr> []"
  obtain s where "demo_at CtNew 0 [] s" using demo_first ..
  from demo_step [OF this connect_step.ck_start] this obtain s where s: "demo_at CtConnect 0 [0] s"
    by (auto simp: demo_at_def call_transport_def)
  from demo_step [OF s connect_step.ck_connect [of demo_env 7 "TxRx ()" s]] s
  obtain s where s: "demo_at (CtWrap (TxRx ()) 0) 0 [0] s" by (auto simp: demo_at_def demo_env_def)
  have "connect_step demo_env 7 (s, CtWrap (TxRx ()) 0) (s, CtAdd (PacketBox ()) None AddWaits)"
    using connect_step.ck_wrapped [of demo_env 7 s _ None "TxRx ()"] s
    by (simp add: demo_at_def demo_env_def demo_control_def tag_link_cfg_def)
  from demo_step [OF s this] s obtain s where s: "demo_at (CtAdd (PacketBox ()) None AddWaits) 0 [0] s"
    by (auto simp: demo_at_def)
  have "add_step (tt_control s, AddWaits) (demo_control, AddChecked ?wd)"
    using add_step.ad_check [of "Inr (Welcome 0 [] (ServerId 2) [] \<lparr>x_recv_buffer = 1\<rparr>)" ?wd demo_control demo_control] s
    by (simp add: demo_at_def demo_control_def check_server_id_def)
  from demo_step [OF s connect_step.ck_add [OF this]]
  obtain s where s: "demo_at (CtAdd (PacketBox ()) None (AddChecked ?wd)) 0 [0] s" by auto
  have "add_step (tt_control s, AddChecked ?wd) (demo_control, AddSent ?wd)"
    using add_step.ad_send [of demo_control ?wd] s by (simp add: demo_at_def)
  from demo_step [OF s connect_step.ck_add [OF this]]
  obtain s where s: "demo_at (CtAdd (PacketBox ()) None (AddSent ?wd)) 0 [0] s" by auto
  have "add_step (tt_control s, AddSent ?wd) (demo_control, AddOk ?wd)"
    using add_step.ad_accepted [of "Inr Accepted" demo_control True demo_control ?wd] s
    by (simp add: demo_at_def demo_control_def)
  from demo_step [OF s connect_step.ck_add [OF this]]
  obtain s where s: "demo_at (CtAdd (PacketBox ()) None (AddOk ?wd)) 0 [0] s" by auto
  have "connect_step demo_env 7 (s, CtAdd (PacketBox ()) None (AddOk ?wd)) (s, CtUp (LinkId 3) 10)"
    using connect_step.ck_added [of demo_env 7 s _ _ ?wd "LinkId 3"] s by (simp add: demo_at_def demo_env_def)
  from demo_step [OF s this] s obtain s where s: "demo_at (CtUp (LinkId 3) 10) 0 [0] s" by (auto simp: demo_at_def)
  from demo_step [OF s connect_step.ck_disconnected [of demo_env 7 s _ _ LinkFilter]] s
  obtain s where s: "demo_at (CtNotify (LinkId 3) LinkFilter 10) 0 [0] s" by (auto simp: demo_at_def call_transport_def)
  from demo_step [OF s connect_step.ck_notified] s
  obtain s where s: "demo_at (CtDown (LinkId 3) LinkFilter 10) 0 [0] s" by (auto simp: demo_at_def publish_error_def)
  from demo_finish [OF s, of 10 "Some LinkFilter"] show ?thesis by auto
qed

section \<open>The connector\<close>

text \<open>
  The state that the connector's handle and its managing task share; transports are known by the
  order in which they were added.  The channel for the tags of a transport is open while its task
  runs, and a transport is alive while it waits to be started or its task runs.  \<open>co_version\<close> counts the changes of the
  published tags that are seen by watchers.  The task is at the top of its loop, waits, or has ended.
\<close>

datatype connector_phase = CoTop | CoSelect | CoStopped

record 'g connector =
  co_phase :: connector_phase
  co_outgoing :: bool
  co_pending :: "nat list"
  co_active :: "nat list"
  co_tag_rxs :: "nat list"
  co_tasks :: "nat list"
  co_values :: "nat \<Rightarrow> 'g set"
  co_published :: "'g set"
  co_version :: nat
  co_disabled :: "'g set"
  co_next :: nat

text \<open>The builder sets the fields of the environment that do not belong to a transport.\<close>

definition connector_builder_new ::
  "'g tag_ops \<Rightarrow> string \<Rightarrow> ('g \<Rightarrow> ('p, 'r, 'w) stream_box io_result \<Rightarrow> bool) \<Rightarrow> (server_id \<Rightarrow> string) \<Rightarrow>
   ('g, 'p, 'r, 'w) connector_env" where
  "connector_builder_new T name con show_id =
     \<lparr>ce_tags = T, ce_name = name, ce_connect = con, ce_wrappers = [], ce_link_cfg_fn = (\<lambda>_ lc. lc),
      ce_reconnect_delay = from_secs 10, ce_show_id = show_id\<rparr>"

definition set_reconnect_delay ::
  "duration \<Rightarrow> ('g, 'p, 'r, 'w) connector_env \<Rightarrow> ('g, 'p, 'r, 'w) connector_env" where
  "set_reconnect_delay d E = E\<lparr>ce_reconnect_delay := d\<rparr>"

definition connector_set_link_cfg ::
  "('g \<Rightarrow> link_cfg \<Rightarrow> link_cfg) \<Rightarrow> ('g, 'p, 'r, 'w) connector_env \<Rightarrow> ('g, 'p, 'r, 'w) connector_env" where
  "connector_set_link_cfg f E = E\<lparr>ce_link_cfg_fn := f\<rparr>"

definition connector_wrap ::
  "('p, 'r, 'w) stream_box wrapper \<Rightarrow> ('g, 'p, 'r, 'w) connector_env \<Rightarrow> ('g, 'p, 'r, 'w) connector_env" where
  "connector_wrap w E = E\<lparr>ce_wrappers := ce_wrappers E @ [w]\<rparr>"

definition connector_build :: "'g connector" where
  "connector_build = \<lparr>co_phase = CoTop, co_outgoing = True, co_pending = [], co_active = [], co_tag_rxs = [],
     co_tasks = [], co_values = (\<lambda>_. {}), co_published = {}, co_version = 0, co_disabled = {}, co_next = 0\<rparr>"

text \<open>Adding a transport: when the connection has ended, the transport is dropped.\<close>

definition connector_add :: "'g connector \<Rightarrow> nat \<times> 'g connector" where
  "connector_add s =
     (co_next s,
      s\<lparr>co_next := Suc (co_next s),
        co_pending := (if co_phase s = CoStopped then co_pending s else co_pending s @ [co_next s])\<rparr>)"

definition connector_channel :: "'g connector \<Rightarrow> bool \<times> 'g connector" where
  "connector_channel s = (co_outgoing s, s\<lparr>co_outgoing := False\<rparr>)"

definition available_tags :: "'g connector \<Rightarrow> 'g set" where
  "available_tags s = co_published s"

definition set_disabled_tags :: "'g set \<Rightarrow> 'g connector \<Rightarrow> 'g connector" where
  "set_disabled_tags tags s = s\<lparr>co_disabled := tags\<rparr>"

text \<open>Awaiting the handle of a transport: a dropped sender of the result counts as success.\<close>

definition handle_result :: "unit io_result option \<Rightarrow> unit io_result" where
  "handle_result result_rx = (case result_rx of Some res \<Rightarrow> res | None \<Rightarrow> Inr ())"

definition connector_publish :: "'g connector \<Rightarrow> 'g connector" where
  "connector_publish s =
     (let rxs = filter (\<lambda>t. t \<in> set (co_tasks s)) (co_tag_rxs s);
          all_tags = (\<Union>t \<in> set rxs. co_values s t);
          s = s\<lparr>co_tag_rxs := rxs\<rparr>
      in if co_published s = all_tags then s else s\<lparr>co_published := all_tags, co_version := Suc (co_version s)\<rparr>)"

definition transport_added :: "nat \<Rightarrow> 'g connector \<Rightarrow> 'g connector" where
  "transport_added t s =
     s\<lparr>co_active := add_active (\<lambda>a. a \<in> set (co_tasks s) \<union> set (co_pending s)) t (co_active s),
       co_tag_rxs := co_tag_rxs s @ [t], co_tasks := co_tasks s @ [t], co_values := (co_values s)(t := {})\<rparr>"

inductive connector_step :: "'g connector \<Rightarrow> 'g connector \<Rightarrow> bool" where
  cn_add: "connector_step s (snd (connector_add s))"
| cn_channel: "connector_step s (snd (connector_channel s))"
| cn_disable: "connector_step s (set_disabled_tags tags s)"
| cn_publish: "co_phase s = CoTop \<Longrightarrow> connector_step s (connector_publish s\<lparr>co_phase := CoSelect\<rparr>)"
| cn_forward: "t \<in> set (co_tasks s) \<Longrightarrow> connector_step s (s\<lparr>co_values := (co_values s)(t := tags)\<rparr>)"
| cn_added: "co_phase s = CoSelect \<Longrightarrow> co_pending s = t # ts \<Longrightarrow>
    connector_step s (transport_added t (s\<lparr>co_pending := ts, co_phase := CoTop\<rparr>))"
| cn_tags_changed: "co_phase s = CoSelect \<Longrightarrow> connector_step s (s\<lparr>co_phase := CoTop\<rparr>)"
| cn_terminated: "co_phase s = CoSelect \<Longrightarrow> i < length (co_tasks s) \<Longrightarrow>
    connector_step s (s\<lparr>co_tasks := remove_nth i (co_tasks s), co_phase := CoTop\<rparr>)"
| cn_stop: "co_phase s = CoSelect \<Longrightarrow> connector_step s (s\<lparr>co_tasks := [], co_pending := [], co_phase := CoStopped\<rparr>)"

definition connector_inv :: "'g connector \<Rightarrow> bool" where
  "connector_inv s \<longleftrightarrow> set (co_tasks s) \<subseteq> set (co_tag_rxs s) \<and> set (co_tasks s) \<subseteq> set (co_active s) \<and>
     (\<forall>t \<in> set (co_tasks s) \<union> set (co_pending s). t < co_next s) \<and>
     distinct (co_tasks s @ co_pending s)"

definition connector_moves :: "'g connector \<Rightarrow> 'g connector \<Rightarrow> bool" where
  "connector_moves s s' \<longleftrightarrow> co_version s \<le> co_version s' \<and> (co_version s' = co_version s \<longrightarrow> co_published s' = co_published s) \<and>
     (co_outgoing s' \<longrightarrow> co_outgoing s)"

lemma connector_step_ok:
  assumes "connector_step s s'" and "connector_inv s"
  shows "connector_inv s' \<and> connector_moves s s'"
  using assms
proof (cases rule: connector_step.cases)
  case cn_add
  then show ?thesis using assms(2)
    by (auto simp: connector_inv_def connector_moves_def connector_add_def intro: less_SucI)
next
  case (cn_added t ts)
  then show ?thesis using assms(2)
    by (auto simp: connector_inv_def connector_moves_def transport_added_def add_active_def)
next
  case (cn_terminated i)
  then show ?thesis using assms(2) set_remove_nth [of i "co_tasks s"] distinct_remove_nth [of "co_tasks s" i]
    by (auto simp: connector_inv_def connector_moves_def)
qed (auto simp: connector_inv_def connector_moves_def connector_add_def connector_channel_def set_disabled_tags_def
    connector_publish_def Let_def)

interpretation cn: step_system connector_step connector_inv connector_moves
proof unfold_locales
  fix s s' s'' :: "'g connector"
  show "connector_inv s \<Longrightarrow> connector_step s s' \<Longrightarrow> connector_inv s'"
    and "connector_inv s \<Longrightarrow> connector_step s s' \<Longrightarrow> connector_moves s s'"
    using connector_step_ok by blast+
  show "connector_moves s s" by (simp add: connector_moves_def)
  show "connector_moves s s' \<Longrightarrow> connector_moves s' s'' \<Longrightarrow> connector_moves s s''" by (auto simp: connector_moves_def)
qed

text \<open>
  Whenever the connector has published tags, they are those of the running transports, and its link filter asks
  every running transport.  The outgoing connection is handed out at most once.
\<close>

lemma connector_published:
  assumes "connector_step\<^sup>*\<^sup>* connector_build s"
  shows "available_tags (connector_publish s) = (\<Union>t \<in> set (co_tasks s). co_values s t) \<and>
    (transports_filter (\<lambda>t. t \<in> set (co_tasks s)) filt (co_active s) link others \<longleftrightarrow>
       (\<forall>t \<in> set (co_tasks s). filt t link others)) \<and>
    \<not> fst (connector_channel (snd (connector_channel s)))"
proof -
  have "connector_inv s" using cn.run_inv [OF assms] by (simp add: connector_inv_def connector_build_def)
  then show ?thesis
    by (auto simp: connector_inv_def connector_publish_def Let_def available_tags_def transports_filter_iff connector_channel_def)
qed

section \<open>Properties\<close>



text \<open>
  C13.  A round of a transport's task forwards the tags, tells exactly the links with disabled tags to
  disconnect, and starts an attempt for exactly the available tags that are not already being connected, disabled,
  rejected or connected, so that no available tag is forgotten.  A tag of another transport ends the task with an
  error instead, and then all links that the task holds are told to disconnect, whatever the order of the tags.
\<close>

theorem transport_round_spec:
  assumes "distinct ts" and "set ts = tt_tags s"
  shows "if \<forall>tag \<in> tt_tags s. tg_transport_name (ce_tags E) tag = ce_name E
    then transport_round E links ts s =
      s\<lparr>tt_phase := TtSelect,
        tt_disconnects := tt_disconnects s @ map lh_id (filter (\<lambda>l. lh_tag l \<in> tt_disabled s) links),
        tt_fw_tags := (if tt_tags_changed s then tt_tags s else tt_fw_tags s), tt_tags_changed := False,
        tt_connecting := tt_connecting s \<union> (tt_tags s - tt_disabled s - tt_rejected s - lh_tag ` set links),
        tt_tasks := tt_tasks s @ map (\<lambda>tag. \<lparr>ck_tag = tag, ck_phase = CtNew\<rparr>)
          (filter (\<lambda>tag. tag \<notin> tt_connecting s \<union> tt_disabled s \<union> tt_rejected s \<union> lh_tag ` set links) ts)\<rparr>
    else tt_phase (transport_round E links ts s) = TtEnded (Inl name_mismatch) \<and>
      tt_tasks (transport_round E links ts s) = [] \<and>
      (\<forall>k \<in> set (tt_tasks s). set (held_links (ck_phase k)) \<subseteq> set (tt_disconnects (transport_round E links ts s)))"
proof (cases "\<forall>tag \<in> tt_tags s. tg_transport_name (ce_tags E) tag = ce_name E")
  case True
  have nt: "new_task = (\<lambda>tag. \<lparr>ck_tag = tag, ck_phase = CtNew\<rparr>)" by (intro ext) (simp add: new_task_def)
  have fl: "filter (may_start links s) ts =
      filter (\<lambda>tag. tag \<notin> tt_connecting s \<union> tt_disabled s \<union> tt_rejected s \<union> lh_tag ` set links) ts"
    by (intro filter_cong) (auto simp: may_start_def)
  have cn: "tt_connecting s \<union> set (filter (may_start links s) ts) =
      tt_connecting s \<union> (tt_tags s - tt_disabled s - tt_rejected s - lh_tag ` set links)"
    using assms(2) by (auto simp: may_start_def)
  have "\<forall>tag \<in> set ts. tg_transport_name (ce_tags E) tag = ce_name E" using True assms(2) by simp
  note round = transport_round_ok [OF this assms(1), of links s, unfolded cn, unfolded fl, unfolded nt]
  show ?thesis unfolding if_P [OF True] by (rule round)
next
  case False
  then obtain tag where "tag \<in> set ts" "tg_transport_name (ce_tags E) tag \<noteq> ce_name E" using assms(2) by blast
  from transport_round_mismatch [OF this, of links s] obtain s' where
    "transport_round E links ts s = transport_end (Inl name_mismatch) s'" "set (tt_tasks s) \<subseteq> set (tt_tasks s')" by (elim exE conjE)
  then show ?thesis using False by (auto simp: transport_end_def)
qed

theorem transport_round_spec_witness:
  "tt_tasks (transport_round demo_env [] [7, 8] (demo_start\<lparr>tt_tags := {7, 8}, tt_disabled := {8}\<rparr>)) =
     [\<lparr>ck_tag = 7, ck_phase = CtNew\<rparr>]"
proof -
  have "set [7, 8] = tt_tags (demo_start\<lparr>tt_tags := {7, 8}, tt_disabled := {8}\<rparr>)" by simp
  from transport_round_spec [OF _ this, of demo_env "[]"] show ?thesis
    by (simp add: demo_env_def demo_start_def transport_start_def)
qed



end
