(* ===== verification/Acceptor.thy ===== *)
theory Acceptor
  imports Transport
begin

text \<open>
  The acceptor (\<open>aggligator/src/transport/acceptor.rs\<close>): the task of each accepting transport, which hands
  its streams to the server, the task that manages all transports, and accepting connections with a
  time limit while no transport is present.  The transport, the wrappers and the functions that
  configure links and tasks belong to the user.
\<close>

section \<open>Environment\<close>

record ('g, 'p, 'r, 'w) acceptor_env =
  ae_tags :: "'g tag_ops"
  ae_name :: string
  ae_wrappers :: "('p, 'r, 'w) stream_box wrapper list"
  ae_link_cfg_fn :: "'g \<Rightarrow> link_cfg \<Rightarrow> link_cfg"
  ae_no_transport_timeout :: duration

text \<open>The builder sets the fields that do not belong to a transport.\<close>

definition acceptor_builder_new :: "'g tag_ops \<Rightarrow> string \<Rightarrow> ('g, 'p, 'r, 'w) acceptor_env" where
  "acceptor_builder_new T name =
     \<lparr>ae_tags = T, ae_name = name, ae_wrappers = [], ae_link_cfg_fn = (\<lambda>_ lc. lc),
      ae_no_transport_timeout = from_secs 30\<rparr>"

definition set_no_transport_timeout ::
  "duration \<Rightarrow> ('g, 'p, 'r, 'w) acceptor_env \<Rightarrow> ('g, 'p, 'r, 'w) acceptor_env" where
  "set_no_transport_timeout d E = E\<lparr>ae_no_transport_timeout := d\<rparr>"

definition acceptor_set_link_cfg ::
  "('g \<Rightarrow> link_cfg \<Rightarrow> link_cfg) \<Rightarrow> ('g, 'p, 'r, 'w) acceptor_env \<Rightarrow> ('g, 'p, 'r, 'w) acceptor_env" where
  "acceptor_set_link_cfg f E = E\<lparr>ae_link_cfg_fn := f\<rparr>"

definition acceptor_wrap ::
  "('p, 'r, 'w) stream_box wrapper \<Rightarrow> ('g, 'p, 'r, 'w) acceptor_env \<Rightarrow> ('g, 'p, 'r, 'w) acceptor_env" where
  "acceptor_wrap w E = E\<lparr>ae_wrappers := ae_wrappers E @ [w]\<rparr>"

section \<open>The task of a transport\<close>

text \<open>An accepted stream: within the wrappers, being added to the server, connected, or done.\<close>

datatype ('l, 'p, 'r, 'w) accepting_phase =
    AkWrap "('p, 'r, 'w) stream_box" nat
  | AkAdd "('p, 'r, 'w) tx_rx_box" "link_cfg option" "'l in_call"
  | AkUp link_id
  | AkDone
  | AkPanic

record ('g, 'l, 'p, 'r, 'w) accepting_task =
  ak_tag :: 'g
  ak_phase :: "('l, 'p, 'r, 'w) accepting_phase"

datatype accepting_status = AtLoop | AtEnded "unit io_result" | AtPanicked

record ('g, 'l, 'p, 'r, 'w, 'sw, 'sv, 'su) accepting_transport =
  at_status :: accepting_status
  at_server :: "('sw, 'sv, 'su) server"
  at_tasks :: "('g, 'l, 'p, 'r, 'w) accepting_task list"
  at_errors :: "'g link_error list"
  at_disconnects :: "link_id list"

fun accepted_links :: "('l, 'p, 'r, 'w) accepting_phase \<Rightarrow> link_id list" where
  "accepted_links (AkUp l) = [l]"
| "accepted_links _ = []"

definition incoming_failed ::
  "'g \<Rightarrow> io_error \<Rightarrow> ('g, 'l, 'p, 'r, 'w, 'sw, 'sv, 'su) accepting_transport \<Rightarrow>
   ('g, 'l, 'p, 'r, 'w, 'sw, 'sv, 'su) accepting_transport" where
  "incoming_failed tag e s = s\<lparr>at_errors := at_errors s @ [link_error_incoming tag e]\<rparr>"

text \<open>
  A step of an accepted stream.  \<open>add_incoming\<close> panics if the user data of the tag is too long; it begins
  with the clean-up of closed connections and advances by the steps of \<open>in_step\<close>.
\<close>

inductive accepting_step ::
  "('l link_int, 'sw) queue_env \<Rightarrow> ('l incoming, 'sv) queue_env \<Rightarrow> (conn_id, 'su) queue_env \<Rightarrow>
   ('g, 'p, 'r, 'w) acceptor_env \<Rightarrow> 'g \<Rightarrow>
   ('g, 'l, 'p, 'r, 'w, 'sw, 'sv, 'su) accepting_transport \<times> ('l, 'p, 'r, 'w) accepting_phase \<Rightarrow>
   ('g, 'l, 'p, 'r, 'w, 'sw, 'sv, 'su) accepting_transport \<times> ('l, 'p, 'r, 'w) accepting_phase \<Rightarrow> bool"
  for L :: "('l link_int, 'sw) queue_env" and I :: "('l incoming, 'sv) queue_env"
    and C :: "(conn_id, 'su) queue_env" and E :: "('g, 'p, 'r, 'w) acceptor_env" and tag :: 'g where
  ak_wrap: "i < length (ae_wrappers E) \<Longrightarrow> (ae_wrappers E ! i) st (Inr st') \<Longrightarrow>
    accepting_step L I C E tag (s, AkWrap st i) (s, AkWrap st' (Suc i))"
| ak_wrap_err: "i < length (ae_wrappers E) \<Longrightarrow> (ae_wrappers E ! i) st (Inl e) \<Longrightarrow>
    accepting_step L I C E tag (s, AkWrap st i) (incoming_failed tag e s, AkDone)"
| ak_wrapped: "tag_link_cfg (ae_tags E) (ae_link_cfg_fn E) tag (si_cfg (at_server s)) = (cap, lc) \<Longrightarrow>
    length (tg_user_data (ae_tags E) tag) \<le> 65535 \<Longrightarrow> cleanup_links C (at_server s) = Some v \<Longrightarrow>
    accepting_step L I C E tag (s, AkWrap st (length (ae_wrappers E)))
      (s\<lparr>at_server := v\<rparr>, AkAdd (into_tx_rx_with_capacity cap st) lc InEntered)"
| ak_too_big: "65535 < length (tg_user_data (ae_tags E) tag) \<Longrightarrow>
    accepting_step L I C E tag (s, AkWrap st (length (ae_wrappers E))) (s, AkPanic)"
| ak_add: "in_step L I (at_server s, a) (v, a') \<Longrightarrow>
    accepting_step L I C E tag (s, AkAdd b lc a) (s\<lparr>at_server := v\<rparr>, AkAdd b lc a')"
| ak_added: "accepting_step L I C E tag (s, AkAdd b lc (InOk rq l)) (s, AkUp (lk_link_id l))"
| ak_add_err: "accepting_step L I C E tag (s, AkAdd b lc (InErr e)) (incoming_failed tag (incoming_to_io e) s, AkDone)"
| ak_add_panic: "accepting_step L I C E tag (s, AkAdd b lc InPanic) (s, AkPanic)"
| ak_disconnected: "accepting_step L I C E tag (s, AkUp l)
    (incoming_failed tag (disconnect_to_io reason) (s\<lparr>at_disconnects := at_disconnects s @ [l]\<rparr>), AkDone)"

definition accepting_end ::
  "unit io_result \<Rightarrow> ('g, 'l, 'p, 'r, 'w, 'sw, 'sv, 'su) accepting_transport \<Rightarrow>
   ('g, 'l, 'p, 'r, 'w, 'sw, 'sv, 'su) accepting_transport" where
  "accepting_end res s =
     s\<lparr>at_status := AtEnded res, at_tasks := [],
       at_disconnects := at_disconnects s @ concat (map (accepted_links \<circ> ak_phase) (at_tasks s))\<rparr>"

definition accept_stream ::
  "('g, 'p, 'r, 'w) acceptor_env \<Rightarrow> 'g \<Rightarrow> ('p, 'r, 'w) stream_box \<Rightarrow>
   ('g, 'l, 'p, 'r, 'w, 'sw, 'sv, 'su) accepting_transport \<Rightarrow> ('g, 'l, 'p, 'r, 'w, 'sw, 'sv, 'su) accepting_transport" where
  "accept_stream E tag st s =
     (if tg_transport_name (ae_tags E) tag \<noteq> ae_name E then accepting_end (Inl name_mismatch) s
      else s\<lparr>at_tasks := at_tasks s @ [\<lparr>ak_tag = tag, ak_phase = AkWrap st 0\<rparr>]\<rparr>)"

text \<open>
  The steps of the task; the server changes in between.  \<open>ac_end\<close> stands for the end of the listening
  transport and for its removal.
\<close>

inductive accepting_transport_step ::
  "('l link_int, 'sw) queue_env \<Rightarrow> ('l incoming, 'sv) queue_env \<Rightarrow> (conn_id, 'su) queue_env \<Rightarrow>
   ('g, 'p, 'r, 'w) acceptor_env \<Rightarrow> ('g, 'l, 'p, 'r, 'w, 'sw, 'sv, 'su) accepting_transport \<Rightarrow>
   ('g, 'l, 'p, 'r, 'w, 'sw, 'sv, 'su) accepting_transport \<Rightarrow> bool"
  for L :: "('l link_int, 'sw) queue_env" and I :: "('l incoming, 'sv) queue_env"
    and C :: "(conn_id, 'su) queue_env" and E :: "('g, 'p, 'r, 'w) acceptor_env" where
  ac_server: "accepting_transport_step L I C E s (s\<lparr>at_server := v\<rparr>)"
| ac_accept: "at_status s = AtLoop \<Longrightarrow> accepting_transport_step L I C E s (accept_stream E tag st s)"
| ac_poll: "at_status s = AtLoop \<Longrightarrow> i < length (at_tasks s) \<Longrightarrow> at_tasks s ! i = k \<Longrightarrow>
    accepting_step L I C E (ak_tag k) (s, ak_phase k) (s', p) \<Longrightarrow>
    accepting_transport_step L I C E s
      (if p = AkPanic then s'\<lparr>at_status := AtPanicked\<rparr>
       else if p = AkDone then s'\<lparr>at_tasks := remove_nth i (at_tasks s)\<rparr>
       else s'\<lparr>at_tasks := (at_tasks s)[i := k\<lparr>ak_phase := p\<rparr>]\<rparr>)"
| ac_end: "at_status s = AtLoop \<Longrightarrow> accepting_transport_step L I C E s (accepting_end res s)"

section \<open>The acceptor\<close>

text \<open>
  What the acceptor's handle and its managing task share; transports are known by the order in which
  they were added.  A permit of \<open>transports_being_added\<close> belongs to each transport that waits to be started
  and, because the pattern that takes the transport apart leaves the permit in place, to each running
  transport task until it ends.
\<close>

datatype acceptor_phase = AcTop | AcSelect

record acceptor =
  ac_phase :: acceptor_phase
  ac_pending :: "nat list"
  ac_tasks :: "nat list"
  ac_active :: "nat list"
  ac_present :: bool
  ac_permits :: usize
  ac_next :: nat

definition MAX_PERMITS :: usize where
  "MAX_PERMITS = 2 ^ 61 - 1"

text \<open>
  \<open>build\<close>: the first listener of the server; \<open>listen\<close> fails only if there is one already, and its result is
  unwrapped.
\<close>

definition acceptor_build ::
  "('i, 'v) queue_env \<Rightarrow> (conn_id, 'u) queue_env \<Rightarrow> cfg \<Rightarrow> server_id \<Rightarrow> 'w \<Rightarrow> 'v \<Rightarrow> 'u \<Rightarrow>
   (acceptor \<times> nat \<times> ('w, 'v, 'u) server) option" where
  "acceptor_build I C c sid w v u =
     (case listen I (server_new I C c sid w v u) of
        (Inl _, s) \<Rightarrow> None
      | (Inr h, s) \<Rightarrow>
          Some (\<lparr>ac_phase = AcTop, ac_pending = [], ac_tasks = [], ac_active = [], ac_present = True,
                 ac_permits = MAX_PERMITS, ac_next = 0\<rparr>, h, s))"

definition acceptor_add :: "acceptor \<Rightarrow> (nat \<times> acceptor) option" where
  "acceptor_add s = do {
     permits \<leftarrow> checked_sub (ac_permits s) 1;
     Some (ac_next s, s\<lparr>ac_permits := permits, ac_next := Suc (ac_next s), ac_pending := ac_pending s @ [ac_next s]\<rparr>)
   }"

definition is_empty :: "acceptor \<Rightarrow> bool" where
  "is_empty s \<longleftrightarrow> \<not> ac_present s \<and> ac_permits s = MAX_PERMITS"

definition acceptor_notify :: "acceptor \<Rightarrow> acceptor" where
  "acceptor_notify s =
     (let present = (ac_tasks s \<noteq> []) in if ac_present s \<noteq> present then s\<lparr>ac_present := present\<rparr> else s)"

definition acceptor_started :: "nat \<Rightarrow> acceptor \<Rightarrow> acceptor" where
  "acceptor_started t s =
     s\<lparr>ac_active := add_active (\<lambda>a. a \<in> set (ac_tasks s) \<union> set (ac_pending s)) t (ac_active s),
       ac_tasks := ac_tasks s @ [t]\<rparr>"

inductive acceptor_step :: "acceptor \<Rightarrow> acceptor \<Rightarrow> bool" where
  al_add: "acceptor_add s = Some (t, s') \<Longrightarrow> acceptor_step s s'"
| al_notify: "ac_phase s = AcTop \<Longrightarrow> acceptor_step s (acceptor_notify s\<lparr>ac_phase := AcSelect\<rparr>)"
| al_started: "ac_phase s = AcSelect \<Longrightarrow> ac_pending s = t # ts \<Longrightarrow>
    acceptor_step s (acceptor_started t (s\<lparr>ac_pending := ts, ac_phase := AcTop\<rparr>))"
| al_ended: "ac_phase s = AcSelect \<Longrightarrow> i < length (ac_tasks s) \<Longrightarrow>
    acceptor_step s (s\<lparr>ac_tasks := remove_nth i (ac_tasks s), ac_permits := ac_permits s + 1, ac_phase := AcTop\<rparr>)"

section \<open>Accepting a connection\<close>

text \<open>
  \<open>Instant::checked_add\<close> fails beyond the last representable instant \<open>mx\<close>.  A round of the time limit: at
  time \<open>now\<close> it is read whether transports are present.
\<close>

definition checked_add :: "instant \<Rightarrow> instant \<Rightarrow> duration \<Rightarrow> instant option" where
  "checked_add mx now d = (if now + d \<le> mx then Some (now + d) else None)"

definition timeout_round :: "instant \<Rightarrow> duration \<Rightarrow> instant \<Rightarrow> bool \<Rightarrow> instant option \<Rightarrow> instant option" where
  "timeout_round mx d now present until =
     (if present then None
      else (case until of None \<Rightarrow> checked_add mx now d | Some u \<Rightarrow> Some u))"

fun timeout_rounds :: "instant \<Rightarrow> duration \<Rightarrow> instant option \<Rightarrow> (instant \<times> bool) list \<Rightarrow> instant option" where
  "timeout_rounds mx d until [] = until"
| "timeout_rounds mx d until ((now, present) # obs) =
     timeout_rounds mx d (timeout_round mx d now present until) obs"

text \<open>
  How awaiting the time limit ends at time \<open>now\<close> after the rounds \<open>obs\<close>: the sleep is over, or the sender
  of the presence is gone.
\<close>

inductive accept_timeout :: "instant \<Rightarrow> duration \<Rightarrow> (instant \<times> bool) list \<Rightarrow> instant \<Rightarrow> io_error \<Rightarrow> bool"
  for mx :: instant and d :: duration where
  to_elapsed: "obs \<noteq> [] \<Longrightarrow> timeout_rounds mx d None obs = Some until \<Longrightarrow> until \<le> now \<Longrightarrow>
    accept_timeout mx d obs now (IoError BrokenPipe ''no listening transports available'')"
| to_terminated: "obs \<noteq> [] \<Longrightarrow> accept_timeout mx d obs now (IoError BrokenPipe ''listener was terminated'')"

inductive_cases accept_timeoutE: "accept_timeout mx d obs now e"

text \<open>
  \<open>accept\<close>: the time limit, or the listener's next connection with the task configured by the user and the
  filter over all active transports.
\<close>

definition acceptor_accept ::
  "('l link_int, 'w) queue_env \<Rightarrow> ('l incoming, 'v) queue_env \<Rightarrow> instant \<Rightarrow> 'wr \<Rightarrow> 'rx \<Rightarrow> 'ct \<Rightarrow>
   (('l, 'wr) task \<Rightarrow> ('l, 'wr) task) \<Rightarrow> (nat \<Rightarrow> 'k \<Rightarrow> 'k list \<Rightarrow> bool) \<Rightarrow> nat \<Rightarrow> acceptor \<Rightarrow> io_error option \<Rightarrow>
   ('w, 'v, 'u) server \<Rightarrow>
   (('l, 'wr, 'rx, 'ct) agg_parts \<times> ('k \<Rightarrow> 'k list \<Rightarrow> bool)) io_result option \<times> ('w, 'v, 'u) server" where
  "acceptor_accept L I now wr rx ct task_cfg filt h a timeout s =
     (case timeout of
        Some err \<Rightarrow> (Some (Inl err), s)
      | None \<Rightarrow>
          (case listener_next I h s of
             (Inl e, s) \<Rightarrow> (Some (Inl (incoming_to_io e)), s)
           | (Inr i, s) \<Rightarrow>
               (case incoming_accept L now wr rx ct i (si_links s) of
                  None \<Rightarrow> (None, s)
                | Some (parts, w) \<Rightarrow>
                    (Some (Inr (parts\<lparr>ap_task := task_cfg (ap_task parts)\<rparr>,
                       transports_filter (\<lambda>t. t \<in> set (ac_tasks a) \<union> set (ac_pending a)) filt (ac_active a))),
                     s\<lparr>si_links := w\<rparr>))))"

section \<open>Invariants\<close>

text \<open>Every transport that waits or runs holds a permit, and the presence was current when the task last waited.\<close>

definition acceptor_inv :: "acceptor \<Rightarrow> bool" where
  "acceptor_inv s \<longleftrightarrow> ac_permits s + length (ac_pending s) + length (ac_tasks s) = MAX_PERMITS \<and>
     (ac_phase s = AcSelect \<longrightarrow> ac_present s = (ac_tasks s \<noteq> [])) \<and> set (ac_tasks s) \<subseteq> set (ac_active s)"

definition acceptor_moves :: "acceptor \<Rightarrow> acceptor \<Rightarrow> bool" where
  "acceptor_moves s s' \<longleftrightarrow> ac_next s \<le> ac_next s'"

lemma acceptor_step_ok:
  assumes "acceptor_step s s'" and "acceptor_inv s"
  shows "acceptor_inv s' \<and> acceptor_moves s s'"
  using assms
proof (cases rule: acceptor_step.cases)
  case (al_ended i)
  then show ?thesis using assms(2) set_remove_nth [of i "ac_tasks s"]
    by (auto simp: acceptor_inv_def acceptor_moves_def remove_nth_def)
next
  case (al_started t ts)
  then show ?thesis using assms(2)
    by (auto simp: acceptor_inv_def acceptor_moves_def acceptor_started_def add_active_def)
qed (auto simp: acceptor_inv_def acceptor_moves_def acceptor_add_def acceptor_notify_def Let_def bind_Some_iff)

interpretation al: step_system acceptor_step acceptor_inv acceptor_moves
proof unfold_locales
  fix s s' :: acceptor
  show "acceptor_inv s \<Longrightarrow> acceptor_step s s' \<Longrightarrow> acceptor_inv s'"
    and "acceptor_inv s \<Longrightarrow> acceptor_step s s' \<Longrightarrow> acceptor_moves s s'"
    using acceptor_step_ok by blast+
qed (auto simp: acceptor_moves_def)

lemma acceptor_build_inv: "acceptor_build I C c sid w v u = Some (a, h, s) \<Longrightarrow> acceptor_inv a"
  by (auto simp: acceptor_build_def acceptor_inv_def split: prod.splits sum.splits)

text \<open>Building never panics if a queue that was closed is closed.\<close>

lemma acceptor_build_ok:
  assumes "\<And>h v. qe_is_closed I h (qe_close I h v)"
  shows "acceptor_build I C c sid w v u \<noteq> None"
  using assms by (auto simp: acceptor_build_def listen_def server_new_def split: prod.splits)

text \<open>The time limit runs from the first round without transports after the last one with transports.\<close>

lemma timeout_rounds_append:
  "timeout_rounds mx d until (xs @ ys) = timeout_rounds mx d (timeout_rounds mx d until xs) ys"
  by (induction xs arbitrary: until) auto

lemma timeout_rounds_None:
  "timeout_rounds mx d None obs = None \<Longrightarrow> obs = [] \<or> snd (last obs) \<or> mx < fst (last obs) + d"
  by (cases obs rule: rev_cases)
    (auto simp: timeout_rounds_append timeout_round_def checked_add_def split: if_splits option.splits)

lemma timeout_rounds_Some:
  assumes "timeout_rounds mx d None obs = Some u"
  shows "\<exists>pre t post. obs = pre @ (t, False) # post \<and> (\<forall>(t', present) \<in> set post. \<not> present) \<and> u = t + d \<and>
    (pre = [] \<or> snd (last pre) \<or> mx < fst (last pre) + d)"
  using assms
proof (induction obs rule: rev_induct)
  case (snoc ob obs)
  obtain now present where ob: "ob = (now, present)" by fastforce
  from snoc.prems have last: "timeout_round mx d now present (timeout_rounds mx d None obs) = Some u"
    by (simp add: timeout_rounds_append ob)
  then have absent: "\<not> present" by (auto simp: timeout_round_def)
  show ?case
  proof (cases "timeout_rounds mx d None obs")
    case None
    with last have "u = now + d" by (auto simp: timeout_round_def checked_add_def split: if_splits)
    with absent timeout_rounds_None [OF None] show ?thesis
      by (intro exI [of _ obs] exI [of _ now] exI [of _ "[]"]) (simp add: ob)
  next
    case (Some u')
    with last have "timeout_rounds mx d None obs = Some u" by (simp add: timeout_round_def split: if_splits)
    from snoc.IH [OF this] obtain pre t post where "obs = pre @ (t, False) # post"
      "\<forall>(t', present) \<in> set post. \<not> present" "u = t + d" "pre = [] \<or> snd (last pre) \<or> mx < fst (last pre) + d"
      by (elim exE conjE)
    with absent show ?thesis by (intro exI [of _ pre] exI [of _ t] exI [of _ "post @ [ob]"]) (simp add: ob)
  qed
qed simp

section \<open>Properties\<close>

text \<open>
  C32.  Accepting a connection is given up for lack of transports only if transports were seen to be absent
  at some time and at every later look, for at least the time limit; the limit starts with the first such look
  after transports were present or the limit could not be represented.  The only other reason is that the acceptor is gone.
\<close>

theorem accept_gives_up:
  assumes "accept_timeout mx d obs now err"
  shows "err = IoError BrokenPipe ''listener was terminated'' \<or>
    err = IoError BrokenPipe ''no listening transports available'' \<and>
    (\<exists>pre t post. obs = pre @ (t, False) # post \<and> (\<forall>(t', present) \<in> set post. \<not> present) \<and> t + d \<le> now \<and>
      (pre = [] \<or> snd (last pre) \<or> mx < fst (last pre) + d))"
  using assms
proof (cases rule: accept_timeout.cases)
  case (to_elapsed until)
  from timeout_rounds_Some [OF to_elapsed(3)] to_elapsed(4) show ?thesis unfolding to_elapsed(1) by blast
qed simp

theorem accept_gives_up_witness:
  "\<exists>obs pre t post. accept_timeout 1000 30 obs 40 (IoError BrokenPipe ''no listening transports available'') \<and>
     obs = [(5, False), (6, True), (8, False), (20, False)] \<and> obs = pre @ (t, False) # post \<and> t + 30 \<le> 40"
proof -
  define obs :: "(instant \<times> bool) list" where "obs = [(5, False), (6, True), (8, False), (20, False)]"
  have to: "accept_timeout 1000 30 obs 40 (IoError BrokenPipe ''no listening transports available'')"
    by (rule to_elapsed [where until = 38]) (simp_all add: obs_def timeout_round_def checked_add_def)
  from accept_gives_up [OF to] obtain pre t post where "obs = pre @ (t, False) # post" "t + 30 \<le> 40" by auto
  with to obs_def show ?thesis by blast
qed

text \<open>
  C33.  An acceptor says that it is empty only if no transport waits to be started and none runs, and it
  says so whenever its task waits and there is none.
\<close>

theorem is_empty_exact:
  assumes "acceptor_build I C c sid w v u = Some (a, h, s)" and "acceptor_step\<^sup>*\<^sup>* a a'"
  shows "(is_empty a' \<longrightarrow> ac_pending a' = [] \<and> ac_tasks a' = []) \<and>
    (ac_phase a' = AcSelect \<longrightarrow> is_empty a' = (ac_pending a' = [] \<and> ac_tasks a' = []))"
  using al.run_inv [OF assms(2) acceptor_build_inv [OF assms(1)]]
  by (auto simp: acceptor_inv_def is_empty_def)

theorem is_empty_exact_witness:
  "\<exists>a h s a'.
     acceptor_build list_queues list_queues default_cfg (ServerId 1) () (no_queues :: nat queues) no_queues = Some (a, h, s) \<and>
     acceptor_step\<^sup>*\<^sup>* a a' \<and> ac_phase a' = AcSelect \<and> ac_next a' = 1 \<and> is_empty a'"
proof -
  let ?M = MAX_PERMITS
  let ?s0 = "\<lparr>ac_phase = AcTop, ac_pending = [], ac_tasks = [], ac_active = [], ac_present = True, ac_permits = ?M, ac_next = 0\<rparr>"
  let ?s1 = "\<lparr>ac_phase = AcSelect, ac_pending = [], ac_tasks = [], ac_active = [], ac_present = False, ac_permits = ?M, ac_next = 0\<rparr>"
  let ?s2 = "\<lparr>ac_phase = AcSelect, ac_pending = [0], ac_tasks = [], ac_active = [], ac_present = False, ac_permits = ?M - 1, ac_next = 1\<rparr>"
  let ?s3 = "\<lparr>ac_phase = AcTop, ac_pending = [], ac_tasks = [0], ac_active = [0], ac_present = False, ac_permits = ?M - 1, ac_next = 1\<rparr>"
  let ?s4 = "\<lparr>ac_phase = AcSelect, ac_pending = [], ac_tasks = [0], ac_active = [0], ac_present = True, ac_permits = ?M - 1, ac_next = 1\<rparr>"
  let ?s5 = "\<lparr>ac_phase = AcTop, ac_pending = [], ac_tasks = [], ac_active = [0], ac_present = True, ac_permits = ?M, ac_next = 1\<rparr>"
  let ?s6 = "\<lparr>ac_phase = AcSelect, ac_pending = [], ac_tasks = [], ac_active = [0], ac_present = False, ac_permits = ?M, ac_next = 1\<rparr>"
  have M: "1 \<le> ?M" by (simp add: MAX_PERMITS_def)
  have "acceptor_step ?s0 ?s1" using al_notify [of ?s0] by (simp add: acceptor_notify_def)
  moreover have "acceptor_step ?s1 ?s2" using M by (intro al_add [where t = 0]) (simp add: acceptor_add_def bind_Some_iff)
  moreover have "acceptor_step ?s2 ?s3" using al_started [of ?s2 0 "[]"] by (simp add: acceptor_started_def add_active_def)
  moreover have "acceptor_step ?s3 ?s4" using al_notify [of ?s3] by (simp add: acceptor_notify_def)
  moreover have "acceptor_step ?s4 ?s5" using al_ended [of ?s4 0] M by (simp add: remove_nth_def)
  moreover have "acceptor_step ?s5 ?s6" using al_notify [of ?s5] by (simp add: acceptor_notify_def)
  ultimately have run: "acceptor_step\<^sup>*\<^sup>* ?s0 ?s6" by (meson converse_rtranclp_into_rtranclp rtranclp.rtrancl_refl)
  obtain h s where b:
    "acceptor_build list_queues list_queues default_cfg (ServerId 1) () (no_queues :: nat queues) no_queues = Some (?s0, h, s)"
    by (simp add: acceptor_build_def listen_def server_new_def list_queues_def no_queues_def)
  from is_empty_exact [OF b run] have "is_empty ?s6" by simp
  then show ?thesis by (intro exI [of _ ?s0] exI [of _ h] exI [of _ s] exI [of _ ?s6] conjI b run) simp_all
qed

end
