(* ===== verification/Derived_Ord.thy ===== *)
theory Derived_Ord
  imports Transport
begin

text \<open>
  The comparisons that \<open>derive(PartialEq, Eq, PartialOrd, Ord)\<close> of Rust gives to structs and enums, put together
  from the comparisons of their parts: fields are compared one after the other, variants in the order of their
  declaration, vectors and strings element by element.  \<open>total_cmp\<close> is the contract of \<open>Ord\<close>, with equality being
  identity.
\<close>

section \<open>Contract\<close>

locale total_cmp =
  fixes cmp :: "'a \<Rightarrow> 'a \<Rightarrow> ordering"
  assumes cmp_Equal: "cmp a b = Equal \<longleftrightarrow> a = b"
    and cmp_reverse: "cmp b a = ord_reverse (cmp a b)"
    and cmp_Less_trans: "cmp a b = Less \<Longrightarrow> cmp b c = Less \<Longrightarrow> cmp a c = Less"
begin

lemma cmp_refl: "cmp a a = Equal"
  by (simp add: cmp_Equal)

lemma cmp_Greater_iff: "cmp a b = Greater \<longleftrightarrow> cmp b a = Less"
  by (cases "cmp a b") (simp_all add: cmp_reverse [of b a])

lemma cmp_not_Greater: "cmp a b \<noteq> Greater \<longleftrightarrow> cmp a b = Less \<or> a = b"
  by (cases "cmp a b") (auto simp: cmp_Equal dest: cmp_Equal [THEN iffD1] simp: cmp_refl)

lemma cmp_ord_law: "ord_law A cmp"
proof -
  have less: "cmp a b = Less \<Longrightarrow> cmp b c \<noteq> Greater \<Longrightarrow> cmp a c = Less" for a b c
    using cmp_Less_trans [of a b c] by (auto simp: cmp_not_Greater)
  have equal: "cmp a b = Equal \<Longrightarrow> cmp a c = cmp b c" for a b c by (simp add: cmp_Equal)
  show ?thesis unfolding ord_law_def
    by (intro conjI ballI impI cmp_reverse) (rule cmp_refl, rule less, assumption+, rule equal, assumption)
qed

end

section \<open>Combinators\<close>

definition prod_cmp :: "('a \<Rightarrow> 'a \<Rightarrow> ordering) \<Rightarrow> ('b \<Rightarrow> 'b \<Rightarrow> ordering) \<Rightarrow> 'a \<times> 'b \<Rightarrow> 'a \<times> 'b \<Rightarrow> ordering" where
  "prod_cmp c1 c2 x y = ord_then (c1 (fst x) (fst y)) (c2 (snd x) (snd y))"

fun sum_cmp :: "('a \<Rightarrow> 'a \<Rightarrow> ordering) \<Rightarrow> ('b \<Rightarrow> 'b \<Rightarrow> ordering) \<Rightarrow> 'a + 'b \<Rightarrow> 'a + 'b \<Rightarrow> ordering" where
  "sum_cmp c1 c2 (Inl a) (Inl b) = c1 a b"
| "sum_cmp c1 c2 (Inl a) (Inr b) = Less"
| "sum_cmp c1 c2 (Inr a) (Inl b) = Greater"
| "sum_cmp c1 c2 (Inr a) (Inr b) = c2 a b"

fun option_cmp :: "('a \<Rightarrow> 'a \<Rightarrow> ordering) \<Rightarrow> 'a option \<Rightarrow> 'a option \<Rightarrow> ordering" where
  "option_cmp c None None = Equal"
| "option_cmp c None (Some b) = Less"
| "option_cmp c (Some a) None = Greater"
| "option_cmp c (Some a) (Some b) = c a b"

fun list_cmp :: "('a \<Rightarrow> 'a \<Rightarrow> ordering) \<Rightarrow> 'a list \<Rightarrow> 'a list \<Rightarrow> ordering" where
  "list_cmp c [] [] = Equal"
| "list_cmp c [] (_ # _) = Less"
| "list_cmp c (_ # _) [] = Greater"
| "list_cmp c (a # as) (b # bs) = ord_then (c a b) (list_cmp c as bs)"

definition key_cmp :: "('b \<Rightarrow> 'b \<Rightarrow> ordering) \<Rightarrow> ('a \<Rightarrow> 'b) \<Rightarrow> 'a \<Rightarrow> 'a \<Rightarrow> ordering" where
  "key_cmp c f a b = c (f a) (f b)"

definition word_cmp :: "'n::len word \<Rightarrow> 'n word \<Rightarrow> ordering" where
  "word_cmp a b = (if a < b then Less else if a = b then Equal else Greater)"

definition bool_cmp :: "bool \<Rightarrow> bool \<Rightarrow> ordering" where
  "bool_cmp a b = (if a = b then Equal else if b then Less else Greater)"

lemma ord_then_Less: "ord_then o1 o2 = Less \<longleftrightarrow> o1 = Less \<or> o1 = Equal \<and> o2 = Less"
  by (cases o1) auto

lemma ord_reverse_Equal [simp]: "ord_reverse o1 = Equal \<longleftrightarrow> o1 = Equal"
  by (cases o1) auto

lemma total_prod [intro]:
  assumes "total_cmp c1" and "total_cmp c2"
  shows "total_cmp (prod_cmp c1 c2)"
proof
  fix x y z :: "'a \<times> 'b"
  note eq = total_cmp.cmp_Equal [OF assms(1)] total_cmp.cmp_Equal [OF assms(2)]
  show "prod_cmp c1 c2 x y = Equal \<longleftrightarrow> x = y" by (auto simp: prod_cmp_def eq prod_eq_iff)
  show "prod_cmp c1 c2 y x = ord_reverse (prod_cmp c1 c2 x y)"
    by (simp add: prod_cmp_def total_cmp.cmp_reverse [OF assms(1), of "fst y"] total_cmp.cmp_reverse [OF assms(2), of "snd y"])
  show "prod_cmp c1 c2 x y = Less \<Longrightarrow> prod_cmp c1 c2 y z = Less \<Longrightarrow> prod_cmp c1 c2 x z = Less"
    using total_cmp.cmp_Less_trans [OF assms(1)] total_cmp.cmp_Less_trans [OF assms(2)]
    by (auto simp: prod_cmp_def ord_then_Less eq)
qed

lemma total_sum [intro]:
  assumes "total_cmp c1" and "total_cmp c2"
  shows "total_cmp (sum_cmp c1 c2)"
proof
  fix x y z :: "'a + 'b"
  show "sum_cmp c1 c2 x y = Equal \<longleftrightarrow> x = y"
    by (cases x; cases y) (simp_all add: total_cmp.cmp_Equal [OF assms(1)] total_cmp.cmp_Equal [OF assms(2)])
  show "sum_cmp c1 c2 y x = ord_reverse (sum_cmp c1 c2 x y)"
    by (cases x; cases y) (simp_all add: total_cmp.cmp_reverse [OF assms(1), symmetric] total_cmp.cmp_reverse [OF assms(2), symmetric])
  show "sum_cmp c1 c2 x y = Less \<Longrightarrow> sum_cmp c1 c2 y z = Less \<Longrightarrow> sum_cmp c1 c2 x z = Less"
    by (cases x; cases y; cases z; simp)
      (blast intro: total_cmp.cmp_Less_trans [OF assms(1)] total_cmp.cmp_Less_trans [OF assms(2)])+
qed

lemma total_option [intro]:
  assumes "total_cmp c"
  shows "total_cmp (option_cmp c)"
proof
  fix x y z :: "'a option"
  show "option_cmp c x y = Equal \<longleftrightarrow> x = y"
    by (cases x; cases y) (simp_all add: total_cmp.cmp_Equal [OF assms])
  show "option_cmp c y x = ord_reverse (option_cmp c x y)"
    by (cases x; cases y) (simp_all add: total_cmp.cmp_reverse [OF assms, symmetric])
  show "option_cmp c x y = Less \<Longrightarrow> option_cmp c y z = Less \<Longrightarrow> option_cmp c x z = Less"
    by (cases x; cases y; cases z; simp) (blast intro: total_cmp.cmp_Less_trans [OF assms])
qed

lemma total_list [intro]:
  assumes "total_cmp c"
  shows "total_cmp (list_cmp c)"
proof
  fix x y z :: "'a list"
  note eq = total_cmp.cmp_Equal [OF assms]
  show "list_cmp c x y = Equal \<longleftrightarrow> x = y"
    by (induction x y rule: list_induct2') (simp_all add: eq)
  show "list_cmp c y x = ord_reverse (list_cmp c x y)"
  proof (induction x y rule: list_induct2')
    case (4 a as b bs)
    then show ?case using total_cmp.cmp_reverse [OF assms, of b a] by simp
  qed simp_all
  show "list_cmp c x y = Less \<Longrightarrow> list_cmp c y z = Less \<Longrightarrow> list_cmp c x z = Less"
  proof (induction x arbitrary: y z)
    case Nil
    then show ?case by (cases y; cases z) simp_all
  next
    case (Cons a as)
    then obtain b bs d ds where yz: "y = b # bs" "z = d # ds" by (cases y; cases z) simp_all
    from Cons.prems have "c a b = Less \<or> a = b \<and> list_cmp c as bs = Less" "c b d = Less \<or> b = d \<and> list_cmp c bs ds = Less"
      by (simp_all add: yz ord_then_Less eq)
    then have "c a d = Less \<or> a = d \<and> list_cmp c as ds = Less"
      using total_cmp.cmp_Less_trans [OF assms, of a b d] Cons.IH [of bs ds] by blast
    then show ?case by (simp add: yz ord_then_Less eq)
  qed
qed

lemma total_key:
  assumes "total_cmp c" and "inj f"
  shows "total_cmp (key_cmp c f)"
proof
  fix x y z :: 'b
  show "key_cmp c f x y = Equal \<longleftrightarrow> x = y" using assms(2) by (simp add: key_cmp_def total_cmp.cmp_Equal [OF assms(1)] inj_eq)
  show "key_cmp c f y x = ord_reverse (key_cmp c f x y)" unfolding key_cmp_def by (rule total_cmp.cmp_reverse [OF assms(1)])
  show "key_cmp c f x y = Less \<Longrightarrow> key_cmp c f y z = Less \<Longrightarrow> key_cmp c f x z = Less"
    unfolding key_cmp_def by (rule total_cmp.cmp_Less_trans [OF assms(1)])
qed

lemma total_word [intro, simp]: "total_cmp word_cmp"
  by unfold_locales (auto simp: word_cmp_def split: if_splits)

lemma total_bool [intro, simp]: "total_cmp bool_cmp"
  by unfold_locales (auto simp: bool_cmp_def split: if_splits)

lemma total_nat [intro, simp]: "total_cmp nat_cmp"
  by unfold_locales (auto simp: nat_cmp_def split: if_splits)

lemma total_str [intro, simp]: "total_cmp str_cmp"
proof
  fix a b c :: string
  show "str_cmp a b = Equal \<longleftrightarrow> a = b" by simp
  show "str_cmp b a = ord_reverse (str_cmp a b)" by (rule str_cmp_reverse)
  show "str_cmp a b = Less \<Longrightarrow> str_cmp b c = Less \<Longrightarrow> str_cmp a c = Less"
    using str_cmp_less [of a b c] by simp
qed

interpretation str: total_cmp str_cmp
  by (rule total_str)

end
