(* ===== verification/Net_Addr.thy ===== *)
theory Net_Addr
  imports Derived_Ord
begin

unbundle bit_operations_syntax

text \<open>
  Network addresses as the transports use them, and the helpers of
  \<open>aggligator-transport-tcp/src/util.rs\<close>.

  An IPv4 address is a word of 32 bits, an IPv6 address one of 128.  A socket address is an IP address
  and a port; the flow information and the scope of IPv6 socket addresses, which their order ignores, are
  left out.  What the operating system says (its interfaces, the resolution of host names, the
  route to a target) is an argument.
\<close>

section \<open>Addresses\<close>

datatype ip_addr = V4 u32 | V6 u128

definition is_ipv4 :: "ip_addr \<Rightarrow> bool" where
  "is_ipv4 ip = (case ip of V4 _ \<Rightarrow> True | V6 _ \<Rightarrow> False)"

definition is_ipv6 :: "ip_addr \<Rightarrow> bool" where
  "is_ipv6 ip = (case ip of V4 _ \<Rightarrow> False | V6 _ \<Rightarrow> True)"

definition is_loopback :: "ip_addr \<Rightarrow> bool" where
  "is_loopback ip = (case ip of V4 a \<Rightarrow> drop_bit 24 a = 127 | V6 a \<Rightarrow> a = 1)"

definition is_unspecified :: "ip_addr \<Rightarrow> bool" where
  "is_unspecified ip = (case ip of V4 a \<Rightarrow> a = 0 | V6 a \<Rightarrow> a = 0)"

definition to_ipv4_mapped :: "u128 \<Rightarrow> u32 option" where
  "to_ipv4_mapped a = (if drop_bit 32 a = 0xFFFF then Some (ucast a) else None)"

definition to_canonical :: "ip_addr \<Rightarrow> ip_addr" where
  "to_canonical ip =
     (case ip of
        V4 a \<Rightarrow> V4 a
      | V6 a \<Rightarrow> (case to_ipv4_mapped a of Some b \<Rightarrow> V4 b | None \<Rightarrow> V6 a))"

datatype socket_addr = SocketAddr (sa_ip: ip_addr) (sa_port: u16)

definition set_ip :: "ip_addr \<Rightarrow> socket_addr \<Rightarrow> socket_addr" where
  "set_ip ip sa = SocketAddr ip (sa_port sa)"

definition ip_key :: "ip_addr \<Rightarrow> u32 + u128" where
  "ip_key ip = (case ip of V4 a \<Rightarrow> Inl a | V6 a \<Rightarrow> Inr a)"

definition ip_cmp :: "ip_addr \<Rightarrow> ip_addr \<Rightarrow> ordering" where
  "ip_cmp = key_cmp (sum_cmp word_cmp word_cmp) ip_key"

definition socket_cmp :: "socket_addr \<Rightarrow> socket_addr \<Rightarrow> ordering" where
  "socket_cmp = key_cmp (prod_cmp ip_cmp word_cmp) (\<lambda>sa. (sa_ip sa, sa_port sa))"

lemma total_ip [intro, simp]: "total_cmp ip_cmp"
  unfolding ip_cmp_def by (rule total_key) (auto intro!: injI simp: ip_key_def split: ip_addr.splits)

lemma total_socket [intro, simp]: "total_cmp socket_cmp"
  unfolding socket_cmp_def by (rule total_key) (auto intro!: injI simp: socket_addr.expand)

interpretation sock: total_cmp socket_cmp
  by (rule total_socket)

text \<open>The order in which socket addresses are sorted.\<close>

instantiation socket_addr :: linorder
begin

definition less_eq_socket_addr :: "socket_addr \<Rightarrow> socket_addr \<Rightarrow> bool" where
  "less_eq_socket_addr a b \<longleftrightarrow> socket_cmp a b \<noteq> Greater"

definition less_socket_addr :: "socket_addr \<Rightarrow> socket_addr \<Rightarrow> bool" where
  "less_socket_addr a b \<longleftrightarrow> socket_cmp a b = Less"

instance
proof
  fix a b c :: socket_addr
  show "a < b \<longleftrightarrow> a \<le> b \<and> \<not> b \<le> a"
    unfolding less_socket_addr_def less_eq_socket_addr_def using sock.cmp_Greater_iff [of b a] by (cases "socket_cmp a b") auto
  show "a \<le> a" by (simp add: less_eq_socket_addr_def sock.cmp_refl)
  show "a \<le> b \<Longrightarrow> b \<le> c \<Longrightarrow> a \<le> c"
    unfolding less_eq_socket_addr_def sock.cmp_not_Greater using sock.cmp_Less_trans [of a b c] by blast
  show "a \<le> b \<Longrightarrow> b \<le> a \<Longrightarrow> a = b"
    unfolding less_eq_socket_addr_def using sock.cmp_Greater_iff [of b a] sock.cmp_not_Greater [of a b] by blast
  show "a \<le> b \<or> b \<le> a"
    unfolding less_eq_socket_addr_def using sock.cmp_Greater_iff [of b a] by (cases "socket_cmp a b") auto
qed

end

section \<open>Interfaces and resolution\<close>

datatype ip_version = IPv4 | IPv6 | Both

text \<open>An interface of the operating system; the left side of the list of interfaces is an error.\<close>

record network_interface =
  if_name :: bytes
  if_addr :: "ip_addr list"

definition ifb :: bytes where
  "ifb = [0x69, 0x66, 0x62]"

definition local_interfaces :: "string + network_interface list \<Rightarrow> network_interface list io_result" where
  "local_interfaces shown =
     (case shown of
        Inl e \<Rightarrow> Inl (IoError OtherError e)
      | Inr ifs \<Rightarrow> Inr (filter (\<lambda>i. take 3 (if_name i) \<noteq> ifb) ifs))"

definition use_proper_ipv4 :: "socket_addr \<Rightarrow> socket_addr" where
  "use_proper_ipv4 sa =
     (case sa_ip sa of
        V6 a \<Rightarrow> (case to_ipv4_mapped a of Some b \<Rightarrow> set_ip (V4 b) sa | None \<Rightarrow> sa)
      | V4 _ \<Rightarrow> sa)"

definition local_interface_for_ip :: "string + network_interface list \<Rightarrow> ip_addr \<Rightarrow> bytes option io_result" where
  "local_interface_for_ip shown ip =
     map_sum id (\<lambda>ifs. map_option if_name (List.find (\<lambda>i. \<exists>a \<in> set (if_addr i). a = ip) ifs)) (local_interfaces shown)"

definition is_only_ipv4 :: "ip_version \<Rightarrow> bool" where
  "is_only_ipv4 v \<longleftrightarrow> v = IPv4"

definition is_only_ipv6 :: "ip_version \<Rightarrow> bool" where
  "is_only_ipv6 v \<longleftrightarrow> v = IPv6"

definition from_only :: "bool \<Rightarrow> bool \<Rightarrow> ip_version io_result" where
  "from_only only_ipv4 only_ipv6 =
     (case (only_ipv4, only_ipv6) of
        (False, False) \<Rightarrow> Inr Both
      | (True, False) \<Rightarrow> Inr IPv4
      | (False, True) \<Rightarrow> Inr IPv6
      | (True, True) \<Rightarrow> Inl (IoError InvalidInput ''IPv4 and IPv6 options are mutally exclusive''))"

text \<open>The addresses of all hosts that can be resolved, without duplicates and sorted.\<close>

fun resolve_all :: "(string \<Rightarrow> socket_addr list io_result) \<Rightarrow> ip_version \<Rightarrow> string list \<Rightarrow> socket_addr set \<Rightarrow> socket_addr set" where
  "resolve_all lookup v [] all = all"
| "resolve_all lookup v (h # hs) all =
     (case lookup h of
        Inl _ \<Rightarrow> resolve_all lookup v hs all
      | Inr addrs \<Rightarrow>
          resolve_all lookup v hs (all \<union> set (filter (\<lambda>a.
            \<not> (is_ipv4 (sa_ip a) \<and> is_only_ipv6 v \<or> is_ipv6 (sa_ip a) \<and> is_only_ipv4 v)) addrs)))"

definition resolve_hosts ::
  "(string \<Rightarrow> socket_addr list io_result) \<Rightarrow> string list \<Rightarrow> ip_version \<Rightarrow> socket_addr list" where
  "resolve_hosts lookup hosts v = sorted_list_of_set (resolve_all lookup v hosts {})"

definition interface_names_for_target :: "network_interface list \<Rightarrow> ip_addr \<Rightarrow> bytes set" where
  "interface_names_for_target ifs target =
     set (map if_name (filter (\<lambda>i. \<exists>a \<in> set (if_addr i). \<not> is_unspecified a \<and>
       is_loopback a = is_loopback target \<and> is_ipv4 a = is_ipv4 target \<and> is_ipv6 a = is_ipv6 target) ifs))"

text \<open>The steps that ask the system for the route to a target; each may fail.\<close>

record 's udp_os =
  udp_bind :: "ip_addr \<Rightarrow> 's io_result"
  udp_connect :: "'s \<Rightarrow> socket_addr \<Rightarrow> 's io_result"
  udp_local_addr :: "'s \<Rightarrow> socket_addr io_result"

definition local_address_for_target :: "'s udp_os \<Rightarrow> socket_addr \<Rightarrow> ip_addr io_result" where
  "local_address_for_target U target =
     (case udp_bind U (case sa_ip target of V4 _ \<Rightarrow> V4 0 | V6 _ \<Rightarrow> V6 0) of
        Inl e \<Rightarrow> Inl e
      | Inr s \<Rightarrow>
          (case udp_connect U s target of
             Inl e \<Rightarrow> Inl e
           | Inr s \<Rightarrow>
               (case udp_local_addr U s of
                  Inl e \<Rightarrow> Inl e
                | Inr a \<Rightarrow> Inr (to_canonical (sa_ip a)))))"

text \<open>
  Binding a socket to an interface: by its name on Linux and its relatives, elsewhere to the first address of
  an interface of that name that has the protocol version and the locality of the remote address.
\<close>

definition same_version :: "ip_addr \<Rightarrow> ip_addr \<Rightarrow> bool" where
  "same_version a b \<longleftrightarrow> (case (a, b) of (V4 _, V4 _) \<Rightarrow> True | (V6 _, V6 _) \<Rightarrow> True | _ \<Rightarrow> False)"

definition bind_socket_to_interface ::
  "bool \<Rightarrow> (bytes \<Rightarrow> unit io_result) \<Rightarrow> (socket_addr \<Rightarrow> unit io_result) \<Rightarrow> string + network_interface list \<Rightarrow>
   bytes \<Rightarrow> ip_addr \<Rightarrow> unit io_result" where
  "bind_socket_to_interface linux bind_device bind_addr shown iface remote =
     (if linux then bind_device iface
      else
        (case local_interfaces shown of
           Inl e \<Rightarrow> Inl e
         | Inr ifs \<Rightarrow>
             (case List.find (\<lambda>a. same_version a remote \<and> is_loopback a = is_loopback remote)
                     (concat (map if_addr (filter (\<lambda>i. if_name i = iface) ifs))) of
                Some a \<Rightarrow> bind_addr (SocketAddr a 0)
              | None \<Rightarrow> Inl (IoError NotFound ''no IP address for interface''))))"

section \<open>Lemmas\<close>

lemma use_proper_ipv4_canonical:
  "sa_ip (use_proper_ipv4 sa) = to_canonical (sa_ip sa) \<and> sa_port (use_proper_ipv4 sa) = sa_port sa"
  by (auto simp: use_proper_ipv4_def to_canonical_def set_ip_def split: ip_addr.splits option.splits)

lemma to_canonical_idem [simp]: "to_canonical (to_canonical ip) = to_canonical ip"
  by (auto simp: to_canonical_def split: ip_addr.splits option.splits)

lemma resolve_all_eq:
  "resolve_all lookup v hosts all = all \<union>
     {a. \<exists>h \<in> set hosts. \<exists>as. lookup h = Inr as \<and> a \<in> set as \<and> (v = IPv4 \<longrightarrow> is_ipv4 (sa_ip a)) \<and> (v = IPv6 \<longrightarrow> is_ipv6 (sa_ip a))}"
proof (induction lookup v hosts all rule: resolve_all.induct)
  case (2 lookup v h hs all)
  have "is_ipv6 ip \<longleftrightarrow> \<not> is_ipv4 ip" for ip by (cases ip) (simp_all add: is_ipv4_def is_ipv6_def)
  then show ?case using 2 by (cases "lookup h") (auto simp: is_only_ipv4_def is_only_ipv6_def)
qed simp

lemma finite_resolve_all [simp]: "finite all \<Longrightarrow> finite (resolve_all lookup v hosts all)"
  by (induction lookup v hosts all rule: resolve_all.induct) (auto split: sum.splits)

lemma resolve_hosts_correct:
  "sorted (resolve_hosts lookup hosts v) \<and> distinct (resolve_hosts lookup hosts v) \<and>
   set (resolve_hosts lookup hosts v) = {a. \<exists>h \<in> set hosts. \<exists>as. lookup h = Inr as \<and> a \<in> set as \<and>
     (v = IPv4 \<longrightarrow> is_ipv4 (sa_ip a)) \<and> (v = IPv6 \<longrightarrow> is_ipv6 (sa_ip a))}"
proof -
  have "set (resolve_hosts lookup hosts v) = resolve_all lookup v hosts {}" by (simp add: resolve_hosts_def)
  then show ?thesis by (simp add: resolve_hosts_def resolve_all_eq [of _ _ _ "{}"])
qed

end
