(* ===== verification/Link_Tags.thy ===== *)
theory Link_Tags
  imports Net_Addr
begin

text \<open>
  The link tags of all transports of the repository: TCP, WebSocket, SOCKS5, USB and Bluetooth RFCOMM
  (the \<open>lib.rs\<close> of the crates \<open>aggligator-transport-tcp\<close>, \<open>-websocket\<close>, \<open>-socks\<close> and \<open>-usb\<close>, and \<open>rfcomm.rs\<close> and
  \<open>rfcomm_profile.rs\<close> of \<open>aggligator-transport-bluer\<close>), with their implementations of the trait \<open>LinkTag\<close>.
  A boxed tag is a value of \<open>link_tag\<close>, and a downcast is a case distinction.

  The texts of addresses are written by the standard library and by \<open>bluer\<close>; they are the fields of
  \<open>show_env\<close>.
\<close>

section \<open>Tags\<close>

datatype local = Interface bytes | Address ip_addr

record tcp_link_tag =
  tcp_local :: local
  tcp_remote :: socket_addr
  tcp_direction :: direction

record ws_out_tag =
  wo_local :: local
  wo_remote :: socket_addr
  wo_url :: string
  wo_tls :: bool

record ws_in_tag =
  wi_local :: socket_addr
  wi_remote :: socket_addr
  wi_protocol :: "string option"

datatype socks5_target = Ip socket_addr | Domain string u16

record socks5_tag =
  so_proxy :: socket_addr
  so_target :: socks5_target

record usb_out_tag =
  uo_bus_id :: string
  uo_address :: u8
  uo_interface :: u8

record usb_in_tag =
  ui_udc :: bytes

text \<open>A Bluetooth address has six bytes; a socket address of RFCOMM is one with a channel.\<close>

type_synonym bt_addr = bytes

record rfcomm_addr =
  rf_addr :: bt_addr
  rf_channel :: u8

record rfcomm_tag =
  rt_local :: rfcomm_addr
  rt_remote :: rfcomm_addr
  rt_direction :: direction

datatype rfcomm_profile_tag = RpOutgoing bt_addr | RpIncoming rfcomm_addr rfcomm_addr

datatype link_tag =
    Tcp tcp_link_tag
  | WsOut ws_out_tag
  | WsIn ws_in_tag
  | Socks socks5_tag
  | UsbOut usb_out_tag
  | UsbIn usb_in_tag
  | Rfcomm rfcomm_tag
  | RfcommProfile rfcomm_profile_tag

section \<open>Comparison\<close>

definition direction_cmp :: "direction \<Rightarrow> direction \<Rightarrow> ordering" where
  "direction_cmp = key_cmp bool_cmp (\<lambda>d. d = Outgoing)"

definition bytes_cmp :: "bytes \<Rightarrow> bytes \<Rightarrow> ordering" where
  "bytes_cmp = list_cmp word_cmp"

definition local_cmp :: "local \<Rightarrow> local \<Rightarrow> ordering" where
  "local_cmp = key_cmp (sum_cmp bytes_cmp ip_cmp) (\<lambda>l. case l of Interface i \<Rightarrow> Inl i | Address a \<Rightarrow> Inr a)"

definition tcp_cmp :: "tcp_link_tag \<Rightarrow> tcp_link_tag \<Rightarrow> ordering" where
  "tcp_cmp = key_cmp (prod_cmp local_cmp (prod_cmp socket_cmp direction_cmp))
     (\<lambda>t. (tcp_local t, tcp_remote t, tcp_direction t))"

definition ws_out_cmp :: "ws_out_tag \<Rightarrow> ws_out_tag \<Rightarrow> ordering" where
  "ws_out_cmp = key_cmp (prod_cmp local_cmp (prod_cmp socket_cmp (prod_cmp str_cmp bool_cmp)))
     (\<lambda>t. (wo_local t, wo_remote t, wo_url t, wo_tls t))"

definition ws_in_cmp :: "ws_in_tag \<Rightarrow> ws_in_tag \<Rightarrow> ordering" where
  "ws_in_cmp = key_cmp (prod_cmp socket_cmp (prod_cmp socket_cmp (option_cmp str_cmp)))
     (\<lambda>t. (wi_local t, wi_remote t, wi_protocol t))"

definition target_cmp :: "socks5_target \<Rightarrow> socks5_target \<Rightarrow> ordering" where
  "target_cmp = key_cmp (sum_cmp socket_cmp (prod_cmp str_cmp word_cmp))
     (\<lambda>t. case t of Ip a \<Rightarrow> Inl a | Domain d p \<Rightarrow> Inr (d, p))"

definition socks5_cmp :: "socks5_tag \<Rightarrow> socks5_tag \<Rightarrow> ordering" where
  "socks5_cmp = key_cmp (prod_cmp socket_cmp target_cmp) (\<lambda>t. (so_proxy t, so_target t))"

definition usb_out_cmp :: "usb_out_tag \<Rightarrow> usb_out_tag \<Rightarrow> ordering" where
  "usb_out_cmp = key_cmp (prod_cmp str_cmp (prod_cmp word_cmp word_cmp)) (\<lambda>t. (uo_bus_id t, uo_address t, uo_interface t))"

definition usb_in_cmp :: "usb_in_tag \<Rightarrow> usb_in_tag \<Rightarrow> ordering" where
  "usb_in_cmp = key_cmp bytes_cmp ui_udc"

definition rfcomm_addr_cmp :: "rfcomm_addr \<Rightarrow> rfcomm_addr \<Rightarrow> ordering" where
  "rfcomm_addr_cmp = key_cmp (prod_cmp bytes_cmp word_cmp) (\<lambda>a. (rf_addr a, rf_channel a))"

definition rfcomm_cmp :: "rfcomm_tag \<Rightarrow> rfcomm_tag \<Rightarrow> ordering" where
  "rfcomm_cmp = key_cmp (prod_cmp rfcomm_addr_cmp (prod_cmp rfcomm_addr_cmp direction_cmp))
     (\<lambda>t. (rt_local t, rt_remote t, rt_direction t))"

definition rfcomm_profile_cmp :: "rfcomm_profile_tag \<Rightarrow> rfcomm_profile_tag \<Rightarrow> ordering" where
  "rfcomm_profile_cmp = key_cmp (sum_cmp bytes_cmp (prod_cmp rfcomm_addr_cmp rfcomm_addr_cmp))
     (\<lambda>t. case t of RpOutgoing a \<Rightarrow> Inl a | RpIncoming l r \<Rightarrow> Inr (l, r))"

text \<open>The method \<open>dyn_cmp\<close>: the downcast of a tag of another type is unwrapped.\<close>

fun dyn_cmp :: "link_tag \<Rightarrow> link_tag \<Rightarrow> ordering option" where
  "dyn_cmp (Tcp a) (Tcp b) = Some (tcp_cmp a b)"
| "dyn_cmp (WsOut a) (WsOut b) = Some (ws_out_cmp a b)"
| "dyn_cmp (WsIn a) (WsIn b) = Some (ws_in_cmp a b)"
| "dyn_cmp (Socks a) (Socks b) = Some (socks5_cmp a b)"
| "dyn_cmp (UsbOut a) (UsbOut b) = Some (usb_out_cmp a b)"
| "dyn_cmp (UsbIn a) (UsbIn b) = Some (usb_in_cmp a b)"
| "dyn_cmp (Rfcomm a) (Rfcomm b) = Some (rfcomm_cmp a b)"
| "dyn_cmp (RfcommProfile a) (RfcommProfile b) = Some (rfcomm_profile_cmp a b)"
| "dyn_cmp _ _ = None"

section \<open>The trait\<close>

record show_env =
  sh_ip :: "ip_addr \<Rightarrow> string"
  sh_socket :: "socket_addr \<Rightarrow> string"
  sh_lossy :: "bytes \<Rightarrow> string"
  sh_bt :: "bt_addr \<Rightarrow> string"
  sh_rfcomm :: "rfcomm_addr \<Rightarrow> string"
  sh_nat :: "nat \<Rightarrow> string"

definition string_bytes :: "string \<Rightarrow> bytes" where
  "string_bytes = map of_char"

text \<open>The names of the transports.\<close>

fun transport_name :: "link_tag \<Rightarrow> string" where
  "transport_name (Tcp _) = ''tcp''"
| "transport_name (WsOut _) = ''websocket''"
| "transport_name (WsIn _) = ''websocket''"
| "transport_name (Socks _) = ''socks5''"
| "transport_name (UsbOut _) = ''usb''"
| "transport_name (UsbIn _) = ''usb''"
| "transport_name (Rfcomm _) = ''rfcomm''"
| "transport_name (RfcommProfile _) = ''rfcomm_profile''"

fun tag_direction :: "link_tag \<Rightarrow> direction" where
  "tag_direction (Tcp t) = tcp_direction t"
| "tag_direction (WsOut _) = Outgoing"
| "tag_direction (WsIn _) = Incoming"
| "tag_direction (Socks _) = Outgoing"
| "tag_direction (UsbOut _) = Outgoing"
| "tag_direction (UsbIn _) = Incoming"
| "tag_direction (Rfcomm t) = rt_direction t"
| "tag_direction (RfcommProfile t) = (case t of RpOutgoing _ \<Rightarrow> Outgoing | RpIncoming _ _ \<Rightarrow> Incoming)"

definition local_user_data :: "show_env \<Rightarrow> local \<Rightarrow> bytes" where
  "local_user_data S l =
     (case l of Interface i \<Rightarrow> i | Address a \<Rightarrow> string_bytes (sh_ip S (to_canonical a)))"

fun tag_user_data :: "show_env \<Rightarrow> link_tag \<Rightarrow> bytes" where
  "tag_user_data S (Tcp t) = local_user_data S (tcp_local t)"
| "tag_user_data S (WsOut t) = local_user_data S (wo_local t)"
| "tag_user_data S (WsIn t) = (case sa_ip (wi_local t) of V4 a \<Rightarrow> wr_u32 a | V6 a \<Rightarrow> wr_u128 a)"
| "tag_user_data S (Socks t) = string_bytes (sh_socket S (so_proxy t))"
| "tag_user_data S _ = []"

text \<open>Only outgoing WebSocket links change the configuration of a link.\<close>

fun dyn_link_cfg :: "link_tag \<Rightarrow> link_cfg \<Rightarrow> link_cfg" where
  "dyn_link_cfg (WsOut _) lc = lc\<lparr>ack_timeout_min := ack_timeout_min lc + from_secs 3\<rparr>"
| "dyn_link_cfg _ lc = lc"

definition local_display :: "show_env \<Rightarrow> local \<Rightarrow> string" where
  "local_display S l = (case l of Interface i \<Rightarrow> sh_lossy S i | Address a \<Rightarrow> sh_ip S (to_canonical a))"

definition target_display :: "show_env \<Rightarrow> socks5_target \<Rightarrow> string" where
  "target_display S t = (case t of Ip a \<Rightarrow> sh_socket S a | Domain d p \<Rightarrow> d @ '':'' @ sh_nat S (unat p))"

text \<open>
  The width given for the local end of a TCP link has no effect, because the text of \<open>Local\<close> is written
  without regard to it.
\<close>

fun tag_display :: "show_env \<Rightarrow> link_tag \<Rightarrow> string" where
  "tag_display S (Tcp t) =
     local_display S (tcp_local t) @ '' '' @ direction_arrow (tcp_direction t) @ '' '' @ sh_socket S (tcp_remote t)"
| "tag_display S (WsOut t) = local_display S (wo_local t) @ '' -> '' @ sh_socket S (wo_remote t) @ '' ('' @ wo_url t @ '')''"
| "tag_display S (WsIn t) =
     sh_socket S (wi_local t) @ '' <- '' @ sh_socket S (wi_remote t) @
     (case wi_protocol t of Some p \<Rightarrow> '' ('' @ p @ '')'' | None \<Rightarrow> [])"
| "tag_display S (Socks t) = sh_socket S (so_proxy t) @ '' -> '' @ target_display S (so_target t)"
| "tag_display S (UsbOut t) =
     ''USB '' @ uo_bus_id t @ '' -> '' @ sh_nat S (unat (uo_address t)) @ '':'' @ sh_nat S (unat (uo_interface t))"
| "tag_display S (UsbIn t) = ''UDC <- '' @ sh_lossy S (ui_udc t)"
| "tag_display S (Rfcomm t) =
     sh_rfcomm S (rt_local t) @ '' '' @ direction_arrow (rt_direction t) @ '' '' @ sh_rfcomm S (rt_remote t)"
| "tag_display S (RfcommProfile t) =
     (case t of RpOutgoing r \<Rightarrow> ''-> '' @ sh_bt S r | RpIncoming l r \<Rightarrow> sh_rfcomm S l @ '' <- '' @ sh_rfcomm S r)"

text \<open>
  The identity of the type of a tag is a number that the compiler chooses per type: \<open>tid\<close> gives it for the
  position of the type.
\<close>

fun tag_type :: "link_tag \<Rightarrow> nat" where
  "tag_type (Tcp _) = 0"
| "tag_type (WsOut _) = 1"
| "tag_type (WsIn _) = 2"
| "tag_type (Socks _) = 3"
| "tag_type (UsbOut _) = 4"
| "tag_type (UsbIn _) = 5"
| "tag_type (Rfcomm _) = 6"
| "tag_type (RfcommProfile _) = 7"

definition link_tag_ops :: "(nat \<Rightarrow> nat) \<Rightarrow> show_env \<Rightarrow> link_tag tag_ops" where
  "link_tag_ops tid S =
     \<lparr>tg_transport_name = transport_name, tg_type_id = (\<lambda>t. tid (tag_type t)),
      tg_dyn_cmp = (\<lambda>a b. case dyn_cmp a b of Some r \<Rightarrow> r | None \<Rightarrow> Equal),
      tg_user_data = tag_user_data S, tg_link_cfg = dyn_link_cfg, tg_display = tag_display S\<rparr>"

section \<open>Lemmas\<close>

lemma total_direction [intro, simp]: "total_cmp direction_cmp"
  unfolding direction_cmp_def by (rule total_key) (auto intro!: injI, metis direction.exhaust)

lemma total_bytes [intro, simp]: "total_cmp bytes_cmp"
  unfolding bytes_cmp_def by blast

lemma total_local [intro, simp]: "total_cmp local_cmp"
  unfolding local_cmp_def by (rule total_key) (auto intro!: injI split: local.splits)

lemma total_target [intro, simp]: "total_cmp target_cmp"
  unfolding target_cmp_def by (rule total_key) (auto intro!: injI split: socks5_target.splits)

lemma total_rfcomm_addr [intro, simp]: "total_cmp rfcomm_addr_cmp"
  unfolding rfcomm_addr_cmp_def by (rule total_key) (auto intro!: injI rfcomm_addr.equality)

lemma total_tcp: "total_cmp tcp_cmp"
  unfolding tcp_cmp_def by (rule total_key) (auto intro!: injI tcp_link_tag.equality)

lemma total_ws_out: "total_cmp ws_out_cmp"
  unfolding ws_out_cmp_def by (rule total_key) (auto intro!: injI ws_out_tag.equality)

lemma total_ws_in: "total_cmp ws_in_cmp"
  unfolding ws_in_cmp_def by (rule total_key) (auto intro!: injI ws_in_tag.equality)

lemma total_socks5: "total_cmp socks5_cmp"
  unfolding socks5_cmp_def by (rule total_key) (auto intro!: injI socks5_tag.equality)

lemma total_usb_out: "total_cmp usb_out_cmp"
  unfolding usb_out_cmp_def by (rule total_key) (auto intro!: injI usb_out_tag.equality)

lemma total_usb_in: "total_cmp usb_in_cmp"
  unfolding usb_in_cmp_def by (rule total_key) (auto intro!: injI usb_in_tag.equality)

lemma total_rfcomm: "total_cmp rfcomm_cmp"
  unfolding rfcomm_cmp_def by (rule total_key) (auto intro!: injI rfcomm_tag.equality)

lemma total_rfcomm_profile: "total_cmp rfcomm_profile_cmp"
  unfolding rfcomm_profile_cmp_def by (rule total_key) (auto intro!: injI split: rfcomm_profile_tag.splits)

lemmas total_tags = total_tcp total_ws_out total_ws_in total_socks5 total_usb_out total_usb_in total_rfcomm total_rfcomm_profile

lemma dyn_cmp_Some_iff: "dyn_cmp a b \<noteq> None \<longleftrightarrow> tag_type a = tag_type b"
  by (cases a; cases b) simp_all

text \<open>The comparison of two tags, the same type being compared by its own comparison.\<close>

lemma tag_cmp_link_tags:
  "tag_cmp (link_tag_ops tid S) a b =
     ord_then (str_cmp (transport_name a) (transport_name b))
       (ord_then (nat_cmp (tid (tag_type a)) (tid (tag_type b))) (case dyn_cmp a b of Some r \<Rightarrow> r | None \<Rightarrow> Equal))"
  by (simp add: tag_cmp_def link_tag_ops_def)

lemma dyn_cmp_Equal: "dyn_cmp a b = Some Equal \<longleftrightarrow> a = b"
  by (cases a; cases b) (simp_all add: total_tags [THEN total_cmp.cmp_Equal])

lemma dyn_cmp_reverse: "dyn_cmp b a = map_option ord_reverse (dyn_cmp a b)"
  by (cases a; cases b) (simp_all add: total_tags [THEN total_cmp.cmp_reverse, symmetric])

lemma dyn_cmp_less: "dyn_cmp a b = Some Less \<Longrightarrow> dyn_cmp b c = Some Less \<Longrightarrow> dyn_cmp a c = Some Less"
  by (cases a; cases b; simp; cases c; simp) (blast intro: total_tags [THEN total_cmp.cmp_Less_trans])+

text \<open>The whole comparison as one of keys: name and type first, then the tag itself.\<close>

lemma total_link_tag:
  assumes "inj tid"
  shows "total_cmp (tag_cmp (link_tag_ops tid S))"
proof
  fix a b c :: link_tag
  let ?c = "tag_cmp (link_tag_ops tid S)"
  have ty: "nat_cmp (tid (tag_type a)) (tid (tag_type b)) = Equal \<longleftrightarrow> dyn_cmp a b \<noteq> None" for a b
    using assms dyn_cmp_Some_iff [of a b] by (auto simp: inj_eq)
  show "?c a b = Equal \<longleftrightarrow> a = b"
    using dyn_cmp_Equal [of a b] ty [of a b] by (auto simp: tag_cmp_link_tags split: option.splits)
  show "?c b a = ord_reverse (?c a b)"
    unfolding tag_cmp_link_tags str_cmp_reverse [of "transport_name b"] dyn_cmp_reverse [of b a]
      total_cmp.cmp_reverse [OF total_nat, of "tid (tag_type b)"]
    by (cases "dyn_cmp a b") simp_all
  have less: "?c a b = Less \<longleftrightarrow> prod_cmp str_cmp nat_cmp (transport_name a, tid (tag_type a)) (transport_name b, tid (tag_type b)) = Less \<or>
      transport_name a = transport_name b \<and> tid (tag_type a) = tid (tag_type b) \<and> dyn_cmp a b = Some Less" for a b
    using ty [of a b] by (auto simp: tag_cmp_link_tags prod_cmp_def ord_then_Less split: option.splits)
  show "?c a b = Less \<Longrightarrow> ?c b c = Less \<Longrightarrow> ?c a c = Less"
    unfolding less
    using total_cmp.cmp_Less_trans [OF total_prod [OF total_str total_nat], of "(transport_name a, tid (tag_type a))"
        "(transport_name b, tid (tag_type b))" "(transport_name c, tid (tag_type c))"] dyn_cmp_less [of a b c]
    by auto
qed

section \<open>Properties\<close>



end
