(* ===== verification/Tcp_Transport.thy ===== *)
theory Tcp_Transport
  imports Link_Tags Connector
begin

text \<open>
  The TCP transport (\<open>aggligator-transport-tcp/src/lib.rs\<close>): discovery of link tags from the local interfaces
  and the resolved hosts, connecting a tag, the link filter, and the acceptor with its listeners.

  Sockets belong to the operating system: their operations and the functions of the user that configure them
  are fields of \<open>tcp_os\<close>, with the outcomes as results.  Options whose setting may fail without
  consequence (no delay, address reuse, dual stack) are left out.
\<close>

section \<open>Connector\<close>

definition io_bind :: "'a io_result \<Rightarrow> ('a \<Rightarrow> 'b io_result) \<Rightarrow> 'b io_result" where
  "io_bind r f = (case r of Inl e \<Rightarrow> Inl e | Inr x \<Rightarrow> f x)"

datatype tcp_link_filter = FilterNone | InterfaceInterface | InterfaceIp

record tcp_connector =
  tc_hosts :: "string list"
  tc_ip_version :: ip_version
  tc_resolve_interval :: duration
  tc_link_filter :: tcp_link_filter
  tc_multi_interface :: bool
  tc_interface_filter :: "network_interface \<Rightarrow> bool"

text \<open>The port is added to hosts without a colon.\<close>

definition host_with_port :: "show_env \<Rightarrow> u16 \<Rightarrow> string \<Rightarrow> string" where
  "host_with_port S port host =
     (if CHR '':'' \<in> set host then host else host @ '':'' @ sh_nat S (unat port))"

definition tcp_unresolved :: "show_env \<Rightarrow> bool \<Rightarrow> string list \<Rightarrow> u16 \<Rightarrow> tcp_connector io_result" where
  "tcp_unresolved S android hosts port =
     (if hosts = [] then Inl (IoError InvalidInput ''at least one host is required'')
      else Inr \<lparr>tc_hosts = map (host_with_port S port) hosts, tc_ip_version = Both,
        tc_resolve_interval = from_secs 10, tc_link_filter = InterfaceInterface,
        tc_multi_interface = (\<not> android), tc_interface_filter = (\<lambda>_. True)\<rparr>)"

definition tcp_resolve :: "(string \<Rightarrow> socket_addr list io_result) \<Rightarrow> tcp_connector \<Rightarrow> socket_addr list" where
  "tcp_resolve lookup c = resolve_hosts lookup (tc_hosts c) (tc_ip_version c)"

definition tcp_new ::
  "show_env \<Rightarrow> bool \<Rightarrow> (string \<Rightarrow> socket_addr list io_result) \<Rightarrow> string list \<Rightarrow> u16 \<Rightarrow> tcp_connector io_result" where
  "tcp_new S android lookup hosts port =
     io_bind (tcp_unresolved S android hosts port) (\<lambda>c.
       if tcp_resolve lookup c = [] then Inl (IoError NotFound ''cannot resolve IP address of host'') else Inr c)"

definition set_ip_version :: "ip_version \<Rightarrow> tcp_connector \<Rightarrow> tcp_connector" where
  "set_ip_version v c = c\<lparr>tc_ip_version := v\<rparr>"

definition set_resolve_interval :: "duration \<Rightarrow> tcp_connector \<Rightarrow> tcp_connector" where
  "set_resolve_interval d c = c\<lparr>tc_resolve_interval := d\<rparr>"

definition set_link_filter :: "tcp_link_filter \<Rightarrow> tcp_connector \<Rightarrow> tcp_connector" where
  "set_link_filter f c = c\<lparr>tc_link_filter := f\<rparr>"

definition set_multi_interface :: "bool \<Rightarrow> tcp_connector \<Rightarrow> tcp_connector" where
  "set_multi_interface b c = c\<lparr>tc_multi_interface := b\<rparr>"

definition set_interface_filter :: "(network_interface \<Rightarrow> bool) \<Rightarrow> tcp_connector \<Rightarrow> tcp_connector" where
  "set_interface_filter f c = c\<lparr>tc_interface_filter := f\<rparr>"

fun join :: "string \<Rightarrow> string list \<Rightarrow> string" where
  "join sep [] = []"
| "join sep [x] = x"
| "join sep (x # y # xs) = x @ sep @ join sep (y # xs)"

definition tcp_connector_display :: "tcp_connector \<Rightarrow> string option" where
  "tcp_connector_display c =
     (if length (tc_hosts c) > 1 then Some (''['' @ join '', '' (tc_hosts c) @ '']'') else nth_opt (tc_hosts c) 0)"

subsection \<open>Discovery\<close>

definition tcp_tags :: "'s udp_os \<Rightarrow> network_interface list option \<Rightarrow> socket_addr list \<Rightarrow> link_tag set" where
  "tcp_tags U ifs addrs =
     (\<Union>a \<in> set addrs.
        (case ifs of
           Some ifs \<Rightarrow>
             (\<lambda>i. Tcp \<lparr>tcp_local = Interface i, tcp_remote = a, tcp_direction = Outgoing\<rparr>) `
               interface_names_for_target ifs (sa_ip a)
         | None \<Rightarrow>
             (case local_address_for_target U a of
                Inr src \<Rightarrow> {Tcp \<lparr>tcp_local = Address src, tcp_remote = a, tcp_direction = Outgoing\<rparr>}
              | Inl _ \<Rightarrow> {})))"

text \<open>
  The state of the loop of \<open>link_tags\<close>: the addresses and when they were resolved, and the tags in the watch
  channel with the number of changes its receivers have seen.
\<close>

record tcp_discovery =
  td_addrs :: "socket_addr list"
  td_resolved :: "instant option"
  td_tags :: "link_tag set"
  td_version :: nat

definition tcp_discovery_start :: tcp_discovery where
  "tcp_discovery_start = \<lparr>td_addrs = [], td_resolved = None, td_tags = {}, td_version = 0\<rparr>"

text \<open>\<open>send_if_modified\<close> with a new set of tags.\<close>

definition publish_tags :: "link_tag set \<Rightarrow> tcp_discovery \<Rightarrow> tcp_discovery" where
  "publish_tags tags s = (if td_tags s \<noteq> tags then s\<lparr>td_tags := tags, td_version := Suc (td_version s)\<rparr> else s)"

text \<open>A round of the loop; \<open>now\<close> and \<open>resolved\<close> are the times before and after resolving.\<close>

definition tcp_link_tags ::
  "'s udp_os \<Rightarrow> string + network_interface list \<Rightarrow> (string \<Rightarrow> socket_addr list io_result) \<Rightarrow> instant \<Rightarrow> instant \<Rightarrow>
   tcp_connector \<Rightarrow> tcp_discovery \<Rightarrow> tcp_discovery io_result" where
  "tcp_link_tags U shown lookup now resolved c s =
     io_bind (if tc_multi_interface c then map_sum id (\<lambda>ifs. Some (filter (tc_interface_filter c) ifs)) (local_interfaces shown)
              else Inr None) (\<lambda>ifs.
       let s = (if (case td_resolved s of None \<Rightarrow> True | Some t \<Rightarrow> tc_resolve_interval c \<le> elapsed now t)
                then s\<lparr>td_addrs := tcp_resolve lookup c, td_resolved := Some resolved\<rparr> else s)
       in Inr (publish_tags (tcp_tags U ifs (td_addrs s)) s))"

subsection \<open>Connecting\<close>

record ('s, 't, 'r, 'w) tcp_os =
  to_socket :: "bool \<Rightarrow> 's io_result"
  to_bind_interface :: "'s \<Rightarrow> bytes \<Rightarrow> ip_addr \<Rightarrow> 's io_result"
  to_socket_setup :: "'s \<Rightarrow> tcp_link_tag \<Rightarrow> 's io_result"
  to_connect :: "'s \<Rightarrow> socket_addr \<Rightarrow> 't io_result"
  to_stream_setup :: "'t \<Rightarrow> tcp_link_tag \<Rightarrow> 't io_result"
  to_local_addr :: "'t \<Rightarrow> socket_addr io_result"
  to_split :: "'t \<Rightarrow> 'r \<times> 'w"

definition addr_mismatch :: "show_env \<Rightarrow> ip_addr \<Rightarrow> ip_addr \<Rightarrow> io_error" where
  "addr_mismatch S req got = IoError AddrNotAvailable
     (''wanted to connect from '' @ sh_ip S req @ '' but connected from '' @ sh_ip S got)"

definition tcp_connect ::
  "show_env \<Rightarrow> ('s, 't, 'r, 'w) tcp_os \<Rightarrow> link_tag \<Rightarrow> ('p, 'r, 'w) stream_box io_result option" where
  "tcp_connect S T tag =
     (case tag of
        Tcp t \<Rightarrow>
          Some (io_bind (to_socket T (is_ipv6 (sa_ip (tcp_remote t)))) (\<lambda>s.
            io_bind (case tcp_local t of
                       Interface i \<Rightarrow> to_bind_interface T s i (sa_ip (tcp_remote t))
                     | Address _ \<Rightarrow> Inr s) (\<lambda>s.
            io_bind (to_socket_setup T s t) (\<lambda>s.
            io_bind (to_connect T s (tcp_remote t)) (\<lambda>st.
            io_bind (to_stream_setup T st t) (\<lambda>st.
            io_bind (case tcp_local t of
                       Address req \<Rightarrow>
                         io_bind (to_local_addr T st) (\<lambda>a.
                           if to_canonical (sa_ip a) \<noteq> req then Inl (addr_mismatch S req (to_canonical (sa_ip a))) else Inr ())
                     | Interface _ \<Rightarrow> Inr ()) (\<lambda>_.
            Inr (Io (fst (to_split T st)) (snd (to_split T st))))))))))
      | _ \<Rightarrow> None)"

subsection \<open>Link filter\<close>

text \<open>Whether an existing link makes the new one redundant; links of other transports never do.\<close>

definition tcp_redundant ::
  "tcp_link_filter \<Rightarrow> tcp_link_tag \<Rightarrow> link_tag link_handle \<Rightarrow> link_tag link_handle \<Rightarrow> bool" where
  "tcp_redundant f new_tag new link =
     (case lh_tag link of
        Tcp tag \<Rightarrow>
          (case f of
             FilterNone \<Rightarrow> False
           | InterfaceInterface \<Rightarrow> tcp_local tag = tcp_local new_tag \<and> lh_remote_user_data link = lh_remote_user_data new
           | InterfaceIp \<Rightarrow> tcp_local tag = tcp_local new_tag \<and> sa_ip (tcp_remote tag) = sa_ip (tcp_remote new_tag))
      | _ \<Rightarrow> False)"

definition tcp_filter :: "tcp_link_filter \<Rightarrow> link_tag link_handle \<Rightarrow> link_tag link_handle list \<Rightarrow> bool" where
  "tcp_filter f new existing =
     (case lh_tag new of
        Tcp new_tag \<Rightarrow> (case List.find (tcp_redundant f new_tag new) existing of Some _ \<Rightarrow> False | None \<Rightarrow> True)
      | _ \<Rightarrow> True)"

section \<open>Acceptor\<close>

record ('s, 'l) tcp_listen_os =
  tl_socket :: "bool \<Rightarrow> 's io_result"
  tl_bind :: "'s \<Rightarrow> socket_addr \<Rightarrow> 's io_result"
  tl_bind_device :: "'s \<Rightarrow> bytes \<Rightarrow> 's io_result"
  tl_listen :: "'s \<Rightarrow> u32 \<Rightarrow> 'l io_result"

definition LISTEN_BACKLOG :: u32 where
  "LISTEN_BACKLOG = 64"

definition tcp_from_listeners :: "'l list \<Rightarrow> 'l list io_result" where
  "tcp_from_listeners ls =
     (if ls = [] then Inl (IoError InvalidInput ''at least one listener is required'') else Inr ls)"

fun tcp_bind_all :: "('s, 'l) tcp_listen_os \<Rightarrow> socket_addr list \<Rightarrow> 'l list io_result" where
  "tcp_bind_all T [] = Inr []"
| "tcp_bind_all T (a # as) =
     io_bind (tl_socket T (is_ipv6 (sa_ip a))) (\<lambda>s.
     io_bind (tl_bind T s a) (\<lambda>s.
     io_bind (tl_listen T s LISTEN_BACKLOG) (\<lambda>l.
     io_bind (tcp_bind_all T as) (\<lambda>ls. Inr (l # ls)))))"

definition tcp_acceptor_new :: "('s, 'l) tcp_listen_os \<Rightarrow> socket_addr list \<Rightarrow> 'l list io_result" where
  "tcp_acceptor_new T addrs = io_bind (tcp_bind_all T addrs) tcp_from_listeners"

definition tcp_listen_on ::
  "('s, 'l) tcp_listen_os \<Rightarrow> bool \<Rightarrow> network_interface \<Rightarrow> u16 \<Rightarrow> ip_version \<Rightarrow> 'l io_result" where
  "tcp_listen_on T linux iface port v =
     (case List.find (\<lambda>a. is_ipv4 a \<and> v \<noteq> IPv6 \<or> is_ipv6 a \<and> v \<noteq> IPv4) (if_addr iface) of
        None \<Rightarrow> Inl (IoError NotFound ''entity not found'')
      | Some ip \<Rightarrow>
          io_bind (tl_socket T (is_ipv6 ip)) (\<lambda>s.
          io_bind (tl_bind T s (SocketAddr ip port)) (\<lambda>s.
          io_bind (if linux then tl_bind_device T s (if_name iface) else Inr s) (\<lambda>s.
          tl_listen T s LISTEN_BACKLOG))))"

definition tcp_all_interfaces ::
  "('s, 'l) tcp_listen_os \<Rightarrow> bool \<Rightarrow> string + network_interface list \<Rightarrow> u16 \<Rightarrow> 'l list io_result" where
  "tcp_all_interfaces T linux shown port =
     io_bind (local_interfaces shown) (\<lambda>ifs.
       tcp_from_listeners (concat (map (\<lambda>i. concat (map (\<lambda>v.
         (case tcp_listen_on T linux i port v of Inr l \<Rightarrow> [l] | Inl _ \<Rightarrow> [])) [IPv6, IPv4])) ifs)))"

text \<open>A connection that one of the listeners delivers: it ends the listening, is rejected, or is handed over.\<close>

datatype tcp_accepted = AcceptFailed io_error | AcceptRejected | AcceptedTag link_tag

definition tcp_accept ::
  "string + network_interface list \<Rightarrow> (tcp_link_tag \<Rightarrow> unit io_result) \<Rightarrow> socket_addr io_result \<Rightarrow> socket_addr io_result \<Rightarrow>
   tcp_accepted" where
  "tcp_accept shown setup accepted local_addr =
     (case io_bind accepted (\<lambda>remote. io_bind local_addr (\<lambda>local.
             map_sum id (\<lambda>i. (i, use_proper_ipv4 remote)) (local_interface_for_ip shown (sa_ip (use_proper_ipv4 local))))) of
        Inl e \<Rightarrow> AcceptFailed e
      | Inr (None, _) \<Rightarrow> AcceptRejected
      | Inr (Some i, remote) \<Rightarrow>
          (let tag = \<lparr>tcp_local = Interface i, tcp_remote = remote, tcp_direction = Incoming\<rparr> in
           case setup tag of Inl _ \<Rightarrow> AcceptRejected | Inr _ \<Rightarrow> AcceptedTag (Tcp tag)))"

section \<open>Lemmas\<close>

lemma tcp_filter_iff:
  "tcp_filter f new existing \<longleftrightarrow> (\<forall>t. lh_tag new = Tcp t \<longrightarrow> \<not> (\<exists>l \<in> set existing. tcp_redundant f t new l))"
proof (cases "lh_tag new")
  case (Tcp t)
  have "tcp_filter f new existing \<longleftrightarrow> List.find (tcp_redundant f t new) existing = None"
    using Tcp by (simp add: tcp_filter_def split: option.split)
  with Tcp show ?thesis by (auto simp: find_None_iff)
qed (simp_all add: tcp_filter_def)

text \<open>
  The links of a connection over time: links are offered to the filter and join the connection if it agrees, and
  links leave.
\<close>

datatype link_change = Offer "link_tag link_handle" | Leave link_id

fun links_after :: "tcp_link_filter \<Rightarrow> link_tag link_handle list \<Rightarrow> link_change list \<Rightarrow> link_tag link_handle list" where
  "links_after f links [] = links"
| "links_after f links (Offer l # cs) = links_after f (if tcp_filter f l links then links @ [l] else links) cs"
| "links_after f links (Leave i # cs) = links_after f (filter (\<lambda>l. lh_id l \<noteq> i) links) cs"

definition irredundant :: "tcp_link_filter \<Rightarrow> link_tag link_handle list \<Rightarrow> bool" where
  "irredundant f = sorted_wrt (\<lambda>l new. \<forall>t. lh_tag new = Tcp t \<longrightarrow> \<not> tcp_redundant f t new l)"

lemma irredundant_after: "irredundant f links \<Longrightarrow> irredundant f (links_after f links cs)"
proof (induction f links cs rule: links_after.induct)
  case (2 f links l cs)
  then show ?case by (auto simp: irredundant_def sorted_wrt_append tcp_filter_iff)
next
  case (3 f links i cs)
  then show ?case by (simp add: irredundant_def sorted_wrt_filter)
qed simp

lemma local_interfaces_Inr:
  "local_interfaces shown = Inr ifs \<longleftrightarrow> (\<exists>all. shown = Inr all \<and> ifs = filter (\<lambda>i. take 3 (if_name i) \<noteq> ifb) all)"
  by (cases shown) (auto simp: local_interfaces_def)

lemma td_tags_publish [simp]: "td_tags (publish_tags tags s) = tags" "td_addrs (publish_tags tags s) = td_addrs s"
  by (simp_all add: publish_tags_def)

lemma tcp_link_tags_Inr:
  assumes "tcp_link_tags U shown lookup now resolved c s = Inr s'"
  obtains "\<not> tc_multi_interface c" "td_tags s' = tcp_tags U None (td_addrs s')"
    | ifs where "tc_multi_interface c" "shown = Inr ifs"
      "td_tags s' = tcp_tags U (Some (filter (\<lambda>i. take 3 (if_name i) \<noteq> ifb \<and> tc_interface_filter c i) ifs)) (td_addrs s')"
proof (cases "tc_multi_interface c")
  case True
  then obtain all where "shown = Inr all" using assms
    by (cases shown) (simp_all add: tcp_link_tags_def io_bind_def local_interfaces_def)
  then show ?thesis using assms True that(2) [of all]
    by (auto simp: tcp_link_tags_def io_bind_def local_interfaces_def Let_def conj_commute)
next
  case False
  then show ?thesis using assms that(1) by (auto simp: tcp_link_tags_def io_bind_def Let_def)
qed

lemma tcp_tags_are_tcp:
  "tag \<in> tcp_tags U ifs addrs \<Longrightarrow> \<exists>t. tag = Tcp t \<and> tcp_direction t = Outgoing \<and> tcp_remote t \<in> set addrs"
proof (cases ifs)
  case None
  assume "tag \<in> tcp_tags U ifs addrs"
  with None obtain a where a: "a \<in> set addrs" "tag \<in> (case local_address_for_target U a of
      Inr src \<Rightarrow> {Tcp \<lparr>tcp_local = Address src, tcp_remote = a, tcp_direction = Outgoing\<rparr>} | Inl _ \<Rightarrow> {})"
    by (auto simp: tcp_tags_def)
  then show ?thesis by (cases "local_address_for_target U a") simp_all
qed (auto simp: tcp_tags_def)

lemma tcp_round_ok:
  assumes "ce_tags E = link_tag_ops tid S" and "ce_name E = ''tcp''" and "distinct ts"
    and tcp: "\<forall>tag \<in> set ts. \<exists>t. tag = Tcp t"
  shows "tt_phase (transport_round E links ts t) = TtSelect"
proof -
  have "\<forall>tag \<in> set ts. tg_transport_name (ce_tags E) tag = ce_name E"
    using assms by (fastforce simp: link_tag_ops_def)
  from transport_round_ok [OF this assms(3), of links t] show ?thesis by simp
qed

lemma tcp_connect_tcp: "tcp_connect S T (Tcp t) \<noteq> None"
  by (simp add: tcp_connect_def)

section \<open>Properties\<close>





end
