(* ===== verification/Web_Socket.thy ===== *)
theory Web_Socket
  imports Tcp_Transport "HOL-Library.Sublist"
begin

text \<open>
  The WebSocket transport of native platforms (\<open>aggligator-transport-websocket/src/lib.rs\<close>): the URLs of a
  connector and their resolution, discovery of link tags, connecting, the link filter, and the
  acceptor, which is fed by the handlers of a web server.

  URLs are those of the package \<open>url\<close>; its functions are the fields of \<open>url_ops\<close>, with what the transport
  relies on in \<open>url_law\<close>.  The WebSocket protocol itself (\<open>tungstenite\<close>, \<open>axum\<close>) is a parameter too.
\<close>

section \<open>URLs\<close>

record 'u url_ops =
  url_parse :: "string \<Rightarrow> string + 'u"
  url_has_host :: "'u \<Rightarrow> bool"
  url_scheme :: "'u \<Rightarrow> string"
  url_host_str :: "'u \<Rightarrow> string option"
  url_port_or_known_default :: "'u \<Rightarrow> u16 option"
  url_show :: "'u \<Rightarrow> string"

text \<open>A URL with a host has a text for it, and the ports of the WebSocket schemes are known.\<close>

definition url_law :: "'u url_ops \<Rightarrow> bool" where
  "url_law L \<longleftrightarrow> (\<forall>u. url_has_host L u \<longrightarrow> url_host_str L u \<noteq> None) \<and>
     (\<forall>u. url_scheme L u \<in> {''ws'', ''wss''} \<longrightarrow> url_port_or_known_default L u \<noteq> None)"

section \<open>Connector\<close>

record ('u, 'c, 'g) ws_connector =
  wc_urls :: "'u list"
  wc_ip_version :: ip_version
  wc_resolve_interval :: duration
  wc_connector :: "'c option"
  wc_web_socket_config :: "'g option"
  wc_multi_interface :: bool
  wc_interface_filter :: "network_interface \<Rightarrow> bool"

fun parse_urls :: "'u url_ops \<Rightarrow> string list \<Rightarrow> 'u list io_result" where
  "parse_urls L [] = Inr []"
| "parse_urls L (s # ss) =
     (case url_parse L s of
        Inl e \<Rightarrow> Inl (IoError InvalidInput e)
      | Inr u \<Rightarrow> io_bind (parse_urls L ss) (\<lambda>us. Inr (u # us)))"

fun check_urls :: "'u url_ops \<Rightarrow> 'u list \<Rightarrow> unit io_result" where
  "check_urls L [] = Inr ()"
| "check_urls L (u # us) =
     (if \<not> url_has_host L u then Inl (IoError InvalidInput ''URL must have a host'')
      else if url_scheme L u \<notin> {''ws'', ''wss''} then Inl (IoError InvalidInput ''URL must have scheme ws or wss'')
      else check_urls L us)"

definition ws_unresolved :: "'u url_ops \<Rightarrow> bool \<Rightarrow> string list \<Rightarrow> ('u, 'c, 'g) ws_connector io_result" where
  "ws_unresolved L android ss =
     io_bind (parse_urls L ss) (\<lambda>urls.
       if urls = [] then Inl (IoError InvalidInput ''at least one URL is required'')
       else io_bind (check_urls L urls) (\<lambda>_.
         Inr \<lparr>wc_urls = urls, wc_ip_version = Both, wc_resolve_interval = from_secs 10, wc_connector = None,
           wc_web_socket_config = None, wc_multi_interface = (\<not> android), wc_interface_filter = (\<lambda>_. True)\<rparr>))"

definition ws_set_ip_version :: "ip_version \<Rightarrow> ('u, 'c, 'g) ws_connector \<Rightarrow> ('u, 'c, 'g) ws_connector" where
  "ws_set_ip_version v c = c\<lparr>wc_ip_version := v\<rparr>"

definition ws_set_resolve_interval :: "duration \<Rightarrow> ('u, 'c, 'g) ws_connector \<Rightarrow> ('u, 'c, 'g) ws_connector" where
  "ws_set_resolve_interval d c = c\<lparr>wc_resolve_interval := d\<rparr>"

definition ws_set_connector :: "'c option \<Rightarrow> ('u, 'c, 'g) ws_connector \<Rightarrow> ('u, 'c, 'g) ws_connector" where
  "ws_set_connector x c = c\<lparr>wc_connector := x\<rparr>"

definition ws_set_web_socket_config :: "'g option \<Rightarrow> ('u, 'c, 'g) ws_connector \<Rightarrow> ('u, 'c, 'g) ws_connector" where
  "ws_set_web_socket_config g c = c\<lparr>wc_web_socket_config := g\<rparr>"

definition ws_set_multi_interface :: "bool \<Rightarrow> ('u, 'c, 'g) ws_connector \<Rightarrow> ('u, 'c, 'g) ws_connector" where
  "ws_set_multi_interface b c = c\<lparr>wc_multi_interface := b\<rparr>"

definition ws_set_interface_filter ::
  "(network_interface \<Rightarrow> bool) \<Rightarrow> ('u, 'c, 'g) ws_connector \<Rightarrow> ('u, 'c, 'g) ws_connector" where
  "ws_set_interface_filter f c = c\<lparr>wc_interface_filter := f\<rparr>"

text \<open>The display of a connector without URLs would panic.\<close>

definition ws_connector_display :: "'u url_ops \<Rightarrow> ('u, 'c, 'g) ws_connector \<Rightarrow> string option" where
  "ws_connector_display L c =
     (let urls = map (url_show L) (wc_urls c) in
      if length (wc_urls c) > 1 then Some (''['' @ join '', '' urls @ '']'') else nth_opt urls 0)"

text \<open>Resolution of the URLs into a map; it panics if host or port are missing.\<close>

fun ws_resolve_urls ::
  "show_env \<Rightarrow> 'u url_ops \<Rightarrow> (string \<Rightarrow> socket_addr list io_result) \<Rightarrow> ip_version \<Rightarrow> 'u list \<Rightarrow>
   ('u \<rightharpoonup> socket_addr list) \<Rightarrow> ('u \<rightharpoonup> socket_addr list) option" where
  "ws_resolve_urls S L lookup v [] m = Some m"
| "ws_resolve_urls S L lookup v (u # us) m =
     do {
       host \<leftarrow> url_host_str L u;
       port \<leftarrow> url_port_or_known_default L u;
       ws_resolve_urls S L lookup v us (m(u \<mapsto> resolve_hosts lookup [host @ '':'' @ sh_nat S (unat port)] v))
     }"

definition ws_resolve ::
  "show_env \<Rightarrow> 'u url_ops \<Rightarrow> (string \<Rightarrow> socket_addr list io_result) \<Rightarrow> ('u, 'c, 'g) ws_connector \<Rightarrow>
   ('u \<rightharpoonup> socket_addr list) option" where
  "ws_resolve S L lookup c = ws_resolve_urls S L lookup (wc_ip_version c) (wc_urls c) (\<lambda>_. None)"

definition ws_new ::
  "show_env \<Rightarrow> 'u url_ops \<Rightarrow> bool \<Rightarrow> (string \<Rightarrow> socket_addr list io_result) \<Rightarrow> string list \<Rightarrow>
   ('u, 'c, 'g) ws_connector io_result option" where
  "ws_new S L android lookup ss =
     (case ws_unresolved L android ss of
        Inl e \<Rightarrow> Some (Inl e)
      | Inr c \<Rightarrow>
          do {
            addrs \<leftarrow> ws_resolve S L lookup c;
            Some (if \<forall>as \<in> ran addrs. as = [] then Inl (IoError NotFound ''cannot resolve IP address of any URL'')
                  else Inr c)
          })"

subsection \<open>Discovery\<close>

definition ws_tag :: "'u url_ops \<Rightarrow> 'u \<Rightarrow> socket_addr \<Rightarrow> local \<Rightarrow> link_tag" where
  "ws_tag L u a l = WsOut \<lparr>wo_local = l, wo_remote = a, wo_url = url_show L u, wo_tls = (url_scheme L u = ''wss'')\<rparr>"

definition ws_tags ::
  "'u url_ops \<Rightarrow> 's udp_os \<Rightarrow> network_interface list option \<Rightarrow> ('u \<rightharpoonup> socket_addr list) \<Rightarrow> link_tag set" where
  "ws_tags L U ifs addrs =
     (\<Union>u \<in> dom addrs. \<Union>a \<in> set (the (addrs u)).
        (case ifs of
           Some ifs \<Rightarrow> (\<lambda>i. ws_tag L u a (Interface i)) ` interface_names_for_target ifs (sa_ip a)
         | None \<Rightarrow>
             (case local_address_for_target U a of
                Inr src \<Rightarrow> {ws_tag L u a (Address src)}
              | Inl _ \<Rightarrow> {})))"

record 'u ws_discovery =
  wd_addrs :: "'u \<rightharpoonup> socket_addr list"
  wd_resolved :: "instant option"
  wd_tags :: "link_tag set"
  wd_version :: nat

definition ws_discovery_start :: "'u ws_discovery" where
  "ws_discovery_start = \<lparr>wd_addrs = (\<lambda>_. None), wd_resolved = None, wd_tags = {}, wd_version = 0\<rparr>"

definition ws_publish_tags :: "link_tag set \<Rightarrow> 'u ws_discovery \<Rightarrow> 'u ws_discovery" where
  "ws_publish_tags tags s =
     (if wd_tags s \<noteq> tags then s\<lparr>wd_tags := tags, wd_version := Suc (wd_version s)\<rparr> else s)"

text \<open>A round of the loop of \<open>link_tags\<close>; \<open>None\<close> is a panic.\<close>

definition ws_link_tags ::
  "show_env \<Rightarrow> 'u url_ops \<Rightarrow> 's udp_os \<Rightarrow> string + network_interface list \<Rightarrow> (string \<Rightarrow> socket_addr list io_result) \<Rightarrow>
   instant \<Rightarrow> instant \<Rightarrow> ('u, 'c, 'g) ws_connector \<Rightarrow> 'u ws_discovery \<Rightarrow> 'u ws_discovery io_result option" where
  "ws_link_tags S L U shown lookup now resolved c s =
     (case (if wc_multi_interface c
            then map_sum id (\<lambda>ifs. Some (filter (wc_interface_filter c) ifs)) (local_interfaces shown) else Inr None) of
        Inl e \<Rightarrow> Some (Inl e)
      | Inr ifs \<Rightarrow>
          do {
            s \<leftarrow> (if (case wd_resolved s of None \<Rightarrow> True | Some t \<Rightarrow> wc_resolve_interval c \<le> elapsed now t)
                  then do { addrs \<leftarrow> ws_resolve S L lookup c; Some (s\<lparr>wd_addrs := addrs, wd_resolved := Some resolved\<rparr>) }
                  else Some s);
            Some (Inr (ws_publish_tags (ws_tags L U ifs (wd_addrs s)) s))
          })"

subsection \<open>Messages\<close>

text \<open>
  A WebSocket carries binary messages and others (text, ping, pong, close); errors of reading are
  texts.  Only the binary messages are read, and all data is written as binary messages.
\<close>

datatype ws_message = Binary bytes | OtherMessage

fun ws_read_items :: "(string + ws_message) list \<Rightarrow> bytes io_result list" where
  "ws_read_items [] = []"
| "ws_read_items (Inl e # ms) = Inl (IoError OtherError e) # ws_read_items ms"
| "ws_read_items (Inr (Binary b) # ms) = Inr b # ws_read_items ms"
| "ws_read_items (Inr OtherMessage # ms) = ws_read_items ms"

definition ws_write_item :: "bytes \<Rightarrow> ws_message" where
  "ws_write_item b = Binary b"

datatype 'k ws_read_half = WsRead 'k
datatype 'k ws_write_half = WsWrite 'k

subsection \<open>Connecting\<close>

record ('s, 't, 'k, 'c, 'g) ws_os =
  wso_socket :: "bool \<Rightarrow> 's io_result"
  wso_bind_interface :: "'s \<Rightarrow> bytes \<Rightarrow> ip_addr \<Rightarrow> 's io_result"
  wso_socket_setup :: "'s \<Rightarrow> ws_out_tag \<Rightarrow> 's io_result"
  wso_connect :: "'s \<Rightarrow> socket_addr \<Rightarrow> 't io_result"
  wso_stream_setup :: "'t \<Rightarrow> ws_out_tag \<Rightarrow> 't io_result"
  wso_local_addr :: "'t \<Rightarrow> socket_addr io_result"
  wso_plain :: 'c
  wso_upgrade :: "string \<Rightarrow> 't \<Rightarrow> 'g option \<Rightarrow> 'c option \<Rightarrow> string + 'k"

definition ws_connect ::
  "show_env \<Rightarrow> ('s, 't, 'k, 'c, 'g) ws_os \<Rightarrow> ('u, 'c, 'g) ws_connector \<Rightarrow> link_tag \<Rightarrow>
   ('p, 'k ws_read_half, 'k ws_write_half) stream_box io_result option" where
  "ws_connect S T c tag =
     (case tag of
        WsOut t \<Rightarrow>
          Some (io_bind (wso_socket T (is_ipv6 (sa_ip (wo_remote t)))) (\<lambda>s.
            io_bind (case wo_local t of
                       Interface i \<Rightarrow> wso_bind_interface T s i (sa_ip (wo_remote t))
                     | Address _ \<Rightarrow> Inr s) (\<lambda>s.
            io_bind (wso_socket_setup T s t) (\<lambda>s.
            io_bind (wso_connect T s (wo_remote t)) (\<lambda>st.
            io_bind (wso_stream_setup T st t) (\<lambda>st.
            io_bind (case wo_local t of
                       Address req \<Rightarrow>
                         io_bind (wso_local_addr T st) (\<lambda>a.
                           if to_canonical (sa_ip a) \<noteq> req then Inl (addr_mismatch S req (to_canonical (sa_ip a))) else Inr ())
                     | Interface _ \<Rightarrow> Inr ()) (\<lambda>_.
            (case wso_upgrade T (wo_url t) st (wc_web_socket_config c)
                    (if wo_tls t then wc_connector c else Some (wso_plain T)) of
               Inl e \<Rightarrow> Inl (IoError ConnectionRefused e)
             | Inr k \<Rightarrow> Inr (Io (WsRead k) (WsWrite k))))))))))
      | _ \<Rightarrow> None)"

subsection \<open>Link filter\<close>

definition ws_redundant :: "ws_out_tag \<Rightarrow> link_tag link_handle \<Rightarrow> link_tag link_handle \<Rightarrow> bool" where
  "ws_redundant new_tag new link =
     (case lh_tag link of
        WsOut tag \<Rightarrow> wo_local tag = wo_local new_tag \<and> lh_remote_user_data link = lh_remote_user_data new
      | _ \<Rightarrow> False)"

definition ws_filter :: "link_tag link_handle \<Rightarrow> link_tag link_handle list \<Rightarrow> bool" where
  "ws_filter new existing =
     (case lh_tag new of
        WsOut new_tag \<Rightarrow> (case List.find (ws_redundant new_tag new) existing of Some _ \<Rightarrow> False | None \<Rightarrow> True)
      | _ \<Rightarrow> True)"

section \<open>Acceptor\<close>

text \<open>
  The handlers of the web server and the acceptor share a channel of 16 places.  A handler reserves a
  place before it upgrades the request; it refuses it if the acceptor is gone, and waits while no place
  is free.  A state holds the requests that are being upgraded, with the addresses, the channel,
  whether the router and the acceptor exist, and what the acceptor has handed over.  The acceptor listens
  at most once at a time: \<open>listen\<close> panics if it is already running.
\<close>

record 'k incoming_web_socket =
  iw_local :: socket_addr
  iw_remote :: socket_addr
  iw_web_socket :: 'k

definition WS_QUEUE :: nat where
  "WS_QUEUE = 16"

record 'k ws_acceptor =
  wa_upgrading :: "(socket_addr \<times> socket_addr) list"
  wa_queue :: "'k incoming_web_socket list"
  wa_router :: bool
  wa_dropped :: bool
  wa_listening :: bool
  wa_accepted :: "(link_tag \<times> 'k ws_read_half \<times> 'k ws_write_half) list"
  wa_refused :: nat
  wa_result :: "io_error option"

definition ws_acceptor_new :: "'k ws_acceptor" where
  "ws_acceptor_new = \<lparr>wa_upgrading = [], wa_queue = [], wa_router = True, wa_dropped = False, wa_listening = False, wa_accepted = [],
     wa_refused = 0, wa_result = None\<rparr>"

text \<open>The local address of \<open>router\<close>.\<close>

definition router_addr :: socket_addr where
  "router_addr = SocketAddr (V6 0) 0"

definition ws_incoming_tag :: "('k \<Rightarrow> string option) \<Rightarrow> 'k incoming_web_socket \<Rightarrow> link_tag" where
  "ws_incoming_tag proto i =
     WsIn \<lparr>wi_local = iw_local i, wi_remote = use_proper_ipv4 (iw_remote i), wi_protocol = proto (iw_web_socket i)\<rparr>"

inductive ws_acceptor_step :: "('k \<Rightarrow> string option) \<Rightarrow> 'k ws_acceptor \<Rightarrow> 'k ws_acceptor \<Rightarrow> bool" for proto where
  ws_reserve: "wa_router s \<Longrightarrow> \<not> wa_dropped s \<Longrightarrow> length (wa_upgrading s) + length (wa_queue s) < WS_QUEUE \<Longrightarrow>
    ws_acceptor_step proto s (s\<lparr>wa_upgrading := wa_upgrading s @ [(local_addr, remote)]\<rparr>)"
| ws_unavailable: "wa_router s \<Longrightarrow> wa_dropped s \<Longrightarrow> ws_acceptor_step proto s (s\<lparr>wa_refused := Suc (wa_refused s)\<rparr>)"
| ws_upgraded: "i < length (wa_upgrading s) \<Longrightarrow> wa_upgrading s ! i = (l, r) \<Longrightarrow>
    ws_acceptor_step proto s (s\<lparr>wa_upgrading := remove_nth i (wa_upgrading s),
      wa_queue := wa_queue s @ [\<lparr>iw_local = l, iw_remote = r, iw_web_socket = k\<rparr>]\<rparr>)"
| ws_upgrade_failed: "i < length (wa_upgrading s) \<Longrightarrow>
    ws_acceptor_step proto s (s\<lparr>wa_upgrading := remove_nth i (wa_upgrading s)\<rparr>)"
| ws_listen: "\<not> wa_dropped s \<Longrightarrow> \<not> wa_listening s \<Longrightarrow> ws_acceptor_step proto s (s\<lparr>wa_listening := True\<rparr>)"
| ws_recv: "wa_listening s \<Longrightarrow> wa_queue s = i # q \<Longrightarrow>
    ws_acceptor_step proto s (s\<lparr>wa_queue := q,
      wa_accepted := wa_accepted s @ [(ws_incoming_tag proto i, WsRead (iw_web_socket i), WsWrite (iw_web_socket i))]\<rparr>)"
| ws_router_dropped: "ws_acceptor_step proto s (s\<lparr>wa_router := False\<rparr>)"
| ws_listen_end: "\<not> wa_router s \<Longrightarrow> wa_listening s \<Longrightarrow> wa_queue s = [] \<Longrightarrow> wa_upgrading s = [] \<Longrightarrow>
    ws_acceptor_step proto s (s\<lparr>wa_listening := False, wa_result := Some (IoError ConnectionReset ''router was dropped'')\<rparr>)"
| ws_cancel: "wa_listening s \<Longrightarrow> ws_acceptor_step proto s (s\<lparr>wa_listening := False\<rparr>)"
| ws_drop: "\<not> wa_listening s \<Longrightarrow> ws_acceptor_step proto s (s\<lparr>wa_dropped := True, wa_queue := []\<rparr>)"

section \<open>Lemmas\<close>

lemma parse_urls_Inr:
  "parse_urls L ss = Inr us \<longleftrightarrow> list_all2 (\<lambda>s u. url_parse L s = Inr u) ss us"
  by (induction L ss arbitrary: us rule: parse_urls.induct)
    (auto simp: io_bind_def list_all2_Cons1 split: sum.splits)

lemma check_urls_Inr:
  "check_urls L us = Inr () \<longleftrightarrow> (\<forall>u \<in> set us. url_has_host L u \<and> url_scheme L u \<in> {''ws'', ''wss''})"
  by (induction L us rule: check_urls.induct) auto

lemma ws_unresolved_Inr:
  "(\<exists>c. ws_unresolved L android ss = Inr c) \<longleftrightarrow> ss \<noteq> [] \<and>
     (\<forall>s \<in> set ss. \<exists>u. url_parse L s = Inr u \<and> url_has_host L u \<and> url_scheme L u \<in> {''ws'', ''wss''})"
  (is "?l \<longleftrightarrow> ?r")
proof
  assume ?l
  then obtain us where us: "parse_urls L ss = Inr us" "us \<noteq> []" "check_urls L us = Inr ()"
    by (auto simp: ws_unresolved_def io_bind_def split: sum.splits if_splits)
  have "\<exists>u. url_parse L s = Inr u \<and> u \<in> set us" if "s \<in> set ss" for s
  proof -
    from that obtain i where "i < length ss" "s = ss ! i" by (auto simp: in_set_conv_nth)
    with us(1) show ?thesis unfolding parse_urls_Inr
      by (intro exI [of _ "us ! i"]) (simp add: list_all2_conv_all_nth)
  qed
  moreover have "ss \<noteq> []" using us(1,2) by auto
  ultimately show ?r using us(3) unfolding check_urls_Inr by blast
next
  assume r: ?r
  define sel where "sel s = (SOME u. url_parse L s = Inr u)" for s
  have sel: "url_parse L s = Inr (sel s) \<and> url_has_host L (sel s) \<and> url_scheme L (sel s) \<in> {''ws'', ''wss''}"
    if "s \<in> set ss" for s
  proof -
    from r that obtain u where u: "url_parse L s = Inr u" "url_has_host L u" "url_scheme L u \<in> {''ws'', ''wss''}" by blast
    then have "sel s = u" by (simp add: sel_def)
    with u show ?thesis by simp
  qed
  then have us: "parse_urls L ss = Inr (map sel ss)"
    unfolding parse_urls_Inr by (simp add: list_all2_conv_all_nth)
  moreover have "check_urls L (map sel ss) = Inr ()" unfolding check_urls_Inr using sel by simp
  ultimately show ?l using r by (simp add: ws_unresolved_def io_bind_def)
qed

lemma ws_unresolved_urls:
  "ws_unresolved L android ss = Inr c \<Longrightarrow>
     wc_urls c \<noteq> [] \<and> (\<forall>u \<in> set (wc_urls c). url_has_host L u \<and> url_scheme L u \<in> {''ws'', ''wss''})"
  using check_urls_Inr by (fastforce simp: ws_unresolved_def io_bind_def split: sum.splits if_splits)

lemma ws_resolve_urls_Some:
  assumes "url_law L" and "\<forall>u \<in> set us. url_has_host L u \<and> url_scheme L u \<in> {''ws'', ''wss''}"
  shows "\<exists>m'. ws_resolve_urls S L lookup v us m = Some m' \<and> dom m' = dom m \<union> set us"
  using assms(2)
proof (induction us arbitrary: m)
  case (Cons u us)
  then have "url_has_host L u" "url_scheme L u \<in> {''ws'', ''wss''}" by simp_all
  then have "url_host_str L u \<noteq> None" "url_port_or_known_default L u \<noteq> None" using assms(1) unfolding url_law_def by blast+
  then obtain host port where u: "url_host_str L u = Some host" "url_port_or_known_default L u = Some port" by blast
  obtain m' where "ws_resolve_urls S L lookup v us (m(u \<mapsto> resolve_hosts lookup [host @ '':'' @ sh_nat S (unat port)] v)) = Some m'"
    "dom m' = dom (m(u \<mapsto> resolve_hosts lookup [host @ '':'' @ sh_nat S (unat port)] v)) \<union> set us"
    using Cons.IH Cons.prems by (meson list.set_intros(2))
  then show ?case by (simp add: u)
qed simp

lemma ws_tags_sound:
  assumes "tag \<in> ws_tags L U ifs addrs"
  shows "\<exists>u a l. tag = ws_tag L u a l \<and> u \<in> dom addrs \<and> a \<in> set (the (addrs u))"
proof (cases ifs)
  case None
  with assms obtain u a where ua: "u \<in> dom addrs" "a \<in> set (the (addrs u))"
    "tag \<in> (case local_address_for_target U a of Inr src \<Rightarrow> {ws_tag L u a (Address src)} | Inl _ \<Rightarrow> {})"
    unfolding ws_tags_def by auto
  then show ?thesis by (cases "local_address_for_target U a") auto
next
  case (Some ifs')
  with assms show ?thesis unfolding ws_tags_def by auto
qed

lemma ws_publish [simp]: "wd_tags (ws_publish_tags tags s) = tags" "wd_addrs (ws_publish_tags tags s) = wd_addrs s"
  by (simp_all add: ws_publish_tags_def)

lemma ws_link_tags_Some:
  assumes "ws_resolve S L lookup c = Some m" and "dom m \<subseteq> A" and "dom (wd_addrs s) \<subseteq> A"
  shows "\<exists>res. ws_link_tags S L U shown lookup now resolved c s = Some res \<and>
    (\<forall>s'. res = Inr s' \<longrightarrow> dom (wd_addrs s') \<subseteq> A \<and> (\<exists>ifs. wd_tags s' = ws_tags L U ifs (wd_addrs s')))"
proof -
  let ?due = "case wd_resolved s of None \<Rightarrow> True | Some t \<Rightarrow> wc_resolve_interval c \<le> elapsed now t"
  let ?s = "if ?due then s\<lparr>wd_addrs := m, wd_resolved := Some resolved\<rparr> else s"
  let ?ifs = "if wc_multi_interface c
      then map_sum id (\<lambda>ifs. Some (filter (wc_interface_filter c) ifs)) (local_interfaces shown) else Inr None"
  have "dom (wd_addrs ?s) \<subseteq> A" using assms(2,3) by simp
  moreover have "ws_link_tags S L U shown lookup now resolved c s =
      (case ?ifs of Inl e \<Rightarrow> Some (Inl e) | Inr ifs \<Rightarrow> Some (Inr (ws_publish_tags (ws_tags L U ifs (wd_addrs ?s)) ?s)))"
    unfolding ws_link_tags_def assms(1) by (cases ?due; cases ?ifs) simp_all
  ultimately show ?thesis by (cases ?ifs) auto
qed

subsection \<open>The acceptor\<close>

text \<open>The web sockets that were upgraded and not dropped, in order of their upgrade.\<close>

definition ws_kept :: "'k ws_acceptor \<Rightarrow> 'k list" where
  "ws_kept s = map (\<lambda>(_, r, _). case r of WsRead k \<Rightarrow> k) (wa_accepted s) @ map iw_web_socket (wa_queue s)"

definition ws_acceptor_inv :: "'k ws_acceptor \<Rightarrow> bool" where
  "ws_acceptor_inv s \<longleftrightarrow> length (wa_upgrading s) + length (wa_queue s) \<le> WS_QUEUE \<and>
     (wa_dropped s \<longrightarrow> \<not> wa_listening s) \<and>
     (\<forall>(tag, r, w) \<in> set (wa_accepted s). (\<exists>t. tag = WsIn t \<and> to_canonical (sa_ip (wi_remote t)) = sa_ip (wi_remote t)) \<and>
        (\<exists>k. r = WsRead k \<and> w = WsWrite k)) \<and>
     (wa_result s \<noteq> None \<longrightarrow> \<not> wa_router s \<and> wa_upgrading s = [] \<and> wa_queue s = [])"

definition ws_acceptor_moves :: "'k ws_acceptor \<Rightarrow> 'k ws_acceptor \<Rightarrow> bool" where
  "ws_acceptor_moves s s' \<longleftrightarrow> (wa_dropped s \<longrightarrow> wa_dropped s') \<and> (wa_dropped s' \<or> prefix (ws_kept s) (ws_kept s')) \<and>
     prefix (wa_accepted s) (wa_accepted s')"

lemma length_remove_nth [simp]: "i < length xs \<Longrightarrow> length (remove_nth i xs) = length xs - 1"
  by (simp add: remove_nth_def)

lemma ws_acceptor_step_ok:
  assumes "ws_acceptor_step proto s s'" and "ws_acceptor_inv s"
  shows "ws_acceptor_inv s' \<and> ws_acceptor_moves s s'"
  using assms
proof (cases rule: ws_acceptor_step.cases)
  case (ws_recv i q)
  then show ?thesis using assms(2)
    by (auto simp: ws_acceptor_inv_def ws_acceptor_moves_def ws_kept_def ws_incoming_tag_def use_proper_ipv4_canonical)
qed (auto simp: ws_acceptor_inv_def ws_acceptor_moves_def ws_kept_def)

interpretation wsa: step_system "ws_acceptor_step proto" ws_acceptor_inv ws_acceptor_moves
  for proto :: "'k \<Rightarrow> string option"
proof unfold_locales
  fix s s' s'' :: "'k ws_acceptor"
  show "ws_acceptor_inv s \<Longrightarrow> ws_acceptor_step proto s s' \<Longrightarrow> ws_acceptor_inv s'"
    and "ws_acceptor_inv s \<Longrightarrow> ws_acceptor_step proto s s' \<Longrightarrow> ws_acceptor_moves s s'"
    using ws_acceptor_step_ok by blast+
  show "ws_acceptor_moves s s' \<Longrightarrow> ws_acceptor_moves s' s'' \<Longrightarrow> ws_acceptor_moves s s''"
    unfolding ws_acceptor_moves_def by (meson prefix_order.trans)
qed (simp add: ws_acceptor_moves_def)

section \<open>Properties\<close>

text \<open>
  A WebSocket connector is created exactly from a list of at least one text, each of them a URL with a host and
  the scheme ws or wss.  Discovery over such a connector never panics, whatever it was configured to afterwards
  and whatever the system answers; the tags it publishes are outgoing WebSocket tags for the
  URLs of the connector, and ask for TLS exactly if the scheme is wss.
\<close>

theorem ws_urls_checked:
  fixes L :: "'u url_ops" and U :: "'s udp_os"
  assumes "url_law L"
  shows "((\<exists>c :: ('u, 'c, 'g) ws_connector. ws_unresolved L android ss = Inr c) \<longleftrightarrow> ss \<noteq> [] \<and>
      (\<forall>s \<in> set ss. \<exists>u. url_parse L s = Inr u \<and> url_has_host L u \<and> url_scheme L u \<in> {''ws'', ''wss''})) \<and>
    (\<forall>(c :: ('u, 'c, 'g) ws_connector) (c' :: ('u, 'c, 'g) ws_connector) (s :: 'u ws_discovery). ws_unresolved L android ss = Inr c \<longrightarrow> wc_urls c' = wc_urls c \<longrightarrow> dom (wd_addrs s) \<subseteq> set (wc_urls c) \<longrightarrow>
      (\<exists>res. ws_link_tags S L U shown lookup now resolved c' s = Some res \<and>
        (\<forall>s'. res = Inr s' \<longrightarrow> dom (wd_addrs s') \<subseteq> set (wc_urls c) \<and>
          (\<forall>tag \<in> wd_tags s'. \<exists>t. tag = WsOut t \<and>
             (\<exists>u \<in> set (wc_urls c). wo_url t = url_show L u \<and> (wo_tls t \<longleftrightarrow> url_scheme L u = ''wss''))))))"
proof (intro conjI allI impI)
  show "(\<exists>c :: ('u, 'c, 'g) ws_connector. ws_unresolved L android ss = Inr c) \<longleftrightarrow> ss \<noteq> [] \<and>
      (\<forall>s \<in> set ss. \<exists>u. url_parse L s = Inr u \<and> url_has_host L u \<and> url_scheme L u \<in> {''ws'', ''wss''})"
    by (rule ws_unresolved_Inr)
  fix c c' :: "('u, 'c, 'g) ws_connector" and s :: "'u ws_discovery"
  assume "ws_unresolved L android ss = Inr c" and same: "wc_urls c' = wc_urls c" and dom: "dom (wd_addrs s) \<subseteq> set (wc_urls c)"
  then have urls: "\<forall>u \<in> set (wc_urls c). url_has_host L u \<and> url_scheme L u \<in> {''ws'', ''wss''}"
    using ws_unresolved_urls by blast
  obtain m where m: "ws_resolve S L lookup c' = Some m" "dom m = set (wc_urls c)"
    using ws_resolve_urls_Some [OF assms urls, of S lookup "wc_ip_version c'" "\<lambda>_. None"] same by (auto simp: ws_resolve_def)
  from ws_link_tags_Some [OF m(1) _ dom, of U shown now resolved] m(2) obtain res where
    res: "ws_link_tags S L U shown lookup now resolved c' s = Some res"
      "\<And>s'. res = Inr s' \<Longrightarrow> dom (wd_addrs s') \<subseteq> set (wc_urls c) \<and> (\<exists>ifs. wd_tags s' = ws_tags L U ifs (wd_addrs s'))"
    by blast
  have "\<exists>t. tag = WsOut t \<and> (\<exists>u \<in> set (wc_urls c). wo_url t = url_show L u \<and> (wo_tls t \<longleftrightarrow> url_scheme L u = ''wss''))"
    if s': "res = Inr s'" and "tag \<in> wd_tags s'" for s' tag
  proof -
    from res(2) [OF s'] that(2) ws_tags_sound obtain u a l where "tag = ws_tag L u a l" "u \<in> set (wc_urls c)" by blast
    then show ?thesis by (auto simp: ws_tag_def)
  qed
  with res show "\<exists>res. ws_link_tags S L U shown lookup now resolved c' s = Some res \<and>
        (\<forall>s'. res = Inr s' \<longrightarrow> dom (wd_addrs s') \<subseteq> set (wc_urls c) \<and>
          (\<forall>tag \<in> wd_tags s'. \<exists>t. tag = WsOut t \<and>
             (\<exists>u \<in> set (wc_urls c). wo_url t = url_show L u \<and> (wo_tls t \<longleftrightarrow> url_scheme L u = ''wss''))))"
    by blast
qed

text \<open>URLs that are texts of a scheme and a host.\<close>

definition demo_urls :: "(string \<times> string) url_ops" where
  "demo_urls = \<lparr>url_parse = (\<lambda>s. if s = ''ws://a'' then Inr (''ws'', ''a'') else if s = ''wss://b'' then Inr (''wss'', ''b'')
       else Inl ''invalid''), url_has_host = (\<lambda>u. snd u \<noteq> []), url_scheme = fst,
     url_host_str = (\<lambda>u. Some (snd u)), url_port_or_known_default = (\<lambda>u. Some (if fst u = ''ws'' then 80 else 443)),
     url_show = (\<lambda>u. fst u @ ''://'' @ snd u)\<rparr>"

theorem ws_urls_checked_witness:
  "url_law demo_urls \<and> (\<exists>c :: (_, unit, unit) ws_connector. ws_unresolved demo_urls False [''wss://b'', ''ws://a''] = Inr c) \<and>
   \<not> (\<exists>c :: (_, unit, unit) ws_connector. ws_unresolved demo_urls False [''ws://a'', ''http://c''] = Inr c)"
proof (intro conjI)
  show law: "url_law demo_urls" by (simp add: url_law_def demo_urls_def)
  show "\<exists>c :: (_, unit, unit) ws_connector. ws_unresolved demo_urls False [''wss://b'', ''ws://a''] = Inr c"
    "\<not> (\<exists>c :: (_, unit, unit) ws_connector. ws_unresolved demo_urls False [''ws://a'', ''http://c''] = Inr c)"
    unfolding ws_urls_checked [OF law, THEN conjunct1] by (simp_all add: demo_urls_def)
qed

text \<open>
  In every run of a WebSocket acceptor at most 16 requests are between their acceptance by a handler and their
  delivery.  What it delivers are links with incoming WebSocket tags whose remote address is a
  proper IPv4 address where it can be one; while the acceptor exists they are delivered in the order of their
  upgrades, none is lost, and listening fails only if the router is gone and nothing is left to deliver.
\<close>

theorem ws_acceptor_order:
  assumes "(ws_acceptor_step proto)\<^sup>*\<^sup>* ws_acceptor_new s" and "(ws_acceptor_step proto)\<^sup>*\<^sup>* s s'"
  shows "length (wa_upgrading s) + length (wa_queue s) \<le> 16 \<and>
    (\<forall>(tag, r, w) \<in> set (wa_accepted s).
       \<exists>t. tag = WsIn t \<and> to_canonical (sa_ip (wi_remote t)) = sa_ip (wi_remote t) \<and> (\<exists>k. r = WsRead k \<and> w = WsWrite k)) \<and>
    (\<not> wa_dropped s' \<longrightarrow> (\<exists>later. map (fst \<circ> snd) (wa_accepted s') @ map (WsRead \<circ> iw_web_socket) (wa_queue s') =
       map (fst \<circ> snd) (wa_accepted s) @ map (WsRead \<circ> iw_web_socket) (wa_queue s) @ later)) \<and>
    (wa_result s \<noteq> None \<longrightarrow> \<not> wa_router s \<and> wa_upgrading s = [] \<and> wa_queue s = [])"
proof -
  have init: "ws_acceptor_inv (ws_acceptor_new :: 'a ws_acceptor)" by (simp add: ws_acceptor_inv_def ws_acceptor_new_def)
  have inv: "ws_acceptor_inv s" by (rule wsa.run_inv [OF assms(1) init])
  have moves: "ws_acceptor_moves s s'" by (rule wsa.run_moves [OF assms(2) inv])
  have kept: "map WsRead (ws_kept s) = map (fst \<circ> snd) (wa_accepted s) @ map (WsRead \<circ> iw_web_socket) (wa_queue s)" for s :: "'a ws_acceptor"
    by (auto simp: ws_kept_def split: ws_read_half.splits prod.splits)
  have "\<exists>later. map (fst \<circ> snd) (wa_accepted s') @ map (WsRead \<circ> iw_web_socket) (wa_queue s') =
       map (fst \<circ> snd) (wa_accepted s) @ map (WsRead \<circ> iw_web_socket) (wa_queue s) @ later" if "\<not> wa_dropped s'"
  proof -
    from moves that obtain z where "ws_kept s' = ws_kept s @ z" by (auto simp: ws_acceptor_moves_def prefix_def)
    then have "map WsRead (ws_kept s') = map WsRead (ws_kept s) @ map WsRead z" by simp
    then show ?thesis unfolding kept by auto
  qed
  with inv show ?thesis unfolding ws_acceptor_inv_def WS_QUEUE_def by blast
qed

theorem ws_acceptor_order_witness:
  "\<exists>s. (ws_acceptor_step (\<lambda>_. None))\<^sup>*\<^sup>* ws_acceptor_new s \<and> length (wa_accepted s) = 1 \<and>
     (\<forall>(tag, r, w) \<in> set (wa_accepted s).
        \<exists>t. tag = WsIn t \<and> to_canonical (sa_ip (wi_remote t)) = sa_ip (wi_remote t) \<and> (\<exists>k :: nat. r = WsRead k \<and> w = WsWrite k))"
proof -
  define R where "R = ws_acceptor_step (\<lambda>_ :: nat. None)"
  let ?r = "SocketAddr (V6 0xFFFF01020304) 5"
  define s0 where "s0 = (ws_acceptor_new :: nat ws_acceptor)"
  define s1 where "s1 = s0\<lparr>wa_upgrading := wa_upgrading s0 @ [(router_addr, ?r)]\<rparr>"
  define s2 where "s2 = s1\<lparr>wa_upgrading := remove_nth 0 (wa_upgrading s1),
    wa_queue := wa_queue s1 @ [\<lparr>iw_local = router_addr, iw_remote = ?r, iw_web_socket = 7\<rparr>]\<rparr>"
  define s3 where "s3 = s2\<lparr>wa_listening := True\<rparr>"
  define s4 where "s4 = s3\<lparr>wa_queue := [],
    wa_accepted := wa_accepted s3 @ [(ws_incoming_tag (\<lambda>_. None) \<lparr>iw_local = router_addr, iw_remote = ?r, iw_web_socket = 7 :: nat\<rparr>, WsRead 7, WsWrite 7)]\<rparr>"
  have s3: "wa_queue s3 = [\<lparr>iw_local = router_addr, iw_remote = ?r, iw_web_socket = 7\<rparr>]" "wa_accepted s3 = []" "wa_listening s3"
    by (simp_all add: s3_def s2_def s1_def s0_def ws_acceptor_new_def)
  have "R s0 s1" unfolding R_def s1_def by (rule ws_reserve) (simp_all add: s0_def ws_acceptor_new_def WS_QUEUE_def)
  moreover have "R s1 s2" unfolding R_def s2_def by (rule ws_upgraded) (simp_all add: s1_def s0_def ws_acceptor_new_def)
  moreover have "R s2 s3" unfolding R_def s3_def by (rule ws_listen) (simp_all add: s2_def s1_def s0_def ws_acceptor_new_def)
  moreover have "R s3 s4" unfolding R_def s4_def using ws_recv [of s3, OF s3(3,1), of "\<lambda>_. None"] by simp
  ultimately have run: "R\<^sup>*\<^sup>* s0 s4" by (meson converse_rtranclp_into_rtranclp rtranclp.rtrancl_refl)
  moreover have "length (wa_accepted s4) = 1" by (simp add: s4_def s3)
  ultimately show ?thesis
    using ws_acceptor_order [OF run [unfolded R_def s0_def] rtranclp.rtrancl_refl] unfolding R_def s0_def by blast
qed

end
