(* ===== verification/Socks.thy ===== *)
theory Socks
  imports Tcp_Transport
begin

text \<open>
  The SOCKS5 transport (\<open>aggligator-transport-socks/src/lib.rs\<close>): default ports of proxies and targets, resolution
  of the proxies, discovery of link tags, and connecting through a proxy.

  Parsing and printing of addresses belong to the standard library and the protocol to \<open>tokio_socks\<close>; they
  are the fields of \<open>addr_parse\<close> and \<open>socks_os\<close>.
\<close>

section \<open>Addresses\<close>

record addr_parse =
  ap_socket :: "string \<Rightarrow> socket_addr option"
  ap_ip :: "string \<Rightarrow> ip_addr option"
  ap_u16 :: "string \<Rightarrow> u16 option"

text \<open>Printed socket addresses and ports are read back, and a port has no colon.\<close>

definition addr_law :: "show_env \<Rightarrow> addr_parse \<Rightarrow> bool" where
  "addr_law S P \<longleftrightarrow> (\<forall>a. ap_socket P (sh_socket S a) = Some a) \<and>
     (\<forall>n. ap_u16 P (sh_nat S (unat n)) = Some n \<and> CHR '':'' \<notin> set (sh_nat S (unat n)))"

text \<open>\<open>rsplit_once\<close> for a character: the text before and after its last occurrence.\<close>

definition rsplit_once :: "char \<Rightarrow> string \<Rightarrow> (string \<times> string) option" where
  "rsplit_once c s =
     (case dropWhile (\<lambda>x. x \<noteq> c) (rev s) of
        [] \<Rightarrow> None
      | _ # before \<Rightarrow> Some (rev before, rev (takeWhile (\<lambda>x. x \<noteq> c) (rev s))))"

definition with_default_port :: "show_env \<Rightarrow> addr_parse \<Rightarrow> string \<Rightarrow> u16 \<Rightarrow> string" where
  "with_default_port S P addr default_port =
     (if ap_socket P addr \<noteq> None then addr
      else (case ap_ip P addr of
        Some ip \<Rightarrow> sh_socket S (SocketAddr ip default_port)
      | None \<Rightarrow>
          (if (case rsplit_once CHR '':'' addr of Some (_, port) \<Rightarrow> ap_u16 P port \<noteq> None | None \<Rightarrow> False) then addr
           else addr @ '':'' @ sh_nat S (unat default_port))))"

section \<open>Targets\<close>

text \<open>The address type of \<open>tokio_socks\<close> and the conversions between it and targets.\<close>

datatype target_addr = TaIp socket_addr | TaDomain string u16

fun target_from :: "target_addr \<Rightarrow> socks5_target" where
  "target_from (TaIp a) = Ip a"
| "target_from (TaDomain d p) = Domain d p"

fun into_target_addr :: "socks5_target \<Rightarrow> target_addr" where
  "into_target_addr (Ip a) = TaIp a"
| "into_target_addr (Domain d p) = TaDomain d p"

definition socks_target_parse ::
  "show_env \<Rightarrow> addr_parse \<Rightarrow> (string \<Rightarrow> string + target_addr) \<Rightarrow> string \<Rightarrow> u16 \<Rightarrow> socks5_target io_result" where
  "socks_target_parse S P ta target default_port =
     (case ta (with_default_port S P target default_port) of
        Inl e \<Rightarrow> Inl (IoError InvalidInput e)
      | Inr t \<Rightarrow> Inr (target_from t))"

section \<open>Connector\<close>

definition DEFAULT_PROXY_PORT :: u16 where
  "DEFAULT_PROXY_PORT = 1080"

record socks5_connector =
  sc_proxies :: "string list"
  sc_target :: socks5_target
  sc_resolve_interval :: duration

text \<open>The target is anything that can be turned into an address; here the outcome of that is an argument.\<close>

definition socks_new ::
  "show_env \<Rightarrow> addr_parse \<Rightarrow> string list \<Rightarrow> string + target_addr \<Rightarrow> socks5_connector io_result" where
  "socks_new S P proxies target =
     (let proxies = map (\<lambda>p. with_default_port S P p DEFAULT_PROXY_PORT) proxies in
      if proxies = [] then Inl (IoError InvalidInput ''at least one proxy is required'')
      else (case target of
        Inl e \<Rightarrow> Inl (IoError InvalidInput e)
      | Inr t \<Rightarrow> Inr \<lparr>sc_proxies = proxies, sc_target = target_from t, sc_resolve_interval = from_secs 10\<rparr>))"

definition socks_set_resolve_interval :: "duration \<Rightarrow> socks5_connector \<Rightarrow> socks5_connector" where
  "socks_set_resolve_interval d c = c\<lparr>sc_resolve_interval := d\<rparr>"

definition socks_connector_display :: "show_env \<Rightarrow> socks5_connector \<Rightarrow> string option" where
  "socks_connector_display S c =
     (if length (sc_proxies c) > 1
      then Some (''['' @ join '', '' (sc_proxies c) @ ''] -> '' @ target_display S (sc_target c))
      else map_option (\<lambda>p. p @ '' -> '' @ target_display S (sc_target c)) (nth_opt (sc_proxies c) 0))"

fun socks_resolve_all :: "(string \<Rightarrow> socket_addr list io_result) \<Rightarrow> string list \<Rightarrow> socket_addr set \<Rightarrow> socket_addr set" where
  "socks_resolve_all lookup [] all = all"
| "socks_resolve_all lookup (p # ps) all =
     (case lookup p of
        Inr addrs \<Rightarrow> socks_resolve_all lookup ps (all \<union> set addrs)
      | Inl _ \<Rightarrow> socks_resolve_all lookup ps all)"

definition socks_resolve :: "(string \<Rightarrow> socket_addr list io_result) \<Rightarrow> socks5_connector \<Rightarrow> socket_addr list" where
  "socks_resolve lookup c = sorted_list_of_set (socks_resolve_all lookup (sc_proxies c) {})"

text \<open>A round of \<open>link_tags\<close>: the tags that replace those in the watch channel.\<close>

definition socks_link_tags :: "(string \<Rightarrow> socket_addr list io_result) \<Rightarrow> socks5_connector \<Rightarrow> link_tag set" where
  "socks_link_tags lookup c =
     set (map (\<lambda>proxy. link_tag.Socks \<lparr>so_proxy = proxy, so_target = sc_target c\<rparr>) (socks_resolve lookup c))"

definition socks_connect ::
  "(socket_addr \<Rightarrow> target_addr \<Rightarrow> string + 't) \<Rightarrow> ('t \<Rightarrow> 'r \<times> 'w) \<Rightarrow> link_tag \<Rightarrow>
   ('p, 'r, 'w) stream_box io_result option" where
  "socks_connect conn split tag =
     (case tag of
        link_tag.Socks t \<Rightarrow>
          Some (case conn (so_proxy t) (into_target_addr (so_target t)) of
                  Inl e \<Rightarrow> Inl (IoError OtherError e)
                | Inr s \<Rightarrow> Inr (Io (fst (split s)) (snd (split s))))
      | _ \<Rightarrow> None)"

section \<open>Lemmas\<close>

lemma rsplit_once_append:
  assumes "c \<notin> set b"
  shows "rsplit_once c (a @ c # b) = Some (a, b)"
proof -
  have "takeWhile (\<lambda>x. x \<noteq> c) (rev b @ c # rev a) = rev b" "dropWhile (\<lambda>x. x \<noteq> c) (rev b @ c # rev a) = c # rev a"
    using assms by (auto simp: takeWhile_append dropWhile_append)
  then show ?thesis by (simp add: rsplit_once_def)
qed

lemma rsplit_once_None:
  assumes "c \<notin> set s"
  shows "rsplit_once c s = None"
proof -
  have "dropWhile (\<lambda>x. x \<noteq> c) (rev s) = []" using assms by (auto simp: dropWhile_eq_Nil_conv)
  then show ?thesis unfolding rsplit_once_def by (simp only: list.case)
qed

lemma target_round_trip: "target_from (into_target_addr t) = t"
  by (cases t) simp_all

lemma socks_resolve_all_eq:
  "socks_resolve_all lookup ps all = all \<union> {a. \<exists>p \<in> set ps. \<exists>as. lookup p = Inr as \<and> a \<in> set as}"
  by (induction lookup ps all rule: socks_resolve_all.induct) (auto split: sum.splits)

lemma finite_socks_resolve_all [simp]: "finite all \<Longrightarrow> finite (socks_resolve_all lookup ps all)"
  by (induction lookup ps all rule: socks_resolve_all.induct) (auto split: sum.splits)

lemma socks_resolve_eq: "socks_resolve lookup c = resolve_hosts lookup (sc_proxies c) Both"
  unfolding socks_resolve_def resolve_hosts_def socks_resolve_all_eq [of _ _ "{}"] resolve_all_eq [of _ _ _ "{}"]
  by (rule arg_cong [of _ _ sorted_list_of_set]) auto

section \<open>Properties\<close>

text \<open>
  Adding a default port to a text is idempotent, unless the text followed by the port happens to be an IP address:
  a text with a port stays as it is, so that the port of the user wins over every default; an IP address becomes the
  socket address with the default port, and any other text is followed by the port.  The TCP connector,
  in contrast, takes every colon for a port and leaves an IPv6 address without one.
\<close>

theorem default_port_added_once:
  assumes "addr_law S P"
  shows "(ap_ip P (addr @ '':'' @ sh_nat S (unat port)) = None \<longrightarrow>
       with_default_port S P (with_default_port S P addr port) port' = with_default_port S P addr port) \<and>
    (\<forall>ip. ap_socket P addr = None \<longrightarrow> ap_ip P addr = Some ip \<longrightarrow>
       ap_socket P (with_default_port S P addr port) = Some (SocketAddr ip port)) \<and>
    (CHR '':'' \<in> set addr \<longrightarrow> host_with_port S port addr = addr) \<and>
    (CHR '':'' \<notin> set addr \<longrightarrow> ap_ip P addr = None \<longrightarrow> ap_socket P addr = None \<longrightarrow>
       with_default_port S P addr port = host_with_port S port addr)"
proof -
  have sock: "ap_socket P (sh_socket S a) = Some a" for a using assms by (simp add: addr_law_def)
  have split: "rsplit_once CHR '':'' (addr @ CHR '':'' # sh_nat S (unat port)) = Some (addr, sh_nat S (unat port))"
    by (rule rsplit_once_append) (use assms in \<open>simp add: addr_law_def\<close>)
  have port: "ap_u16 P (sh_nat S (unat port)) = Some port" using assms by (simp add: addr_law_def)
  have none: "rsplit_once CHR '':'' addr = None" if "CHR '':'' \<notin> set addr"
    by (rule rsplit_once_None) (fact that)
  have "with_default_port S P (with_default_port S P addr port) port' = with_default_port S P addr port"
    if "ap_ip P (addr @ '':'' @ sh_nat S (unat port)) = None"
    using that by (auto simp: with_default_port_def sock split port split: option.splits if_splits)
  with none sock show ?thesis by (auto simp: with_default_port_def host_with_port_def)
qed

text \<open>Texts of addresses and ports in unary, for which the law holds.\<close>

definition unary :: "nat \<Rightarrow> string" where
  "unary n = replicate n CHR ''i''"

definition unary_show :: show_env where
  "unary_show = \<lparr>sh_ip = (\<lambda>_. []),
     sh_socket = (\<lambda>a. (case sa_ip a of V4 b \<Rightarrow> CHR ''v'' # unary (unat b) | V6 b \<Rightarrow> CHR ''w'' # unary (unat b)) @
       '':'' @ unary (unat (sa_port a))),
     sh_lossy = (\<lambda>_. []), sh_bt = (\<lambda>_. []), sh_rfcomm = (\<lambda>_. []), sh_nat = unary\<rparr>"

definition unary_parse :: addr_parse where
  "unary_parse = \<lparr>
     ap_socket = (\<lambda>s. case (s, dropWhile (\<lambda>c. c = CHR ''i'') (tl s)) of
        (v # r, colon # p) \<Rightarrow>
          (let n = length (takeWhile (\<lambda>c. c = CHR ''i'') r) in
           Some (SocketAddr (if v = CHR ''v'' then V4 (of_nat n) else V6 (of_nat n)) (of_nat (length p))))
      | _ \<Rightarrow> None),
     ap_ip = (\<lambda>s. if s = ''v'' then Some (V4 0) else None),
     ap_u16 = (\<lambda>s. if set s \<subseteq> {CHR ''i''} then Some (of_nat (length s)) else None)\<rparr>"

lemma unary_law: "addr_law unary_show unary_parse"
proof -
  have drop: "dropWhile (\<lambda>c. c = CHR ''i'') (unary n @ CHR '':'' # s) = CHR '':'' # s"
    and take: "takeWhile (\<lambda>c. c = CHR ''i'') (unary n @ CHR '':'' # s) = unary n" for n s
    by (simp_all add: unary_def dropWhile_append takeWhile_append)
  have "ap_socket unary_parse (sh_socket unary_show a) = Some a" for a
    by (cases a; cases "sa_ip a") (auto simp: unary_parse_def unary_show_def drop take, simp_all add: unary_def)
  moreover have "ap_u16 unary_parse (sh_nat unary_show (unat n)) = Some n \<and> CHR '':'' \<notin> set (sh_nat unary_show (unat n))" for n
    by (auto simp: unary_parse_def unary_show_def unary_def)
  ultimately show ?thesis by (simp add: addr_law_def)
qed

theorem default_port_added_once_witness:
  "with_default_port unary_show unary_parse (with_default_port unary_show unary_parse ''h'' 3) 4 = ''h:iii''"
proof -
  have "ap_ip unary_parse (''h'' @ '':'' @ sh_nat unary_show (unat (3 :: u16))) = None" by (simp add: unary_parse_def)
  with default_port_added_once [OF unary_law, of "''h''" 3 4]
  have "with_default_port unary_show unary_parse (with_default_port unary_show unary_parse ''h'' 3) 4 =
      with_default_port unary_show unary_parse ''h'' 3" by blast
  also have "\<dots> = ''h:iii''"
  proof -
    have "unat (3 :: u16) = Suc (Suc (Suc 0))" by simp
    then show ?thesis by (simp only: with_default_port_def unary_parse_def unary_show_def unary_def rsplit_once_def) (simp add: unary_def)
  qed
  finally show ?thesis .
qed

end
