(* ===== verification/Usb_Transport.thy ===== *)
theory Usb_Transport
  imports Tcp_Transport
begin

text \<open>
  The USB transport (\<open>aggligator-transport-usb/src/lib.rs\<close>): probing of devices, discovery of link tags, connecting
  a tag and the acceptor.  Devices and their descriptors are those of \<open>nusb\<close> and the packet channel over an
  interface that of \<open>upc\<close>; their operations are the fields of \<open>usb_os\<close>.
\<close>

section \<open>Devices\<close>

definition TIMEOUT :: duration where
  "TIMEOUT = from_secs 1"

definition PROBE_INTERVAL :: duration where
  "PROBE_INTERVAL = from_secs 3"

record device_info =
  di_bus_id :: string
  di_busnum :: u8
  di_address :: u8
  di_port_numbers :: "u8 list"
  di_vendor_id :: u16
  di_product_id :: u16
  di_class_code :: u8
  di_sub_class_code :: u8
  di_protocol_code :: u8
  di_version :: u16
  di_usb_version :: u16
  di_manufacturer :: "string option"
  di_product :: "string option"
  di_serial_number :: "string option"

record interface_info =
  ii_number :: u8
  ii_class_code :: u8
  ii_sub_class_code :: u8
  ii_protocol_code :: u8
  ii_description :: "string option"

text \<open>What \<open>nusb\<close> knows of a device that is not open, the descriptor of a device and one of an interface.\<close>

record usb_device =
  ud_bus_id :: string
  ud_busnum :: u8
  ud_address :: u8
  ud_port_chain :: "u8 list"
  ud_vendor_id :: u16
  ud_product_id :: u16
  ud_class :: u8
  ud_subclass :: u8
  ud_protocol :: u8
  ud_device_version :: u16
  ud_usb_version :: u16

record device_descriptor =
  dd_manufacturer :: "u8 option"
  dd_product :: "u8 option"
  dd_serial_number :: "u8 option"

record interface_descriptor =
  id_number :: u8
  id_class :: u8
  id_subclass :: u8
  id_protocol :: u8
  id_string_index :: "u8 option"

record ('d, 'p) usb_os =
  us_list_devices :: "usb_device list io_result"
  us_open :: "usb_device \<Rightarrow> 'd io_result"
  us_active_configuration :: "'d \<Rightarrow> interface_descriptor list io_result"
  us_device_descriptor :: "'d \<Rightarrow> device_descriptor"
  us_languages :: "'d \<Rightarrow> duration \<Rightarrow> u16 list io_result"
  us_string_descriptor :: "'d \<Rightarrow> u8 \<Rightarrow> u16 \<Rightarrow> duration \<Rightarrow> string io_result"
  us_upc_connect :: "'d \<Rightarrow> u8 \<Rightarrow> 'p io_result"

section \<open>Connector\<close>

text \<open>Whether changes of the devices are announced.\<close>

record usb_connector =
  uc_filter :: "device_info \<Rightarrow> interface_info \<Rightarrow> bool"
  uc_hotplug :: bool

definition usb_connector_new :: "(device_info \<Rightarrow> interface_info \<Rightarrow> bool) \<Rightarrow> unit io_result \<Rightarrow> usb_connector io_result" where
  "usb_connector_new filt watch = Inr \<lparr>uc_filter = filt, uc_hotplug = (case watch of Inr _ \<Rightarrow> True | Inl _ \<Rightarrow> False)\<rparr>"

definition read_desc :: "('d, 'p) usb_os \<Rightarrow> 'd \<Rightarrow> u16 option \<Rightarrow> u8 option \<Rightarrow> string option" where
  "read_desc T dev lang desc_index =
     do {
       i \<leftarrow> desc_index;
       l \<leftarrow> lang;
       (case us_string_descriptor T dev i l TIMEOUT of Inr s \<Rightarrow> Some s | Inl _ \<Rightarrow> None)
     }"

definition usb_device_info :: "('d, 'p) usb_os \<Rightarrow> 'd \<Rightarrow> u16 option \<Rightarrow> usb_device \<Rightarrow> device_info" where
  "usb_device_info T dev lang d =
     (let desc = us_device_descriptor T dev in
      \<lparr>di_bus_id = ud_bus_id d, di_busnum = ud_busnum d, di_address = ud_address d, di_port_numbers = ud_port_chain d,
       di_vendor_id = ud_vendor_id d, di_product_id = ud_product_id d, di_class_code = ud_class d,
       di_sub_class_code = ud_subclass d, di_protocol_code = ud_protocol d, di_version = ud_device_version d,
       di_usb_version = ud_usb_version d, di_manufacturer = read_desc T dev lang (dd_manufacturer desc),
       di_product = read_desc T dev lang (dd_product desc), di_serial_number = read_desc T dev lang (dd_serial_number desc)\<rparr>)"

definition usb_interface_info :: "('d, 'p) usb_os \<Rightarrow> 'd \<Rightarrow> u16 option \<Rightarrow> interface_descriptor \<Rightarrow> interface_info" where
  "usb_interface_info T dev lang desc =
     \<lparr>ii_number = id_number desc, ii_class_code = id_class desc, ii_sub_class_code = id_subclass desc,
      ii_protocol_code = id_protocol desc, ii_description = read_desc T dev lang (id_string_index desc)\<rparr>"

fun probe_interfaces ::
  "('d, 'p) usb_os \<Rightarrow> usb_connector \<Rightarrow> 'd \<Rightarrow> u16 option \<Rightarrow> usb_device \<Rightarrow> device_info \<Rightarrow> interface_descriptor list \<Rightarrow>
   usb_out_tag list" where
  "probe_interfaces T c dev lang d info [] = []"
| "probe_interfaces T c dev lang d info (desc # descs) =
     (if uc_filter c info (usb_interface_info T dev lang desc)
      then [\<lparr>uo_bus_id = ud_bus_id d, uo_address = ud_address d, uo_interface = id_number desc\<rparr>] else []) @
     probe_interfaces T c dev lang d info descs"

definition probe_device :: "('d, 'p) usb_os \<Rightarrow> usb_connector \<Rightarrow> usb_device \<Rightarrow> usb_out_tag list io_result" where
  "probe_device T c d =
     io_bind (us_open T d) (\<lambda>dev.
     io_bind (us_active_configuration T dev) (\<lambda>ifs.
       let lang = (case us_languages T dev TIMEOUT of Inr (l # _) \<Rightarrow> Some l | _ \<Rightarrow> None);
           info = usb_device_info T dev lang d
       in Inr (probe_interfaces T c dev lang d info ifs)))"

fun probe_devices :: "('d, 'p) usb_os \<Rightarrow> usb_connector \<Rightarrow> usb_device list \<Rightarrow> link_tag set \<Rightarrow> link_tag set" where
  "probe_devices T c [] tags = tags"
| "probe_devices T c (d # ds) tags =
     probe_devices T c ds (case probe_device T c d of Inr ts \<Rightarrow> tags \<union> UsbOut ` set ts | Inl _ \<Rightarrow> tags)"

text \<open>A round of \<open>link_tags\<close>; the second component counts the changes that receivers see.\<close>

definition usb_link_tags :: "('d, 'p) usb_os \<Rightarrow> usb_connector \<Rightarrow> link_tag set \<times> nat \<Rightarrow> (link_tag set \<times> nat) io_result" where
  "usb_link_tags T c s =
     io_bind (us_list_devices T) (\<lambda>ds.
       let tags = probe_devices T c ds {} in
       Inr (if fst s \<noteq> tags then (tags, Suc (snd s)) else s))"

definition usb_connect :: "('d, 'p) usb_os \<Rightarrow> link_tag \<Rightarrow> ('p, 'r, 'w) stream_box io_result option" where
  "usb_connect T tag =
     (case tag of
        UsbOut t \<Rightarrow>
          Some (io_bind (us_list_devices T) (\<lambda>ds.
            (case List.find (\<lambda>d. ud_bus_id d = uo_bus_id t \<and> ud_address d = uo_address t) ds of
               None \<Rightarrow> Inl (IoError NotFound ''USB device gone'')
             | Some d \<Rightarrow>
                 io_bind (us_open T d) (\<lambda>dev.
                 io_bind (us_upc_connect T dev (uo_interface t)) (\<lambda>p. Inr (TxRx p))))))
      | _ \<Rightarrow> None)"

section \<open>Acceptor\<close>

text \<open>
  The loop of the acceptor over the connections of the packet channel function; the flags say whether the
  receiver of accepted streams still exists.  The loop has not returned when the list is used up (\<open>None\<close>).
\<close>

fun usb_listen :: "bytes \<Rightarrow> ('p io_result \<times> bool) list \<Rightarrow> (link_tag \<times> ('p, 'r, 'w) stream_box) list \<times> unit io_result option" where
  "usb_listen udc [] = ([], None)"
| "usb_listen udc ((Inl e, _) # as) = ([], Some (Inl e))"
| "usb_listen udc ((Inr p, False) # as) = ([], Some (Inr ()))"
| "usb_listen udc ((Inr p, True) # as) =
     (let (sent, res) = usb_listen udc as in ((UsbIn \<lparr>ui_udc = udc\<rparr>, TxRx p) # sent, res))"

section \<open>Lemmas\<close>

lemma probe_interfaces_set:
  "set (probe_interfaces T c dev lang d info ifs) =
     {\<lparr>uo_bus_id = ud_bus_id d, uo_address = ud_address d, uo_interface = id_number i\<rparr> | i.
        i \<in> set ifs \<and> uc_filter c info (usb_interface_info T dev lang i)}"
  by (induction T c dev lang d info ifs rule: probe_interfaces.induct) auto

lemma probe_devices_set:
  "probe_devices T c ds tags = tags \<union> {UsbOut t | t d ts. d \<in> set ds \<and> probe_device T c d = Inr ts \<and> t \<in> set ts}"
  by (induction T c ds tags rule: probe_devices.induct) (auto split: sum.splits)

lemma probe_device_tag:
  assumes "probe_device T c d = Inr ts" and "t \<in> set ts"
  shows "uo_bus_id t = ud_bus_id d \<and> uo_address t = ud_address d \<and> (\<exists>dev. us_open T d = Inr dev)"
proof (cases "us_open T d")
  case (Inr dev)
  with assms show ?thesis
    by (cases "us_active_configuration T dev") (auto simp: probe_device_def io_bind_def Let_def probe_interfaces_set)
qed (use assms in \<open>simp add: probe_device_def io_bind_def\<close>)

lemma find_unique:
  assumes "d \<in> set ds" and "P d" and "\<And>e. e \<in> set ds \<Longrightarrow> P e \<Longrightarrow> e = d"
  shows "List.find P ds = Some d"
proof -
  have "List.find P ds \<noteq> None" using assms(1,2) by (auto simp: find_None_iff)
  then obtain e where e: "List.find P ds = Some e" by blast
  then have "e \<in> set ds" "P e" by (auto simp: find_Some_iff)
  then have "e = d" by (rule assms(3))
  with e show ?thesis by simp
qed

section \<open>Properties\<close>

text \<open>
  A round of USB discovery publishes exactly the interfaces that the filter selects on the devices that can be
  probed, and changes the watch channel only if the set of tags changes.  As long as the devices stay and are
  known by bus and address, connecting a published tag opens the very device it was found on; it fails as not found
  if there is no such device any more.
\<close>

theorem usb_tags_lead_back:
  assumes "us_list_devices T = Inr ds" and "usb_link_tags T c s = Inr s'"
  shows "fst s' = {UsbOut t | t d ts. d \<in> set ds \<and> probe_device T c d = Inr ts \<and> t \<in> set ts} \<and>
    (snd s' \<noteq> snd s \<longleftrightarrow> fst s' \<noteq> fst s) \<and>
    (\<forall>t d ts. distinct (map (\<lambda>d. (ud_bus_id d, ud_address d)) ds) \<longrightarrow> d \<in> set ds \<longrightarrow> probe_device T c d = Inr ts \<longrightarrow> t \<in> set ts \<longrightarrow>
       (\<exists>dev. us_open T d = Inr dev \<and>
          usb_connect T (UsbOut t) = Some (io_bind (us_upc_connect T dev (uo_interface t)) (\<lambda>p. Inr (TxRx p))))) \<and>
    (\<forall>t. (\<forall>d \<in> set ds. (ud_bus_id d, ud_address d) \<noteq> (uo_bus_id t, uo_address t)) \<longrightarrow>
       usb_connect T (UsbOut t) = Some (Inl (IoError NotFound ''USB device gone'')))"
proof (intro conjI allI impI)
  have s': "s' = (if fst s \<noteq> probe_devices T c ds {} then (probe_devices T c ds {}, Suc (snd s)) else s)"
    using assms by (simp add: usb_link_tags_def io_bind_def Let_def)
  then have "fst s' = probe_devices T c ds {}" by simp
  also have "\<dots> = {UsbOut t | t d ts. d \<in> set ds \<and> probe_device T c d = Inr ts \<and> t \<in> set ts}"
    unfolding probe_devices_set by (rule Un_empty_left)
  finally show "fst s' = {UsbOut t | t d ts. d \<in> set ds \<and> probe_device T c d = Inr ts \<and> t \<in> set ts}" .
  show "snd s' \<noteq> snd s \<longleftrightarrow> fst s' \<noteq> fst s" unfolding s' by simp
next
  fix t d ts
  assume dist: "distinct (map (\<lambda>d. (ud_bus_id d, ud_address d)) ds)" and d: "d \<in> set ds"
    and ts: "probe_device T c d = Inr ts" "t \<in> set ts"
  from probe_device_tag [OF ts] obtain dev where
    tag: "uo_bus_id t = ud_bus_id d" "uo_address t = ud_address d" "us_open T d = Inr dev" by blast
  have "List.find (\<lambda>d. ud_bus_id d = uo_bus_id t \<and> ud_address d = uo_address t) ds = Some d"
    using dist d tag by (intro find_unique) (auto simp: distinct_map dest: inj_onD)
  then show "\<exists>dev. us_open T d = Inr dev \<and>
      usb_connect T (UsbOut t) = Some (io_bind (us_upc_connect T dev (uo_interface t)) (\<lambda>p. Inr (TxRx p)))"
    using tag assms(1) by (simp add: usb_connect_def io_bind_def)
next
  fix t :: usb_out_tag
  assume "\<forall>d \<in> set ds. (ud_bus_id d, ud_address d) \<noteq> (uo_bus_id t, uo_address t)"
  then have "List.find (\<lambda>d. ud_bus_id d = uo_bus_id t \<and> ud_address d = uo_address t) ds = None"
    by (auto simp: find_None_iff)
  then show "usb_connect T (UsbOut t) = Some (Inl (IoError NotFound ''USB device gone''))"
    using assms(1) by (simp add: usb_connect_def io_bind_def)
qed

text \<open>One device with two interfaces, of which the filter selects the vendor-specific one.\<close>

definition demo_usb :: "(nat, nat) usb_os" where
  "demo_usb = \<lparr>us_list_devices = Inr [\<lparr>ud_bus_id = ''1'', ud_busnum = 1, ud_address = 5, ud_port_chain = [], ud_vendor_id = 2,
       ud_product_id = 3, ud_class = 0, ud_subclass = 0, ud_protocol = 0, ud_device_version = 1, ud_usb_version = 2\<rparr>],
     us_open = (\<lambda>_. Inr 9), us_active_configuration = (\<lambda>_. Inr
       [\<lparr>id_number = 0, id_class = 3, id_subclass = 0, id_protocol = 0, id_string_index = None\<rparr>,
        \<lparr>id_number = 1, id_class = 255, id_subclass = 0, id_protocol = 0, id_string_index = Some 4\<rparr>]),
     us_device_descriptor = (\<lambda>_. \<lparr>dd_manufacturer = None, dd_product = None, dd_serial_number = None\<rparr>),
     us_languages = (\<lambda>_ _. Inr [1033]), us_string_descriptor = (\<lambda>_ _ _ _. Inr ''x''), us_upc_connect = (\<lambda>dev i. Inr (dev + unat i))\<rparr>"

theorem usb_tags_lead_back_witness:
  "\<exists>s'. usb_link_tags demo_usb \<lparr>uc_filter = (\<lambda>_ i. ii_class_code i = 255), uc_hotplug = False\<rparr> ({}, 0) = Inr s' \<and>
     fst s' = {UsbOut \<lparr>uo_bus_id = ''1'', uo_address = 5, uo_interface = 1\<rparr>}"
proof -
  let ?c = "\<lparr>uc_filter = (\<lambda>_ i. ii_class_code i = 255), uc_hotplug = False\<rparr>"
  obtain d where d: "us_list_devices demo_usb = Inr [d]" "ud_bus_id d = ''1''" "ud_address d = 5"
    by (simp add: demo_usb_def)
  obtain s' where s': "usb_link_tags demo_usb ?c ({}, 0) = Inr s'"
    using d(1) by (simp add: usb_link_tags_def io_bind_def Let_def)
  have "probe_device demo_usb ?c d = Inr [\<lparr>uo_bus_id = ''1'', uo_address = 5, uo_interface = 1\<rparr>]"
    using d(2,3) by (simp add: probe_device_def io_bind_def demo_usb_def usb_interface_info_def)
  then have "{UsbOut t | t e ts. e \<in> set [d] \<and> probe_device demo_usb ?c e = Inr ts \<and> t \<in> set ts} =
      {UsbOut \<lparr>uo_bus_id = ''1'', uo_address = 5, uo_interface = 1\<rparr>}" by auto
  with usb_tags_lead_back [OF d(1) s', THEN conjunct1] s' show ?thesis by simp
qed

end
