(* ===== verification/Bluetooth.thy ===== *)
theory Bluetooth
  imports Tcp_Transport
begin

text \<open>
  The Bluetooth transports (\<open>aggligator-transport-bluer/src/rfcomm.rs\<close> and \<open>rfcomm_profile.rs\<close>): plain RFCOMM sockets,
  and RFCOMM with a profile, which watches the presence of the remote device while it is not
  connected.  Adapters, devices, profiles and sockets are those of \<open>bluer\<close>; their outcomes are arguments.
\<close>

section \<open>RFCOMM sockets\<close>

record rfcomm_connector =
  rc_local :: rfcomm_addr
  rc_remote :: rfcomm_addr

text \<open>The address \<open>SocketAddr::any\<close>.\<close>

definition rfcomm_any :: rfcomm_addr where
  "rfcomm_any = \<lparr>rf_addr = [0, 0, 0, 0, 0, 0], rf_channel = 0\<rparr>"

definition rfcomm_new :: "rfcomm_addr \<Rightarrow> rfcomm_connector" where
  "rfcomm_new remote = \<lparr>rc_local = rfcomm_any, rc_remote = remote\<rparr>"

definition rfcomm_bind :: "rfcomm_addr \<Rightarrow> rfcomm_connector \<Rightarrow> rfcomm_connector" where
  "rfcomm_bind l c = c\<lparr>rc_local := l\<rparr>"

definition rfcomm_link_tags :: "rfcomm_connector \<Rightarrow> link_tag set" where
  "rfcomm_link_tags c = {Rfcomm \<lparr>rt_local = rc_local c, rt_remote = rc_remote c, rt_direction = Outgoing\<rparr>}"

record ('s, 't, 'r, 'w) rfcomm_os =
  ro_socket :: "'s io_result"
  ro_bind :: "'s \<Rightarrow> rfcomm_addr \<Rightarrow> 's io_result"
  ro_connect :: "'s \<Rightarrow> rfcomm_addr \<Rightarrow> 't io_result"
  ro_split :: "'t \<Rightarrow> 'r \<times> 'w"

definition rfcomm_connect :: "('s, 't, 'r, 'w) rfcomm_os \<Rightarrow> link_tag \<Rightarrow> ('p, 'r, 'w) stream_box io_result option" where
  "rfcomm_connect T tag =
     (case tag of
        Rfcomm t \<Rightarrow>
          Some (io_bind (ro_socket T) (\<lambda>s.
            io_bind (ro_bind T s (rt_local t)) (\<lambda>s.
            io_bind (ro_connect T s (rt_remote t)) (\<lambda>st.
            Inr (Io (fst (ro_split T st)) (snd (ro_split T st)))))))
      | _ \<Rightarrow> None)"

text \<open>An accepted socket with its remote and its local address becomes a tag; an error ends the listening.\<close>

definition rfcomm_accept :: "rfcomm_addr io_result \<Rightarrow> rfcomm_addr io_result \<Rightarrow> link_tag io_result" where
  "rfcomm_accept accepted local_addr =
     io_bind accepted (\<lambda>remote. io_bind local_addr (\<lambda>l.
       Inr (Rfcomm \<lparr>rt_local = l, rt_remote = remote, rt_direction = Incoming\<rparr>)))"

section \<open>RFCOMM with a profile: discovery\<close>

datatype adapter_event = DeviceAdded bt_addr | DeviceRemoved bt_addr | OtherAdapterEvent

text \<open>
  The connector and the loop of \<open>link_tags\<close>: the value of the watch channel \<open>connected\<close> and whether the loop
  has seen it, what the loop is doing, its two flags, the tags in the channel to the connector
  with the number of times they were sent, and the result of the loop.
\<close>

datatype profile_phase = PfTop | PfScan | PfPending | PfEnded io_error

record rfcomm_profile_connector =
  rp_remote :: bt_addr
  rp_connected :: bool
  rp_unseen :: bool
  rp_phase :: profile_phase
  rp_last_present :: bool
  rp_present :: bool
  rp_tags :: "link_tag set"
  rp_version :: nat

definition rp_tag :: "rfcomm_profile_connector \<Rightarrow> link_tag" where
  "rp_tag c = RfcommProfile (RpOutgoing (rp_remote c))"

text \<open>Opening the session, the adapter, the agent and the profile may each fail.\<close>

definition profile_custom ::
  "unit io_result \<Rightarrow> unit io_result \<Rightarrow> unit io_result \<Rightarrow> unit io_result \<Rightarrow> bt_addr \<Rightarrow> rfcomm_profile_connector io_result" where
  "profile_custom session adapter agent profile remote =
     io_bind session (\<lambda>_. io_bind adapter (\<lambda>_. io_bind agent (\<lambda>_. io_bind profile (\<lambda>_.
       Inr \<lparr>rp_remote = remote, rp_connected = False, rp_unseen = False, rp_phase = PfTop, rp_last_present = False,
         rp_present = False, rp_tags = {}, rp_version = 0\<rparr>))))"

definition connected_links :: "link_tag tag_ops \<Rightarrow> link_tag link_handle list \<Rightarrow> rfcomm_profile_connector \<Rightarrow> rfcomm_profile_connector" where
  "connected_links T links c =
     (let connected = (\<exists>l \<in> set links. tag_eq T (lh_tag l) (rp_tag c)) in
      if rp_connected c \<noteq> connected then c\<lparr>rp_connected := connected, rp_unseen := True\<rparr> else c)"

definition scan_event :: "rfcomm_profile_connector \<Rightarrow> adapter_event \<Rightarrow> rfcomm_profile_connector" where
  "scan_event c evt =
     (let c = (case evt of
                 DeviceAdded a \<Rightarrow> if a = rp_remote c then c\<lparr>rp_present := True\<rparr> else c
               | DeviceRemoved a \<Rightarrow> if a = rp_remote c then c\<lparr>rp_present := False\<rparr> else c
               | OtherAdapterEvent \<Rightarrow> c)
      in if rp_last_present c \<noteq> rp_present c
         then c\<lparr>rp_tags := (if rp_present c then {rp_tag c} else {}), rp_version := Suc (rp_version c),
                rp_last_present := rp_present c\<rparr>
         else c)"

text \<open>The steps of the loop, and the call that tells the connector its links.\<close>

inductive profile_step :: "link_tag tag_ops \<Rightarrow> rfcomm_profile_connector \<Rightarrow> adapter_event option \<Rightarrow> rfcomm_profile_connector \<Rightarrow> bool"
  for T where
  pf_links: "profile_step T c None (connected_links T links c)"
| pf_scan: "rp_phase c = PfTop \<Longrightarrow> \<not> rp_connected c \<Longrightarrow>
    profile_step T c None (c\<lparr>rp_phase := PfScan, rp_unseen := False\<rparr>)"
| pf_scan_err: "rp_phase c = PfTop \<Longrightarrow> \<not> rp_connected c \<Longrightarrow>
    profile_step T c None (c\<lparr>rp_phase := PfEnded e, rp_unseen := False\<rparr>)"
| pf_pending: "rp_phase c = PfTop \<Longrightarrow> rp_connected c \<Longrightarrow>
    profile_step T c None (c\<lparr>rp_phase := PfPending, rp_unseen := False\<rparr>)"
| pf_event: "rp_phase c = PfScan \<Longrightarrow> profile_step T c (Some evt) (scan_event c evt)"
| pf_scan_end: "rp_phase c = PfScan \<Longrightarrow>
    profile_step T c None (c\<lparr>rp_phase := PfEnded (IoError BrokenPipe ''discovery session terminated'')\<rparr>)"
| pf_changed: "rp_phase c = PfScan \<or> rp_phase c = PfPending \<Longrightarrow> rp_unseen c \<Longrightarrow>
    profile_step T c None (c\<lparr>rp_phase := PfTop\<rparr>)"

text \<open>A run with the adapter events that were handled.\<close>

inductive profile_run :: "link_tag tag_ops \<Rightarrow> rfcomm_profile_connector \<Rightarrow> adapter_event list \<Rightarrow> rfcomm_profile_connector \<Rightarrow> bool"
  for T where
  run_nil: "profile_run T c [] c"
| run_step: "profile_run T c es c' \<Longrightarrow> profile_step T c' evt c'' \<Longrightarrow>
    profile_run T c (es @ (case evt of Some e \<Rightarrow> [e] | None \<Rightarrow> [])) c''"

section \<open>RFCOMM with a profile: connecting\<close>

text \<open>
  What happens while a connection is awaited: the task that connects device and profile ends, with an error
  or not; a device asks for a connection, which may fail to be accepted; or the time limit is reached.
  The loop returns the result and the devices it rejected; it has not returned when the events are used up.
\<close>

datatype 't profile_event = ConnectDone "unit io_result" | ConnectRequest bt_addr "'t io_result" | Elapsed

definition elapsed_error :: io_error where
  "elapsed_error = IoError TimedOut ''timed out''"

fun profile_connect_loop :: "bt_addr \<Rightarrow> 't profile_event list \<Rightarrow> 't io_result option \<times> bt_addr list" where
  "profile_connect_loop remote [] = (None, [])"
| "profile_connect_loop remote (ConnectDone (Inl e) # es) = (Some (Inl e), [])"
| "profile_connect_loop remote (ConnectDone (Inr _) # es) = profile_connect_loop remote es"
| "profile_connect_loop remote (ConnectRequest d acc # es) =
     (if d = remote then (Some acc, [])
      else let (res, rejected) = profile_connect_loop remote es in (res, d # rejected))"
| "profile_connect_loop remote (Elapsed # es) = (Some (Inl elapsed_error), [])"

text \<open>Outer \<open>None\<close>: a tag of another type or an incoming one, on which the code panics.\<close>

definition profile_connect ::
  "unit io_result \<Rightarrow> ('t \<Rightarrow> 'r \<times> 'w) \<Rightarrow> link_tag \<Rightarrow> 't profile_event list \<Rightarrow> ('p, 'r, 'w) stream_box io_result option option" where
  "profile_connect device split tag es =
     (case tag of
        RfcommProfile (RpOutgoing remote) \<Rightarrow>
          Some (case device of
                  Inl e \<Rightarrow> Some (Inl e)
                | Inr _ \<Rightarrow> map_option (\<lambda>r. io_bind r (\<lambda>s. Inr (Io (fst (split s)) (snd (split s)))))
                             (fst (profile_connect_loop remote es)))
      | _ \<Rightarrow> None)"

section \<open>RFCOMM with a profile: accepting\<close>

text \<open>The requests of the profile: accepting, the peer address and the local address may each fail.\<close>

fun profile_listen ::
  "('t io_result \<times> rfcomm_addr io_result \<times> rfcomm_addr io_result) list \<Rightarrow> (link_tag \<times> 't) list \<times> io_error" where
  "profile_listen [] = ([], IoError BrokenPipe ''profile event stream terminated'')"
| "profile_listen ((Inl _, _) # rs) = profile_listen rs"
| "profile_listen ((Inr s, Inl e, _) # rs) = ([], e)"
| "profile_listen ((Inr s, Inr remote, Inl e) # rs) = ([], e)"
| "profile_listen ((Inr s, Inr remote, Inr l) # rs) =
     (let (accepted, e) = profile_listen rs in ((RfcommProfile (RpIncoming l remote), s) # accepted, e))"

section \<open>Lemmas\<close>

text \<open>Whether the remote device is present, by the last event that is about it.\<close>

definition about :: "bt_addr \<Rightarrow> adapter_event \<Rightarrow> bool" where
  "about a evt \<longleftrightarrow> evt = DeviceAdded a \<or> evt = DeviceRemoved a"

definition last_seen :: "bt_addr \<Rightarrow> adapter_event list \<Rightarrow> bool" where
  "last_seen a es \<longleftrightarrow> (case List.find (about a) (rev es) of Some evt \<Rightarrow> evt = DeviceAdded a | None \<Rightarrow> False)"

definition profile_inv :: "bt_addr \<Rightarrow> adapter_event list \<Rightarrow> rfcomm_profile_connector \<Rightarrow> bool" where
  "profile_inv a es c \<longleftrightarrow> rp_remote c = a \<and> rp_present c = last_seen a es \<and> rp_last_present c = rp_present c \<and>
     rp_tags c = (if rp_present c then {rp_tag c} else {}) \<and>
     (rp_phase c = PfScan \<and> rp_connected c \<or> rp_phase c = PfPending \<and> \<not> rp_connected c \<longrightarrow> rp_unseen c)"

lemma last_seen_snoc: "last_seen a (es @ [evt]) = (if about a evt then evt = DeviceAdded a else last_seen a es)"
  by (simp add: last_seen_def)

lemma profile_inv_event:
  "profile_inv a es c \<Longrightarrow> profile_inv a (es @ [evt]) (scan_event c evt)"
  by (cases evt) (auto simp: profile_inv_def scan_event_def last_seen_snoc about_def rp_tag_def Let_def)

lemma profile_inv_step:
  assumes "profile_step T c evt c'" and "profile_inv a es c"
  shows "profile_inv a (es @ (case evt of Some e \<Rightarrow> [e] | None \<Rightarrow> [])) c'"
  using assms
proof (cases rule: profile_step.cases)
  case (pf_links links)
  then show ?thesis using assms(2) by (auto simp: profile_inv_def connected_links_def rp_tag_def Let_def)
qed (auto simp: profile_inv_event, auto simp: profile_inv_def rp_tag_def)

lemma profile_inv_run:
  "profile_run T c es c' \<Longrightarrow> profile_inv a [] c \<Longrightarrow> profile_inv a es c'"
  by (induction rule: profile_run.induct) (simp, blast intro: profile_inv_step)

lemma profile_inv_custom:
  "profile_custom session adapter agent profile remote = Inr c \<Longrightarrow> profile_inv remote [] c"
  by (auto simp: profile_custom_def io_bind_def profile_inv_def last_seen_def split: sum.splits)

lemma profile_run_event:
  "profile_run T c es c' \<Longrightarrow> rp_phase c' = PfScan \<Longrightarrow> profile_run T c (es @ [evt]) (scan_event c' evt)"
  using run_step [OF _ pf_event] by fastforce

section \<open>Properties\<close>

text \<open>
  C38.  In every run of a connector with a profile the tag of the remote device is published exactly if the last adapter
  event about it that the scan delivered says that it was added, however often scanning is interrupted by
  connections; the loop scans while there is no connection and rests while there is one, unless it has still to
  see that this changed.
\<close>

theorem profile_tags_follow_presence:
  assumes "profile_custom session adapter agent profile remote = Inr c" and "profile_run T c es c'"
  shows "rp_tags c' = (if last_seen remote es then {RfcommProfile (RpOutgoing remote)} else {}) \<and>
    (rp_phase c' = PfScan \<longrightarrow> \<not> rp_connected c' \<or> rp_unseen c') \<and>
    (rp_phase c' = PfPending \<longrightarrow> rp_connected c' \<or> rp_unseen c')"
  using profile_inv_run [OF assms(2) profile_inv_custom [OF assms(1)]] by (auto simp: profile_inv_def rp_tag_def)

theorem profile_tags_follow_presence_witness:
  "\<exists>c c'. profile_custom (Inr ()) (Inr ()) (Inr ()) (Inr ()) [1] = Inr c \<and>
     profile_run (link_tag_ops id undefined) c [DeviceAdded [2], DeviceAdded [1]] c' \<and>
     rp_tags c' = {RfcommProfile (RpOutgoing [1])}"
proof -
  let ?T = "link_tag_ops id undefined"
  define R where "R = profile_run ?T"
  obtain c where c: "profile_custom (Inr ()) (Inr ()) (Inr ()) (Inr ()) [1] = Inr c" "rp_phase c = PfTop" "\<not> rp_connected c"
    by (simp add: profile_custom_def io_bind_def)
  define c1 c2 c3 where "c1 = c\<lparr>rp_phase := PfScan, rp_unseen := False\<rparr>" and "c2 = scan_event c1 (DeviceAdded [2])"
    and "c3 = scan_event c2 (DeviceAdded [1])"
  have "R c [] c1" unfolding R_def c1_def
    using run_step [OF run_nil pf_scan [OF c(2,3)]] by simp
  from profile_run_event [OF this [unfolded R_def], of "DeviceAdded [2]"] have "R c [DeviceAdded [2]] c2"
    by (simp add: R_def c2_def c1_def)
  from profile_run_event [OF this [unfolded R_def], of "DeviceAdded [1]"] have "R c [DeviceAdded [2], DeviceAdded [1]] c3"
    by (simp add: R_def c3_def c2_def scan_event_def c1_def Let_def)
  moreover have "last_seen [1] [DeviceAdded [2], DeviceAdded [1]]" by (simp add: last_seen_def about_def)
  ultimately show ?thesis
    using profile_tags_follow_presence [OF c(1), of ?T "[DeviceAdded [2], DeviceAdded [1]]" c3] c(1) unfolding R_def by auto
qed

text \<open>
  Connecting over a profile accepts a connection of the remote device of the tag only, rejects all requests of other
  devices before it, and returns once such a request, a failure or the time limit occurs.
\<close>

theorem profile_accepts_remote_only:
  "(fst (profile_connect_loop remote es) = Some (Inr s) \<longrightarrow> ConnectRequest remote (Inr s) \<in> set es) \<and>
   remote \<notin> set (snd (profile_connect_loop remote es)) \<and>
   (\<forall>d \<in> set (snd (profile_connect_loop remote es)). \<exists>acc. ConnectRequest d acc \<in> set es) \<and>
   ((\<exists>acc. ConnectRequest remote acc \<in> set es) \<or> Elapsed \<in> set es \<longrightarrow> fst (profile_connect_loop remote es) \<noteq> None)"
proof (induction remote es rule: profile_connect_loop.induct)
  case (4 remote d acc es)
  obtain res rej where loop: "profile_connect_loop remote es = (res, rej)" by fastforce
  show ?case
  proof (cases "d = remote")
    case False
    with 4 loop show ?thesis by (simp add: loop) blast
  qed simp
qed auto

end
