(* ===== verification/Tls.thy ===== *)
theory Tls
  imports Web_Socket Socks Usb_Transport Bluetooth
begin

text \<open>
  The TLS wrappers of links (\<open>aggligator-wrapper-tls/src/lib.rs\<close>) and their use over the transports.  The TLS
  protocol is that of \<open>tokio_rustls\<close>; its handshakes are the fields of \<open>tls_lib\<close>.
\<close>

record ('c, 'n, 's, 'r, 'w) tls_lib =
  tls_connect :: "'c \<Rightarrow> 'n \<Rightarrow> 'r \<Rightarrow> 'w \<Rightarrow> ('r \<times> 'w) io_result"
  tls_accept :: "'s \<Rightarrow> 'r \<Rightarrow> 'w \<Rightarrow> ('r \<times> 'w) io_result"

record ('n, 'c) tls_client =
  tls_server_name :: 'n
  tls_client_cfg :: 'c

record 's tls_server =
  tls_server_cfg :: 's

definition tls_client_new :: "'c \<Rightarrow> 'n \<Rightarrow> ('n, 'c) tls_client" where
  "tls_client_new c n = \<lparr>tls_server_name = n, tls_client_cfg = c\<rparr>"

definition tls_server_new :: "'s \<Rightarrow> 's tls_server" where
  "tls_server_new s = \<lparr>tls_server_cfg = s\<rparr>"

text \<open>A stream of packets makes both wrappers panic.\<close>

definition tls_client_wrap ::
  "('c, 'n, 's, 'r, 'w) tls_lib \<Rightarrow> ('n, 'c) tls_client \<Rightarrow> ('p, 'r, 'w) stream_box \<Rightarrow> ('p, 'r, 'w) stream_box io_result option" where
  "tls_client_wrap L t st =
     (case st of
        Io r w \<Rightarrow> Some (io_bind (tls_connect L (tls_client_cfg t) (tls_server_name t) r w) (\<lambda>(r, w). Inr (Io r w)))
      | TxRx _ \<Rightarrow> None)"

definition tls_server_wrap ::
  "('c, 'n, 's, 'r, 'w) tls_lib \<Rightarrow> 's tls_server \<Rightarrow> ('p, 'r, 'w) stream_box \<Rightarrow> ('p, 'r, 'w) stream_box io_result option" where
  "tls_server_wrap L t st =
     (case st of
        Io r w \<Rightarrow> Some (io_bind (tls_accept L (tls_server_cfg t) r w) (\<lambda>(r, w). Inr (Io r w)))
      | TxRx _ \<Rightarrow> None)"

section \<open>Lemmas\<close>

lemma io_bind_Inr: "io_bind r f = Inr y \<longleftrightarrow> (\<exists>x. r = Inr x \<and> f x = Inr y)"
  by (cases r) (simp_all add: io_bind_def)

lemma sum_case_Inr: "(case r of Inl e \<Rightarrow> Inl (f e) | Inr x \<Rightarrow> Inr (g x)) = Inr y \<longleftrightarrow> (\<exists>x. r = Inr x \<and> g x = y)"
  by (cases r) simp_all

lemma tcp_connect_io: "tcp_connect S T tag = Some (Inr st) \<Longrightarrow> \<exists>r w. st = Io r w"
  by (cases tag) (auto simp: tcp_connect_def io_bind_Inr)

lemma ws_connect_io: "ws_connect S T c tag = Some (Inr st) \<Longrightarrow> \<exists>r w. st = Io r w"
  by (cases tag) (auto simp: ws_connect_def io_bind_Inr sum_case_Inr)

lemma socks_connect_io: "socks_connect conn split tag = Some (Inr st) \<Longrightarrow> \<exists>r w. st = Io r w"
  by (cases tag) (auto simp: socks_connect_def sum_case_Inr)

lemma rfcomm_connect_io: "rfcomm_connect T tag = Some (Inr st) \<Longrightarrow> \<exists>r w. st = Io r w"
  by (cases tag) (auto simp: rfcomm_connect_def io_bind_Inr)

lemma usb_connect_packets: "usb_connect T tag = Some (Inr st) \<Longrightarrow> \<exists>p. st = TxRx p"
  by (cases tag) (auto simp: usb_connect_def io_bind_Inr split: option.splits)

lemma profile_connect_io: "profile_connect device split tag es = Some (Some (Inr st)) \<Longrightarrow> \<exists>r w. st = Io r w"
  by (cases tag) (auto simp: profile_connect_def io_bind_Inr split: rfcomm_profile_tag.splits sum.splits)

section \<open>Properties\<close>

text \<open>
  TLS can be put over every link that the TCP, WebSocket, SOCKS5 and Bluetooth transports
  establish: the wrapper of the client then fails only with an error of the handshake.  Over a link of the
  USB transport it always panics.
\<close>

theorem tls_over_transports:
  "(tcp_connect S T1 tag = Some (Inr st) \<longrightarrow> tls_client_wrap L t st \<noteq> None) \<and>
   (ws_connect S T2 c tag = Some (Inr st2) \<longrightarrow> tls_client_wrap L2 t2 st2 \<noteq> None) \<and>
   (socks_connect conn split tag = Some (Inr st) \<longrightarrow> tls_client_wrap L t st \<noteq> None) \<and>
   (rfcomm_connect T3 tag = Some (Inr st) \<longrightarrow> tls_client_wrap L t st \<noteq> None) \<and>
   (profile_connect device split' tag es = Some (Some (Inr st)) \<longrightarrow> tls_client_wrap L t st \<noteq> None) \<and>
   (usb_connect T4 tag = Some (Inr st) \<longrightarrow> tls_client_wrap L t st = None)"
  by (intro conjI impI;
      (drule tcp_connect_io ws_connect_io socks_connect_io rfcomm_connect_io profile_connect_io usb_connect_packets)?;
      auto simp: tls_client_wrap_def)

theorem tls_over_transports_witness:
  "\<exists>st :: (nat, unit, unit) stream_box.
     usb_connect demo_usb (UsbOut \<lparr>uo_bus_id = ''1'', uo_address = 5, uo_interface = 1\<rparr>) = Some (Inr st) \<and>
     tls_client_wrap \<lparr>tls_connect = (\<lambda>(_ :: unit) (_ :: unit) r w. Inr (r, w)), tls_accept = (\<lambda>(_ :: unit) r w. Inr (r, w))\<rparr>
       (tls_client_new () ()) st = None"
proof -
  obtain st :: "(nat, unit, unit) stream_box" where
    st: "usb_connect demo_usb (UsbOut \<lparr>uo_bus_id = ''1'', uo_address = 5, uo_interface = 1\<rparr>) = Some (Inr st)"
    by (simp add: usb_connect_def demo_usb_def io_bind_def)
  with tls_over_transports show ?thesis by blast
qed

end
