(* ===== verification/Simple_Tcp.thy ===== *)
theory Simple_Tcp
  imports Tls Acceptor
begin

text \<open>
  The simple functions of the TCP transport (\<open>aggligator-transport-tcp/src/simple.rs\<close>): connecting and serving in one
  call, over TCP with or without TLS.  They put the connector or acceptor, the TCP transport and the TLS wrapper
  together; \<open>wraps\<close> are the wrappers of the connector or acceptor that the call creates.  The outcome of waiting for the
  connection and the outcomes of accepting are arguments.
\<close>

section \<open>Connecting\<close>

record ('p, 'r, 'w, 'rx, 'ct) simple_client =
  sc_wrappers :: "('p, 'r, 'w) stream_box wrapper list"
  sc_connector :: "link_tag connector"
  sc_transport :: "tcp_connector option"

definition tls_client_wrapper ::
  "('c, 'n, 's, 'r, 'w) tls_lib \<Rightarrow> 'c \<Rightarrow> 'n \<Rightarrow> ('p, 'r, 'w) stream_box wrapper" where
  "tls_client_wrapper L cfg name = (\<lambda>st r. tls_client_wrap L (tls_client_new cfg name) st = Some r)"

text \<open>
  The connector is created before the transport.  Afterwards it is dropped, which ends neither the connection nor the
  task of its transports; \<open>None\<close> is a panic.
\<close>

definition simple_connect ::
  "('p, 'r, 'w) stream_box wrapper list \<Rightarrow> tcp_connector io_result \<Rightarrow> unit + exchanged_cfg \<Rightarrow> ('rx, 'ct) channel \<Rightarrow>
   (('rx, 'ct) stream io_result \<times> ('p, 'r, 'w, 'rx, 'ct) simple_client) option" where
  "simple_connect wraps transport connected_rx ch =
     (let co = connector_build in
      (case transport of
         Inl e \<Rightarrow> Some (Inl e, \<lparr>sc_wrappers = wraps, sc_connector = co, sc_transport = None\<rparr>)
       | Inr c \<Rightarrow>
           (let (_, co) = connector_add co;
                (outgoing, co) = connector_channel co;
                client = \<lparr>sc_wrappers = wraps, sc_connector = co, sc_transport = Some c\<rparr>
            in do {
              assert_that outgoing;
              r \<leftarrow> outgoing_connect connected_rx ch;
              (case r of
                 Inl e \<Rightarrow> Some (Inl (connect_to_io e), client)
               | Inr ch \<Rightarrow> do { st \<leftarrow> channel_into_stream ch; Some (Inr st, client) })
            })))"

definition simple_tcp_connect ::
  "show_env \<Rightarrow> bool \<Rightarrow> (string \<Rightarrow> socket_addr list io_result) \<Rightarrow> string list \<Rightarrow> u16 \<Rightarrow> unit + exchanged_cfg \<Rightarrow>
   ('rx, 'ct) channel \<Rightarrow> (('rx, 'ct) stream io_result \<times> ('p, 'r, 'w, 'rx, 'ct) simple_client) option" where
  "simple_tcp_connect S android lookup target default_port =
     simple_connect [] (tcp_new S android lookup target default_port)"

definition simple_tls_connect ::
  "('c, 'n, 's, 'r, 'w) tls_lib \<Rightarrow> show_env \<Rightarrow> bool \<Rightarrow> (string \<Rightarrow> socket_addr list io_result) \<Rightarrow> string list \<Rightarrow> u16 \<Rightarrow>
   'c \<Rightarrow> 'n \<Rightarrow> unit + exchanged_cfg \<Rightarrow> ('rx, 'ct) channel \<Rightarrow>
   (('rx, 'ct) stream io_result \<times> ('p, 'r, 'w, 'rx, 'ct) simple_client) option" where
  "simple_tls_connect L S android lookup target default_port tls_cfg server_name =
     simple_connect [tls_client_wrapper L tls_cfg server_name] (tcp_new S android lookup target default_port)"

section \<open>Serving\<close>

definition tls_server_wrapper :: "('c, 'n, 's, 'r, 'w) tls_lib \<Rightarrow> 's \<Rightarrow> ('p, 'r, 'w) stream_box wrapper" where
  "tls_server_wrapper L cfg = (\<lambda>st r. tls_server_wrap L (tls_server_new cfg) st = Some r)"

text \<open>
  The loop: the streams for which the work function is spawned, and the error that ends the server.  When the
  outcomes are used up the server waits.
\<close>

fun serve :: "('rx, 'ct) channel io_result list \<Rightarrow> (('rx, 'ct) stream list \<times> io_error option) option" where
  "serve [] = Some ([], None)"
| "serve (Inl e # _) = Some ([], Some e)"
| "serve (Inr ch # accepts) = do {
     st \<leftarrow> channel_into_stream ch;
     (sts, r) \<leftarrow> serve accepts;
     Some (st # sts, r)
   }"

definition simple_serve ::
  "acceptor \<Rightarrow> 'l list io_result \<Rightarrow> ('rx, 'ct) channel io_result list \<Rightarrow>
   (('rx, 'ct) stream list \<times> io_error option) option" where
  "simple_serve a transport accepts =
     (case transport of
        Inl e \<Rightarrow> Some ([], Some e)
      | Inr _ \<Rightarrow> do { acceptor_add a; serve accepts })"

text \<open>The two servers, with the wrappers of their acceptors.\<close>

definition simple_tcp_server ::
  "('s, 'l) tcp_listen_os \<Rightarrow> socket_addr \<Rightarrow> acceptor \<Rightarrow> ('rx, 'ct) channel io_result list \<Rightarrow>
   ('p, 'r, 'w) stream_box wrapper list \<times> (('rx, 'ct) stream list \<times> io_error option) option" where
  "simple_tcp_server T addr a accepts = ([], simple_serve a (tcp_acceptor_new T [addr]) accepts)"

definition simple_tls_server ::
  "('c, 'n, 's, 'r, 'w) tls_lib \<Rightarrow> ('o, 'l) tcp_listen_os \<Rightarrow> socket_addr \<Rightarrow> 's \<Rightarrow> acceptor \<Rightarrow>
   ('rx, 'ct) channel io_result list \<Rightarrow>
   ('p, 'r, 'w) stream_box wrapper list \<times> (('rx, 'ct) stream list \<times> io_error option) option" where
  "simple_tls_server L T addr tls_cfg a accepts =
     ([tls_server_wrapper L tls_cfg], simple_serve a (tcp_acceptor_new T [addr]) accepts)"

section \<open>Properties\<close>

text \<open>
  Set-up of a connection never panics.  It fails with the error of the transport, or for the time limit of the
  connection; otherwise the stream sends and receives for the connection, within the limits of the remote endpoint.
\<close>

lemma simple_connect_total:
  assumes "ch = ap_channel (connect now wr rx ct cid c)"
  shows "\<exists>r client. simple_connect wraps transport connected_rx ch = Some (r, client) \<and>
    (case transport of
       Inl e \<Rightarrow> r = Inl e
     | Inr t \<Rightarrow> sc_transport client = Some t \<and> co_pending (sc_connector client) = [0] \<and>
         (case connected_rx of
            Inl _ \<Rightarrow> r = Inl (connect_to_io ConnectTimeout)
          | Inr rc \<Rightarrow> \<exists>st. r = Inr st \<and> st_tx st = into_sink (sender_new c rc cid)))"
  using assms
  by (cases transport; cases connected_rx)
    (simp_all add: simple_connect_def connector_build_def connector_add_def connector_channel_def outgoing_connect_def
      connect_def agg_parts_new_def channel_new_def set_remote_cfg_def channel_into_stream_def into_tx_rx_def Let_def)

text \<open>The wrapper of a TLS client never meets a stream of packets from the TCP transport, so it never panics.\<close>

lemma tls_over_tcp:
  "tcp_connect S T tag = Some (Inr st) \<Longrightarrow> \<exists>r. tls_client_wrapper L cfg name (st :: ('p, 'r, 'w) stream_box) r"
  by (auto simp: tls_client_wrapper_def tls_client_wrap_def dest: tcp_connect_io)

text \<open>A server spawns its work for every accepted connection, in order, up to the first error, with which it ends.\<close>

lemma serve_all:
  assumes "\<forall>ch. Inr ch \<in> set accepts \<longrightarrow> ch_remote_cfg ch \<noteq> None"
  shows "\<exists>sts. serve accepts = Some (sts, case dropWhile (\<lambda>r. \<not> isl r) accepts of Inl e # _ \<Rightarrow> Some e | _ \<Rightarrow> None) \<and>
    length sts = length (takeWhile (\<lambda>r. \<not> isl r) accepts)"
  using assms
proof (induction accepts rule: serve.induct)
  case (3 ch accepts)
  from 3(2) obtain st where st: "channel_into_stream ch = Some st"
    by (fastforce simp: channel_into_stream_def into_tx_rx_def)
  have "\<forall>ch. Inr ch \<in> set accepts \<longrightarrow> ch_remote_cfg ch \<noteq> None" using 3(2) by simp
  from 3(1) [OF st this] st show ?case by auto
qed (simp_all)

end
