(* ===== verification/Browser.thy ===== *)
theory Browser
  imports Tcp_Transport
begin

text \<open>
  The transports for web browsers: outgoing WebSocket links (\<open>aggligator-transport-websocket-web/src/lib.rs\<close>) and
  outgoing USB links (\<open>aggligator-transport-webusb/src/lib.rs\<close>).  The interfaces of the browser, which the packages
  \<open>websocket_web\<close>, \<open>webusb_web\<close> and \<open>upc\<close> offer, are parameters.
\<close>

section \<open>Link tags\<close>

record web_ws_tag =
  ww_url :: string

record web_usb_tag =
  wu_id :: u32
  wu_interface :: u8

datatype web_tag = WebWs web_ws_tag | WebUsb web_usb_tag

definition web_ws_cmp :: "web_ws_tag \<Rightarrow> web_ws_tag \<Rightarrow> ordering" where
  "web_ws_cmp = key_cmp str_cmp ww_url"

definition web_usb_cmp :: "web_usb_tag \<Rightarrow> web_usb_tag \<Rightarrow> ordering" where
  "web_usb_cmp = key_cmp (prod_cmp word_cmp word_cmp) (\<lambda>t. (wu_id t, wu_interface t))"

fun web_dyn_cmp :: "web_tag \<Rightarrow> web_tag \<Rightarrow> ordering option" where
  "web_dyn_cmp (WebWs a) (WebWs b) = Some (web_ws_cmp a b)"
| "web_dyn_cmp (WebUsb a) (WebUsb b) = Some (web_usb_cmp a b)"
| "web_dyn_cmp _ _ = None"

fun web_transport_name :: "web_tag \<Rightarrow> string" where
  "web_transport_name (WebWs _) = ''websocket''"
| "web_transport_name (WebUsb _) = ''webusb''"

definition web_tag_direction :: "web_tag \<Rightarrow> direction" where
  "web_tag_direction _ = Outgoing"

fun web_user_data :: "web_tag \<Rightarrow> bytes" where
  "web_user_data (WebWs _) = string_bytes ''web''"
| "web_user_data (WebUsb _) = []"

fun web_link_cfg :: "web_tag \<Rightarrow> link_cfg \<Rightarrow> link_cfg" where
  "web_link_cfg (WebWs _) lc = lc\<lparr>ack_timeout_min := ack_timeout_min lc + from_secs 3\<rparr>"
| "web_link_cfg (WebUsb _) lc = lc"

fun web_tag_display :: "show_env \<Rightarrow> web_tag \<Rightarrow> string" where
  "web_tag_display S (WebWs t) = ww_url t"
| "web_tag_display S (WebUsb t) = ''USB -> '' @ sh_nat S (unat (wu_id t)) @ '':'' @ sh_nat S (unat (wu_interface t))"

fun web_tag_type :: "web_tag \<Rightarrow> nat" where
  "web_tag_type (WebWs _) = 0"
| "web_tag_type (WebUsb _) = 1"

definition web_tag_ops :: "(nat \<Rightarrow> nat) \<Rightarrow> show_env \<Rightarrow> web_tag tag_ops" where
  "web_tag_ops tid S =
     \<lparr>tg_transport_name = web_transport_name, tg_type_id = (\<lambda>t. tid (web_tag_type t)),
      tg_dyn_cmp = (\<lambda>a b. case web_dyn_cmp a b of Some r \<Rightarrow> r | None \<Rightarrow> Equal),
      tg_user_data = web_user_data, tg_link_cfg = web_link_cfg, tg_display = web_tag_display S\<rparr>"

lemma total_web_ws: "total_cmp web_ws_cmp"
  unfolding web_ws_cmp_def by (rule total_key) (auto intro!: injI web_ws_tag.equality)

lemma total_web_usb: "total_cmp web_usb_cmp"
  unfolding web_usb_cmp_def by (rule total_key) (auto intro!: injI web_usb_tag.equality)

text \<open>The names of the transports decide between tags of different types, so that the tags are totally ordered.\<close>

lemma web_tag_cmp:
  "tag_cmp (web_tag_ops tid S) = key_cmp (sum_cmp web_ws_cmp web_usb_cmp) (\<lambda>t. case t of WebWs w \<Rightarrow> Inl w | WebUsb u \<Rightarrow> Inr u)"
proof (intro ext)
  fix a b
  show "tag_cmp (web_tag_ops tid S) a b =
    key_cmp (sum_cmp web_ws_cmp web_usb_cmp) (\<lambda>t. case t of WebWs w \<Rightarrow> Inl w | WebUsb u \<Rightarrow> Inr u) a b"
    by (cases a; cases b) (simp_all add: tag_cmp_def web_tag_ops_def key_cmp_def nat_cmp_def)
qed

lemma web_tag_total: "total_cmp (tag_cmp (web_tag_ops tid S))"
  unfolding web_tag_cmp
  by (rule total_key [OF total_sum [OF total_web_ws total_web_usb]]) (auto intro!: injI split: web_tag.splits)

section \<open>WebSocket\<close>

record 'b web_ws_connector =
  wwc_urls :: "string list"
  wwc_cfg_fn :: "'b \<Rightarrow> 'b"

definition web_ws_new :: "string list \<Rightarrow> 'b web_ws_connector io_result" where
  "web_ws_new urls =
     (if urls = [] then Inl (IoError InvalidInput ''at least one URL is required'')
      else Inr \<lparr>wwc_urls = urls, wwc_cfg_fn = id\<rparr>)"

definition web_ws_set_cfg :: "('b \<Rightarrow> 'b) \<Rightarrow> 'b web_ws_connector \<Rightarrow> 'b web_ws_connector" where
  "web_ws_set_cfg f c = c\<lparr>wwc_cfg_fn := f\<rparr>"

definition web_ws_display :: "'b web_ws_connector \<Rightarrow> string option" where
  "web_ws_display c =
     (if length (wwc_urls c) > 1 then Some (''['' @ join '', '' (wwc_urls c) @ '']'') else nth_opt (wwc_urls c) 0)"

definition web_ws_link_tags :: "'b web_ws_connector \<Rightarrow> web_tag set" where
  "web_ws_link_tags c = (\<lambda>url. WebWs \<lparr>ww_url = url\<rparr>) ` set (wwc_urls c)"

record ('b, 'k) web_ws_os =
  wwo_builder :: "string \<Rightarrow> 'b"
  wwo_connect :: "'b \<Rightarrow> 'k io_result"

text \<open>A downcast of a tag of another type is unwrapped; the two halves of a WebSocket are made into a byte stream.\<close>

definition web_ws_connect ::
  "('b, 'k) web_ws_os \<Rightarrow> 'b web_ws_connector \<Rightarrow> web_tag \<Rightarrow> ('p, 'k, 'k) stream_box io_result option" where
  "web_ws_connect T c tag =
     (case tag of
        WebWs t \<Rightarrow> Some (io_bind (wwo_connect T (wwc_cfg_fn c (wwo_builder T (ww_url t)))) (\<lambda>k. Inr (Io k k)))
      | WebUsb _ \<Rightarrow> None)"

section \<open>USB\<close>

text \<open>
  Known devices, a bijection of identifiers and devices; inserting a pair removes the pairs it is in conflict with.
  The number of the next identifier wraps around.
\<close>

record 'd known_devices =
  kd_devices :: "(u32 \<times> 'd) list"
  kd_next_id :: u32

definition known_new :: "'d known_devices" where
  "known_new = \<lparr>kd_devices = [], kd_next_id = 0\<rparr>"

definition bimap_insert :: "u32 \<Rightarrow> 'd \<Rightarrow> (u32 \<times> 'd) list \<Rightarrow> (u32 \<times> 'd) list" where
  "bimap_insert i d m = (i, d) # filter (\<lambda>(j, e). j \<noteq> i \<and> e \<noteq> d) m"

definition device_id :: "'d \<Rightarrow> 'd known_devices \<Rightarrow> u32 \<times> 'd known_devices" where
  "device_id d k =
     (case List.find (\<lambda>(i, e). e = d) (kd_devices k) of
        Some (i, _) \<Rightarrow> (i, k)
      | None \<Rightarrow>
          (let i = kd_next_id k in
           (i, k\<lparr>kd_next_id := i + 1, kd_devices := bimap_insert i d (kd_devices k)\<rparr>)))"

definition device_by_id :: "u32 \<Rightarrow> 'd known_devices \<Rightarrow> 'd option" where
  "device_by_id i k = map_option snd (List.find (\<lambda>(j, _). j = i) (kd_devices k))"

text \<open>
  The interfaces of the configuration of a device, by their numbers, and whether the filter of the user takes them.
\<close>

record ('d, 'h, 'p) web_usb =
  wb_configuration :: "'d \<Rightarrow> u8 list option"
  wb_filter :: "'d \<Rightarrow> u8 \<Rightarrow> bool"
  wb_open :: "'d \<Rightarrow> 'h io_result"
  wb_upc_connect :: "'h \<Rightarrow> u8 \<Rightarrow> 'p io_result"

fun web_usb_scan :: "('d, 'h, 'p) web_usb \<Rightarrow> 'd list \<Rightarrow> 'd known_devices \<Rightarrow> web_tag set \<times> 'd known_devices" where
  "web_usb_scan T [] k = ({}, k)"
| "web_usb_scan T (d # ds) k =
     (let (i, k) = device_id d k;
          own = (case wb_configuration T d of
                   None \<Rightarrow> {}
                 | Some ifs \<Rightarrow> (\<lambda>n. WebUsb \<lparr>wu_id = i, wu_interface = n\<rparr>) ` {n \<in> set ifs. wb_filter T d n});
          (tags, k) = web_usb_scan T ds k
      in (own \<union> tags, k))"

text \<open>
  The loop of the discovery: the devices seen in each round, and whether it goes on after it (the stream of events has not
  ended).  The set of tags has a version that counts the notifications of its watchers.
\<close>

record 'd web_discovery =
  bd_known :: "'d known_devices"
  bd_tags :: "web_tag set"
  bd_version :: nat

definition web_usb_round :: "('d, 'h, 'p) web_usb \<Rightarrow> 'd list \<Rightarrow> 'd web_discovery \<Rightarrow> 'd web_discovery" where
  "web_usb_round T ds s =
     (let (tags, k) = web_usb_scan T ds (bd_known s); s = s\<lparr>bd_known := k\<rparr>
      in if bd_tags s \<noteq> tags then s\<lparr>bd_tags := tags, bd_version := Suc (bd_version s)\<rparr> else s)"

fun web_usb_link_tags :: "('d, 'h, 'p) web_usb \<Rightarrow> 'd list list \<Rightarrow> 'd web_discovery \<Rightarrow> 'd web_discovery" where
  "web_usb_link_tags T [] s = s"
| "web_usb_link_tags T (ds # rounds) s = web_usb_link_tags T rounds (web_usb_round T ds s)"

definition web_usb_connect ::
  "('d, 'h, 'p) web_usb \<Rightarrow> 'd known_devices \<Rightarrow> web_tag \<Rightarrow> ('p, 'r, 'w) stream_box io_result option" where
  "web_usb_connect T k tag =
     (case tag of
        WebUsb t \<Rightarrow>
          Some (case device_by_id (wu_id t) k of
                  None \<Rightarrow> Inl (IoError NotFound ''USB device gone'')
                | Some d \<Rightarrow> io_bind (wb_open T d) (\<lambda>h. io_bind (wb_upc_connect T h (wu_interface t)) (\<lambda>p. Inr (TxRx p))))
      | WebWs _ \<Rightarrow> None)"

section \<open>Known devices\<close>

text \<open>The identifiers are the numbers from zero on, while fewer than 2 ^ 32 devices have been seen.\<close>

definition known_ok :: "'d known_devices \<Rightarrow> bool" where
  "known_ok k \<longleftrightarrow> length (kd_devices k) \<le> 2 ^ 32 \<and> kd_next_id k = of_nat (length (kd_devices k)) \<and>
     map fst (kd_devices k) = map of_nat (rev [0..<length (kd_devices k)]) \<and> distinct (map snd (kd_devices k))"

lemma known_ok_new: "known_ok known_new"
  by (simp add: known_ok_def known_new_def)

lemma of_nat_u32_eq: "a < 2 ^ 32 \<Longrightarrow> b < 2 ^ 32 \<Longrightarrow> (of_nat a :: u32) = of_nat b \<longleftrightarrow> a = b"
  by (simp add: of_nat_eq_iff take_bit_nat_eq_self unsigned_of_nat word_of_nat_eq_iff)

lemma known_ids:
  assumes "known_ok k" and "(i, d) \<in> set (kd_devices k)"
  shows "\<exists>n < length (kd_devices k). i = of_nat n"
proof -
  have "i \<in> set (map fst (kd_devices k))" using assms(2) by force
  also have "set (map fst (kd_devices k)) = of_nat ` {0..<length (kd_devices k)}"
    using assms(1) unfolding known_ok_def by (metis image_set set_rev set_upt)
  finally show ?thesis by auto
qed

lemma known_distinct:
  assumes "known_ok k"
  shows "distinct (map fst (kd_devices k))"
proof -
  have "inj_on (of_nat :: nat \<Rightarrow> u32) {0..<length (kd_devices k)}"
    using assms by (intro inj_onI) (simp add: known_ok_def of_nat_u32_eq)
  then show ?thesis using assms by (simp add: known_ok_def distinct_map)
qed

lemma find_pair_Some: "List.find P xs = Some x \<Longrightarrow> x \<in> set xs \<and> P x"
  by (metis find_Some_iff nth_mem)

lemma device_by_id_iff:
  assumes "known_ok k"
  shows "device_by_id i k = Some d \<longleftrightarrow> (i, d) \<in> set (kd_devices k)"
proof
  assume "device_by_id i k = Some d"
  then show "(i, d) \<in> set (kd_devices k)" by (auto simp: device_by_id_def dest!: find_pair_Some)
next
  assume m: "(i, d) \<in> set (kd_devices k)"
  obtain e where e: "List.find (\<lambda>(j, _). j = i) (kd_devices k) = Some (i, e)"
    using m find_None_iff [of "\<lambda>(j, _). j = i" "kd_devices k"]
    by (cases "List.find (\<lambda>(j, _). j = i) (kd_devices k)") (auto dest: find_pair_Some)
  then have "(i, e) \<in> set (kd_devices k)" by (blast dest: find_pair_Some)
  then have "e = d" using m known_distinct [OF assms] by (meson eq_key_imp_eq_value)
  then show "device_by_id i k = Some d" using e by (simp add: device_by_id_def)
qed

text \<open>Asking for the identifier of a device makes it known and forgets no other.\<close>

lemma device_id_ok:
  assumes ok: "known_ok k" and len: "card (insert d (snd ` set (kd_devices k))) \<le> 2 ^ 32" and id: "device_id d k = (i, k')"
  shows "known_ok k' \<and> (i, d) \<in> set (kd_devices k') \<and> set (kd_devices k) \<subseteq> set (kd_devices k') \<and>
    snd ` set (kd_devices k') = insert d (snd ` set (kd_devices k))"
proof (cases "List.find (\<lambda>(i, e). e = d) (kd_devices k)")
  case None
  then have new: "d \<notin> snd ` set (kd_devices k)" by (auto simp: find_None_iff)
  have "card (snd ` set (kd_devices k)) = length (kd_devices k)"
    using ok by (metis distinct_card known_ok_def length_map set_map)
  then have len: "length (kd_devices k) < 2 ^ 32" using len new by simp
  have "j \<noteq> kd_next_id k" if "(j, e) \<in> set (kd_devices k)" for j e
    using known_ids [OF ok that] len ok by (auto simp: known_ok_def of_nat_u32_eq)
  then have "filter (\<lambda>(j, e). j \<noteq> kd_next_id k \<and> e \<noteq> d) (kd_devices k) = kd_devices k"
    using new by (force simp: filter_id_conv)
  then have "i = kd_next_id k \<and> k' = k\<lparr>kd_next_id := kd_next_id k + 1, kd_devices := (kd_next_id k, d) # kd_devices k\<rparr>"
    using id None by (auto simp: device_id_def bimap_insert_def Let_def)
  then show ?thesis using ok len new by (auto simp: known_ok_def)
next
  case (Some p)
  then have "(i, d) \<in> set (kd_devices k)" "k' = k"
    using id by (auto simp: device_id_def split: prod.splits dest: find_pair_Some)
  then show ?thesis using ok by force
qed

text \<open>The tags of a scan: those of the interfaces that are taken, with the identifiers of their devices.\<close>

definition usb_tags_of :: "('d, 'h, 'p) web_usb \<Rightarrow> 'd set \<Rightarrow> (u32 \<times> 'd) set \<Rightarrow> web_tag set" where
  "usb_tags_of T D known = {WebUsb \<lparr>wu_id = i, wu_interface = n\<rparr> | i n d ifs.
     (i, d) \<in> known \<and> d \<in> D \<and> wb_configuration T d = Some ifs \<and> n \<in> set ifs \<and> wb_filter T d n}"

lemma usb_tags_of_insert:
  assumes "known_ok k" and "(i, d) \<in> set (kd_devices k)"
  shows "usb_tags_of T (insert d D) (set (kd_devices k)) = usb_tags_of T D (set (kd_devices k)) \<union>
    (case wb_configuration T d of
       None \<Rightarrow> {}
     | Some ifs \<Rightarrow> (\<lambda>n. WebUsb \<lparr>wu_id = i, wu_interface = n\<rparr>) ` {n \<in> set ifs. wb_filter T d n})"
proof -
  have inj: "inj_on snd (set (kd_devices k))" using assms(1) by (simp add: known_ok_def distinct_map)
  have "(j, d) \<in> set (kd_devices k) \<longleftrightarrow> j = i" for j using inj_onD [OF inj _ _ assms(2)] assms(2) by auto
  then show ?thesis by (cases "wb_configuration T d") (auto simp: usb_tags_of_def)
qed

lemma web_usb_scan_ok:
  assumes "known_ok k" and "card (snd ` set (kd_devices k) \<union> set ds) \<le> 2 ^ 32" and "web_usb_scan T ds k = (tags, k')"
  shows "known_ok k' \<and> set (kd_devices k) \<subseteq> set (kd_devices k') \<and>
    snd ` set (kd_devices k') = snd ` set (kd_devices k) \<union> set ds \<and>
    tags = usb_tags_of T (set ds) (set (kd_devices k'))"
  using assms
proof (induction ds arbitrary: k tags)
  case Nil
  then show ?case by (simp add: usb_tags_of_def)
next
  case (Cons d ds)
  obtain i k1 where i: "device_id d k = (i, k1)" by force
  obtain ts where ts: "web_usb_scan T ds k1 = (ts, k')"
    using Cons.prems(3) i by (auto simp: Let_def split: prod.splits)
  have "card (insert d (snd ` set (kd_devices k))) \<le> card (snd ` set (kd_devices k) \<union> set (d # ds))"
    by (rule card_mono) auto
  then have "card (insert d (snd ` set (kd_devices k))) \<le> 2 ^ 32" using Cons.prems(2) by linarith
  note k1 = device_id_ok [OF Cons.prems(1) this i]
  have un: "snd ` set (kd_devices k1) \<union> set ds = snd ` set (kd_devices k) \<union> set (d # ds)" using k1 by simp
  have "card (snd ` set (kd_devices k1) \<union> set ds) \<le> 2 ^ 32" unfolding un by (rule Cons.prems(2))
  note ih = Cons.IH [OF _ this ts]
  have ok: "known_ok k'" and mem: "(i, d) \<in> set (kd_devices k')" using ih k1 by auto
  have "tags = usb_tags_of T (set (d # ds)) (set (kd_devices k'))"
    using Cons.prems(3) i ts ih k1 usb_tags_of_insert [OF ok mem, of T "set ds"] by (auto simp: Let_def)
  then show ?case using ih k1 un by auto
qed

lemma web_usb_round_ok:
  assumes "known_ok (bd_known s)" and "card (snd ` set (kd_devices (bd_known s)) \<union> set ds) \<le> 2 ^ 32"
  shows "known_ok (bd_known (web_usb_round T ds s)) \<and>
    set (kd_devices (bd_known s)) \<subseteq> set (kd_devices (bd_known (web_usb_round T ds s))) \<and>
    snd ` set (kd_devices (bd_known (web_usb_round T ds s))) = snd ` set (kd_devices (bd_known s)) \<union> set ds \<and>
    bd_tags (web_usb_round T ds s) = usb_tags_of T (set ds) (set (kd_devices (bd_known (web_usb_round T ds s))))"
proof -
  obtain tags k where k: "web_usb_scan T ds (bd_known s) = (tags, k)" by force
  from web_usb_scan_ok [OF assms k] show ?thesis by (simp add: web_usb_round_def k Let_def)
qed

lemma web_usb_rounds_ok:
  assumes "known_ok (bd_known s)" and "card (snd ` set (kd_devices (bd_known s)) \<union> \<Union> (set ` set rounds)) \<le> 2 ^ 32"
  shows "known_ok (bd_known (web_usb_link_tags T rounds s)) \<and>
    set (kd_devices (bd_known s)) \<subseteq> set (kd_devices (bd_known (web_usb_link_tags T rounds s)))"
  using assms
proof (induction rounds arbitrary: s)
  case (Cons ds rounds)
  let ?s = "web_usb_round T ds s"
  have "card (snd ` set (kd_devices (bd_known s)) \<union> set ds) \<le> card (snd ` set (kd_devices (bd_known s)) \<union> \<Union> (set ` set (ds # rounds)))"
    by (rule card_mono) auto
  then have "card (snd ` set (kd_devices (bd_known s)) \<union> set ds) \<le> 2 ^ 32" using Cons.prems(2) by linarith
  note r = web_usb_round_ok [OF Cons.prems(1) this, of T]
  have "snd ` set (kd_devices (bd_known ?s)) \<union> \<Union> (set ` set rounds) =
    snd ` set (kd_devices (bd_known s)) \<union> \<Union> (set ` set (ds # rounds))" using r by auto
  then have "card (snd ` set (kd_devices (bd_known ?s)) \<union> \<Union> (set ` set rounds)) \<le> 2 ^ 32" using Cons.prems(2) by simp
  from Cons.IH [OF _ this] r show ?case by auto
qed simp

text \<open>
  The tags that a round of the USB discovery publishes are those of the interfaces the user takes, and each opens the
  device it was published for, however many rounds later, unless 2 ^ 32 devices have been seen.
\<close>

theorem web_usb_tags_stable:
  assumes round: "s = web_usb_round T ds s0" and ok: "known_ok (bd_known s0)"
    and later: "s' = web_usb_link_tags T rounds s"
    and few: "card (snd ` set (kd_devices (bd_known s0)) \<union> set ds \<union> \<Union> (set ` set rounds)) \<le> 2 ^ 32"
  shows "bd_tags s = usb_tags_of T (set ds) (set (kd_devices (bd_known s))) \<and>
    (\<forall>d \<in> set ds. \<exists>i. device_by_id i (bd_known s') = Some d \<and> (i, d) \<in> set (kd_devices (bd_known s))) \<and>
    (\<forall>t \<in> bd_tags s. \<exists>d \<in> set ds. \<exists>u. t = WebUsb u \<and> wb_filter T d (wu_interface u) \<and>
       web_usb_connect T (bd_known s') t =
         Some (io_bind (wb_open T d) (\<lambda>h. io_bind (wb_upc_connect T h (wu_interface u)) (\<lambda>p. Inr (TxRx p)))))"
proof -
  have "card (snd ` set (kd_devices (bd_known s0)) \<union> set ds) \<le>
    card (snd ` set (kd_devices (bd_known s0)) \<union> set ds \<union> \<Union> (set ` set rounds))" by (rule card_mono) auto
  then have "card (snd ` set (kd_devices (bd_known s0)) \<union> set ds) \<le> 2 ^ 32" using few by linarith
  note r = web_usb_round_ok [OF ok this, of T, folded round]
  have "card (snd ` set (kd_devices (bd_known s)) \<union> \<Union> (set ` set rounds)) \<le> 2 ^ 32" using few r by simp
  note l = web_usb_rounds_ok [OF _ this, of T, folded later]
  have by_id: "device_by_id i (bd_known s') = Some d" if "(i, d) \<in> set (kd_devices (bd_known s))" for i d
    using that r l device_by_id_iff [of "bd_known s'" i d] by auto
  have "\<exists>i. (i, d) \<in> set (kd_devices (bd_known s))" if "d \<in> set ds" for d
  proof -
    have "d \<in> snd ` set (kd_devices (bd_known s))" using r that by blast
    then show ?thesis by force
  qed
  then have seen: "\<forall>d \<in> set ds. \<exists>i. device_by_id i (bd_known s') = Some d \<and> (i, d) \<in> set (kd_devices (bd_known s))"
    using by_id by blast
  have tags: "bd_tags s = usb_tags_of T (set ds) (set (kd_devices (bd_known s)))" using r by blast
  have "\<exists>d \<in> set ds. \<exists>u. t = WebUsb u \<and> wb_filter T d (wu_interface u) \<and>
       web_usb_connect T (bd_known s') t =
         Some (io_bind (wb_open T d) (\<lambda>h. io_bind (wb_upc_connect T h (wu_interface u)) (\<lambda>p. Inr (TxRx p))))"
    if mem: "t \<in> bd_tags s" for t
  proof -
    obtain i n d where t: "t = WebUsb \<lparr>wu_id = i, wu_interface = n\<rparr>" "(i, d) \<in> set (kd_devices (bd_known s))"
      "d \<in> set ds" "wb_filter T d n" using mem unfolding tags usb_tags_of_def by blast
    then show ?thesis using by_id [OF t(2)] by (intro bexI [OF _ t(3)]) (simp add: web_usb_connect_def)
  qed
  with seen tags show ?thesis by blast
qed

definition sample_usb :: "(string, string, string) web_usb" where
  "sample_usb = \<lparr>wb_configuration = (\<lambda>d. if d = ''hub'' then None else Some [0, 1]), wb_filter = (\<lambda>d n. d = ''stick'' \<and> n = 1),
     wb_open = Inr, wb_upc_connect = (\<lambda>h _. Inr h)\<rparr>"

theorem web_usb_tags_stable_witness:
  "\<exists>s. bd_tags s = {WebUsb \<lparr>wu_id = 1, wu_interface = 1\<rparr>} \<and>
     web_usb_connect sample_usb (bd_known (web_usb_link_tags sample_usb [[''key''], []] s)) (WebUsb \<lparr>wu_id = 1, wu_interface = 1\<rparr>) =
       Some (Inr (TxRx ''stick'' :: (string, unit, unit) stream_box))"
proof -
  let ?init = "\<lparr>bd_known = known_new, bd_tags = {}, bd_version = 0\<rparr> :: string web_discovery"
  let ?s = "web_usb_round sample_usb [''hub'', ''stick''] ?init"
  have few: "card (snd ` set (kd_devices (bd_known ?init)) \<union> set [''hub'', ''stick''] \<union> \<Union> (set ` set [[''key''], []])) \<le> 2 ^ 32"
    by (simp add: known_new_def)
  have tags: "bd_tags ?s = {WebUsb \<lparr>wu_id = 1, wu_interface = 1\<rparr>}"
    by (auto simp: web_usb_round_def known_new_def sample_usb_def device_id_def bimap_insert_def Let_def)
  have ok: "known_ok (bd_known ?init)" by (simp add: known_ok_new)
  note r = web_usb_tags_stable [OF refl ok refl few, of sample_usb, THEN conjunct2, THEN conjunct2, rule_format]
  have "WebUsb \<lparr>wu_id = 1, wu_interface = 1\<rparr> \<in> bd_tags ?s" using tags by simp
  from r [OF this] obtain d where d: "wb_filter sample_usb d 1"
    "web_usb_connect sample_usb (bd_known (web_usb_link_tags sample_usb [[''key''], []] ?s)) (WebUsb \<lparr>wu_id = 1, wu_interface = 1\<rparr>) =
      Some (io_bind (wb_open sample_usb d) (\<lambda>h. io_bind (wb_upc_connect sample_usb h 1) (\<lambda>p. Inr (TxRx p :: (string, unit, unit) stream_box))))"
    by auto
  then have "web_usb_connect sample_usb (bd_known (web_usb_link_tags sample_usb [[''key''], []] ?s))
      (WebUsb \<lparr>wu_id = 1, wu_interface = 1\<rparr>) = Some (Inr (TxRx ''stick'' :: (string, unit, unit) stream_box))"
    by (simp add: sample_usb_def io_bind_def)
  with tags show ?thesis by blast
qed

end
