(* ===== verification/Handles.thy ===== *)
theory Handles
  imports Connect
begin

text \<open>
  The handles of a connection and of its links (\<open>Control\<close> and \<open>Link\<close> of \<open>aggligator/src/control.rs\<close>): what a user
  reads through them, and what reaches the task.  A handle shares channels with the task; clones of a
  handle share everything but what they have seen.

  A watch channel holds a value, the number of times it was set, and whether the sender is gone; a receiver is
  the number it has seen.  Of a queue of unit values only the length matters.
\<close>

section \<open>Watch channels\<close>

record 'a watch =
  w_value :: 'a
  w_version :: nat
  w_closed :: bool

definition watch_new :: "'a \<Rightarrow> 'a watch" where
  "watch_new x = \<lparr>w_value = x, w_version = 0, w_closed = False\<rparr>"

definition send_replace :: "'a \<Rightarrow> 'a watch \<Rightarrow> 'a watch" where
  "send_replace x w = w\<lparr>w_value := x, w_version := Suc (w_version w)\<rparr>"

definition borrow :: "'a watch \<Rightarrow> 'a" where
  "borrow w = w_value w"

definition borrow_and_update :: "'a watch \<Rightarrow> nat \<Rightarrow> 'a \<times> nat" where
  "borrow_and_update w seen = (w_value w, w_version w)"

text \<open>
  Awaiting a change: \<open>None\<close> while waiting; a change is marked as seen, and a closed channel is an error, which the
  callers ignore.
\<close>

definition changed :: "'a watch \<Rightarrow> nat \<Rightarrow> nat option" where
  "changed w seen = (if w_version w \<noteq> seen then Some (w_version w) else if w_closed w then Some seen else None)"

section \<open>Links\<close>

text \<open>What all handles of a link and the task share.\<close>

record 'g link_shared =
  ls_conn_id :: conn_id
  ls_link_id :: link_id
  ls_direction :: direction
  ls_tag :: 'g
  ls_cfg :: cfg
  ls_remote_user_data :: bytes
  ls_link_cfg :: "link_cfg option watch"
  ls_disconnected :: "disconnect_reason watch"
  ls_disconnect_queue :: nat
  ls_disconnect_closed :: bool
  ls_blocked :: bool
  ls_blocked_queue :: nat
  ls_blocked_changed :: "unit watch"
  ls_remotely_blocked :: bool
  ls_not_working :: "(instant \<times> not_working_reason) option watch"
  ls_stats :: "link_stats watch"

definition DISCONNECT_QUEUE :: nat where
  "DISCONNECT_QUEUE = 1"

definition BLOCKED_QUEUE :: nat where
  "BLOCKED_QUEUE = 2"

definition shared_new ::
  "conn_id \<Rightarrow> link_id \<Rightarrow> direction \<Rightarrow> 'g \<Rightarrow> cfg \<Rightarrow> bytes \<Rightarrow> link_cfg option \<Rightarrow> link_stats \<Rightarrow> 'g link_shared" where
  "shared_new cid lid dir tag c ud lc st =
     \<lparr>ls_conn_id = cid, ls_link_id = lid, ls_direction = dir, ls_tag = tag, ls_cfg = c, ls_remote_user_data = ud,
      ls_link_cfg = watch_new lc, ls_disconnected = watch_new DTaskTerminated, ls_disconnect_queue = 0,
      ls_disconnect_closed = False, ls_blocked = False, ls_blocked_queue = 0, ls_blocked_changed = watch_new (),
      ls_remotely_blocked = False, ls_not_working = watch_new None, ls_stats = watch_new st\<rparr>"

text \<open>A handle; a new one has seen all that was sent before.\<close>

record link_rx =
  lr_blocked_seen :: nat
  lr_working_seen :: nat
  lr_stats_seen :: nat

definition link_from :: "'g link_shared \<Rightarrow> link_rx" where
  "link_from s = \<lparr>lr_blocked_seen = w_version (ls_blocked_changed s), lr_working_seen = w_version (ls_not_working s),
     lr_stats_seen = w_version (ls_stats s)\<rparr>"

definition link_eq :: "'g link_shared \<Rightarrow> 'g link_shared \<Rightarrow> bool" where
  "link_eq a b \<longleftrightarrow> ls_conn_id a = ls_conn_id b \<and> ls_link_id a = ls_link_id b"

definition link_cfg_of :: "'g link_shared \<Rightarrow> link_cfg option" where
  "link_cfg_of s = borrow (ls_link_cfg s)"

definition set_link_cfg :: "link_cfg option \<Rightarrow> 'g link_shared \<Rightarrow> 'g link_shared" where
  "set_link_cfg lc s = s\<lparr>ls_link_cfg := send_replace lc (ls_link_cfg s)\<rparr>"

definition link_disconnect_reason :: "'g link_shared \<Rightarrow> disconnect_reason option" where
  "link_disconnect_reason s = (if ls_disconnect_closed s then Some (borrow (ls_disconnected s)) else None)"

definition is_disconnected :: "'g link_shared \<Rightarrow> bool" where
  "is_disconnected s \<longleftrightarrow> link_disconnect_reason s \<noteq> None"

text \<open>Awaiting the disconnection; \<open>None\<close> while waiting.\<close>

definition disconnected :: "'g link_shared \<Rightarrow> disconnect_reason option" where
  "disconnected s = (if ls_disconnect_closed s then Some (borrow (ls_disconnected s)) else None)"

definition start_disconnect :: "'g link_shared \<Rightarrow> 'g link_shared" where
  "start_disconnect s =
     (if \<not> ls_disconnect_closed s \<and> ls_disconnect_queue s < DISCONNECT_QUEUE
      then s\<lparr>ls_disconnect_queue := Suc (ls_disconnect_queue s)\<rparr> else s)"

text \<open>\<open>disconnect\<close> starts the disconnection and then waits.\<close>

definition disconnect :: "'g link_shared \<Rightarrow> 'g link_shared \<times> disconnect_reason option" where
  "disconnect s = (let s = start_disconnect s in (s, disconnected s))"

text \<open>The two halves of \<open>set_blocked\<close>.\<close>

definition blocked_store :: "bool \<Rightarrow> 'g link_shared \<Rightarrow> 'g link_shared" where
  "blocked_store b s = s\<lparr>ls_blocked := b\<rparr>"

definition blocked_notify :: "'g link_shared \<Rightarrow> 'g link_shared" where
  "blocked_notify s =
     (if \<not> ls_disconnect_closed s \<and> ls_blocked_queue s < BLOCKED_QUEUE
      then s\<lparr>ls_blocked_queue := Suc (ls_blocked_queue s)\<rparr> else s)"

definition set_blocked :: "bool \<Rightarrow> 'g link_shared \<Rightarrow> 'g link_shared" where
  "set_blocked b s = blocked_notify (blocked_store b s)"

definition blocked_changed :: "'g link_shared \<Rightarrow> link_rx \<Rightarrow> link_rx option" where
  "blocked_changed s h = map_option (\<lambda>v. h\<lparr>lr_blocked_seen := v\<rparr>) (changed (ls_blocked_changed s) (lr_blocked_seen h))"

definition blocked_update :: "'g link_shared \<Rightarrow> link_rx \<Rightarrow> link_rx" where
  "blocked_update s h = h\<lparr>lr_blocked_seen := snd (borrow_and_update (ls_blocked_changed s) (lr_blocked_seen h))\<rparr>"

definition link_not_working_reason :: "'g link_shared \<Rightarrow> not_working_reason option" where
  "link_not_working_reason s = map_option snd (borrow (ls_not_working s))"

definition link_not_working_since :: "'g link_shared \<Rightarrow> instant option" where
  "link_not_working_since s = map_option fst (borrow (ls_not_working s))"

definition is_working :: "'g link_shared \<Rightarrow> bool" where
  "is_working s \<longleftrightarrow> link_not_working_reason s = None"

definition working_update :: "'g link_shared \<Rightarrow> link_rx \<Rightarrow> link_rx" where
  "working_update s h = h\<lparr>lr_working_seen := snd (borrow_and_update (ls_not_working s) (lr_working_seen h))\<rparr>"

definition working_changed :: "'g link_shared \<Rightarrow> link_rx \<Rightarrow> link_rx option" where
  "working_changed s h = map_option (\<lambda>v. h\<lparr>lr_working_seen := v\<rparr>) (changed (ls_not_working s) (lr_working_seen h))"

definition link_stats_of :: "'g link_shared \<Rightarrow> link_stats" where
  "link_stats_of s = borrow (ls_stats s)"

definition link_stats_update :: "'g link_shared \<Rightarrow> link_rx \<Rightarrow> link_stats \<times> link_rx" where
  "link_stats_update s h =
     (let (x, v) = borrow_and_update (ls_stats s) (lr_stats_seen h) in (x, h\<lparr>lr_stats_seen := v\<rparr>))"

definition link_stats_changed :: "'g link_shared \<Rightarrow> link_rx \<Rightarrow> link_rx option" where
  "link_stats_changed s h = map_option (\<lambda>v. h\<lparr>lr_stats_seen := v\<rparr>) (changed (ls_stats s) (lr_stats_seen h))"

section \<open>The task's side of a link\<close>

text \<open>
  The task receives requests to disconnect and notices of blocking, publishes its own changes, and at
  the end either gives a reason or drops the link.
\<close>

definition recv_disconnect :: "'g link_shared \<Rightarrow> 'g link_shared option" where
  "recv_disconnect s = (if 0 < ls_disconnect_queue s then Some (s\<lparr>ls_disconnect_queue := ls_disconnect_queue s - 1\<rparr>) else None)"

definition recv_blocked_changed :: "'g link_shared \<Rightarrow> 'g link_shared option" where
  "recv_blocked_changed s =
     (if 0 < ls_blocked_queue s
      then Some (s\<lparr>ls_blocked_queue := ls_blocked_queue s - 1, ls_blocked_changed := send_replace () (ls_blocked_changed s)\<rparr>)
      else None)"

definition remote_set_block :: "bool \<Rightarrow> 'g link_shared \<Rightarrow> 'g link_shared" where
  "remote_set_block b s = s\<lparr>ls_remotely_blocked := b, ls_blocked_changed := send_replace () (ls_blocked_changed s)\<rparr>"

definition close_link :: "'g link_shared \<Rightarrow> 'g link_shared" where
  "close_link s =
     s\<lparr>ls_disconnect_closed := True, ls_disconnected := (ls_disconnected s)\<lparr>w_closed := True\<rparr>,
       ls_blocked_changed := (ls_blocked_changed s)\<lparr>w_closed := True\<rparr>, ls_not_working := (ls_not_working s)\<lparr>w_closed := True\<rparr>,
       ls_stats := (ls_stats s)\<lparr>w_closed := True\<rparr>\<rparr>"

definition publish_disconnected :: "disconnect_reason \<Rightarrow> 'g link_shared \<Rightarrow> 'g link_shared" where
  "publish_disconnected reason s = close_link (s\<lparr>ls_disconnected := send_replace reason (ls_disconnected s)\<rparr>)"

section \<open>Control of a connection\<close>

text \<open>What the clones of a control handle share with the task, beside what adding links needs.\<close>

record 'k control_shared =
  cs_conn_id :: conn_id
  cs_server_id :: "server_id option"
  cs_direction :: direction
  cs_terminate_queue :: nat
  cs_link_closed :: bool
  cs_links :: "'k list watch"
  cs_stats :: "stats watch"
  cs_result :: "(task_error + unit) watch"

definition TERMINATE_QUEUE :: nat where
  "TERMINATE_QUEUE = 1"

record control_rx =
  cr_links_seen :: nat
  cr_stats_seen :: nat

definition control_eq :: "'k control_shared \<Rightarrow> 'k control_shared \<Rightarrow> bool" where
  "control_eq a b \<longleftrightarrow> cs_conn_id a = cs_conn_id b"

definition terminate :: "'k control_shared \<Rightarrow> 'k control_shared" where
  "terminate s =
     (if \<not> cs_link_closed s \<and> cs_terminate_queue s < TERMINATE_QUEUE
      then s\<lparr>cs_terminate_queue := Suc (cs_terminate_queue s)\<rparr> else s)"

definition is_terminated :: "'k control_shared \<Rightarrow> bool" where
  "is_terminated s \<longleftrightarrow> cs_link_closed s"

definition terminated :: "'k control_shared \<Rightarrow> (task_error + unit) option" where
  "terminated s = (if cs_link_closed s then Some (borrow (cs_result s)) else None)"

definition links :: "'k control_shared \<Rightarrow> 'k list" where
  "links s = borrow (cs_links s)"

definition links_update :: "'k control_shared \<Rightarrow> control_rx \<Rightarrow> 'k list \<times> control_rx" where
  "links_update s h = (let (x, v) = borrow_and_update (cs_links s) (cr_links_seen h) in (x, h\<lparr>cr_links_seen := v\<rparr>))"

definition links_changed :: "'k control_shared \<Rightarrow> control_rx \<Rightarrow> control_rx option" where
  "links_changed s h = map_option (\<lambda>v. h\<lparr>cr_links_seen := v\<rparr>) (changed (cs_links s) (cr_links_seen h))"

definition conn_stats :: "'k control_shared \<Rightarrow> stats" where
  "conn_stats s = borrow (cs_stats s)"

definition stats_update :: "'k control_shared \<Rightarrow> control_rx \<Rightarrow> stats \<times> control_rx" where
  "stats_update s h = (let (x, v) = borrow_and_update (cs_stats s) (cr_stats_seen h) in (x, h\<lparr>cr_stats_seen := v\<rparr>))"

definition stats_changed :: "'k control_shared \<Rightarrow> control_rx \<Rightarrow> control_rx option" where
  "stats_changed s h = map_option (\<lambda>v. h\<lparr>cr_stats_seen := v\<rparr>) (changed (cs_stats s) (cr_stats_seen h))"

section \<open>Runs of a link\<close>

text \<open>
  A link with its handles: the calls of \<open>set_blocked\<close> that are between their halves, the status that the task
  read last, and the reason it gave.  The last rule drops the link with the task.
\<close>

record 'g link_world =
  lw_shared :: "'g link_shared"
  lw_calls :: nat
  lw_task_blocked :: bool
  lw_reason :: "disconnect_reason option"

inductive world_step :: "'g link_world \<Rightarrow> 'g link_world \<Rightarrow> bool" where
  ws_store: "world_step w (w\<lparr>lw_shared := blocked_store b (lw_shared w), lw_calls := Suc (lw_calls w)\<rparr>)"
| ws_notify: "0 < lw_calls w \<Longrightarrow>
    world_step w (w\<lparr>lw_shared := blocked_notify (lw_shared w), lw_calls := lw_calls w - 1\<rparr>)"
| ws_start_disconnect: "world_step w (w\<lparr>lw_shared := start_disconnect (lw_shared w)\<rparr>)"
| ws_set_link_cfg: "world_step w (w\<lparr>lw_shared := set_link_cfg lc (lw_shared w)\<rparr>)"
| ws_recv_blocked: "\<not> is_disconnected (lw_shared w) \<Longrightarrow> recv_blocked_changed (lw_shared w) = Some s \<Longrightarrow>
    world_step w (w\<lparr>lw_shared := s, lw_task_blocked := ls_blocked s\<rparr>)"
| ws_recv_disconnect: "\<not> is_disconnected (lw_shared w) \<Longrightarrow> recv_disconnect (lw_shared w) = Some s \<Longrightarrow>
    world_step w (w\<lparr>lw_shared := s\<rparr>)"
| ws_remote_block: "\<not> is_disconnected (lw_shared w) \<Longrightarrow>
    world_step w (w\<lparr>lw_shared := remote_set_block b (lw_shared w)\<rparr>)"
| ws_working: "\<not> is_disconnected (lw_shared w) \<Longrightarrow>
    world_step w (w\<lparr>lw_shared := (lw_shared w)\<lparr>ls_not_working := send_replace n (ls_not_working (lw_shared w))\<rparr>\<rparr>)"
| ws_stats: "\<not> is_disconnected (lw_shared w) \<Longrightarrow>
    world_step w (w\<lparr>lw_shared := (lw_shared w)\<lparr>ls_stats := send_replace st (ls_stats (lw_shared w))\<rparr>\<rparr>)"
| ws_removed: "\<not> is_disconnected (lw_shared w) \<Longrightarrow>
    world_step w (w\<lparr>lw_shared := publish_disconnected r (lw_shared w), lw_reason := Some r\<rparr>)"
| ws_dropped: "\<not> is_disconnected (lw_shared w) \<Longrightarrow> world_step w (w\<lparr>lw_shared := close_link (lw_shared w)\<rparr>)"

definition world_inv :: "'g link_world \<Rightarrow> bool" where
  "world_inv w \<longleftrightarrow>
     (is_disconnected (lw_shared w) \<or> lw_task_blocked w = ls_blocked (lw_shared w) \<or>
      0 < ls_blocked_queue (lw_shared w) \<or> 0 < lw_calls w) \<and>
     ls_blocked_queue (lw_shared w) \<le> BLOCKED_QUEUE \<and> ls_disconnect_queue (lw_shared w) \<le> DISCONNECT_QUEUE \<and>
     borrow (ls_disconnected (lw_shared w)) = (case lw_reason w of Some r \<Rightarrow> r | None \<Rightarrow> DTaskTerminated) \<and>
     (\<not> is_disconnected (lw_shared w) \<longrightarrow> lw_reason w = None)"

definition world_moves :: "'g link_world \<Rightarrow> 'g link_world \<Rightarrow> bool" where
  "world_moves w w' \<longleftrightarrow> (is_disconnected (lw_shared w) \<longrightarrow>
     link_disconnect_reason (lw_shared w') = link_disconnect_reason (lw_shared w))"

lemmas handle_defs = is_disconnected_def link_disconnect_reason_def blocked_store_def blocked_notify_def start_disconnect_def
  set_link_cfg_def recv_blocked_changed_def recv_disconnect_def remote_set_block_def close_link_def publish_disconnected_def
  send_replace_def borrow_def BLOCKED_QUEUE_def DISCONNECT_QUEUE_def

lemma world_step_ok:
  assumes "world_step w w'" and "world_inv w"
  shows "world_inv w' \<and> world_moves w w'"
  using assms by (cases rule: world_step.cases) (auto simp: world_inv_def world_moves_def handle_defs split: if_splits)

interpretation lwd: step_system world_step world_inv world_moves
proof unfold_locales
  fix w w' w'' :: "'g link_world"
  show "world_inv w \<Longrightarrow> world_step w w' \<Longrightarrow> world_inv w'" and "world_inv w \<Longrightarrow> world_step w w' \<Longrightarrow> world_moves w w'"
    using world_step_ok by blast+
  show "world_moves w w' \<Longrightarrow> world_moves w' w'' \<Longrightarrow> world_moves w w''"
    by (auto simp: world_moves_def is_disconnected_def)
qed (simp add: world_moves_def)

section \<open>Properties\<close>

text \<open>
  Requests made through the handles of a link are not lost, although their queues are short and full queues are ignored.
  While the link exists, the task knows the last blocking status unless a notice is queued or a call is
  still running, and starting to disconnect leaves a request in the queue.  Once the link is disconnected,
  every handle reports the same reason for ever: the one the task gave, or that the task is gone.
\<close>

theorem handle_requests_arrive:
  assumes "world_step\<^sup>*\<^sup>* \<lparr>lw_shared = shared_new cid lid dir tag c ud lc st, lw_calls = 0, lw_task_blocked = False, lw_reason = None\<rparr> w"
    and "world_step\<^sup>*\<^sup>* w w'"
  shows "(\<not> is_disconnected (lw_shared w) \<longrightarrow> lw_calls w = 0 \<longrightarrow> ls_blocked_queue (lw_shared w) = 0 \<longrightarrow>
      lw_task_blocked w = ls_blocked (lw_shared w)) \<and>
    (\<not> is_disconnected (lw_shared w) \<longrightarrow> recv_disconnect (start_disconnect (lw_shared w)) \<noteq> None) \<and>
    (is_disconnected (lw_shared w) \<longrightarrow>
      disconnected (lw_shared w) = Some (case lw_reason w of Some r \<Rightarrow> r | None \<Rightarrow> DTaskTerminated) \<and>
      disconnected (lw_shared w') = disconnected (lw_shared w))"
proof -
  have "world_inv \<lparr>lw_shared = shared_new cid lid dir tag c ud lc st, lw_calls = 0, lw_task_blocked = False, lw_reason = None\<rparr>"
    by (simp add: world_inv_def shared_new_def handle_defs watch_new_def)
  then have inv: "world_inv w" using assms(1) lwd.run_inv by blast
  then have "world_moves w w'" using assms(2) lwd.run_moves by blast
  with inv show ?thesis by (auto simp: world_inv_def world_moves_def disconnected_def handle_defs split: if_splits)
qed

theorem handle_requests_arrive_witness:
  "\<exists>w. world_step\<^sup>*\<^sup>* \<lparr>lw_shared = shared_new (ConnId 1) (LinkId 2) Outgoing () default_cfg [] None undefined, lw_calls = 0,
      lw_task_blocked = False, lw_reason = None\<rparr> w \<and> disconnected (lw_shared w) = Some PingTimeout"
proof -
  let ?w = "\<lparr>lw_shared = shared_new (ConnId 1) (LinkId 2) Outgoing () default_cfg [] None undefined, lw_calls = 0,
    lw_task_blocked = False, lw_reason = None\<rparr>"
  let ?w' = "?w\<lparr>lw_shared := publish_disconnected PingTimeout (lw_shared ?w), lw_reason := Some PingTimeout\<rparr>"
  have "world_step ?w ?w'" by (rule ws_removed) (simp add: shared_new_def handle_defs)
  then have run: "world_step\<^sup>*\<^sup>* ?w ?w'" by (rule r_into_rtranclp)
  have "is_disconnected (lw_shared ?w')" by (simp add: shared_new_def handle_defs)
  with handle_requests_arrive [OF run rtranclp.rtrancl_refl] have "disconnected (lw_shared ?w') = Some PingTimeout" by simp
  with run show ?thesis by blast
qed

text \<open>
  A handle that has updated its view of the links waits for the next change, is woken by it, and then reads what the
  task published last; after the end of the connection it is always woken.
\<close>

theorem links_watched:
  assumes "links_update s h = (ls, h')"
  shows "ls = links s \<and> (\<not> w_closed (cs_links s) \<longrightarrow> links_changed s h' = None) \<and>
    (\<exists>h''. links_changed (s\<lparr>cs_links := send_replace new (cs_links s)\<rparr>) h' = Some h'' \<and>
       fst (links_update (s\<lparr>cs_links := send_replace new (cs_links s)\<rparr>) h'') = new) \<and>
    links_changed (s\<lparr>cs_links := (cs_links s)\<lparr>w_closed := True\<rparr>\<rparr>) h' \<noteq> None"
  using assms by (auto simp: links_update_def links_changed_def links_def borrow_def borrow_and_update_def changed_def send_replace_def)

theorem links_watched_witness:
  "links_changed \<lparr>cs_conn_id = ConnId 1, cs_server_id = None, cs_direction = Outgoing, cs_terminate_queue = 0,
     cs_link_closed = False, cs_links = watch_new [LinkId 3], cs_stats = watch_new undefined,
     cs_result = watch_new (Inr ())\<rparr> \<lparr>cr_links_seen = 0, cr_stats_seen = 0\<rparr> = None"
proof -
  let ?s = "\<lparr>cs_conn_id = ConnId 1, cs_server_id = None, cs_direction = Outgoing, cs_terminate_queue = 0,
     cs_link_closed = False, cs_links = watch_new [LinkId 3], cs_stats = watch_new undefined, cs_result = watch_new (Inr ())\<rparr>"
  let ?h = "\<lparr>cr_links_seen = 0, cr_stats_seen = 0\<rparr>"
  have "links_update ?s ?h = ([LinkId 3], ?h)" by (simp add: links_update_def borrow_and_update_def watch_new_def)
  from links_watched [OF this] show ?thesis by (simp add: watch_new_def)
qed

end
