(* ===== verification/Dump.thy ===== *)
theory Dump
  imports Task_Reach
begin

text \<open>
  The dump of analysis data (\<open>aggligator/src/agg/dump.rs\<close>, with the conversions in \<open>agg/link_int.rs\<close> and
  \<open>agg/task.rs\<close>): snapshots of a task and its links, their way into a queue without blocking, and the file of lines.

  Durations are kept as such instead of as floating point numbers of seconds.  The ten fields \<open>link0\<close> to \<open>link9\<close> are a list.
\<close>

section \<open>Snapshots\<close>

record link_dump =
  ld_present :: bool
  ld_link_id :: u128
  ld_unconfirmed :: bool
  ld_tx_idle :: bool
  ld_tx_pending :: bool
  ld_tx_flushing :: bool
  ld_tx_flushed :: bool
  ld_tx_ack_queue :: usize
  ld_txed_unacked_data :: usize
  ld_txed_unacked_data_limit :: usize
  ld_increased_consecutively :: usize
  ld_total_sent :: u64
  ld_total_recved :: u64
  ld_roundtrip :: duration

definition link_dump_default :: link_dump where
  "link_dump_default = \<lparr>ld_present = False, ld_link_id = 0, ld_unconfirmed = False, ld_tx_idle = False,
     ld_tx_pending = False, ld_tx_flushing = False, ld_tx_flushed = False, ld_tx_ack_queue = 0,
     ld_txed_unacked_data = 0, ld_txed_unacked_data_limit = 0, ld_increased_consecutively = 0, ld_total_sent = 0,
     ld_total_recved = 0, ld_roundtrip = 0\<rparr>"

definition link_dump_from :: "'tx link_int \<Rightarrow> link_dump" where
  "link_dump_from l = \<lparr>ld_present = True, ld_link_id = link_raw (lk_link_id l),
     ld_unconfirmed = (lk_unconfirmed l \<noteq> None), ld_tx_idle = (tx_idle_since l \<noteq> None), ld_tx_pending = tx_pending l,
     ld_tx_flushing = tx_flushing l, ld_tx_flushed = (txed_first_unflushed_data l = None),
     ld_tx_ack_queue = length (tx_ack_queue l), ld_txed_unacked_data = txed_unacked_data l,
     ld_txed_unacked_data_limit = txed_unacked_data_limit l,
     ld_increased_consecutively = limit_increased_consecutively l, ld_total_sent = total_sent (sn_current (lk_stats l)),
     ld_total_recved = total_recved (sn_current (lk_stats l)), ld_roundtrip = roundtrip l\<rparr>"

record conn_dump =
  cd_conn_id :: u128
  cd_runtime :: duration
  cd_txed_unacked :: usize
  cd_txed_unconsumed :: usize
  cd_txed_unconsumable :: usize
  cd_send_buffer :: u32
  cd_remote_receive_buffer :: u32
  cd_resend_queue :: usize
  cd_rxed_reliable_size :: usize
  cd_consumed_since_last_ack :: usize
  cd_links :: "link_dump list"

definition dump_link :: "'tx link_int option list \<Rightarrow> nat \<Rightarrow> link_dump" where
  "dump_link ls i =
     (case nth_opt ls i of
        Some (Some l) \<Rightarrow> link_dump_from l
      | _ \<Rightarrow> link_dump_default)"

definition conn_dump_from :: "instant \<Rightarrow> ('tx, 'wr) task \<Rightarrow> conn_dump" where
  "conn_dump_from now t = \<lparr>cd_conn_id = conn_raw (t_conn_id t), cd_runtime = elapsed now (start_time t),
     cd_txed_unacked = t_txed_unacked t, cd_txed_unconsumed = txed_unconsumed t,
     cd_txed_unconsumable = txed_unconsumable t, cd_send_buffer = send_buffer (t_cfg t),
     cd_remote_receive_buffer = (case t_remote_cfg t of Some rc \<Rightarrow> x_recv_buffer rc | None \<Rightarrow> 0),
     cd_resend_queue = length (resend_queue t), cd_rxed_reliable_size = rxed_reliable_size t,
     cd_consumed_since_last_ack = consumed_since_last_ack t, cd_links = map (dump_link (t_links t)) [0..<10]\<rparr>"

section \<open>Sending\<close>

text \<open>The outcome of trying to reserve a place in the queue.\<close>

datatype reserved = Permit | QueueFull | QueueClosed

text \<open>The queue that is left to the task (its sender is dropped when it is closed) and what was put into it.\<close>

definition send_dump :: "instant \<Rightarrow> reserved \<Rightarrow> ('tx, 'wr) task \<Rightarrow> bool \<Rightarrow> bool \<times> conn_dump option" where
  "send_dump now r t dump_tx =
     (if dump_tx then
        (case r of
           Permit \<Rightarrow> (True, Some (conn_dump_from now t))
         | QueueFull \<Rightarrow> (True, None)
         | QueueClosed \<Rightarrow> (False, None))
      else (False, None))"

section \<open>The file\<close>

text \<open>Writing goes through a buffer; \<open>wr\<close> writes bytes and \<open>fl\<close> flushes.  The dumps are what the queue gives until it is closed.\<close>

fun dump_lines ::
  "('d \<Rightarrow> bytes) \<Rightarrow> ('f \<Rightarrow> bytes \<Rightarrow> 'f io_result) \<Rightarrow> ('f \<Rightarrow> 'f io_result) \<Rightarrow> 'd list \<Rightarrow> 'f \<Rightarrow> 'f io_result" where
  "dump_lines json wr fl [] f = fl f"
| "dump_lines json wr fl (d # ds) f =
     (case wr f (json d) of
        Inl e \<Rightarrow> Inl e
      | Inr f \<Rightarrow>
          (case wr f [10] of
             Inl e \<Rightarrow> Inl e
           | Inr f \<Rightarrow> dump_lines json wr fl ds f))"

definition dump_to_json_line_file ::
  "'f io_result \<Rightarrow> ('d \<Rightarrow> bytes) \<Rightarrow> ('f \<Rightarrow> bytes \<Rightarrow> 'f io_result) \<Rightarrow> ('f \<Rightarrow> 'f io_result) \<Rightarrow> 'd list \<Rightarrow> 'f io_result" where
  "dump_to_json_line_file create json wr fl ds =
     (case create of
        Inl e \<Rightarrow> Inl e
      | Inr f \<Rightarrow> dump_lines json wr fl ds f)"

fun split_lines :: "bytes \<Rightarrow> bytes \<Rightarrow> bytes list" where
  "split_lines acc [] = (if acc = [] then [] else [acc])"
| "split_lines acc (b # bs) = (if b = 10 then acc # split_lines [] bs else split_lines (acc @ [b]) bs)"

lemma split_lines_line: "10 \<notin> set l \<Longrightarrow> split_lines acc (l @ [10] @ bs) = (acc @ l) # split_lines [] bs"
  by (induction l arbitrary: acc) simp_all

text \<open>One line per dump: when no write fails, the lines of the file are the dumps, if their texts have no line breaks.\<close>

lemma dump_file_lines:
  assumes "\<forall>d \<in> set ds. 10 \<notin> set (json d)"
  shows "\<exists>f. dump_to_json_line_file (Inr []) json (\<lambda>f bs. Inr (f @ bs)) Inr ds = Inr f \<and> split_lines [] f = map json ds"
proof -
  have "dump_lines json (\<lambda>f bs. Inr (f @ bs)) Inr ds f = Inr (f @ concat (map (\<lambda>d. json d @ [10]) ds))" for f
    by (induction ds arbitrary: f) simp_all
  moreover have "split_lines [] (concat (map (\<lambda>d. json d @ [10]) ds)) = map json ds"
    using assms by (induction ds) (simp_all add: split_lines_line [of _ "[]", simplified])
  ultimately show ?thesis by (simp add: dump_to_json_line_file_def)
qed

section \<open>What a dump shows\<close>

text \<open>
  The unacknowledged data that a dump shows for the links is accounted for in that of the connection; the rest waits to
  be sent again.  It needs the invariant of the task and at most ten places for links.
\<close>

lemma sent_sz_sum:
  assumes "\<And>i lid m. k = PSent i lid m \<Longrightarrow> i < n"
  shows "unacked_sz k = (\<Sum>i<n. sent_sz i k) + (if is_queued k then unacked_sz k else 0)"
proof (cases k)
  case (PSent j lid m)
  then have "(\<Sum>i<n. sent_sz i k) = (\<Sum>i<n. if j = i then msg_size m else 0)" by simp
  also have "\<dots> = msg_size m" using assms [OF PSent] by simp
  finally show ?thesis using PSent by simp
qed simp_all

lemma sum_link_dumps:
  assumes "length ls \<le> 10"
  shows "(\<Sum>d\<leftarrow>map (dump_link ls) [0..<10]. ld_txed_unacked_data d) =
    (\<Sum>i<10. case nth_opt ls i of Some (Some l) \<Rightarrow> txed_unacked_data l | _ \<Rightarrow> 0)"
proof -
  have "(\<Sum>d\<leftarrow>map (dump_link ls) [0..<10]. ld_txed_unacked_data d) =
    (\<Sum>i\<leftarrow>[0..<10]. case nth_opt ls i of Some (Some l) \<Rightarrow> txed_unacked_data l | _ \<Rightarrow> 0)"
    by (rule arg_cong [where f = sum_list])
      (auto simp: dump_link_def link_dump_from_def link_dump_default_def nth_opt_def split: option.split)
  then show ?thesis by (simp add: interv_sum_list_conv_sum_set_nat lessThan_atLeast0)
qed

lemma sum_list_swap: "(\<Sum>x\<leftarrow>xs. \<Sum>i<n. f i x) = (\<Sum>i<n. \<Sum>x\<leftarrow>xs. f i x :: nat)"
  by (induction xs) (simp_all add: sum.distrib)

lemma sum_list_guarded: "(\<Sum>x\<leftarrow>xs. if P x then f x else 0) = (\<Sum>x\<leftarrow>filter P xs. f x :: nat)"
  by (induction xs) simp_all

lemma tally_link:
  assumes inv: "ledger_inv (ledger_of t)"
  shows "tally (sent_sz i) (pkts (t_store t)) (t_txed_packets t) =
    (case nth_opt (t_links t) i of Some (Some l) \<Rightarrow> txed_unacked_data l | _ \<Rightarrow> 0)"
proof (cases "get_link t i")
  case (Some l)
  then have "txed_unacked_data l = tally (sent_sz i) (pkts (t_store t)) (t_txed_packets t)"
    using inv unfolding ledger_inv_def ledger_of_def by fastforce
  then show ?thesis using Some by (auto simp: get_link_def bind_Some_iff nth_opt_def split: if_splits)
next
  case None
  have "sent_sz i (pkts (t_store t) ! p) = 0" if "p \<in> set (t_txed_packets t)" for p
  proof (cases "pkts (t_store t) ! p")
    case (PSent j lid m)
    then have "get_link t j \<noteq> None" using inv that unfolding ledger_inv_def ledger_of_def by fastforce
    then show ?thesis using PSent None by auto
  qed simp_all
  then have "(\<Sum>p\<leftarrow>t_txed_packets t. sent_sz i (pkts (t_store t) ! p)) = 0" by simp
  then show ?thesis using None by (auto simp: tally_def get_link_def nth_opt_def split: option.splits if_splits)
qed

lemma dump_accounts:
  assumes inv: "tx_inv t" and ls: "length (t_links t) \<le> 10"
  shows "cd_txed_unacked (conn_dump_from now t) =
    (\<Sum>d\<leftarrow>cd_links (conn_dump_from now t). ld_txed_unacked_data d) +
    (\<Sum>p\<leftarrow>filter (\<lambda>p. is_queued (pkts (t_store t) ! p)) (t_txed_packets t). unacked_sz (pkts (t_store t) ! p))"
proof -
  let ?pk = "pkts (t_store t)" and ?tx = "t_txed_packets t"
  have led: "ledger_inv (ledger_of t)" using inv by (simp add: tx_inv_def)
  have "unacked_sz (?pk ! p) = (\<Sum>i<10. sent_sz i (?pk ! p)) + (if is_queued (?pk ! p) then unacked_sz (?pk ! p) else 0)"
    if "p \<in> set ?tx" for p
  proof (rule sent_sz_sum)
    fix i lid m
    assume "?pk ! p = PSent i lid m"
    then have "get_link t i \<noteq> None" using led that unfolding ledger_inv_def ledger_of_def by fastforce
    then show "i < 10" using ls by (auto simp: get_link_def nth_opt_def split: if_splits)
  qed
  then have "(\<Sum>p\<leftarrow>?tx. unacked_sz (?pk ! p)) =
    (\<Sum>p\<leftarrow>?tx. (\<Sum>i<10. sent_sz i (?pk ! p)) + (if is_queued (?pk ! p) then unacked_sz (?pk ! p) else 0))"
    by (intro arg_cong [where f = sum_list] map_cong) simp_all
  also have "\<dots> = (\<Sum>i<10. tally (sent_sz i) ?pk ?tx) + (\<Sum>p\<leftarrow>filter (\<lambda>p. is_queued (?pk ! p)) ?tx. unacked_sz (?pk ! p))"
    by (simp add: sum_list_addf sum_list_swap sum_list_guarded tally_def)
  finally show ?thesis
    using led sum_link_dumps [OF ls]
    by (simp add: conn_dump_from_def tally_link [OF led] ledger_inv_def tally_def [of unacked_sz])
qed

section \<open>Properties\<close>

text \<open>
  The numbers of a dump add up in every run of the task: with at most ten places for links, the unacknowledged data of the connection
  is that of the links and that of the messages that wait to be sent again.
\<close>

theorem dump_adds_up:
  assumes "(loop_step S M)\<^sup>*\<^sup>* (Top (task_new now c rc cid dir wr ls)) (Top t)"
    and "\<forall>l \<in> set ls. newly_created l" and "length (t_links t) \<le> 10"
  shows "cd_txed_unacked (conn_dump_from now' t) =
    (\<Sum>d\<leftarrow>cd_links (conn_dump_from now' t). ld_txed_unacked_data d) +
    (\<Sum>p\<leftarrow>filter (\<lambda>p. is_queued (pkts (t_store t) ! p)) (t_txed_packets t). unacked_sz (pkts (t_store t) ! p))"
proof (rule dump_accounts)
  have "\<forall>l \<in> set ls. fresh_link l" using assms(2) newly_created_fresh by blast
  then have "phase_ok (Top (task_new now c rc cid dir wr ls))" by (simp add: task_new_ok)
  from tl.run_inv [OF assms(1) this] show "tx_inv t" by (simp add: task_ok_def)
qed (rule assms(3))

end
