(* ===== verification/Js_Time.thy ===== *)
theory Js_Time
  imports Agg_Prelude
begin

text \<open>
  Time in web browsers (\<open>aggligator/src/exec/js/time.rs\<close>): sleeping by a timer of the JavaScript engine, instants as
  milliseconds, streams of intervals and timeouts of futures.  The timers and the clock of the browser are
  parameters; wakers are numbers.
\<close>

section \<open>Sleeping\<close>

definition as_millis :: "duration \<Rightarrow> nat" where
  "as_millis d = d div 1000000"

record js_sleep =
  js_fired :: bool
  js_waker :: "nat option"

text \<open>The timeout of the timer, a signed word of 32 bits; \<open>None\<close> is the panic on overflow.\<close>

definition js_sleep_new :: "duration \<Rightarrow> (js_sleep \<times> nat) option" where
  "js_sleep_new d = (if as_millis d < 2 ^ 31 then Some (\<lparr>js_fired = False, js_waker = None\<rparr>, as_millis d) else None)"

text \<open>The callback of the timer, with the waker that it wakes.\<close>

definition js_callback :: "js_sleep \<Rightarrow> js_sleep \<times> nat option" where
  "js_callback s = (s\<lparr>js_fired := True, js_waker := None\<rparr>, js_waker s)"

definition js_poll :: "nat \<Rightarrow> js_sleep \<Rightarrow> bool \<times> js_sleep" where
  "js_poll waker s = (if js_fired s then (True, s) else (False, s\<lparr>js_waker := Some waker\<rparr>))"

text \<open>Whether dropping a sleep clears its timer.\<close>

definition js_drop :: "js_sleep \<Rightarrow> bool" where
  "js_drop s \<longleftrightarrow> \<not> js_fired s"

section \<open>Instants\<close>

type_synonym js_instant = u64

text \<open>The first instant that is asked for becomes the start of the clock.\<close>

definition js_now :: "u64 \<Rightarrow> u64 \<Rightarrow> js_instant \<times> u64" where
  "js_now clock start = (let start = (if start = 0 then clock else start) in (clock - start, start))"

definition js_checked_add :: "js_instant \<Rightarrow> duration \<Rightarrow> js_instant option" where
  "js_checked_add i d =
     (if as_millis d < 2 ^ 64 \<and> unat i + as_millis d < 2 ^ 64 then Some (i + of_nat (as_millis d)) else None)"

definition js_add :: "js_instant \<Rightarrow> duration \<Rightarrow> js_instant" where
  "js_add i d = i + of_nat (as_millis d)"

definition js_sub :: "js_instant \<Rightarrow> js_instant \<Rightarrow> duration" where
  "js_sub a b = (if b < a then from_millis (unat (a - b)) else 0)"

definition js_elapsed :: "js_instant \<Rightarrow> js_instant \<Rightarrow> duration" where
  "js_elapsed now i = js_sub now i"

definition js_sleep_until :: "js_instant \<Rightarrow> js_instant \<Rightarrow> (js_sleep \<times> nat) option" where
  "js_sleep_until now deadline = (if now < deadline then js_sleep_new (js_sub deadline now) else js_sleep_new 0)"

section \<open>Intervals and timeouts\<close>

record js_interval =
  jv_period :: duration
  jv_sleep :: js_sleep

definition interval_stream :: "duration \<Rightarrow> js_interval option" where
  "interval_stream period = map_option (\<lambda>(s, _). \<lparr>jv_period = period, jv_sleep = s\<rparr>) (js_sleep_new 0)"

text \<open>\<open>None\<close> is a panic; the flag says whether the stream yields an instant.\<close>

definition interval_poll_next :: "nat \<Rightarrow> js_interval \<Rightarrow> (bool \<times> js_interval) option" where
  "interval_poll_next waker v =
     (let (ready, s) = js_poll waker (jv_sleep v) in
      if \<not> ready then Some (False, v\<lparr>jv_sleep := s\<rparr>)
      else map_option (\<lambda>(s, _). (True, v\<lparr>jv_sleep := s\<rparr>)) (js_sleep_new (jv_period v)))"

text \<open>Polling a timeout: the future is asked first, with its result if it is ready.\<close>

datatype 'a timeout_outcome = TimeoutPending | TimeoutElapsed | TimeoutReady 'a

definition timeout_poll :: "nat \<Rightarrow> 'a option \<Rightarrow> js_sleep \<Rightarrow> 'a timeout_outcome \<times> js_sleep" where
  "timeout_poll waker fut s =
     (case fut of
        Some x \<Rightarrow> (TimeoutReady x, s)
      | None \<Rightarrow> (let (ready, s) = js_poll waker s in (if ready then TimeoutElapsed else TimeoutPending, s)))"

definition js_elapsed_to_io :: io_error where
  "js_elapsed_to_io = IoError TimedOut ''timed out''"

section \<open>Lemmas\<close>

text \<open>Runs of a sleep: it is polled by anyone and its timer fires once; the wakers that were woken are collected.\<close>

inductive sleep_step :: "js_sleep \<times> nat set \<Rightarrow> js_sleep \<times> nat set \<Rightarrow> bool" where
  sl_poll: "js_poll waker s = (ready, s') \<Longrightarrow> sleep_step (s, woken) (s', woken)"
| sl_fire: "\<not> js_fired s \<Longrightarrow> js_callback s = (s', w) \<Longrightarrow> sleep_step (s, woken) (s', woken \<union> set_option w)"

lemma sleep_step_fired:
  assumes "sleep_step p p'" and "js_fired (fst p)"
  shows "p' = p"
  using assms by (cases rule: sleep_step.cases) (auto simp: js_poll_def)

lemma sleep_run_fired:
  assumes "sleep_step\<^sup>*\<^sup>* p p'" and "js_fired (fst p)"
  shows "p' = p"
  using assms by (induction rule: rtranclp_induct) (auto dest: sleep_step_fired)

lemma add_millis:
  assumes "unat i + as_millis d < 2 ^ 64"
  shows "unat (js_add i d) = unat i + as_millis d"
proof -
  have "unat (of_nat (as_millis d) :: u64) = as_millis d" using assms by (simp add: unat_of_nat)
  then show ?thesis using assms unfolding js_add_def by (subst unat_add_lem [THEN iffD1]) simp_all
qed

section \<open>Properties\<close>

text \<open>
  No wake-up of a sleep is lost: the task that polled it last, before the timer fires, is woken by the timer, and
  from then on the sleep is ready for everyone.
\<close>

theorem js_sleep_wakes:
  assumes "js_poll waker s = (False, s')" and "js_callback s' = (s'', w)" and "sleep_step\<^sup>*\<^sup>* (s'', woken \<union> set_option w) (t, woken')"
  shows "waker \<in> woken' \<and> fst (js_poll other t) \<and> \<not> js_drop t"
proof -
  have "js_fired s''" "w = Some waker" using assms(1,2) by (auto simp: js_poll_def js_callback_def split: if_splits)
  then have "t = s'' \<and> woken' = woken \<union> set_option w" using sleep_run_fired [OF assms(3)] by simp
  then show ?thesis using \<open>js_fired s''\<close> \<open>w = Some waker\<close> by (simp add: js_poll_def js_drop_def)
qed

theorem js_sleep_wakes_witness:
  "\<exists>s' s'' w. js_poll 4 \<lparr>js_fired = False, js_waker = None\<rparr> = (False, s') \<and> js_callback s' = (s'', w) \<and> 4 \<in> set_option w \<and>
     fst (js_poll 5 s'')"
proof -
  obtain s' where s': "js_poll 4 \<lparr>js_fired = False, js_waker = None\<rparr> = (False, s')" by (simp add: js_poll_def)
  obtain s'' w where s'': "js_callback s' = (s'', w)" by fastforce
  from js_sleep_wakes [OF s' s'', of "{}" s'' "{} \<union> set_option w" 5] s' s'' show ?thesis by auto
qed

text \<open>
  Adding a duration to an instant and taking the difference gives the duration back up to the milliseconds that are cut
  off, as long as the clock does not overflow, which \<open>checked_add\<close> detects exactly; a deadline less than a millisecond away
  is reached at once.  A sleep of 2 ^ 31 milliseconds or more panics, also as a deadline.
\<close>

theorem js_instant_arithmetic:
  "(js_checked_add i d \<noteq> None \<longleftrightarrow> unat i + as_millis d < 2 ^ 64) \<and>
   (js_checked_add i d = Some j \<longrightarrow> js_sub j i = from_millis (as_millis d) \<and> js_sub i j = 0 \<and> js_add i d = j \<and>
      (js_sleep_until i j = None \<longleftrightarrow> 2 ^ 31 \<le> as_millis d))"
proof (intro conjI impI)
  show "js_checked_add i d \<noteq> None \<longleftrightarrow> unat i + as_millis d < 2 ^ 64" by (auto simp: js_checked_add_def)
  assume "js_checked_add i d = Some j"
  then have lim: "unat i + as_millis d < 2 ^ 64" and j: "j = js_add i d"
    by (auto simp: js_checked_add_def js_add_def split: if_splits)
  have uj: "unat j = unat i + as_millis d" using add_millis [OF lim] j by simp
  show "js_add i d = j" using j by simp
  have le: "i \<le> j" "i < j \<longleftrightarrow> 0 < as_millis d" using uj by (simp_all add: word_le_nat_alt word_less_nat_alt)
  have diff: "unat (j - i) = as_millis d" using le(1) uj by (simp add: unat_sub)
  show sub: "js_sub j i = from_millis (as_millis d)"
    using le(2) diff by (cases "as_millis d = 0") (simp_all add: js_sub_def from_millis_def)
  show "js_sub i j = 0" using le(1) by (simp add: js_sub_def leD)
  show "js_sleep_until i j = None \<longleftrightarrow> 2 ^ 31 \<le> as_millis d"
    using le(2) sub by (auto simp: js_sleep_until_def js_sleep_new_def as_millis_def from_millis_def)
qed

theorem js_instant_arithmetic_witness:
  "js_checked_add 5 (from_millis 3) = Some 8 \<and> js_sub 8 5 = from_millis 3"
proof -
  have j: "js_checked_add 5 (from_millis 3) = Some 8" by (simp add: js_checked_add_def as_millis_def from_millis_def)
  with js_instant_arithmetic [of 5 "from_millis 3" 8] show ?thesis by (simp add: as_millis_def from_millis_def)
qed

end
