(* ===== verification/Js_Task.thy ===== *)
theory Js_Task
  imports Js_Time
begin

text \<open>
  Tasks in web browsers (\<open>aggligator/src/exec/js/task.rs\<close>, \<open>runtime.rs\<close>, \<open>sync_wrapper.rs\<close>), sleeping in browsers
  with threads (\<open>exec/js/time.rs\<close>) and values bound to a thread (\<open>shared/thread_bound.rs\<close>).

  The future of a task is known by the outcome of each poll.  The channels between a task and its handle
  carry one message; their states and the existence of their two ends are fields.
\<close>

section \<open>Why a task ended\<close>

text \<open>The payload of a panic: a text of one of the two types that are looked for, or anything else.\<close>

datatype 'p panic_payload = PayloadString string | PayloadStr string | PayloadOther 'p

datatype 'p join_error = JoinAborted | JoinPanicked "'p panic_payload" | JoinFailed

fun panic_payload_as_str :: "'p panic_payload \<Rightarrow> string option" where
  "panic_payload_as_str (PayloadString s) = Some s"
| "panic_payload_as_str (PayloadStr s) = Some s"
| "panic_payload_as_str (PayloadOther _) = None"

fun join_error_text :: "'p join_error \<Rightarrow> string" where
  "join_error_text JoinAborted = ''task was cancelled''"
| "join_error_text (JoinPanicked p) =
     (case panic_payload_as_str p of
        Some msg \<Rightarrow> ''task panicked with message '' @ msg
      | None \<Rightarrow> ''task panicked'')"
| "join_error_text JoinFailed = ''task failed''"

text \<open>The debug text without the quotes that the formatter adds around the message.\<close>

fun join_error_debug :: "'p join_error \<Rightarrow> string \<times> string option" where
  "join_error_debug JoinAborted = (''Aborted'', None)"
| "join_error_debug (JoinPanicked p) =
     (''Panicked'', Some (case panic_payload_as_str p of Some msg \<Rightarrow> msg | None \<Rightarrow> ''...''))"
| "join_error_debug JoinFailed = (''Failed'', None)"

definition join_error_to_io :: "'p join_error \<Rightarrow> io_error" where
  "join_error_to_io e = IoError OtherError (join_error_text e)"

fun is_cancelled :: "'p join_error \<Rightarrow> bool" where
  "is_cancelled JoinAborted \<longleftrightarrow> True"
| "is_cancelled _ \<longleftrightarrow> False"

fun is_failed :: "'p join_error \<Rightarrow> bool" where
  "is_failed JoinFailed \<longleftrightarrow> True"
| "is_failed _ \<longleftrightarrow> False"

fun is_panic :: "'p join_error \<Rightarrow> bool" where
  "is_panic (JoinPanicked _) \<longleftrightarrow> True"
| "is_panic _ \<longleftrightarrow> False"

fun try_into_panic :: "'p join_error \<Rightarrow> 'p join_error + 'p panic_payload" where
  "try_into_panic (JoinPanicked p) = Inr p"
| "try_into_panic e = Inl e"

definition into_panic :: "'p join_error \<Rightarrow> 'p panic_payload option" where
  "into_panic e = (case try_into_panic e of Inr p \<Rightarrow> Some p | Inl _ \<Rightarrow> None)"

lemma into_panic_iff: "into_panic e \<noteq> None \<longleftrightarrow> is_panic e"
  by (cases e) (simp_all add: into_panic_def)

section \<open>Tasks and their handles\<close>

datatype ('a, 'p) fut_poll = FutPending | FutReady 'a | FutPanic "'p panic_payload"

datatype abort_state = AbortOpen | AbortSent | AbortDropped

text \<open>The result channel: open, with a result in it, taken, or without sender.\<close>

datatype ('a, 'p) result_state = ResOpen | ResSent "'p join_error + 'a" | ResTaken | ResDropped

text \<open>
  A spawned task: whether it runs, whether its branch for the abort message is still enabled (a branch whose
  pattern does not match is disabled for good), the abort channel and the result channel, and the handle with its
  sender of the abort message.
\<close>

record ('a, 'p) js_task =
  jt_running :: bool
  jt_branch :: bool
  jt_abort :: abort_state
  jt_result :: "('a, 'p) result_state"
  jt_handle :: bool
  jt_abort_tx :: bool

definition js_spawn :: "('a, 'p) js_task" where
  "js_spawn = \<lparr>jt_running = True, jt_branch = True, jt_abort = AbortOpen, jt_result = ResOpen, jt_handle = True,
     jt_abort_tx = True\<rparr>"

text \<open>The end of a task: the result is sent, which is ignored if the handle is gone, and its channels are dropped.\<close>

definition js_finish :: "'p join_error + 'a \<Rightarrow> ('a, 'p) js_task \<Rightarrow> ('a, 'p) js_task" where
  "js_finish r t = t\<lparr>jt_running := False, jt_result := (if jt_handle t then ResSent r else ResDropped)\<rparr>"

text \<open>One poll of the biased selection: the future first, then the abort message.\<close>

definition js_poll_task :: "('a, 'p) fut_poll \<Rightarrow> ('a, 'p) js_task \<Rightarrow> ('a, 'p) js_task" where
  "js_poll_task p t =
     (case p of
        FutReady x \<Rightarrow> js_finish (Inr x) t
      | FutPanic pl \<Rightarrow> js_finish (Inl (JoinPanicked pl)) t
      | FutPending \<Rightarrow>
          if jt_branch t then
            (case jt_abort t of
               AbortSent \<Rightarrow> js_finish (Inl JoinAborted) t
             | AbortDropped \<Rightarrow> t\<lparr>jt_branch := False\<rparr>
             | AbortOpen \<Rightarrow> t)
          else t)"

definition js_abort :: "('a, 'p) js_task \<Rightarrow> ('a, 'p) js_task" where
  "js_abort t = (if jt_abort_tx t then t\<lparr>jt_abort_tx := False, jt_abort := AbortSent\<rparr> else t)"

text \<open>
  Polling the handle: the result of the task, or \<open>Failed\<close> if its sender is gone.  A channel that has given its
  result panics when it is polled again.
\<close>

definition js_join :: "('a, 'p) js_task \<Rightarrow> (('p join_error + 'a) option \<times> ('a, 'p) js_task) option" where
  "js_join t =
     (case jt_result t of
        ResSent r \<Rightarrow> Some (Some r, t\<lparr>jt_result := ResTaken\<rparr>)
      | ResDropped \<Rightarrow> Some (Some (Inl JoinFailed), t\<lparr>jt_result := ResTaken\<rparr>)
      | ResOpen \<Rightarrow> Some (None, t)
      | ResTaken \<Rightarrow> None)"

definition js_drop_handle :: "('a, 'p) js_task \<Rightarrow> ('a, 'p) js_task" where
  "js_drop_handle t = t\<lparr>jt_handle := False, jt_abort_tx := False,
     jt_abort := (if jt_abort_tx t then AbortDropped else jt_abort t)\<rparr>"

text \<open>
  Runs of a task, with the outcome it ended with and whether it was aborted: the executor polls it while it runs, or loses
  it with its thread; the owner of the handle aborts, joins and drops it.
\<close>

datatype ('a, 'p) js_event =
    EvPoll "('a, 'p) fut_poll" | EvLost | EvAbort | EvJoin "('p join_error + 'a) option" | EvDrop

inductive js_step :: "('a, 'p) js_task \<times> ('a, 'p) js_event list \<Rightarrow> ('a, 'p) js_task \<times> ('a, 'p) js_event list \<Rightarrow> bool" where
  js_polled: "jt_running t \<Longrightarrow> js_step (t, es) (js_poll_task p t, es @ [EvPoll p])"
| js_lost: "jt_running t \<Longrightarrow> js_step (t, es) (t\<lparr>jt_running := False, jt_result := ResDropped\<rparr>, es @ [EvLost])"
| js_aborted: "jt_handle t \<Longrightarrow> js_step (t, es) (js_abort t, es @ [EvAbort])"
| js_joined: "jt_handle t \<Longrightarrow> js_join t = Some (r, t') \<Longrightarrow> js_step (t, es) (t', es @ [EvJoin r])"
| js_dropped: "jt_handle t \<Longrightarrow> js_step (t, es) (js_drop_handle t, es @ [EvDrop])"

text \<open>What ended the task, read from the events: the first poll that was not pending, or came with an abort.\<close>

fun ended_by :: "bool \<Rightarrow> ('a, 'p) js_event list \<Rightarrow> ('p join_error + 'a) option" where
  "ended_by ab [] = None"
| "ended_by ab (EvPoll (FutReady x) # es) = Some (Inr x)"
| "ended_by ab (EvPoll (FutPanic p) # es) = Some (Inl (JoinPanicked p))"
| "ended_by ab (EvPoll FutPending # es) = (if ab then Some (Inl JoinAborted) else ended_by ab es)"
| "ended_by ab (EvLost # es) = Some (Inl JoinFailed)"
| "ended_by ab (EvAbort # es) = ended_by True es"
| "ended_by ab (_ # es) = ended_by ab es"

lemma ended_by_snoc:
  "ended_by ab (es @ [e]) = (case ended_by ab es of Some r \<Rightarrow> Some r | None \<Rightarrow> ended_by (ab \<or> EvAbort \<in> set es) [e])"
  by (induction ab es rule: ended_by.induct) (auto split: option.splits)

lemma ended_by_abort: "EvAbort \<notin> set es \<Longrightarrow> ended_by False es \<noteq> Some (Inl JoinAborted)"
  by (induction "False" es rule: ended_by.induct) auto

definition joined :: "('a, 'p) js_event list \<Rightarrow> ('p join_error + 'a) set" where
  "joined es = {r. EvJoin (Some r) \<in> set es}"

text \<open>The state of a task, told from the events.\<close>

definition js_ok :: "('a, 'p) js_task \<times> ('a, 'p) js_event list \<Rightarrow> bool" where
  "js_ok = (\<lambda>(t, es).
     (jt_running t \<longleftrightarrow> ended_by False es = None) \<and>
     (jt_abort t = AbortSent \<longleftrightarrow> EvAbort \<in> set es) \<and>
     (jt_abort_tx t \<longleftrightarrow> jt_handle t \<and> jt_abort t = AbortOpen) \<and>
     (jt_handle t \<longrightarrow> jt_abort t \<noteq> AbortDropped) \<and>
     (\<not> jt_branch t \<longrightarrow> jt_abort t = AbortDropped) \<and>
     (jt_handle t \<longrightarrow>
        (case jt_result t of
           ResOpen \<Rightarrow> jt_running t \<and> joined es = {}
         | ResSent r \<Rightarrow> ended_by False es = Some r \<and> joined es = {}
         | ResDropped \<Rightarrow> ended_by False es = Some (Inl JoinFailed) \<and> joined es = {}
         | ResTaken \<Rightarrow> joined es \<noteq> {})) \<and>
     (\<forall>r \<in> joined es. ended_by False es = Some r))"

lemma joined_snoc [simp]:
  "joined (es @ [e]) = joined es \<union> (case e of EvJoin (Some r) \<Rightarrow> {r} | _ \<Rightarrow> {})"
  by (auto simp: joined_def split: js_event.splits option.splits)

lemma js_step_ok:
  assumes "js_step p p'" and "js_ok p"
  shows "js_ok p'"
  using assms
proof (cases rule: js_step.cases)
  case (js_polled t es q)
  then show ?thesis using assms(2)
    by (cases q)
      (auto simp: js_ok_def ended_by_snoc js_poll_task_def js_finish_def split: abort_state.splits result_state.splits)
next
  case (js_lost t es)
  then show ?thesis using assms(2) by (auto simp: js_ok_def ended_by_snoc split: result_state.splits)
next
  case (js_aborted t es)
  then show ?thesis using assms(2)
    by (cases "jt_abort t") (auto simp: js_ok_def ended_by_snoc js_abort_def split: result_state.splits option.splits)
next
  case (js_joined t r t' es)
  then show ?thesis using assms(2)
    by (cases "jt_result t") (auto simp: js_ok_def ended_by_snoc js_join_def split: option.split_asm option.split)
next
  case (js_dropped t es)
  then show ?thesis using assms(2)
    by (auto simp: js_ok_def ended_by_snoc js_drop_handle_def split: option.splits abort_state.splits)
qed

interpretation js: step_system js_step js_ok "\<lambda>_ _. True"
  by unfold_locales (auto dest: js_step_ok)

text \<open>
  A task runs until its future is ready or panics, it is lost with its thread, or it was aborted and its future
  is still pending when it is polled: dropping the handle does not stop it.  What joining gives is what ended the task,
  and a handle that was not joined yet gives it.
\<close>

theorem js_task_joins:
  assumes run: "js_step\<^sup>*\<^sup>* (js_spawn, []) (t, es)"
  shows "(jt_running t \<longleftrightarrow> ended_by False es = None) \<and>
    (\<forall>r \<in> joined es. ended_by False es = Some r) \<and>
    (jt_handle t \<and> \<not> jt_running t \<and> joined es = {} \<longrightarrow>
       (\<exists>r t'. ended_by False es = Some r \<and> js_join t = Some (Some r, t'))) \<and>
    (EvAbort \<notin> set es \<longrightarrow> ended_by False es \<noteq> Some (Inl JoinAborted))"
proof -
  have "js_ok (js_spawn, [])" by (simp add: js_ok_def js_spawn_def joined_def)
  then have ok: "js_ok (t, es)" by (rule js.run_inv [OF run])
  moreover have "\<exists>r t'. ended_by False es = Some r \<and> js_join t = Some (Some r, t')"
    if "jt_handle t" "\<not> jt_running t" "joined es = {}"
    using ok that by (cases "jt_result t") (auto simp: js_ok_def js_join_def)
  ultimately show ?thesis using ended_by_abort by (auto simp: js_ok_def)
qed

text \<open>A task that is ready at the poll at which it would notice its abortion ends with its result.\<close>

theorem js_task_joins_witness:
  "\<exists>t t'. js_step\<^sup>*\<^sup>* (js_spawn :: (nat, unit) js_task, []) (t, [EvPoll FutPending, EvAbort, EvPoll (FutReady 7)]) \<and>
     js_join t = Some (Some (Inr 7), t')"
proof -
  let ?t1 = "js_abort js_spawn :: (nat, unit) js_task"
  let ?t = "js_poll_task (FutReady 7) ?t1"
  have "js_step (js_spawn, []) (js_poll_task FutPending js_spawn, [] @ [EvPoll (FutPending :: (nat, unit) fut_poll)])"
    by (rule js_polled) (simp add: js_spawn_def)
  then have a: "js_step (js_spawn, []) (js_spawn, [EvPoll (FutPending :: (nat, unit) fut_poll)])"
    by (simp add: js_spawn_def js_poll_task_def)
  have b: "js_step (js_spawn, [EvPoll FutPending]) (?t1, [EvPoll FutPending] @ [EvAbort])"
    by (rule js_aborted) (simp add: js_spawn_def)
  have c: "js_step (?t1, [EvPoll FutPending, EvAbort]) (?t, [EvPoll FutPending, EvAbort] @ [EvPoll (FutReady 7)])"
    by (rule js_polled) (simp add: js_spawn_def js_abort_def)
  have run: "js_step\<^sup>*\<^sup>* (js_spawn, []) (?t, [EvPoll FutPending, EvAbort, EvPoll (FutReady 7)])"
    using a b c by (simp add: rtranclp.rtrancl_into_rtrancl)
  have "jt_handle ?t" "joined [EvPoll FutPending, EvAbort, EvPoll (FutReady (7 :: nat)) :: (nat, unit) js_event] = {}"
    by (simp_all add: js_spawn_def js_abort_def js_poll_task_def js_finish_def joined_def)
  then obtain t' where "js_join ?t = Some (Some (Inr 7), t')" using js_task_joins [OF run] by auto
  with run show ?thesis by blast
qed

section \<open>Sleeping in browsers with threads\<close>

text \<open>
  A thread of its own holds the timers.  A request is a sleep there with the sender of the wake-up; the
  receiver is the sleep that the user holds.  \<open>None\<close> is the panic of a user whose sleep thread is gone.
\<close>

record thread_sleep =
  ts_timer :: "js_sleep option"
  ts_wake :: "(unit, unit) result_state"
  ts_user :: bool

definition thread_sleep_new :: "duration \<Rightarrow> (thread_sleep \<times> nat) option" where
  "thread_sleep_new d =
     map_option (\<lambda>(s, n). (\<lparr>ts_timer = Some s, ts_wake = ResOpen, ts_user = True\<rparr>, n)) (js_sleep_new d)"

text \<open>
  A poll of the request by the sleep thread: it ends when the timer has fired, with a wake-up, or when the user has gone; its
  branches are polled in any order (\<open>wake_first\<close>).
\<close>

definition request_poll :: "bool \<Rightarrow> nat \<Rightarrow> thread_sleep \<Rightarrow> thread_sleep" where
  "request_poll wake_first waker r =
     (case ts_timer r of
        None \<Rightarrow> r
      | Some s \<Rightarrow>
          if wake_first \<and> \<not> ts_user r then r\<lparr>ts_timer := None, ts_wake := ResDropped\<rparr>
          else
            (let (ready, s) = js_poll waker s in
             if ready then r\<lparr>ts_timer := None, ts_wake := (if ts_user r then ResSent (Inr ()) else ResDropped)\<rparr>
             else if \<not> ts_user r then r\<lparr>ts_timer := None, ts_wake := ResDropped\<rparr>
             else r\<lparr>ts_timer := Some s\<rparr>))"

definition thread_sleep_poll :: "thread_sleep \<Rightarrow> (bool \<times> thread_sleep) option" where
  "thread_sleep_poll r =
     (case ts_wake r of
        ResSent _ \<Rightarrow> Some (True, r\<lparr>ts_wake := ResTaken\<rparr>)
      | ResOpen \<Rightarrow> Some (False, r)
      | _ \<Rightarrow> None)"

definition thread_sleep_drop :: "thread_sleep \<Rightarrow> thread_sleep" where
  "thread_sleep_drop r = r\<lparr>ts_user := False\<rparr>"

text \<open>Runs of a request, with whether its timer has fired and whether its user has been told.\<close>

inductive request_step :: "thread_sleep \<times> bool \<times> bool \<Rightarrow> thread_sleep \<times> bool \<times> bool \<Rightarrow> bool" where
  rq_fire: "ts_timer r = Some s \<Longrightarrow> \<not> js_fired s \<Longrightarrow>
    request_step (r, fired, told) (r\<lparr>ts_timer := Some (fst (js_callback s))\<rparr>, True, told)"
| rq_poll: "request_step (r, fired, told) (request_poll first waker r, fired, told)"
| rq_user: "ts_user r \<Longrightarrow> \<not> told \<Longrightarrow> thread_sleep_poll r = Some (ready, r') \<Longrightarrow>
    request_step (r, fired, told) (r', fired, ready)"
| rq_drop: "request_step (r, fired, told) (thread_sleep_drop r, fired, told)"

definition request_ok :: "thread_sleep \<times> bool \<times> bool \<Rightarrow> bool" where
  "request_ok = (\<lambda>(r, fired, told).
     (ts_user r \<longrightarrow> (ts_wake r = ResOpen \<longleftrightarrow> ts_timer r \<noteq> None) \<and> ts_wake r \<noteq> ResDropped \<and> (ts_wake r = ResTaken \<longleftrightarrow> told)) \<and>
     (\<forall>s. ts_timer r = Some s \<longrightarrow> js_fired s \<longrightarrow> fired) \<and> ((\<exists>x. ts_wake r = ResSent x) \<or> told \<longrightarrow> fired))"

lemma request_step_ok: "request_step p p' \<Longrightarrow> request_ok p \<Longrightarrow> request_ok p'"
proof (induction rule: request_step.induct)
  case (rq_poll r fired told first waker)
  then show ?case
    by (cases "ts_timer r")
      (auto simp: request_ok_def request_poll_def js_poll_def Let_def split: if_splits)
next
  case (rq_user r told ready r' fired)
  then show ?case
    by (cases "ts_wake r") (auto simp: request_ok_def thread_sleep_poll_def)
qed (auto simp: request_ok_def js_callback_def thread_sleep_drop_def)

interpretation rq: step_system request_step request_ok "\<lambda>_ _. True"
  by unfold_locales (auto intro: request_step_ok)

text \<open>A user of the sleep thread is told only after the timer has fired, and polling before that does not panic.\<close>

lemma thread_sleep_told:
  assumes "thread_sleep_new d = Some (r0, n)" and run: "request_step\<^sup>*\<^sup>* (r0, False, False) (r, fired, told)"
  shows "(told \<longrightarrow> fired) \<and> (ts_user r \<and> \<not> told \<longrightarrow> thread_sleep_poll r \<noteq> None)"
proof -
  have "request_ok (r0, False, False)"
    using assms(1) by (auto simp: request_ok_def thread_sleep_new_def js_sleep_new_def split: if_splits)
  then have "request_ok (r, fired, told)" by (rule rq.run_inv [OF run])
  then show ?thesis by (cases "ts_wake r") (auto simp: request_ok_def thread_sleep_poll_def)
qed

section \<open>Values bound to a thread\<close>

text \<open>Threads are numbers; every access names the thread it comes from.  \<open>None\<close> is the panic of the check.\<close>

record 'a thread_bound =
  tb_value :: 'a
  tb_thread_id :: nat
  tb_taken :: bool

definition tb_new :: "nat \<Rightarrow> 'a \<Rightarrow> 'a thread_bound" where
  "tb_new cur v = \<lparr>tb_value = v, tb_thread_id = cur, tb_taken = False\<rparr>"

definition tb_is_usable :: "nat \<Rightarrow> 'a thread_bound \<Rightarrow> bool" where
  "tb_is_usable cur t \<longleftrightarrow> cur = tb_thread_id t"

definition tb_check :: "nat \<Rightarrow> 'a thread_bound \<Rightarrow> unit option" where
  "tb_check cur t = assert_that (tb_is_usable cur t)"

text \<open>Taking the value out, with the shell that is dropped at the end of the call.\<close>

definition tb_into_inner :: "nat \<Rightarrow> 'a thread_bound \<Rightarrow> ('a \<times> 'a thread_bound) option" where
  "tb_into_inner cur t = do {
     tb_check cur t;
     let t = t\<lparr>tb_taken := True\<rparr>;
     Some (tb_value t, t)
   }"

text \<open>Reading: \<open>Deref\<close>, \<open>Borrow\<close>, \<open>Display\<close>, \<open>Hash\<close> and comparison with a value.\<close>

definition tb_read :: "nat \<Rightarrow> ('a \<Rightarrow> 'b) \<Rightarrow> 'a thread_bound \<Rightarrow> 'b option" where
  "tb_read cur f t = do { tb_check cur t; Some (f (tb_value t)) }"

text \<open>Changing: \<open>DerefMut\<close>, \<open>BorrowMut\<close> and the methods of futures, sinks and streams.\<close>

definition tb_update :: "nat \<Rightarrow> ('a \<Rightarrow> 'b \<times> 'a) \<Rightarrow> 'a thread_bound \<Rightarrow> ('b \<times> 'a thread_bound) option" where
  "tb_update cur f t = do {
     tb_check cur t;
     let (r, v) = f (tb_value t);
     Some (r, t\<lparr>tb_value := v\<rparr>)
   }"

text \<open>Equality and order of two bound values.\<close>

definition tb_compare :: "nat \<Rightarrow> ('a \<Rightarrow> 'a \<Rightarrow> 'b) \<Rightarrow> 'a thread_bound \<Rightarrow> 'a thread_bound \<Rightarrow> 'b option" where
  "tb_compare cur f t t' = do { tb_check cur t; tb_check cur t'; Some (f (tb_value t) (tb_value t')) }"

definition tb_clone :: "nat \<Rightarrow> ('a \<Rightarrow> 'a) \<Rightarrow> 'a thread_bound \<Rightarrow> 'a thread_bound option" where
  "tb_clone cur c t = do {
     tb_check cur t;
     Some \<lparr>tb_value = c (tb_value t), tb_thread_id = tb_thread_id t, tb_taken = tb_taken t\<rparr>
   }"

text \<open>The debug text shows the value to its own thread only.\<close>

definition tb_debug :: "nat \<Rightarrow> 'a thread_bound \<Rightarrow> nat \<times> 'a option" where
  "tb_debug cur t = (tb_thread_id t, if tb_is_usable cur t then Some (tb_value t) else None)"

text \<open>Dropping, with whether the value is dropped.\<close>

definition tb_drop :: "bool \<Rightarrow> nat \<Rightarrow> 'a thread_bound \<Rightarrow> bool option" where
  "tb_drop needs_drop cur t =
     (if needs_drop \<and> \<not> tb_taken t then do { tb_check cur t; Some True } else Some False)"

text \<open>
  The history of one bound value: accesses from any thread, until it is taken or dropped.  An access of another thread
  panics; if it was the end of the value, the value is leaked.  \<open>out\<close> counts how often it was moved out or dropped.
\<close>

datatype 'a bound_state = Held "'a thread_bound" | Gone | Leaked

inductive bound_step :: "bool \<Rightarrow> 'a bound_state \<times> nat list \<times> nat \<Rightarrow> 'a bound_state \<times> nat list \<times> nat \<Rightarrow> bool"
  for needs_drop :: bool where
  bd_panic: "tb_check cur t = None \<Longrightarrow> bound_step needs_drop (Held t, used, out) (Held t, used, out)"
| bd_update: "tb_update cur f t = Some ((), t') \<Longrightarrow> bound_step needs_drop (Held t, used, out) (Held t', used @ [cur], out)"
| bd_take: "tb_into_inner cur t = Some (v, t') \<Longrightarrow> tb_drop needs_drop cur t' = Some d \<Longrightarrow>
    bound_step needs_drop (Held t, used, out) (Gone, used @ [cur], out + 1 + (if d then 1 else 0))"
| bd_take_panic: "tb_into_inner cur t = None \<Longrightarrow>
    bound_step needs_drop (Held t, used, out) (if tb_drop needs_drop cur t = None then Leaked else Gone, used, out)"
| bd_drop_panic: "tb_drop needs_drop cur t = None \<Longrightarrow> bound_step needs_drop (Held t, used, out) (Leaked, used, out)"
| bd_drop: "tb_drop needs_drop cur t = Some d \<Longrightarrow>
    bound_step needs_drop (Held t, used, out)
      (Gone, used @ (if d then [cur] else []), out + (if d then 1 else 0))"

text \<open>
  A bound value is touched by its own thread only, and it is moved out or dropped at most once; a value that needs it exactly
  once when it is gone, unless another thread has ended it and panicked.
\<close>

definition bound_ok :: "bool \<Rightarrow> nat \<Rightarrow> 'a bound_state \<times> nat list \<times> nat \<Rightarrow> bool" where
  "bound_ok needs_drop owner = (\<lambda>(b, used, out). set used \<subseteq> {owner} \<and> out \<le> 1 \<and>
     (case b of
        Held t \<Rightarrow> tb_thread_id t = owner \<and> \<not> tb_taken t \<and> out = 0
      | Gone \<Rightarrow> needs_drop \<longrightarrow> out = 1
      | Leaked \<Rightarrow> out = 0))"

interpretation bd: step_system "bound_step needs_drop" "bound_ok needs_drop owner" "\<lambda>_ _. True" for needs_drop owner
proof unfold_locales
  fix p p' :: "'a bound_state \<times> nat list \<times> nat"
  assume "bound_ok needs_drop owner p" and "bound_step needs_drop p p'"
  from this(2,1) show "bound_ok needs_drop owner p'"
    by (cases rule: bound_step.cases)
      (auto simp: bound_ok_def tb_update_def tb_into_inner_def tb_drop_def tb_check_def tb_is_usable_def assert_that_def
        split: if_splits prod.splits)
qed auto

lemma bound_once:
  assumes run: "(bound_step needs_drop)\<^sup>*\<^sup>* (Held (tb_new owner v), [], 0) (b, used, out)"
  shows "set used \<subseteq> {owner} \<and> out \<le> 1 \<and> (b = Gone \<and> needs_drop \<longrightarrow> out = 1) \<and> (b = Leaked \<longrightarrow> out = 0)"
proof -
  have "bound_ok needs_drop owner (Held (tb_new owner v), [], 0)" by (simp add: bound_ok_def tb_new_def)
  from bd.run_inv [OF run this] show ?thesis by (simp add: bound_ok_def split: bound_state.splits)
qed

end
