(* ===== verification/Tools.thy ===== *)
theory Tools
  imports Socks "HOL-Library.Sublist"
begin

text \<open>
  The logic of the tools: the tunnel (\<open>aggligator-util/src/bin/agg-tunnel.rs\<close>), which forwards TCP connections over
  aggregated connections, the parsing of options (\<open>aggligator-util/src/lib.rs\<close>), and the collection of
  link tags and the presentation of numbers by the monitor (\<open>aggligator-monitor/src/monitor.rs\<close>).  Terminals, command line
  and colours are left out.
\<close>

section \<open>Options\<close>

text \<open>A key and a value separated by the last colon; without a colon the key has its default.\<close>

definition parse_key_val :: "'k \<Rightarrow> (string \<Rightarrow> string + 'k) \<Rightarrow> (string \<Rightarrow> string + 'v) \<Rightarrow> string \<Rightarrow> string + 'k \<times> 'v" where
  "parse_key_val dflt pk pv s =
     (case rsplit_once CHR '':'' s of
        Some (k, v) \<Rightarrow>
          (case pk k of Inl e \<Rightarrow> Inl e | Inr k \<Rightarrow> (case pv v of Inl e \<Rightarrow> Inl e | Inr v \<Rightarrow> Inr (k, v)))
      | None \<Rightarrow> (case pv s of Inl e \<Rightarrow> Inl e | Inr v \<Rightarrow> Inr (dflt, v)))"

definition parse_tcp_link_filter :: "string \<Rightarrow> string + tcp_link_filter" where
  "parse_tcp_link_filter s =
     (if s = ''none'' then Inr FilterNone
      else if s = ''interface-interface'' then Inr InterfaceInterface
      else if s = ''interface-ip'' then Inr InterfaceIp
      else Inl (''unknown TCP link filter: '' @ s))"

section \<open>Tunnel\<close>

text \<open>The ports of a client: server port and client port, which are equal if only one is given.\<close>

definition client_ports :: "(u16 \<times> u16) list \<Rightarrow> (u16 \<times> u16) list" where
  "client_ports ps = map (\<lambda>(s, c). if s = 0 then (c, c) else (s, c)) ps"

text \<open>The targets of a server by port; a later entry for a port replaces an earlier one.\<close>

definition server_target :: "show_env \<Rightarrow> string \<times> u16 \<Rightarrow> u16 \<times> string" where
  "server_target S e = (case e of (target, port) \<Rightarrow> (port, if target = [] then ''127.0.0.1:'' @ sh_nat S (unat port) else target))"

definition server_ports :: "show_env \<Rightarrow> (string \<times> u16) list \<Rightarrow> u16 \<rightharpoonup> string" where
  "server_ports S es = map_of (rev (map (server_target S) es))"

text \<open>
  Forwarding: what the reader does in a round, after a pause that makes the writer be flushed or not, and
  the calls of the writer, with the outcomes given.
\<close>

datatype writer_call = WriteAll bytes | FlushCall

record forward_round =
  fr_pause :: bool
  fr_read :: "bytes io_result"
  fr_write :: "unit io_result"
  fr_flush :: "unit io_result"

fun forward :: "unit io_result \<Rightarrow> forward_round list \<Rightarrow> writer_call list \<times> unit io_result option" where
  "forward last_flush [] = ([], None)"
| "forward last_flush (r # rs) =
     (if fr_pause r \<and> (\<exists>e. fr_flush r = Inl e) then ([FlushCall], Some (map_sum id (\<lambda>_. ()) (fr_flush r)))
      else
        (let pre = (if fr_pause r then [FlushCall] else []) in
         case fr_read r of
           Inl e \<Rightarrow> (pre, Some (Inl e))
         | Inr [] \<Rightarrow> (pre @ [FlushCall], Some last_flush)
         | Inr bs \<Rightarrow>
             (case fr_write r of
                Inl e \<Rightarrow> (pre @ [WriteAll bs], Some (Inl e))
              | Inr _ \<Rightarrow> (let (cs, res) = forward last_flush rs in (pre @ WriteAll bs # cs, res)))))"

text \<open>The client writes the server port first; the server reads it and connects its target.\<close>

definition client_request :: "u16 \<Rightarrow> bytes" where
  "client_request server_port = wr_u16 server_port"

datatype 't served = ServeFailed io_error | NotPublished u16 | Serving string 't bytes

definition handle_client :: "(u16 \<rightharpoonup> string) \<Rightarrow> (string \<Rightarrow> 't io_result) \<Rightarrow> bytes \<Rightarrow> 't served" where
  "handle_client ports conn input =
     (case rd_u16 input of
        Inl e \<Rightarrow> ServeFailed e
      | Inr (port, rest) \<Rightarrow>
          (case ports port of
             None \<Rightarrow> NotPublished port
           | Some target \<Rightarrow> (case conn target of Inl e \<Rightarrow> ServeFailed e | Inr t \<Rightarrow> Serving target t rest)))"

section \<open>Monitor\<close>

text \<open>A round of \<open>watch_tags\<close>: the transports that run, their tags, what is published and whether the task goes on.\<close>

definition watch_tags_round :: "('g set \<times> bool) list \<Rightarrow> 'g set \<times> nat \<Rightarrow> ('g set \<times> bool) list \<times> ('g set \<times> nat) \<times> bool" where
  "watch_tags_round ts s =
     (let ts = filter snd ts; all = (\<Union>(tags, _) \<in> set ts. tags) in
      (ts, if fst s = all then s else (all, Suc (snd s)), ts \<noteq> []))"

text \<open>The unit of a number of bytes and its factor.\<close>

definition byte_unit :: "u64 \<Rightarrow> nat \<times> string" where
  "byte_unit b =
     (if 1024 ^ 4 \<le> b then (1024 ^ 4, ''TB'') else if 1024 ^ 3 \<le> b then (1024 ^ 3, ''GB'')
      else if 1024 ^ 2 \<le> b then (1024 ^ 2, ''MB'') else if 1024 \<le> b then (1024, ''KB'') else (1, ''B ''))"

text \<open>Hours, minutes and seconds of a duration; leading parts that are zero are not shown.\<close>

definition duration_parts :: "duration \<Rightarrow> nat option \<times> nat option \<times> nat" where
  "duration_parts d =
     (let time = d div 1000000000; hours = time div 3600; time = time - hours * 3600;
          minutes = time div 60; time = time - minutes * 60
      in (if hours > 0 then Some hours else None, if hours > 0 \<or> minutes > 0 then Some minutes else None, time))"

section \<open>Lemmas\<close>

definition call_bytes :: "writer_call \<Rightarrow> bytes" where
  "call_bytes c = (case c of WriteAll bs \<Rightarrow> bs | FlushCall \<Rightarrow> [])"

text \<open>The bytes that are read before the end of the input or the end of the events.\<close>

fun read_bytes :: "forward_round list \<Rightarrow> bytes" where
  "read_bytes [] = []"
| "read_bytes (r # rs) = (case fr_read r of Inr bs \<Rightarrow> if bs = [] then [] else bs @ read_bytes rs | Inl _ \<Rightarrow> [])"

lemma forward_transparent:
  assumes "forward lf rs = (cs, res)"
  shows "prefix (concat (map call_bytes cs)) (read_bytes rs) \<and>
    (res = None \<or> res = Some (Inr ()) \<longrightarrow> concat (map call_bytes cs) = read_bytes rs) \<and>
    (res = Some (Inr ()) \<longrightarrow> cs \<noteq> [] \<and> last cs = FlushCall)"
  using assms
proof (induction lf rs arbitrary: cs res rule: forward.induct)
  case (2 lf r rs)
  let ?pre = "if fr_pause r then [FlushCall] else []"
  have pre: "concat (map call_bytes ?pre) = []" by (simp add: call_bytes_def)
  show ?case
  proof (cases "fr_pause r \<and> (\<exists>e. fr_flush r = Inl e)")
    case True
    then show ?thesis using 2(2) by (auto simp: call_bytes_def)
  next
    case go: False
    show ?thesis
    proof (cases "fr_read r")
      case (Inl e)
      then show ?thesis using 2(2) go pre by auto
    next
      case (Inr bs)
      show ?thesis
      proof (cases "bs = [] \<or> (\<exists>e. fr_write r = Inl e)")
        case True
        then show ?thesis using 2(2) go pre Inr by (cases bs; cases "fr_write r") (auto simp: call_bytes_def)
      next
        case False
        then obtain b bs' u where bs: "bs = b # bs'" "fr_write r = Inr u" by (cases bs; cases "fr_write r") auto
        obtain cs' res' where rest: "forward lf rs = (cs', res')" by fastforce
        have "cs = ?pre @ WriteAll bs # cs'" "res = res'" using 2(2) go Inr bs rest by auto
        moreover note 2(1) [OF go refl Inr bs rest]
        ultimately show ?thesis using pre Inr bs(1) by (auto simp: call_bytes_def)
      qed
    qed
  qed
qed simp

lemma rd_wr_u16: "rd_u16 (wr_u16 w @ bs) = Inr (w, bs)"
  by (simp add: rd_u16_def wr_u16_def read_be_def read_exact_def rd_bind_def rd_return_def be_to_nat_unat)

section \<open>Properties\<close>

text \<open>
  The tunnel: the server connects the target that was published last for the port the client asks for, hands
  over the data that follows the request, and refuses ports that are not published.  Forwarding
  writes what it reads, in order and without loss, as far as it gets, and flushes the writer at the end.  The target of
  an option \<open>target:port\<close> is the text before the last colon, so that it has a port only if the user gives two.
\<close>

theorem tunnel_correct:
  "(handle_client (server_ports S (es @ e # es')) conn (client_request (snd e) @ input) =
      (if snd e \<in> snd ` set es' then handle_client (server_ports S es') conn (client_request (snd e) @ input)
       else case conn (snd (server_target S e)) of Inl err \<Rightarrow> ServeFailed err | Inr t \<Rightarrow> Serving (snd (server_target S e)) t input)) \<and>
   (port \<notin> snd ` set es \<longrightarrow> handle_client (server_ports S es) conn (client_request port @ input) = NotPublished port) \<and>
   (forward lf rs = (cs, Some (Inr ())) \<longrightarrow> concat (map call_bytes cs) = read_bytes rs \<and> cs \<noteq> [] \<and> last cs = FlushCall) \<and>
   (CHR '':'' \<notin> set v \<longrightarrow> pv v = Inr n \<longrightarrow> target \<noteq> [] \<longrightarrow>
      map_sum id (\<lambda>e. snd (server_target S e)) (parse_key_val [] Inr pv (target @ CHR '':'' # v)) = Inr target)"
proof (intro conjI impI)
  have fst_target: "fst (server_target S x) = snd x" for x by (simp add: server_target_def split: prod.splits)
  have dom: "dom (server_ports S xs) = snd ` set xs" for xs
    by (simp add: server_ports_def dom_map_of_conv_image_fst image_image fst_target)
  have split: "server_ports S (es @ e # es') = (server_ports S es)(snd e \<mapsto> snd (server_target S e)) ++ server_ports S es'"
    by (simp add: server_ports_def map_add_def fst_target [symmetric] fun_upd_def fun_eq_iff split: option.splits)
  show "handle_client (server_ports S (es @ e # es')) conn (client_request (snd e) @ input) =
      (if snd e \<in> snd ` set es' then handle_client (server_ports S es') conn (client_request (snd e) @ input)
       else case conn (snd (server_target S e)) of Inl err \<Rightarrow> ServeFailed err | Inr t \<Rightarrow> Serving (snd (server_target S e)) t input)"
  proof (cases "snd e \<in> snd ` set es'")
    case True
    then obtain t where "server_ports S es' (snd e) = Some t" using dom [of es'] by (metis domIff option.exhaust)
    then show ?thesis using True by (simp add: split handle_client_def client_request_def rd_wr_u16 map_add_def)
  next
    case False
    then have "server_ports S es' (snd e) = None" using dom [of es'] by (metis domIff)
    then show ?thesis using False by (simp add: split handle_client_def client_request_def rd_wr_u16 map_add_def)
  qed
  show "handle_client (server_ports S es) conn (client_request port @ input) = NotPublished port" if "port \<notin> snd ` set es"
    using that dom [of es] by (auto simp: handle_client_def client_request_def rd_wr_u16 domIff split: option.splits)
qed (auto dest!: forward_transparent simp: parse_key_val_def rsplit_once_append server_target_def)

theorem tunnel_correct_witness:
  "forward (Inr ()) [\<lparr>fr_pause = True, fr_read = Inr [1, 2], fr_write = Inr (), fr_flush = Inr ()\<rparr>,
       \<lparr>fr_pause = False, fr_read = Inr [], fr_write = Inr (), fr_flush = Inr ()\<rparr>] =
     ([FlushCall, WriteAll [1, 2], FlushCall], Some (Inr ())) \<and>
   concat (map call_bytes [FlushCall, WriteAll [1, 2], FlushCall]) = [1, 2]"
proof -
  let ?rs = "[\<lparr>fr_pause = True, fr_read = Inr [1, 2], fr_write = Inr (), fr_flush = Inr ()\<rparr>,
       \<lparr>fr_pause = False, fr_read = Inr [], fr_write = Inr (), fr_flush = Inr ()\<rparr>] :: forward_round list"
  have run: "forward (Inr ()) ?rs = ([FlushCall, WriteAll [1, 2], FlushCall], Some (Inr ()))" by simp
  have "read_bytes ?rs = [1, 2]" by simp
  with run tunnel_correct [THEN conjunct2, THEN conjunct2, THEN conjunct1, rule_format, OF run] show ?thesis by auto
qed

text \<open>The parts of a duration that are shown add up to its seconds, and minutes and seconds are below sixty.\<close>

theorem duration_parts_sum:
  "duration_parts d = (h, m, s) \<Longrightarrow>
     (case h of Some h \<Rightarrow> h | None \<Rightarrow> 0) * 3600 + (case m of Some m \<Rightarrow> m | None \<Rightarrow> 0) * 60 + s = d div 1000000000 \<and>
     (\<forall>x. m = Some x \<longrightarrow> x < 60) \<and> s < 60"
proof -
  define t where "t = d div 1000000000"
  assume d: "duration_parts d = (h, m, s)"
  have t: "t - t div 3600 * 3600 = t mod 3600" "t mod 3600 - t mod 3600 div 60 * 60 = t mod 3600 mod 60"
    by (simp_all only: minus_div_mult_eq_mod)
  have parts: "h = (if t div 3600 > 0 then Some (t div 3600) else None)"
    "m = (if t div 3600 > 0 \<or> t mod 3600 div 60 > 0 then Some (t mod 3600 div 60) else None)" "s = t mod 3600 mod 60"
    using d unfolding duration_parts_def Let_def t_def [symmetric] t by (simp_all only: prod.inject)
  have "t mod 3600 < 3600" by simp
  then have "t mod 3600 div 60 < 60" by (simp add: less_mult_imp_div_less)
  moreover have "t div 3600 * 3600 + t mod 3600 div 60 * 60 + t mod 3600 mod 60 = t" by simp
  ultimately show ?thesis unfolding parts t_def [symmetric] by (auto split: option.splits)
qed

end
