(* ===== verification/Speed_Test.thy ===== *)
theory Speed_Test
  imports Cfg "HOL-Library.Sublist"
begin

text \<open>
  The speed test (\<open>aggligator-monitor/src/speed.rs\<close>): the sender writes a seed and then pseudo-random blocks, the
  receiver reads in whatever pieces the connection delivers and compares them with the numbers it
  generates itself from the seed.

  The generator is that of \<open>rand\<close>; \<open>rng\<close> gives the numbers for a seed.  Filling a buffer whose size is a multiple of
  eight takes one number per eight bytes.  The speeds are quotients of the totals and durations that the model returns;
  they are floating point numbers and left out.
\<close>

section \<open>Generator\<close>

definition BUF_SIZE :: nat where
  "BUF_SIZE = 8192"

type_synonym rng = "u64 \<Rightarrow> nat \<Rightarrow> u64"

text \<open>The bytes of a number, least significant first, and a buffer of \<open>n\<close> numbers from a position on.\<close>

definition le_bytes :: "u64 \<Rightarrow> bytes" where
  "le_bytes w = map (\<lambda>i. ucast (drop_bit (8 * i) w)) [0..<8]"

definition fill_bytes :: "rng \<Rightarrow> u64 \<Rightarrow> nat \<Rightarrow> nat \<Rightarrow> bytes" where
  "fill_bytes R seed pos n = concat (map (\<lambda>i. le_bytes (R seed i)) [pos..<pos + n])"

definition wr_u64 :: "u64 \<Rightarrow> bytes" where
  "wr_u64 w = nat_to_be 8 (unat w)"

definition rd_u64 :: "u64 reader" where
  "rd_u64 = rd_bind (read_be 8) (\<lambda>n. rd_return (of_nat n))"

section \<open>Sender\<close>

text \<open>
  What the surroundings do in a round: whether the stop channel is closed and whether the duration has elapsed,
  whether the block is written, whether a report is due and whether someone still listens to it, and whether
  the receiver has asked to stop.
\<close>

record send_round =
  sr_closed :: bool
  sr_elapsed :: bool
  sr_write :: "unit io_result"
  sr_report :: bool
  sr_report_gone :: bool
  sr_stop :: bool

text \<open>
  The rest of the loop after \<open>n\<close> blocks: the blocks that are written, the number of bytes counted since the
  last report, and the total or an error; \<open>None\<close> if the loop still runs when the rounds are used up.
\<close>

fun send_loop :: "rng \<Rightarrow> u64 \<Rightarrow> nat option \<Rightarrow> nat \<Rightarrow> send_round list \<Rightarrow> bytes \<times> nat io_result option" where
  "send_loop R seed limit n [] = ([], None)"
| "send_loop R seed limit n (r # rs) =
     (if (case limit of Some l \<Rightarrow> n * BUF_SIZE \<le> l | None \<Rightarrow> True) \<and> \<not> sr_closed r \<and> \<not> sr_elapsed r
      then (case sr_write r of
              Inl e \<Rightarrow> ([], Some (Inl e))
            | Inr _ \<Rightarrow>
                (let buf = fill_bytes R seed (n * (BUF_SIZE div 8)) (BUF_SIZE div 8) in
                 if sr_report r \<and> sr_report_gone r \<or> sr_stop r then (buf, Some (Inr (Suc n * BUF_SIZE)))
                 else let (bs, res) = send_loop R seed limit (Suc n) rs in (buf @ bs, res)))
      else ([], Some (Inr (n * BUF_SIZE))))"

definition speed_sender :: "rng \<Rightarrow> bool \<Rightarrow> u64 \<Rightarrow> unit io_result \<Rightarrow> nat option \<Rightarrow> send_round list \<Rightarrow> bytes \<times> nat io_result option" where
  "speed_sender R send seed seed_write limit rs =
     (if \<not> send then ([], Some (Inr 0))
      else case seed_write of
        Inl e \<Rightarrow> ([], Some (Inl e))
      | Inr _ \<Rightarrow> (let (bs, res) = send_loop R seed limit 0 rs in (wr_u64 seed @ bs, res)))"

section \<open>Receiver\<close>

text \<open>
  A round: whether to stop, and how many bytes a read delivers at most and the outcome of an error.  \<open>input\<close> is
  what the connection still delivers; at its end a read gives nothing, and an exact read fails.
\<close>

record recv_round =
  rr_closed :: bool
  rr_elapsed :: bool
  rr_read :: "nat io_result"
  rr_report_gone :: bool

definition eof_error :: io_error where
  "eof_error = IoError UnexpectedEof ''early eof''"

text \<open>The size of a read: at least one byte if there is input, at most the buffer.\<close>

definition read_size :: "nat \<Rightarrow> bytes \<Rightarrow> nat" where
  "read_size k input = min (max 1 k) (min BUF_SIZE (length input))"

definition round_up :: "nat \<Rightarrow> nat" where
  "round_up n = (if n mod 8 = 0 then n else n + (8 - n mod 8))"

fun recv_loop :: "rng \<Rightarrow> u64 \<Rightarrow> nat \<Rightarrow> nat \<Rightarrow> bytes \<Rightarrow> recv_round list \<Rightarrow> nat io_result option" where
  "recv_loop R seed pos got input [] = None"
| "recv_loop R seed pos got input (r # rs) =
     (if rr_closed r \<or> rr_elapsed r then Some (Inr got)
      else case rr_read r of
        Inl e \<Rightarrow> Some (Inl e)
      | Inr k \<Rightarrow>
          (let n = read_size k input in
           if n = 0 then Some (Inr got)
           else if length input < round_up n then Some (Inl eof_error)
           else let n = round_up n in
             if fill_bytes R seed pos (n div 8) \<noteq> take n input
             then Some (Inl (IoError InvalidData ''received data is malformed''))
             else if rr_report_gone r then Some (Inr (got + n))
             else recv_loop R seed (pos + n div 8) (got + n) (drop n input) rs))"

definition speed_receiver :: "rng \<Rightarrow> bool \<Rightarrow> bool \<Rightarrow> bytes \<Rightarrow> recv_round list \<Rightarrow> nat io_result option" where
  "speed_receiver R receive recv_block input rs =
     (if \<not> receive then Some (Inr 0)
      else case rd_u64 input of
        Inl e \<Rightarrow> Some (Inl e)
      | Inr (seed, rest) \<Rightarrow>
          if recv_block then (if \<exists>r \<in> set rs. rr_closed r then Some (Inr 0) else None)
          else recv_loop R seed 0 0 rest rs)"

text \<open>The result of the test: the error of the sender comes first.\<close>

definition speed_result :: "nat io_result \<Rightarrow> nat io_result \<Rightarrow> (nat \<times> nat) io_result" where
  "speed_result s r = (case s of Inl e \<Rightarrow> Inl e | Inr tx \<Rightarrow> (case r of Inl e \<Rightarrow> Inl e | Inr rx \<Rightarrow> Inr (tx, rx)))"

section \<open>Lemmas\<close>

lemma length_le_bytes [simp]: "length (le_bytes w) = 8"
  by (simp add: le_bytes_def)

lemma length_fill [simp]: "length (fill_bytes R seed pos n) = 8 * n"
  by (induction n) (simp_all add: fill_bytes_def)

lemma fill_append: "fill_bytes R seed pos (m + n) = fill_bytes R seed pos m @ fill_bytes R seed (pos + m) n"
proof -
  have "[pos..<pos + (m + n)] = [pos..<pos + m] @ [pos + m..<pos + m + n]"
    using upt_add_eq_append [of pos "pos + m" n] by (simp add: add.assoc)
  then show ?thesis by (simp add: fill_bytes_def)
qed

lemma round_up_eq: "round_up n = 8 * ((n + 7) div 8)"
proof -
  obtain q r where n: "n = 8 * q + r" "r < 8" by (metis mod_less_divisor mult_div_mod_eq zero_less_numeral)
  have "(8 * q + r + 7) div 8 = q + (r + 7) div 8" using div_mult_self4 [of 8 q "r + 7"] by (simp add: add.assoc)
  moreover have "(r + 7) div 8 = (if r = 0 then 0 else 1)" using n(2) by auto
  ultimately show ?thesis using n by (auto simp: round_up_def)
qed

lemma round_up_props: "8 dvd round_up n" "n \<le> round_up n" "8 dvd m \<Longrightarrow> n \<le> m \<Longrightarrow> round_up n \<le> m"
proof -
  show "8 dvd round_up n" "n \<le> round_up n" unfolding round_up_eq by simp_all
  assume "8 dvd m" "n \<le> m"
  then obtain q where "m = 8 * q" "n \<le> 8 * q" by (auto elim: dvdE)
  then show "round_up n \<le> m" unfolding round_up_eq by simp
qed

lemma BUF_SIZE_8: "BUF_SIZE = 8 * (BUF_SIZE div 8)"
  by (simp add: BUF_SIZE_def)

lemma send_loop_output:
  assumes "send_loop R seed limit n rs = (out, res)"
  shows "\<exists>m. out = fill_bytes R seed (n * (BUF_SIZE div 8)) (m * (BUF_SIZE div 8)) \<and>
    (\<forall>t. res = Some (Inr t) \<longrightarrow> t = (n + m) * BUF_SIZE) \<and> (m = 0 \<or> (\<forall>l. limit = Some l \<longrightarrow> (n + m) * BUF_SIZE \<le> l + BUF_SIZE))"
  using assms
proof (induction R seed limit n rs arbitrary: out res rule: send_loop.induct)
  case (1 R seed limit n)
  then show ?case by (intro exI [of _ 0]) (simp add: fill_bytes_def)
next
  case (2 R seed limit n r rs)
  let ?go = "(case limit of Some l \<Rightarrow> n * BUF_SIZE \<le> l | None \<Rightarrow> True) \<and> \<not> sr_closed r \<and> \<not> sr_elapsed r"
  let ?stop = "sr_report r \<and> sr_report_gone r \<or> sr_stop r"
  let ?buf = "fill_bytes R seed (n * (BUF_SIZE div 8)) (BUF_SIZE div 8)"
  show ?case
  proof (cases "?go \<and> (\<exists>u. sr_write r = Inr u)")
    case False
    with 2(2) have "out = [] \<and> (\<forall>t. res = Some (Inr t) \<longrightarrow> t = n * BUF_SIZE)"
      by (cases ?go; cases "sr_write r") auto
    then show ?thesis by (intro exI [of _ 0]) (simp add: fill_bytes_def)
  next
    case True
    then obtain u where go: ?go and u: "sr_write r = Inr u" by blast
    have lim: "\<forall>l. limit = Some l \<longrightarrow> n * BUF_SIZE \<le> l" using go by auto
    show ?thesis
    proof (cases ?stop)
      case True
      with 2(2) go u have "out = ?buf" "res = Some (Inr (Suc n * BUF_SIZE))" by simp_all
      then show ?thesis using lim by (intro exI [of _ 1]) auto
    next
      case False
      obtain bs res' where rest: "send_loop R seed limit (Suc n) rs = (bs, res')" by fastforce
      from 2(1) [OF go u refl False rest] obtain m where
        m: "bs = fill_bytes R seed (Suc n * (BUF_SIZE div 8)) (m * (BUF_SIZE div 8))"
          "\<forall>t. res' = Some (Inr t) \<longrightarrow> t = (Suc n + m) * BUF_SIZE"
          "m = 0 \<or> (\<forall>l. limit = Some l \<longrightarrow> (Suc n + m) * BUF_SIZE \<le> l + BUF_SIZE)" by blast
      have "out = ?buf @ bs" "res = res'" using 2(2) go u False rest by simp_all
      moreover have "?buf @ bs = fill_bytes R seed (n * (BUF_SIZE div 8)) (Suc m * (BUF_SIZE div 8))"
        unfolding m(1) using fill_append [of R seed "n * (BUF_SIZE div 8)" "BUF_SIZE div 8" "m * (BUF_SIZE div 8)"]
        by (simp add: add.commute)
      ultimately show ?thesis using m(2,3) lim by (intro exI [of _ "Suc m"]) auto
    qed
  qed
qed

text \<open>A result that the comparison of the data does not spoil, and what a received total stands for.\<close>

lemma read_size_props: "read_size k input \<le> length input \<and> (read_size k input = 0 \<longleftrightarrow> input = [])"
  by (cases input) (auto simp: read_size_def BUF_SIZE_def min_def)

lemma recv_loop_transparent:
  assumes "prefix input (fill_bytes R seed pos N)" and "\<forall>r \<in> set rs. rr_read r \<noteq> Inl (IoError InvalidData ''received data is malformed'')"
  shows "recv_loop R seed pos got input rs \<noteq> Some (Inl (IoError InvalidData ''received data is malformed''))"
  using assms
proof (induction R seed pos got input rs arbitrary: N rule: recv_loop.induct)
  case (2 R seed pos got input r rs)
  show ?case
  proof (cases "\<not> rr_closed r \<and> \<not> rr_elapsed r \<and> (\<exists>k. rr_read r = Inr k \<and> read_size k input \<noteq> 0 \<and> round_up (read_size k input) \<le> length input)")
    case False
    with 2(3) show ?thesis by (cases "rr_read r") (auto simp: eof_error_def Let_def)
  next
    case True
    then obtain k where k: "\<not> (rr_closed r \<or> rr_elapsed r)" "rr_read r = Inr k" "read_size k input \<noteq> 0"
      "\<not> length input < round_up (read_size k input)" by auto
    define n where "n = round_up (read_size k input)"
    have n: "8 * (n div 8) = n" "n \<le> length input" using round_up_props(1) [of "read_size k input"] k(4) by (auto simp: n_def)
    from 2(2) obtain ys where ys: "fill_bytes R seed pos N = input @ ys" by (auto simp: prefix_def)
    then have len: "length input \<le> 8 * N" by (metis length_append length_fill le_add1)
    define m where "m = N - n div 8"
    have N: "N = n div 8 + m" using len n by (simp add: m_def)
    have split: "fill_bytes R seed pos (n div 8) @ fill_bytes R seed (pos + n div 8) m = take n input @ drop n input @ ys"
      using ys unfolding N fill_append by simp
    then have same: "fill_bytes R seed pos (n div 8) = take n input" and rest: "fill_bytes R seed (pos + n div 8) m = drop n input @ ys"
      using n by (simp_all add: append_eq_append_conv)
    show ?thesis
    proof (cases "rr_report_gone r")
      case False
      have "recv_loop R seed pos got input (r # rs) = recv_loop R seed (pos + n div 8) (got + n) (drop n input) rs"
        using k same False by (simp add: Let_def n_def)
      moreover have "prefix (drop n input) (fill_bytes R seed (pos + n div 8) m)" using rest by (simp add: prefix_def)
      ultimately show ?thesis
        using 2(1) [OF k(1,2) refl k(3,4) n_def _ False, of m] same 2(3) by (simp add: n_def)
    qed (use k same in \<open>simp add: Let_def n_def\<close>)
  qed
qed simp

lemma recv_loop_verified:
  assumes "recv_loop R seed pos got input rs = Some (Inr t)"
  shows "\<exists>m. t = got + 8 * m \<and> 8 * m \<le> length input \<and> take (8 * m) input = fill_bytes R seed pos m"
  using assms
proof (induction R seed pos got input rs rule: recv_loop.induct)
  case (2 R seed pos got input r rs)
  show ?case
  proof (cases "\<not> rr_closed r \<and> \<not> rr_elapsed r \<and> (\<exists>k. rr_read r = Inr k \<and> read_size k input \<noteq> 0)")
    case False
    with 2(2) have "t = got" by (cases "rr_read r") (auto simp: Let_def split: if_splits)
    then show ?thesis by (intro exI [of _ 0]) (simp add: fill_bytes_def)
  next
    case True
    then obtain k where k: "\<not> (rr_closed r \<or> rr_elapsed r)" "rr_read r = Inr k" "read_size k input \<noteq> 0" by auto
    have k4: "\<not> length input < round_up (read_size k input)" using 2(2) k by (auto simp: Let_def split: if_splits)
    define n where "n = round_up (read_size k input)"
    have n: "8 * (n div 8) = n" "n \<le> length input" using round_up_props(1) [of "read_size k input"] k4 by (auto simp: n_def)
    have same: "fill_bytes R seed pos (n div 8) = take n input"
      using 2(2) k k4 by (auto simp: Let_def n_def split: if_splits)
    show ?thesis
    proof (cases "rr_report_gone r")
      case True
      then have "t = got + n" using 2(2) k k4 same by (simp add: Let_def n_def)
      then show ?thesis using n same by (intro exI [of _ "n div 8"]) simp
    next
      case False
      then have "recv_loop R seed (pos + n div 8) (got + n) (drop n input) rs = Some (Inr t)"
        using 2(2) k k4 same by (simp add: Let_def n_def)
      from 2(1) [OF k(1,2) refl k(3) k4 n_def _ False] this same obtain m where
        m: "t = got + n + 8 * m" "8 * m \<le> length input - n" "take (8 * m) (drop n input) = fill_bytes R seed (pos + n div 8) m"
        by auto
      have "take (n + 8 * m) input = fill_bytes R seed pos (n div 8 + m)"
        unfolding fill_append same m(3) [symmetric] by (simp add: take_add)
      then show ?thesis using m(1,2) n by (intro exI [of _ "n div 8 + m"]) (simp add: algebra_simps)
    qed
  qed
qed simp

lemma rd_wr_u64: "rd_u64 (wr_u64 w @ bs) = Inr (w, bs)"
  by (simp add: rd_u64_def wr_u64_def read_be_def read_exact_def rd_bind_def rd_return_def be_to_nat_unat)

section \<open>Properties\<close>

text \<open>
  Over a connection that delivers a part of what the sender wrote, in whatever pieces, the receiver never finds the data
  malformed, and the total it reports is a number of bytes that it has compared with its own numbers; the
  sender stops at most one block after its limit and has written as many bytes as it reports after the seed.
\<close>

theorem speed_test_transparent:
  assumes "speed_sender R True seed (Inr ()) limit srs = (out, res)" and "prefix input out" and "8 \<le> length input"
    and "\<forall>r \<in> set rrs. rr_read r \<noteq> Inl (IoError InvalidData ''received data is malformed'')"
  shows "speed_receiver R True False input rrs \<noteq> Some (Inl (IoError InvalidData ''received data is malformed'')) \<and>
    (\<forall>t. speed_receiver R True False input rrs = Some (Inr t) \<longrightarrow>
       8 dvd t \<and> t + 8 \<le> length input \<and> take t (drop 8 input) = fill_bytes R seed 0 (t div 8)) \<and>
    (\<forall>t. res = Some (Inr t) \<longrightarrow> length out = 8 + t \<and> (\<forall>l. limit = Some l \<longrightarrow> t \<le> l + BUF_SIZE))"
proof -
  obtain bs where loop: "send_loop R seed limit 0 srs = (bs, res)" and out: "out = wr_u64 seed @ bs"
    using assms(1) by (auto simp: speed_sender_def split: prod.splits)
  from send_loop_output [OF loop] obtain m where m: "bs = fill_bytes R seed 0 (m * (BUF_SIZE div 8))"
    "\<forall>t. res = Some (Inr t) \<longrightarrow> t = m * BUF_SIZE" "m = 0 \<or> (\<forall>l. limit = Some l \<longrightarrow> m * BUF_SIZE \<le> l + BUF_SIZE)" by auto
  obtain rest where rest: "input = wr_u64 seed @ rest" "prefix rest bs"
  proof (cases "prefix input (wr_u64 seed)")
    case True
    then obtain z where z: "wr_u64 seed = input @ z" by (auto simp: prefix_def)
    then have "length input + length z = 8" by (metis length_append length_nat_to_be wr_u64_def)
    then have "length z = 0" using assms(3) by linarith
    then have "input = wr_u64 seed @ []" using z by simp
    then show thesis by (rule that) simp
  next
    case False
    with assms(2) show thesis unfolding out prefix_append using that by blast
  qed
  have recv: "speed_receiver R True False input rrs = recv_loop R seed 0 0 rest rrs"
    by (simp add: speed_receiver_def rest rd_wr_u64)
  have "speed_receiver R True False input rrs \<noteq> Some (Inl (IoError InvalidData ''received data is malformed''))"
    unfolding recv using rest(2) m(1) assms(4) by (intro recv_loop_transparent) simp_all
  moreover have "8 dvd t \<and> t + 8 \<le> length input \<and> take t (drop 8 input) = fill_bytes R seed 0 (t div 8)"
    if "speed_receiver R True False input rrs = Some (Inr t)" for t
    using recv_loop_verified [OF that [unfolded recv]] rest(1) by (auto simp: wr_u64_def)
  moreover have "length out = 8 + t \<and> (\<forall>l. limit = Some l \<longrightarrow> t \<le> l + BUF_SIZE)" if "res = Some (Inr t)" for t
    using m that out BUF_SIZE_8 by (auto simp: wr_u64_def)
  ultimately show ?thesis by blast
qed

theorem speed_test_transparent_witness:
  "\<exists>out. speed_sender (\<lambda>s i. s + of_nat i) True 7 (Inr ()) (Some 0)
       [\<lparr>sr_closed = False, sr_elapsed = False, sr_write = Inr (), sr_report = False, sr_report_gone = False, sr_stop = True\<rparr>] =
       (out, Some (Inr BUF_SIZE)) \<and> length out = 8 + BUF_SIZE \<and>
     speed_receiver (\<lambda>s i. s + of_nat i) True False out [] \<noteq> Some (Inl (IoError InvalidData ''received data is malformed''))"
proof -
  let ?R = "\<lambda>(s :: u64) (i :: nat). s + of_nat i"
  let ?r = "\<lparr>sr_closed = False, sr_elapsed = False, sr_write = Inr (), sr_report = False, sr_report_gone = False, sr_stop = True\<rparr>"
  define out where "out = wr_u64 7 @ fill_bytes ?R 7 0 (BUF_SIZE div 8)"
  have s: "speed_sender ?R True 7 (Inr ()) (Some 0) [?r] = (out, Some (Inr BUF_SIZE))"
    by (simp add: speed_sender_def out_def)
  have "8 \<le> length out" by (simp add: out_def wr_u64_def)
  from speed_test_transparent [OF s prefix_order.refl this, of "[]"] s show ?thesis by auto
qed

end
