(* ===== verification/Raw_Speed.thy ===== *)
theory Raw_Speed
  imports Tools Speed_Test
begin

text \<open>
  The tool for the speed of separate connections (\<open>aggligator-util/src/bin/raw-speed.rs\<close>): a client that keeps one TCP
  connection per local interface and address of the server and tests its speed, the table of speeds it shows, and the server.

  Names of interfaces are bytes; \<open>sh_lossy\<close> gives them as text.  Speeds are floating point numbers and have any type.
  Sockets, the resolution of names and the list of interfaces are parameters.
\<close>

section \<open>Errors\<close>

text \<open>Errors with context: an error of the system, a message, and either with a message in front.\<close>

datatype anyhow = AnyIo io_error | AnyMsg string | AnyContext string anyhow

definition any_io :: "'a io_result \<Rightarrow> anyhow + 'a" where
  "any_io = map_sum AnyIo id"

section \<open>Client\<close>

definition RAW_PORT :: u16 where "RAW_PORT = 5701"
definition TCP_CONNECT_TIMEOUT :: duration where "TCP_CONNECT_TIMEOUT = from_secs 5"

record raw_client =
  rw_ipv4 :: bool
  rw_ipv6 :: bool
  rw_limit :: "nat option"
  rw_time :: "nat option"
  rw_send_only :: bool
  rw_recv_only :: bool
  rw_no_monitor :: bool
  rw_target :: "string list"

definition target_with_port :: "show_env \<Rightarrow> string \<Rightarrow> string" where
  "target_with_port S t = (if CHR '':'' \<in> set t then t else t @ '':'' @ sh_nat S (unat RAW_PORT))"

fun lookup_targets ::
  "(string \<Rightarrow> socket_addr list io_result) \<Rightarrow> bool \<Rightarrow> bool \<Rightarrow> string list \<Rightarrow> socket_addr set \<Rightarrow> anyhow + socket_addr set" where
  "lookup_targets lookup v4 v6 [] addrs = Inr addrs"
| "lookup_targets lookup v4 v6 (t # ts) addrs =
     (case lookup t of
        Inl e \<Rightarrow> Inl (AnyIo e)
      | Inr as \<Rightarrow> lookup_targets lookup v4 v6 ts
          (addrs \<union> set (filter (\<lambda>a. \<not> (is_ipv4 (sa_ip a) \<and> v6 \<or> is_ipv6 (sa_ip a) \<and> v4)) as)))"

definition resolve_target :: "show_env \<Rightarrow> (string \<Rightarrow> socket_addr list io_result) \<Rightarrow> raw_client \<Rightarrow> anyhow + socket_addr set" where
  "resolve_target S lookup cli =
     (if rw_ipv4 cli \<and> rw_ipv6 cli then Inl (AnyMsg ''IPv4 and IPv6 options are mutually exclusive'')
      else case lookup_targets lookup (rw_ipv4 cli) (rw_ipv6 cli) (map (target_with_port S) (rw_target cli)) {} of
        Inl e \<Rightarrow> Inl e
      | Inr addrs \<Rightarrow> if addrs = {} then Inl (AnyMsg ''cannot resolve IP address of target'') else Inr addrs)"

text \<open>Sockets: creation for a version, binding, connecting and listening.\<close>

record ('s, 'c) raw_os =
  ro_new :: "ip_addr \<Rightarrow> 's io_result"
  ro_bind_device :: "bytes \<Rightarrow> 's \<Rightarrow> 's io_result"
  ro_bind :: "socket_addr \<Rightarrow> 's \<Rightarrow> 's io_result"
  ro_connect :: "socket_addr \<Rightarrow> 's \<Rightarrow> 'c io_result"
  ro_listen :: "'s \<Rightarrow> 's io_result"
  ro_local_addr :: "'s \<Rightarrow> socket_addr io_result"

definition raw_bind ::
  "bool \<Rightarrow> ('s, 'c) raw_os \<Rightarrow> bytes \<Rightarrow> network_interface list \<Rightarrow> ip_addr \<Rightarrow> 's \<Rightarrow> anyhow + 's" where
  "raw_bind linux os iface ifaces target s =
     (if linux then any_io (ro_bind_device os iface s)
      else case List.find (\<lambda>a. same_version a target \<and> is_loopback a = is_loopback target)
            (concat (map if_addr (filter (\<lambda>i. if_name i = iface) ifaces))) of
        Some a \<Rightarrow> any_io (ro_bind os (SocketAddr a 0) s)
      | None \<Rightarrow> Inl (AnyMsg ''no IP address for interface''))"

definition raw_tcp_connect ::
  "bool \<Rightarrow> ('s, 'c) raw_os \<Rightarrow> bytes \<Rightarrow> network_interface list \<Rightarrow> socket_addr \<Rightarrow> anyhow + 'c" where
  "raw_tcp_connect linux os iface ifaces target =
     (case any_io (ro_new os (sa_ip target)) of
        Inl e \<Rightarrow> Inl e
      | Inr s \<Rightarrow>
          (case raw_bind linux os iface ifaces (sa_ip target) s of
             Inl e \<Rightarrow> Inl e
           | Inr s \<Rightarrow> any_io (ro_connect os target s)))"

subsection \<open>The links\<close>

text \<open>
  A link is an interface and an address of the server.  The loop remembers the links for which it has started a task; a
  task connects, tests, and reports its end over a queue of 16 places.  The end of the loop drops the queue.
\<close>

type_synonym raw_link = "bytes \<times> socket_addr"

datatype link_task = Connecting | Testing | Reporting

datatype test_phase = Checking | Draining | Sleeping | Ended "anyhow + unit"

record raw_links =
  rl_phase :: test_phase
  rl_connected :: "raw_link set"
  rl_queue :: "raw_link list"
  rl_tasks :: "(raw_link \<times> link_task) list"

definition raw_links_new :: raw_links where
  "raw_links_new = \<lparr>rl_phase = Checking, rl_connected = {}, rl_queue = [], rl_tasks = []\<rparr>"

definition DISCONNECTED_QUEUE :: nat where "DISCONNECTED_QUEUE = 16"

text \<open>
  The two loops over interfaces and addresses.  Both iterate over sets, in an order that is an argument.
\<close>

fun start_links :: "raw_link list \<Rightarrow> raw_link set \<Rightarrow> raw_link set \<times> raw_link list" where
  "start_links [] known = (known, [])"
| "start_links (p # ps) known =
     (if p \<in> known then start_links ps known
      else let (known, started) = start_links ps (insert p known) in (known, p # started))"

definition raw_round :: "bytes list \<Rightarrow> socket_addr list \<Rightarrow> raw_links \<Rightarrow> raw_links" where
  "raw_round names targets s =
     (let (known, started) = start_links (List.product names targets) (rl_connected s) in
      s\<lparr>rl_phase := Sleeping, rl_connected := known, rl_tasks := rl_tasks s @ map (\<lambda>p. (p, Connecting)) started\<rparr>)"

text \<open>
  The loop and its tasks.  \<open>M\<close> says whether there is a monitor, which may go at any time; without
  it the loop never ends.
\<close>

inductive raw_step :: "bool \<Rightarrow> socket_addr set \<Rightarrow> raw_links \<Rightarrow> raw_links \<Rightarrow> bool" for M T where
  rs_closed: "rl_phase s = Checking \<Longrightarrow> M \<Longrightarrow> raw_step M T s (s\<lparr>rl_phase := Ended (Inr ())\<rparr>)"
| rs_open: "rl_phase s = Checking \<Longrightarrow> raw_step M T s (s\<lparr>rl_phase := Draining\<rparr>)"
| rs_drain: "rl_phase s = Draining \<Longrightarrow> rl_queue s = p # q \<Longrightarrow>
    raw_step M T s (s\<lparr>rl_connected := rl_connected s - {p}, rl_queue := q\<rparr>)"
| rs_show_fails: "rl_phase s = Draining \<Longrightarrow> rl_queue s = [] \<Longrightarrow>
    raw_step M T s (s\<lparr>rl_phase := Ended (Inl (AnyContext ''cannot get network interfaces'' (AnyMsg e)))\<rparr>)"
| rs_round: "rl_phase s = Draining \<Longrightarrow> rl_queue s = [] \<Longrightarrow> set names = if_name ` set (ifs :: network_interface list) \<Longrightarrow> set targets = T \<Longrightarrow>
    raw_step M T s (raw_round names targets s)"
| rs_slept: "rl_phase s = Sleeping \<Longrightarrow> raw_step M T s (s\<lparr>rl_phase := Checking\<rparr>)"
| rs_connected: "rl_tasks s = xs @ (p, Connecting) # ys \<Longrightarrow> raw_step M T s (s\<lparr>rl_tasks := xs @ (p, Testing) # ys\<rparr>)"
| rs_failed: "rl_tasks s = xs @ (p, Connecting) # ys \<Longrightarrow> raw_step M T s (s\<lparr>rl_tasks := xs @ (p, Reporting) # ys\<rparr>)"
| rs_tested: "rl_tasks s = xs @ (p, Testing) # ys \<Longrightarrow> raw_step M T s (s\<lparr>rl_tasks := xs @ (p, Reporting) # ys\<rparr>)"
| rs_report: "rl_tasks s = xs @ (p, Reporting) # ys \<Longrightarrow> \<nexists>r. rl_phase s = Ended r \<Longrightarrow> length (rl_queue s) < DISCONNECTED_QUEUE \<Longrightarrow>
    raw_step M T s (s\<lparr>rl_queue := rl_queue s @ [p], rl_tasks := xs @ ys\<rparr>)"
| rs_gone: "rl_tasks s = xs @ (p, Reporting) # ys \<Longrightarrow> rl_phase s = Ended r \<Longrightarrow> raw_step M T s (s\<lparr>rl_tasks := xs @ ys\<rparr>)"

subsection \<open>The table of speeds\<close>

text \<open>
  A task next to the test of a link passes on each speed, until the monitor is gone, and at the end tells that the
  link is gone; each speed comes with whether the message was taken.  \<open>speeds_step\<close> is the monitor, which keeps the
  latest speeds by the texts in the messages.
\<close>

definition link_key :: "show_env \<Rightarrow> bytes \<Rightarrow> socket_addr \<Rightarrow> string" where
  "link_key S iface target = sh_lossy S iface @ '' -> '' @ sh_socket S target"

fun pass_speeds :: "string \<Rightarrow> ('v \<times> bool) list \<Rightarrow> (string \<times> 'v option) list" where
  "pass_speeds key [] = []"
| "pass_speeds key ((v, taken) # rs) = (if taken then (key, Some v) # pass_speeds key rs else [])"

definition speed_messages :: "show_env \<Rightarrow> bytes \<Rightarrow> socket_addr \<Rightarrow> ('v \<times> bool) list \<Rightarrow> bool \<Rightarrow> (string \<times> 'v option) list" where
  "speed_messages S iface target rs taken =
     pass_speeds (link_key S iface target) rs @ (if taken then [(sh_lossy S iface, None)] else [])"

fun speeds_step :: "(string \<rightharpoonup> 'v) \<Rightarrow> (string \<times> 'v option) list \<Rightarrow> (string \<rightharpoonup> 'v)" where
  "speeds_step m [] = m"
| "speeds_step m ((k, Some v) # ms) = speeds_step (m(k \<mapsto> v)) ms"
| "speeds_step m ((k, None) # ms) = speeds_step (m(k := None)) ms"

subsection \<open>The command\<close>

record test_args =
  ta_targets :: "socket_addr set"
  ta_send_only :: bool
  ta_recv_only :: bool
  ta_limit :: "nat option"
  ta_time :: "duration option"
  ta_monitor :: bool

text \<open>
  The call of the loop over the links, or an error; \<open>None\<close> if the multiplication overflows, which panics with checks.
\<close>

definition raw_client_run ::
  "show_env \<Rightarrow> (string \<Rightarrow> socket_addr list io_result) \<Rightarrow> bool \<Rightarrow> raw_client \<Rightarrow> (anyhow + test_args) option" where
  "raw_client_run S lookup tty cli =
     (let no_monitor = (rw_no_monitor cli \<or> \<not> tty) in
      case resolve_target S lookup cli of
        Inl e \<Rightarrow> Some (Inl (AnyContext ''cannot resolve target'' e))
      | Inr targets \<Rightarrow> do {
          limit \<leftarrow> (case rw_limit cli of
            None \<Rightarrow> Some None
          | Some mb \<Rightarrow> do { assert_that (mb * 1048576 < 2 ^ 64); Some (Some (mb * 1048576)) });
          let time = map_option from_secs (rw_time cli);
          Some (Inr \<lparr>ta_targets = targets, ta_send_only = rw_send_only cli, ta_recv_only = rw_recv_only cli,
            ta_limit = (if no_monitor then rw_limit cli else limit), ta_time = time, ta_monitor = \<not> no_monitor\<rparr>)
        })"

text \<open>The test of a link: what it writes and the result of the sender, and the result of the receiver.\<close>

definition raw_link_test ::
  "rng \<Rightarrow> test_args \<Rightarrow> u64 \<Rightarrow> unit io_result \<Rightarrow> send_round list \<Rightarrow> bytes \<Rightarrow> recv_round list \<Rightarrow>
   (bytes \<times> nat io_result option) \<times> nat io_result option" where
  "raw_link_test R a seed w rs input rs' =
     (speed_sender R (\<not> ta_recv_only a) seed w (ta_limit a) rs, speed_receiver R (\<not> ta_send_only a) False input rs')"

section \<open>Server\<close>

definition raw_listen :: "bool \<Rightarrow> ('s, 'c) raw_os \<Rightarrow> u16 \<Rightarrow> network_interface \<Rightarrow> anyhow + 's" where
  "raw_listen linux os port iface =
     (case if_addr iface of
        [] \<Rightarrow> Inl (AnyMsg ''interface has no IP'')
      | a # _ \<Rightarrow>
          any_io (case ro_new os a of
            Inl e \<Rightarrow> Inl e
          | Inr s \<Rightarrow>
              (case ro_bind os (SocketAddr a port) s of
                 Inl e \<Rightarrow> Inl e
               | Inr s \<Rightarrow>
                   (case (if linux then ro_bind_device os (if_name iface) s else Inr s) of
                      Inl e \<Rightarrow> Inl e
                    | Inr s \<Rightarrow> ro_listen os s))))"

fun raw_listeners :: "bool \<Rightarrow> ('s, 'c) raw_os \<Rightarrow> u16 \<Rightarrow> network_interface list \<Rightarrow> anyhow + 's list" where
  "raw_listeners linux os port [] = Inr []"
| "raw_listeners linux os port (i # ifs) =
     (case raw_listen linux os port i of
        Inl _ \<Rightarrow> raw_listeners linux os port ifs
      | Inr s \<Rightarrow>
          (case ro_local_addr os s of
             Inl e \<Rightarrow> Inl (AnyIo e)
           | Inr _ \<Rightarrow> map_sum id (Cons s) (raw_listeners linux os port ifs)))"

text \<open>
  Accepting: the connections that are tested, and the result, nothing while the server waits.  The first error of a listener ends
  the server, and it ends at once without listeners.
\<close>

fun raw_accepts :: "'c io_result list \<Rightarrow> 'c list \<times> (anyhow + unit) option" where
  "raw_accepts [] = ([], None)"
| "raw_accepts (Inl e # rs) = ([], Some (Inl (AnyIo e)))"
| "raw_accepts (Inr c # rs) = (let (cs, res) = raw_accepts rs in (c # cs, res))"

definition raw_serve ::
  "bool \<Rightarrow> ('s, 'c) raw_os \<Rightarrow> string + network_interface list \<Rightarrow> u16 \<Rightarrow> 'a io_result list \<Rightarrow> 'a list \<times> (anyhow + unit) option" where
  "raw_serve linux os shown port accepted =
     (case shown of
        Inl e \<Rightarrow> ([], Some (Inl (AnyContext ''cannot get network interfaces'' (AnyMsg e))))
      | Inr ifs \<Rightarrow>
          (case raw_listeners linux os port ifs of
             Inl e \<Rightarrow> ([], Some (Inl e))
           | Inr [] \<Rightarrow> ([], Some (Inr ()))
           | Inr _ \<Rightarrow> raw_accepts accepted))"

section \<open>Lemmas\<close>

lemma start_links_props:
  "start_links ps known = (known', started) \<Longrightarrow>
     known' = known \<union> set ps \<and> distinct started \<and> set started = set ps - known"
proof (induction ps known arbitrary: known' started rule: start_links.induct)
  case (2 p ps known)
  show ?case
  proof (cases "p \<in> known")
    case True
    then show ?thesis using 2(1) [OF True] 2(3) by auto
  next
    case False
    obtain k st where r: "start_links ps (insert p known) = (k, st)" by fastforce
    then have e: "known' = k" "started = p # st" using 2(3) False by simp_all
    show ?thesis using 2(2) [OF False r] False unfolding e by simp blast
  qed
qed simp

text \<open>The links that the loop takes for started are those with a task or with a report that waits, each once.\<close>

definition raw_ok :: "raw_links \<Rightarrow> bool" where
  "raw_ok s \<longleftrightarrow> distinct (map fst (rl_tasks s) @ rl_queue s) \<and> length (rl_queue s) \<le> DISCONNECTED_QUEUE \<and>
     ((\<nexists>r. rl_phase s = Ended r) \<longrightarrow> rl_connected s = set (map fst (rl_tasks s) @ rl_queue s))"

lemma raw_round_ok:
  assumes ok: "raw_ok s" and q: "rl_queue s = []" and ph: "rl_phase s = Draining"
  shows "raw_ok (raw_round names targets s) \<and>
    set (map fst (rl_tasks (raw_round names targets s))) = set (map fst (rl_tasks s)) \<union> set names \<times> set targets"
proof -
  obtain k st where r: "start_links (List.product names targets) (rl_connected s) = (k, st)" by fastforce
  have c: "rl_connected s = set (map fst (rl_tasks s))" using ok q ph by (simp add: raw_ok_def)
  have st: "map fst (map (\<lambda>p. (p, Connecting)) st) = st" by (induction st) auto
  have e: "raw_round names targets s =
      s\<lparr>rl_phase := Sleeping, rl_connected := k, rl_tasks := rl_tasks s @ map (\<lambda>p. (p, Connecting)) st\<rparr>"
    using r by (simp add: raw_round_def)
  note p = start_links_props [OF r]
  then have "map fst (rl_tasks (raw_round names targets s)) = map fst (rl_tasks s) @ st"
    "rl_queue (raw_round names targets s) = []" "rl_connected (raw_round names targets s) = k"
    using q st unfolding e by simp_all
  then show ?thesis using p ok c by (simp add: raw_ok_def)
qed

lemma raw_step_ok: "raw_step M T s s' \<Longrightarrow> raw_ok s \<Longrightarrow> raw_ok s'"
proof (induction rule: raw_step.induct)
  case (rs_round s names ifs targets)
  then show ?case using raw_round_ok by blast
qed (auto simp: raw_ok_def DISCONNECTED_QUEUE_def)

definition raw_moves :: "raw_links \<Rightarrow> raw_links \<Rightarrow> bool" where
  "raw_moves s s' \<longleftrightarrow> (\<forall>r. rl_phase s = Ended r \<longrightarrow> rl_phase s' = Ended r \<and> set (map fst (rl_tasks s')) \<subseteq> set (map fst (rl_tasks s)))"

interpretation rl: step_system "raw_step M T" raw_ok raw_moves
proof
  show "raw_ok s \<Longrightarrow> raw_step M T s s' \<Longrightarrow> raw_ok s'" for s s' by (rule raw_step_ok)
  show "raw_ok s \<Longrightarrow> raw_step M T s s' \<Longrightarrow> raw_moves s s'" for s s'
    by (erule raw_step.cases) (auto simp: raw_moves_def)
  show "raw_moves s s' \<Longrightarrow> raw_moves s' s'' \<Longrightarrow> raw_moves s s''" for s s' s''
    unfolding raw_moves_def by (meson subset_trans)
qed (simp add: raw_moves_def)

lemma raw_reach_ok: "(raw_step M T)\<^sup>*\<^sup>* raw_links_new s \<Longrightarrow> raw_ok s"
  by (rule rl.run_inv) (auto simp: raw_ok_def raw_links_new_def)

text \<open>
  At any time at most one task serves a link or reports its end, and after a round every interface of the
  system has a task for every address, while the tasks that ran before go on.
\<close>

theorem raw_links_unique:
  assumes run: "(raw_step M T)\<^sup>*\<^sup>* raw_links_new s"
  shows "distinct (map fst (rl_tasks s) @ rl_queue s) \<and> length (rl_queue s) \<le> DISCONNECTED_QUEUE \<and>
    (rl_phase s = Draining \<and> rl_queue s = [] \<longrightarrow>
       set (map fst (rl_tasks (raw_round names targets s))) = set (map fst (rl_tasks s)) \<union> set names \<times> set targets)"
  using raw_reach_ok [OF run] raw_round_ok by (auto simp: raw_ok_def)

text \<open>
  The monitor looks for an ended link under the name of its interface, but keeps its speed under a text with the address:
  no entry is ever removed, whatever links end.
\<close>

theorem dead_links_shown:
  assumes "\<forall>m \<in> set ms. \<exists>i \<in> I. \<exists>t rs taken. m \<in> set (speed_messages S i t rs taken)"
    and "\<forall>i \<in> I. \<forall>j \<in> I. \<forall>t. sh_lossy S i \<noteq> link_key S j t"
  shows "dom (speeds_step Map.empty ms) = {k. \<exists>v. (k, Some v) \<in> set ms}"
proof -
  have passed: "m \<in> set (pass_speeds key rs) \<Longrightarrow> fst m = key \<and> snd m \<noteq> None" for m :: "string \<times> 'a option" and key rs
    by (induction rs) (auto split: if_splits)
  have msg: "(case snd m of None \<Rightarrow> fst m = sh_lossy S i | Some v \<Rightarrow> fst m = link_key S i t)"
    if "m \<in> set (speed_messages S i t rs taken)" for m :: "string \<times> 'a option" and i t rs taken
    using that passed [of m] by (cases "snd m") (auto simp: speed_messages_def split: if_splits)
  have none: "k \<noteq> link_key S j t" if "(k, None) \<in> set ms" "j \<in> I" for k j t
  proof -
    obtain i where "i \<in> I" "k = sh_lossy S i" using bspec [OF assms(1) \<open>(k, None) \<in> set ms\<close>] msg by fastforce
    then show ?thesis using assms(2) \<open>j \<in> I\<close> by simp
  qed
  have some: "\<exists>i \<in> I. \<exists>t. k = link_key S i t" if "(k, Some v) \<in> set ms" for k v
    using bspec [OF assms(1) that] msg by fastforce
  have "dom (speeds_step m ms') = dom m \<union> {k. \<exists>v. (k, Some v) \<in> set ms'}"
    if "set ms' \<subseteq> set ms" "dom m \<subseteq> {link_key S i t | i t. i \<in> I}" for m :: "string \<rightharpoonup> 'a" and ms'
    using that
  proof (induction m ms' rule: speeds_step.induct)
    case (2 m k v ms')
    have "\<exists>i \<in> I. \<exists>t. k = link_key S i t" using some [of k v] 2(2) by simp
    then have sub: "dom (m(k \<mapsto> v)) \<subseteq> {link_key S i t | i t. i \<in> I}" using 2(3) by auto
    have "set ms' \<subseteq> set ms" using 2(2) by simp
    from 2(1) [OF this sub] show ?case by (simp del: fun_upd_apply) blast
  next
    case (3 m k ms')
    have "(k, None) \<in> set ms" using 3(2) by simp
    then have "k \<notin> dom m" using none [of k] 3(3) by blast
    then have "m(k := None) = m" by auto
    then show ?case using 3 by simp
  qed simp
  from this [of ms Map.empty] show ?thesis by simp
qed

text \<open>
  Without the monitor the limit in megabytes is passed on as a number of bytes, so that a link ends after a single block more
  than that; with the monitor it is multiplied.
\<close>

theorem raw_limit_unit:
  assumes "raw_client_run S lookup tty cli = Some (Inr a)" and "rw_limit cli = Some mb"
  shows "(ta_monitor a \<longrightarrow> ta_limit a = Some (mb * 1048576)) \<and>
    (\<not> ta_monitor a \<longrightarrow> length (fst (fst (raw_link_test R a seed w rs input rs'))) \<le> 8 + mb + BUF_SIZE)"
proof -
  have lim: "ta_limit a = Some (if ta_monitor a then mb * 1048576 else mb)"
    using assms by (auto simp: raw_client_run_def Let_def split: sum.splits)
  have "length (fst (speed_sender R send seed w (Some mb) rs)) \<le> 8 + mb + BUF_SIZE" for send
  proof -
    obtain out res where o: "send_loop R seed (Some mb) 0 rs = (out, res)" by fastforce
    obtain m where "out = fill_bytes R seed 0 (m * (BUF_SIZE div 8))" "m = 0 \<or> m * BUF_SIZE \<le> mb + BUF_SIZE"
      using send_loop_output [OF o] by auto
    moreover have "8 * (m * (BUF_SIZE div 8)) = m * BUF_SIZE" by (simp add: BUF_SIZE_def)
    ultimately have "length out \<le> mb + BUF_SIZE" by (metis length_fill mult_0 zero_le)
    then show ?thesis by (auto simp: speed_sender_def o wr_u64_def split: sum.splits)
  qed
  then show ?thesis using lim by (simp add: raw_link_test_def)
qed

end
