(* ===== verification/Tool_Setup.thy ===== *)
theory Tool_Setup
  imports Raw_Speed Web_Socket Bluetooth Usb_Transport
begin

text \<open>
  How the tools turn their options into transports: the speed test over aggregated connections
  (\<open>aggligator-util/src/bin/agg-speed.rs\<close>) and the tunnel (\<open>aggligator-util/src/bin/agg-tunnel.rs\<close>), clients and servers.
  The optional Bluetooth and USB parts are those of a build with all features; an option that is not given is
  as if the feature were absent.

  A setup gives the transports in the order in which they are added, each with the text that names it to the user;
  \<open>None\<close> is a panic.  What the system answers is a field of the records of environments.
\<close>

section \<open>Clients\<close>

datatype ('u, 'c, 'g) tool_transport =
    UseTcp tcp_connector
  | UseSocks socks5_connector
  | UseRfcomm rfcomm_connector
  | UseProfile rfcomm_profile_connector
  | UseUsb usb_connector
  | UseWs "('u, 'c, 'g) ws_connector"

record 'u tool_env =
  te_show :: show_env
  te_android :: bool
  te_lookup :: "string \<Rightarrow> socket_addr list io_result"
  te_addr :: addr_parse
  te_target_addr :: "string \<Rightarrow> string + target_addr"
  te_urls :: "'u url_ops"
  te_profile :: "bt_addr \<Rightarrow> rfcomm_profile_connector io_result"
  te_usb_watch :: "unit io_result"

definition with_context :: "string \<Rightarrow> 'a io_result \<Rightarrow> anyhow + 'a" where
  "with_context msg = map_sum (\<lambda>e. AnyContext msg (AnyIo e)) id"

text \<open>Parts of a setup one after the other; the first that fails or panics ends it.\<close>

fun all_parts :: "(anyhow + 'a list) option list \<Rightarrow> (anyhow + 'a list) option" where
  "all_parts [] = Some (Inr [])"
| "all_parts (None # ps) = None"
| "all_parts (Some (Inl e) # ps) = Some (Inl e)"
| "all_parts (Some (Inr xs) # ps) = map_option (map_sum id (append xs)) (all_parts ps)"

definition some_transport :: "string \<Rightarrow> anyhow + 'a list \<Rightarrow> anyhow + 'a list" where
  "some_transport msg r = (case r of Inl e \<Rightarrow> Inl e | Inr ts \<Rightarrow> if ts = [] then Inl (AnyMsg msg) else Inr ts)"

subsection \<open>USB devices of the tools\<close>

text \<open>The tools find each other by the identifiers of the device and the interface.\<close>

definition usb_matches ::
  "u16 \<Rightarrow> string \<Rightarrow> u8 \<Rightarrow> u8 \<Rightarrow> (string option \<Rightarrow> bool) \<Rightarrow> string \<Rightarrow> device_info \<Rightarrow> interface_info \<Rightarrow> bool" where
  "usb_matches vid product sub proto serial_ok name dev iface \<longleftrightarrow>
     di_vendor_id dev = vid \<and> di_product_id dev = vid \<and> di_manufacturer dev = Some ''aggligator-util'' \<and>
     di_product dev = Some product \<and> serial_ok (di_serial_number dev) \<and> di_class_code dev = 255 \<and>
     di_sub_class_code dev = 255 \<and> di_protocol_code dev = 255 \<and> ii_class_code iface = 255 \<and>
     ii_sub_class_code iface = sub \<and> ii_protocol_code iface = proto \<and> ii_description iface = Some name"

definition speed_usb_filter :: "string \<Rightarrow> device_info \<Rightarrow> interface_info \<Rightarrow> bool" where
  "speed_usb_filter serial = usb_matches 65534 ''agg-speed'' 230 231 (\<lambda>s. s = Some serial) ''speed test''"

definition tunnel_usb_filter :: "string \<Rightarrow> string \<Rightarrow> device_info \<Rightarrow> interface_info \<Rightarrow> bool" where
  "tunnel_usb_filter serial name = usb_matches 65533 ''agg-tunnel'' 240 1 (\<lambda>s. s = Some serial \<or> serial = ''-'') name"

subsection \<open>Speed test\<close>

definition SPEED_TCP_PORT :: u16 where "SPEED_TCP_PORT = 5700"
definition RFCOMM_CHANNEL :: u8 where "RFCOMM_CHANNEL = 20"

record speed_client =
  sp_ipv4 :: bool
  sp_ipv6 :: bool
  sp_limit :: "nat option"
  sp_time :: "nat option"
  sp_send_only :: bool
  sp_recv_only :: bool
  sp_recv_block :: bool
  sp_no_monitor :: bool
  sp_all_links :: bool
  sp_json :: bool
  sp_tls :: bool
  sp_tcp :: "string list"
  sp_tcp_link_filter :: tcp_link_filter
  sp_socks :: "string list"
  sp_socks_target :: "string option"
  sp_websocket :: "string list"
  sp_rfcomm :: "rfcomm_addr option"
  sp_rfcomm_profile :: "bt_addr option"
  sp_usb :: "string option"

text \<open>A Bluetooth address may come with a channel; the error is that of reading both.\<close>

definition parse_rfcomm :: "(string \<Rightarrow> string + rfcomm_addr) \<Rightarrow> (string \<Rightarrow> string + bt_addr) \<Rightarrow> string \<Rightarrow> string + rfcomm_addr" where
  "parse_rfcomm sock addr arg =
     (case sock arg of
        Inr a \<Rightarrow> Inr a
      | Inl e \<Rightarrow> (case addr arg of Inr a \<Rightarrow> Inr \<lparr>rf_addr = a, rf_channel = RFCOMM_CHANNEL\<rparr> | Inl _ \<Rightarrow> Inl e))"

definition complete_url :: "show_env \<Rightarrow> string \<Rightarrow> string" where
  "complete_url S url =
     (if take 2 url = ''ws'' then url else ''ws://'' @ url @ '':'' @ sh_nat S 8080 @ ''/agg-speed'')"

text \<open>The target behind the proxies: that of the option, or the first TCP target.\<close>

definition socks_target_text :: "string option \<Rightarrow> string list \<Rightarrow> anyhow + string" where
  "socks_target_text opt tcp =
     (case opt of
        Some t \<Rightarrow> Inr t
      | None \<Rightarrow>
          (case tcp of
             t # _ \<Rightarrow> Inr t
           | [] \<Rightarrow> Inl (AnyMsg ''specify the target reached through the SOCKS5 proxies using --socks-target'')))"

definition tool_socks_target :: "'u tool_env \<Rightarrow> u16 \<Rightarrow> string option \<Rightarrow> string list \<Rightarrow> anyhow + socks5_target" where
  "tool_socks_target E port opt tcp =
     (case socks_target_text opt tcp of
        Inl e \<Rightarrow> Inl e
      | Inr t \<Rightarrow> with_context ''invalid SOCKS5 target'' (socks_target_parse (te_show E) (te_addr E) (te_target_addr E) t port))"

definition speed_tcp :: "'u tool_env \<Rightarrow> speed_client \<Rightarrow> ip_version \<Rightarrow> (anyhow + (string \<times> ('u, 'c, 'g) tool_transport) list) option" where
  "speed_tcp E cli v =
     (if sp_tcp cli = [] then Some (Inr [])
      else case with_context ''cannot resolve TCP target'' (tcp_new (te_show E) (te_android E) (te_lookup E) (sp_tcp cli) SPEED_TCP_PORT) of
        Inl e \<Rightarrow> Some (Inl e)
      | Inr c \<Rightarrow>
          (let c = set_link_filter (sp_tcp_link_filter cli) (set_ip_version v c) in
           map_option (\<lambda>t. Inr [(t, UseTcp c)]) (tcp_connector_display c)))"

definition speed_socks :: "'u tool_env \<Rightarrow> speed_client \<Rightarrow> (anyhow + (string \<times> ('u, 'c, 'g) tool_transport) list) option" where
  "speed_socks E cli =
     (if sp_socks cli = [] then Some (Inr [])
      else case tool_socks_target E SPEED_TCP_PORT (sp_socks_target cli) (sp_tcp cli) of
        Inl e \<Rightarrow> Some (Inl e)
      | Inr target \<Rightarrow>
          (case with_context ''cannot use SOCKS5 proxies'' (socks_new (te_show E) (te_addr E) (sp_socks cli) (Inr (into_target_addr target))) of
             Inl e \<Rightarrow> Some (Inl e)
           | Inr c \<Rightarrow> map_option (\<lambda>t. Inr [(t, UseSocks c)]) (socks_connector_display (te_show E) c)))"

definition speed_rfcomm :: "'u tool_env \<Rightarrow> speed_client \<Rightarrow> (anyhow + (string \<times> ('u, 'c, 'g) tool_transport) list) option" where
  "speed_rfcomm E cli =
     Some (Inr (case sp_rfcomm cli of None \<Rightarrow> [] | Some a \<Rightarrow> [(sh_rfcomm (te_show E) a, UseRfcomm (rfcomm_new a))]))"

definition speed_profile :: "'u tool_env \<Rightarrow> speed_client \<Rightarrow> (anyhow + (string \<times> ('u, 'c, 'g) tool_transport) list) option" where
  "speed_profile E cli =
     Some (case sp_rfcomm_profile cli of
             None \<Rightarrow> Inr []
           | Some a \<Rightarrow> map_sum id (\<lambda>c. [(sh_bt (te_show E) a, UseProfile c)])
               (with_context ''RFCOMM profile connector failed'' (te_profile E a)))"

definition speed_usb :: "'u tool_env \<Rightarrow> speed_client \<Rightarrow> (anyhow + (string \<times> ('u, 'c, 'g) tool_transport) list) option" where
  "speed_usb E cli =
     Some (case sp_usb cli of
             None \<Rightarrow> Inr []
           | Some serial \<Rightarrow> map_sum id (\<lambda>c. [(''USB '' @ serial, UseUsb c)])
               (with_context ''cannot initialize USB'' (usb_connector_new (speed_usb_filter serial) (te_usb_watch E))))"

definition speed_ws :: "'u tool_env \<Rightarrow> speed_client \<Rightarrow> ip_version \<Rightarrow> (anyhow + (string \<times> ('u, 'c, 'g) tool_transport) list) option" where
  "speed_ws E cli v =
     (if sp_websocket cli = [] then Some (Inr [])
      else case ws_new (te_show E) (te_urls E) (te_android E) (te_lookup E) (map (complete_url (te_show E)) (sp_websocket cli)) of
        None \<Rightarrow> None
      | Some r \<Rightarrow>
          (case with_context ''cannot resolve WebSocket target'' r of
             Inl e \<Rightarrow> Some (Inl e)
           | Inr c \<Rightarrow> map_option (\<lambda>t. Inr [(t, UseWs (ws_set_ip_version v c))])
               (ws_connector_display (te_urls E) (ws_set_ip_version v c))))"

definition speed_setup :: "'u tool_env \<Rightarrow> speed_client \<Rightarrow> (anyhow + (string \<times> ('u, 'c, 'g) tool_transport) list) option" where
  "speed_setup E cli =
     (case any_io (from_only (sp_ipv4 cli) (sp_ipv6 cli)) of
        Inl e \<Rightarrow> Some (Inl e)
      | Inr v \<Rightarrow>
          map_option (some_transport ''No connection transports.'')
            (all_parts [speed_tcp E cli v, speed_socks E cli, speed_rfcomm E cli, speed_profile E cli, speed_usb E cli,
               speed_ws E cli v]))"

text \<open>The test over the connection; the limit is multiplied as the test starts, which panics with checks if it overflows.\<close>

definition speed_client_test ::
  "rng \<Rightarrow> speed_client \<Rightarrow> u64 \<Rightarrow> unit io_result \<Rightarrow> send_round list \<Rightarrow> bytes \<Rightarrow> recv_round list \<Rightarrow>
   ((bytes \<times> nat io_result option) \<times> nat io_result option) option" where
  "speed_client_test R cli seed w rs input rs' = do {
     limit \<leftarrow> (case sp_limit cli of
       None \<Rightarrow> Some None
     | Some mb \<Rightarrow> do { assert_that (mb * 1048576 < 2 ^ 64); Some (Some (mb * 1048576)) });
     Some (speed_sender R (\<not> sp_recv_only cli) seed w limit rs,
       speed_receiver R (\<not> sp_send_only cli) (sp_recv_block cli) input rs') }"

subsection \<open>Tunnel\<close>

definition TUNNEL_TCP_PORT :: u16 where "TUNNEL_TCP_PORT = 5800"

record tunnel_client =
  tu_ipv4 :: bool
  tu_ipv6 :: bool
  tu_no_monitor :: bool
  tu_all_links :: bool
  tu_port :: "(u16 \<times> u16) list"
  tu_global :: bool
  tu_once :: bool
  tu_tcp :: "string list"
  tu_tcp_link_filter :: tcp_link_filter
  tu_socks :: "string list"
  tu_socks_target :: "string option"
  tu_rfcomm :: "rfcomm_addr option"
  tu_usb :: "string option"
  tu_usb_interface_name :: string

text \<open>
  Here a transport that cannot be used is left out with a warning; a USB device is named to the user in any case, and its
  connector is created for each connection.
\<close>

definition tunnel_tcp :: "'u tool_env \<Rightarrow> tunnel_client \<Rightarrow> (anyhow + (string \<times> ('u, 'c, 'g) tool_transport option) list) option" where
  "tunnel_tcp E cli =
     (if tu_tcp cli = [] then Some (Inr [])
      else case tcp_new (te_show E) (te_android E) (te_lookup E) (tu_tcp cli) TUNNEL_TCP_PORT of
        Inl _ \<Rightarrow> Some (Inr [])
      | Inr c \<Rightarrow>
          (case any_io (from_only (tu_ipv4 cli) (tu_ipv6 cli)) of
             Inl e \<Rightarrow> Some (Inl e)
           | Inr v \<Rightarrow>
               (let c = set_link_filter (tu_tcp_link_filter cli) (set_ip_version v c) in
                map_option (\<lambda>t. Inr [(t, Some (UseTcp c))]) (tcp_connector_display c))))"

definition tunnel_socks :: "'u tool_env \<Rightarrow> tunnel_client \<Rightarrow> (anyhow + (string \<times> ('u, 'c, 'g) tool_transport option) list) option" where
  "tunnel_socks E cli =
     (if tu_socks cli = [] then Some (Inr [])
      else case tool_socks_target E TUNNEL_TCP_PORT (tu_socks_target cli) (tu_tcp cli) of
        Inl e \<Rightarrow> Some (Inl e)
      | Inr target \<Rightarrow>
          (case socks_new (te_show E) (te_addr E) (tu_socks cli) (Inr (into_target_addr target)) of
             Inl _ \<Rightarrow> Some (Inr [])
           | Inr c \<Rightarrow> map_option (\<lambda>t. Inr [(t, Some (UseSocks c))]) (socks_connector_display (te_show E) c)))"

definition tunnel_rfcomm :: "'u tool_env \<Rightarrow> tunnel_client \<Rightarrow> (anyhow + (string \<times> ('u, 'c, 'g) tool_transport option) list) option" where
  "tunnel_rfcomm E cli =
     Some (Inr (case tu_rfcomm cli of None \<Rightarrow> [] | Some a \<Rightarrow> [(sh_rfcomm (te_show E) a, Some (UseRfcomm (rfcomm_new a)))]))"

definition tunnel_usb :: "'u tool_env \<Rightarrow> tunnel_client \<Rightarrow> (anyhow + (string \<times> ('u, 'c, 'g) tool_transport option) list) option" where
  "tunnel_usb E cli =
     Some (Inr (case tu_usb cli of
        None \<Rightarrow> []
      | Some serial \<Rightarrow> [(''USB '' @ serial,
          (case usb_connector_new (tunnel_usb_filter serial (tu_usb_interface_name cli)) (te_usb_watch E) of
             Inr c \<Rightarrow> Some (UseUsb c) | Inl _ \<Rightarrow> None))]))"

definition tunnel_setup :: "'u tool_env \<Rightarrow> tunnel_client \<Rightarrow> (anyhow + (string \<times> ('u, 'c, 'g) tool_transport option) list) option" where
  "tunnel_setup E cli =
     map_option (some_transport ''No connection transports.'')
       (all_parts [tunnel_tcp E cli, tunnel_socks E cli, tunnel_rfcomm E cli, tunnel_usb E cli])"

text \<open>
  The listeners of a local port: one on all interfaces, for IPv4 and IPv6, or one for each loopback address.  The listeners
  of all ports must be there before any connection is accepted.
\<close>

definition LOCALHOST4 :: ip_addr where "LOCALHOST4 = V4 0x7f000001"
definition LOCALHOST6 :: ip_addr where "LOCALHOST6 = V6 1"

definition tunnel_listeners ::
  "show_env \<Rightarrow> ('s, 'l) tcp_listen_os \<Rightarrow> (socket_addr \<Rightarrow> 'l io_result) \<Rightarrow> bool \<Rightarrow> u16 \<Rightarrow> anyhow + 'l list" where
  "tunnel_listeners S T bind_listener global port =
     (let text = sh_nat S (unat port) in
      if global then
        (case tl_socket T True of
           Inl e \<Rightarrow> Inl (AnyIo e)
         | Inr s \<Rightarrow>
             (case with_context (''cannot bind to local port '' @ text) (tl_bind T s (SocketAddr (V6 0) port)) of
                Inl e \<Rightarrow> Inl e
              | Inr s \<Rightarrow> map_sum AnyIo (\<lambda>l. [l]) (tl_listen T s 16)))
      else
        (case with_context (''cannot bind to local IPv4 port '' @ text) (bind_listener (SocketAddr LOCALHOST4 port)) of
           Inl e \<Rightarrow> Inl e
         | Inr l4 \<Rightarrow>
             (case with_context (''cannot bind to local IPv6 port '' @ text) (bind_listener (SocketAddr LOCALHOST6 port)) of
                Inl e \<Rightarrow> Inl e
              | Inr l6 \<Rightarrow> Inr [l4, l6])))"

fun tunnel_ports ::
  "show_env \<Rightarrow> ('s, 'l) tcp_listen_os \<Rightarrow> (socket_addr \<Rightarrow> 'l io_result) \<Rightarrow> bool \<Rightarrow> (u16 \<times> u16) list \<Rightarrow>
   anyhow + ((u16 \<times> u16) \<times> 'l list) list" where
  "tunnel_ports S T b global [] = Inr []"
| "tunnel_ports S T b global (p # ps) =
     (case tunnel_listeners S T b global (snd p) of
        Inl e \<Rightarrow> Inl e
      | Inr ls \<Rightarrow> map_sum id (Cons (p, ls)) (tunnel_ports S T b global ps))"

text \<open>
  Whether the monitor is shown, with the terminal or without: the client of the tunnel looks only at the option here, while
  its messages and the other tools also ask whether the output is a terminal.
\<close>

definition tunnel_shows_monitor :: "bool \<Rightarrow> tunnel_client \<Rightarrow> bool" where
  "tunnel_shows_monitor tty cli \<longleftrightarrow> \<not> tu_no_monitor cli"

definition tunnel_tells_connections :: "bool \<Rightarrow> tunnel_client \<Rightarrow> bool" where
  "tunnel_tells_connections tty cli \<longleftrightarrow> tu_no_monitor cli \<or> \<not> tty"

definition speed_shows_monitor :: "bool \<Rightarrow> speed_client \<Rightarrow> bool" where
  "speed_shows_monitor tty cli \<longleftrightarrow> \<not> (sp_no_monitor cli \<or> \<not> tty)"

text \<open>
  A connection to a local port: the aggregated connection is established, or fails; the request is written, or
  fails; both directions are forwarded.  The calls of the writer to the local connection, the result, and whether
  the program ends.
\<close>

definition tunnel_conn ::
  "bool \<Rightarrow> unit io_result \<Rightarrow> unit io_result \<Rightarrow> unit io_result \<Rightarrow> forward_round list \<Rightarrow>
   writer_call list \<times> unit io_result option \<times> bool" where
  "tunnel_conn once outgoing request last_flush down =
     (case outgoing of
        Inl e \<Rightarrow> ([], Some (Inl e), False)
      | Inr _ \<Rightarrow>
          (case request of
             Inl e \<Rightarrow> ([], Some (Inl e), False)
           | Inr _ \<Rightarrow> (let (cs, res) = forward last_flush down in (cs, res, once \<and> res = Some (Inr ())))))"

section \<open>Servers\<close>

datatype 'l listening = ListenTcp "'l list" | ListenRfcomm | ListenProfile | ListenUsb | ListenWs

text \<open>
  What the system answers to a server: sockets, interfaces, the local address of a listener, Bluetooth and USB; the
  registration at the USB controller gives its name and the serial number.  \<open>None\<close> stands for a feature that is absent.
\<close>

record ('s, 'l) server_env =
  se_show :: show_env
  se_sockets :: "('s, 'l) tcp_listen_os"
  se_linux :: bool
  se_interfaces :: "string + network_interface list"
  se_local_addr :: "'l \<Rightarrow> socket_addr io_result"
  se_rfcomm :: "(rfcomm_addr \<Rightarrow> unit io_result) option"
  se_profile :: "unit io_result option"
  se_usb :: "(string \<times> string) io_result option"

text \<open>The addresses of a TCP acceptor; it panics if no listener knows its address.\<close>

definition tcp_acceptor_display :: "show_env \<Rightarrow> ('l \<Rightarrow> socket_addr io_result) \<Rightarrow> 'l list \<Rightarrow> string option" where
  "tcp_acceptor_display S local_addr ls =
     (let addrs = List.map_filter (\<lambda>l. case local_addr l of Inr a \<Rightarrow> Some (sh_socket S a) | Inl _ \<Rightarrow> None) ls in
      if length addrs > 1 then Some (''['' @ join '', '' addrs @ '']'') else nth_opt addrs 0)"

definition serve_tcp :: "('s, 'l) server_env \<Rightarrow> 'l list io_result \<Rightarrow> (anyhow + (string \<times> 'l listening) list) option" where
  "serve_tcp E res =
     (case res of
        Inl _ \<Rightarrow> Some (Inr [])
      | Inr ls \<Rightarrow> map_option (\<lambda>t. Inr [(''TCP '' @ t, ListenTcp ls)]) (tcp_acceptor_display (se_show E) (se_local_addr E) ls))"

definition serve_rfcomm :: "('s, 'l) server_env \<Rightarrow> u8 \<Rightarrow> (anyhow + (string \<times> 'l listening) list) option" where
  "serve_rfcomm E ch =
     Some (Inr (case se_rfcomm E of
        None \<Rightarrow> []
      | Some sock \<Rightarrow>
          (case sock \<lparr>rf_addr = [0, 0, 0, 0, 0, 0], rf_channel = ch\<rparr> of
             Inl _ \<Rightarrow> []
           | Inr _ \<Rightarrow> [(''RFCOMM channel '' @ sh_nat (se_show E) (unat ch), ListenRfcomm)])))"

definition serve_usb :: "('s, 'l) server_env \<Rightarrow> bool \<Rightarrow> (anyhow + (string \<times> 'l listening) list) option" where
  "serve_usb E usb =
     Some (Inr (case se_usb E of
        Some (Inr (udc, serial)) \<Rightarrow> if usb then [(''UDC '' @ udc @ '' ('' @ serial @ '')'', ListenUsb)] else []
      | _ \<Rightarrow> []))"

record speed_server =
  ss_individual_interfaces :: bool
  ss_no_monitor :: bool
  ss_oneshot :: bool
  ss_tls :: bool
  ss_tcp :: u16
  ss_rfcomm :: u8
  ss_usb :: bool
  ss_websocket :: u16

text \<open>The web server for WebSockets is started in the background; that it cannot listen is only reported.\<close>

definition speed_server_parts :: "('s, 'l) server_env \<Rightarrow> speed_server \<Rightarrow> (anyhow + (string \<times> 'l listening) list) option list" where
  "speed_server_parts E cli =
     [serve_tcp E (if ss_individual_interfaces cli then tcp_all_interfaces (se_sockets E) (se_linux E) (se_interfaces E) (ss_tcp cli)
            else tcp_acceptor_new (se_sockets E) [SocketAddr (V6 0) (ss_tcp cli)]),
          serve_rfcomm E (ss_rfcomm cli),
          Some (Inr (case se_profile E of Some (Inr _) \<Rightarrow> [(''RFCOMM profile'', ListenProfile)] | _ \<Rightarrow> [])),
          serve_usb E (ss_usb cli),
          Some (Inr [(''WebSocket '' @ sh_nat (se_show E) (unat (ss_websocket cli)), ListenWs)])]"

definition speed_server_setup :: "('s, 'l) server_env \<Rightarrow> speed_server \<Rightarrow> (anyhow + (string \<times> 'l listening) list) option" where
  "speed_server_setup E cli = map_option (some_transport ''No listening transports.'') (all_parts (speed_server_parts E cli))"

record tunnel_server =
  tv_no_monitor :: bool
  tv_port :: "(string \<times> u16) list"
  tv_tcp :: "u16 option"
  tv_rfcomm :: "u8 option"
  tv_usb :: bool
  tv_usb_interface_name :: string

definition tunnel_server_parts :: "('s, 'l) server_env \<Rightarrow> tunnel_server \<Rightarrow> (anyhow + (string \<times> 'l listening) list) option list" where
  "tunnel_server_parts E cli =
     [(case tv_tcp cli of
             None \<Rightarrow> Some (Inr [])
           | Some port \<Rightarrow> serve_tcp E (tcp_acceptor_new (se_sockets E) [SocketAddr (V6 0) port])),
          (case tv_rfcomm cli of None \<Rightarrow> Some (Inr []) | Some ch \<Rightarrow> serve_rfcomm E ch),
          serve_usb E (tv_usb cli)]"

definition tunnel_server_setup :: "('s, 'l) server_env \<Rightarrow> tunnel_server \<Rightarrow> (anyhow + (string \<times> 'l listening) list) option" where
  "tunnel_server_setup E cli = map_option (some_transport ''No listening transports.'') (all_parts (tunnel_server_parts E cli))"

section \<open>Lemmas\<close>

lemma map_sum_eq_Inr: "map_sum f g x = Inr y \<longleftrightarrow> (\<exists>z. x = Inr z \<and> y = g z)"
  by (cases x) auto

lemma all_parts_Inr:
  assumes "all_parts ps = Some (Inr ts)"
  shows "\<exists>xss. ps = map (\<lambda>xs. Some (Inr xs)) xss \<and> ts = concat xss"
  using assms
proof (induction ps arbitrary: ts rule: all_parts.induct)
  case (4 xs ps)
  then obtain ts' where "all_parts ps = Some (Inr ts')" "ts = xs @ ts'" by (cases "all_parts ps") (auto simp: map_sum_eq_Inr)
  with 4(1) obtain xss where "ps = map (\<lambda>xs. Some (Inr xs)) xss" "ts = concat (xs # xss)" by fastforce
  then show ?case by (intro exI [of _ "xs # xss"]) simp
qed (auto intro: exI [of _ "[]"])

lemma some_transport_Inr [simp]: "some_transport msg r = Inr ts \<longleftrightarrow> r = Inr ts \<and> ts \<noteq> []"
  by (auto simp: some_transport_def split: sum.splits)

lemma all_parts_Inl: "all_parts ps = Some (Inl e) \<Longrightarrow> Some (Inl e) \<in> set ps"
proof (induction ps rule: all_parts.induct)
  case (4 xs ps)
  then obtain r where "all_parts ps = Some r" "map_sum id (append xs) r = Inl e" by auto
  with 4(1) show ?case by (cases r) auto
qed auto

lemma all_parts_total: "None \<notin> set ps \<Longrightarrow> \<exists>r. all_parts ps = Some r"
  by (induction ps rule: all_parts.induct) auto

lemma all_parts_concat: "all_parts (map (\<lambda>xs. Some (Inr xs)) xss) = Some (Inr (concat xss))"
  by (induction xss) auto

lemma with_context_Inr [simp]: "with_context msg r = Inr x \<longleftrightarrow> r = Inr x"
  by (cases r) (simp_all add: with_context_def)

lemma any_io_Inr [simp]: "any_io r = Inr x \<longleftrightarrow> r = Inr x"
  by (cases r) (simp_all add: any_io_def)

lemma tcp_new_display:
  "tcp_new S android lookup hosts port = Inr c \<Longrightarrow> \<exists>t. tcp_connector_display (set_link_filter f (set_ip_version v c)) = Some t"
  by (auto simp: tcp_new_def tcp_unresolved_def io_bind_def tcp_connector_display_def set_link_filter_def set_ip_version_def
      nth_opt_def Let_def split: if_splits sum.splits)

lemma socks_new_display: "socks_new S P proxies t = Inr c \<Longrightarrow> \<exists>x. socks_connector_display S c = Some x"
  by (auto simp: socks_new_def socks_connector_display_def nth_opt_def Let_def split: if_splits sum.splits)

lemma serve_parts_Inr:
  "serve_tcp E res \<noteq> Some (Inl e)"
  "serve_tcp E res = Some (Inr []) \<Longrightarrow> \<exists>err. res = Inl err"
  by (auto simp: serve_tcp_def split: sum.splits)

lemma ws_new_display:
  fixes L :: "'u url_ops" and c :: "('u, 'c, 'g) ws_connector"
  assumes "url_law L"
  shows "\<exists>r :: ('u, 'c, 'g) ws_connector io_result. ws_new S L android lookup ss = Some r"
    and "ws_new S L android lookup ss = Some (Inr c) \<Longrightarrow> \<exists>t. ws_connector_display L (ws_set_ip_version v c) = Some t"
proof -
  show "\<exists>r :: ('u, 'c, 'g) ws_connector io_result. ws_new S L android lookup ss = Some r"
  proof (cases "ws_unresolved L android ss :: ('u, 'c, 'g) ws_connector io_result")
    case (Inr c)
    obtain m where "ws_resolve S L lookup c = Some m"
      using ws_resolve_urls_Some [OF assms ws_unresolved_urls [OF Inr, THEN conjunct2]] unfolding ws_resolve_def by blast
    then show ?thesis using Inr by (simp add: ws_new_def)
  qed (simp add: ws_new_def)
  assume "ws_new S L android lookup ss = Some (Inr c)"
  then have "ws_unresolved L android ss = Inr c"
    by (auto simp: ws_new_def bind_Some_iff split: sum.splits if_splits)
  from ws_unresolved_urls [OF this] show "\<exists>t. ws_connector_display L (ws_set_ip_version v c) = Some t"
    by (auto simp: ws_connector_display_def ws_set_ip_version_def nth_opt_def Let_def)
qed

fun tool_kind :: "('u, 'c, 'g) tool_transport \<Rightarrow> string" where
  "tool_kind (UseTcp _) = ''tcp''"
| "tool_kind (UseSocks _) = ''socks''"
| "tool_kind (UseRfcomm _) = ''rfcomm''"
| "tool_kind (UseProfile _) = ''profile''"
| "tool_kind (UseUsb _) = ''usb''"
| "tool_kind (UseWs _) = ''websocket''"

text \<open>The kinds of transports that the options ask for.\<close>

definition speed_wanted :: "speed_client \<Rightarrow> string list" where
  "speed_wanted cli =
     (if sp_tcp cli = [] then [] else [''tcp'']) @ (if sp_socks cli = [] then [] else [''socks'']) @
     (if sp_rfcomm cli = None then [] else [''rfcomm'']) @ (if sp_rfcomm_profile cli = None then [] else [''profile'']) @
     (if sp_usb cli = None then [] else [''usb'']) @ (if sp_websocket cli = [] then [] else [''websocket''])"

lemma speed_parts_total:
  fixes E :: "'u tool_env"
  assumes "url_law (te_urls E)"
  shows "speed_tcp E cli v \<noteq> None" "speed_socks E cli \<noteq> None"
    "(speed_ws E cli v :: (anyhow + (string \<times> ('u, 'c, 'g) tool_transport) list) option) \<noteq> None"
proof -
  show "speed_tcp E cli v \<noteq> None"
  proof (cases "tcp_new (te_show E) (te_android E) (te_lookup E) (sp_tcp cli) SPEED_TCP_PORT")
    case (Inr c)
    then show ?thesis using tcp_new_display [OF Inr, of "sp_tcp_link_filter cli" v]
      by (simp add: speed_tcp_def with_context_def Let_def)
  qed (simp add: speed_tcp_def with_context_def)
  show "speed_socks E cli \<noteq> None"
    using socks_new_display [of "te_show E" "te_addr E" "sp_socks cli"]
    by (force simp: speed_socks_def split: sum.splits)
  obtain r :: "('u, 'c, 'g) ws_connector io_result" where r: "ws_new (te_show E) (te_urls E) (te_android E) (te_lookup E)
      (map (complete_url (te_show E)) (sp_websocket cli)) = Some r" using ws_new_display(1) [OF assms] by blast
  show "(speed_ws E cli v :: (anyhow + (string \<times> ('u, 'c, 'g) tool_transport) list) option) \<noteq> None"
  proof (cases r)
    case (Inr c)
    then show ?thesis using r ws_new_display(2) [OF assms r [unfolded Inr], of v] by (simp add: speed_ws_def with_context_def)
  qed (simp add: speed_ws_def with_context_def r)
qed

lemma speed_parts_kinds:
  "speed_tcp E cli v = Some (Inr xs) \<Longrightarrow> map (tool_kind \<circ> snd) xs = (if sp_tcp cli = [] then [] else [''tcp''])"
  "speed_socks E cli = Some (Inr xs) \<Longrightarrow> map (tool_kind \<circ> snd) xs = (if sp_socks cli = [] then [] else [''socks''])"
  "speed_rfcomm E cli = Some (Inr xs) \<Longrightarrow> map (tool_kind \<circ> snd) xs = (if sp_rfcomm cli = None then [] else [''rfcomm''])"
  "speed_profile E cli = Some (Inr xs) \<Longrightarrow> map (tool_kind \<circ> snd) xs = (if sp_rfcomm_profile cli = None then [] else [''profile''])"
  "speed_usb E cli = Some (Inr xs) \<Longrightarrow> map (tool_kind \<circ> snd) xs = (if sp_usb cli = None then [] else [''usb''])"
  "speed_ws E cli v = Some (Inr xs) \<Longrightarrow> map (tool_kind \<circ> snd) xs = (if sp_websocket cli = [] then [] else [''websocket''])"
  by (auto simp: speed_tcp_def speed_socks_def speed_rfcomm_def speed_profile_def speed_usb_def speed_ws_def map_sum_eq_Inr Let_def
      split: if_splits sum.splits option.splits)

section \<open>Properties\<close>

text \<open>
  The setup of the speed test never panics.  It has exactly the transports that the options ask for, in order, and at
  least one; without any option it fails.
\<close>

theorem speed_setup_wanted:
  fixes E :: "'u tool_env"
  assumes "url_law (te_urls E)"
  shows "\<exists>r :: anyhow + (string \<times> ('u, 'c, 'g) tool_transport) list. speed_setup E cli = Some r \<and>
    (\<forall>ts. r = Inr ts \<longrightarrow> ts \<noteq> [] \<and> map (tool_kind \<circ> snd) ts = speed_wanted cli) \<and> (speed_wanted cli = [] \<longrightarrow> (\<exists>e. r = Inl e))"
proof (cases "from_only (sp_ipv4 cli) (sp_ipv6 cli)")
  case (Inl e)
  then show ?thesis by (simp add: speed_setup_def any_io_def)
next
  case (Inr v)
  let ?ps = "[speed_tcp E cli v, speed_socks E cli, speed_rfcomm E cli, speed_profile E cli, speed_usb E cli, speed_ws E cli v]
    :: (anyhow + (string \<times> ('u, 'c, 'g) tool_transport) list) option list"
  have "None \<notin> set ?ps" by (simp add: speed_parts_total [OF assms, symmetric] speed_rfcomm_def speed_profile_def speed_usb_def)
  then obtain r where r: "all_parts ?ps = Some r" using all_parts_total by blast
  have kinds: "map (tool_kind \<circ> snd) ts = speed_wanted cli" if "r = Inr ts" for ts
  proof -
    obtain xss :: "(string \<times> ('u, 'c, 'g) tool_transport) list list"
      where "?ps = map (\<lambda>xs. Some (Inr xs)) xss" "ts = concat xss" using all_parts_Inr [OF r [unfolded \<open>r = Inr ts\<close>]] by (elim exE conjE)
    then obtain a b c d e f where ts: "ts = a @ b @ c @ d @ e @ f" and parts: "speed_tcp E cli v = Some (Inr a)" "speed_socks E cli = Some (Inr b)"
      "speed_rfcomm E cli = Some (Inr c)" "speed_profile E cli = Some (Inr d)" "speed_usb E cli = Some (Inr e)"
      "speed_ws E cli v = Some (Inr f)" by (auto simp: Cons_eq_map_conv)
    show ?thesis unfolding ts map_append speed_wanted_def
      speed_parts_kinds(1) [OF parts(1)] speed_parts_kinds(2) [OF parts(2)] speed_parts_kinds(3) [OF parts(3)]
      speed_parts_kinds(4) [OF parts(4)] speed_parts_kinds(5) [OF parts(5)] speed_parts_kinds(6) [OF parts(6)] ..
  qed
  have s: "speed_setup E cli = Some (some_transport ''No connection transports.'' r)"
    using Inr r by (simp add: speed_setup_def any_io_def)
  show ?thesis
  proof (cases r)
    case (Inr ts)
    with kinds have "map (tool_kind \<circ> snd) ts = speed_wanted cli" by blast
    then show ?thesis unfolding s Inr by (auto simp: some_transport_def)
  qed (simp add: s some_transport_def)
qed

text \<open>
  A WebSocket host is completed to a URL unless its name begins with the letters of the scheme: such a host is taken
  for a URL, so that the setup fails if it is not one.  A port that the user gives is followed by the default port.
\<close>

theorem websocket_host_taken_for_url:
  assumes "''ws'' @ h \<in> set (sp_websocket cli)" and "url_parse (te_urls E) (''ws'' @ h) = Inl e"
  shows "speed_setup E cli \<noteq> Some (Inr ts)"
    and "take 2 (h' @ '':'' @ p) \<noteq> ''ws'' \<Longrightarrow>
      complete_url S (h' @ '':'' @ p) = ''ws://'' @ h' @ '':'' @ p @ '':'' @ sh_nat S 8080 @ ''/agg-speed''"
proof -
  have "complete_url (te_show E) (''ws'' @ h) = ''ws'' @ h" by (simp add: complete_url_def)
  then have mem: "''ws'' @ h \<in> set (map (complete_url (te_show E)) (sp_websocket cli))"
    using assms(1) by (metis image_eqI set_map)
  have "ws_unresolved (te_urls E) (te_android E) (map (complete_url (te_show E)) (sp_websocket cli)) \<noteq> Inr (c :: ('a, 'b, 'c) ws_connector)" for c
    using ws_unresolved_Inr [THEN iffD1, THEN conjunct2, rule_format, OF _ mem] assms(2) by fastforce
  then have no: "speed_ws E cli v \<noteq> Some (Inr xs)" for v and xs :: "(string \<times> ('a, 'b, 'c) tool_transport) list"
    using assms(1) by (auto simp: speed_ws_def ws_new_def split: if_splits sum.splits option.splits)
  show "speed_setup E cli \<noteq> Some (Inr ts)"
  proof
    assume "speed_setup E cli = Some (Inr ts)"
    then obtain v where v: "from_only (sp_ipv4 cli) (sp_ipv6 cli) = Inr v" and
      "all_parts [speed_tcp E cli v, speed_socks E cli, speed_rfcomm E cli, speed_profile E cli, speed_usb E cli, speed_ws E cli v] = Some (Inr ts)"
      by (auto simp: speed_setup_def split: sum.splits)
    from all_parts_Inr [OF this(2)] no show False by (auto simp: Cons_eq_map_conv)
  qed
qed (simp add: complete_url_def)

text \<open>
  The server of the speed test never finds that it has no transports, even if it can listen nowhere, because
  the WebSocket port counts before it is opened; the server of the tunnel fails exactly then.
\<close>

theorem speed_server_never_fails:
  "speed_server_setup E cli \<noteq> Some (Inl e)"
  "tunnel_server_setup E tcli = Some (Inl e) \<Longrightarrow>
     (\<forall>port. tv_tcp tcli = Some port \<longrightarrow> (\<exists>err. tcp_acceptor_new (se_sockets E) [SocketAddr (V6 0) port] = Inl err)) \<and>
     serve_usb E (tv_usb tcli) = Some (Inr [])"
proof -
  show "speed_server_setup E cli \<noteq> Some (Inl e)"
  proof
    assume "speed_server_setup E cli = Some (Inl e)"
    then obtain r where "all_parts (speed_server_parts E cli) = Some r" "some_transport ''No listening transports.'' r = Inl e"
      by (auto simp: speed_server_setup_def)
    moreover have "Some (Inl x) \<notin> set (speed_server_parts E cli)" for x
      using serve_parts_Inr(1) [symmetric] by (auto simp: speed_server_parts_def serve_rfcomm_def serve_usb_def)
    ultimately obtain ts where "all_parts (speed_server_parts E cli) = Some (Inr ts)" "ts = []"
      using all_parts_Inl by (cases r) (fastforce simp: some_transport_def split: if_splits)+
    from all_parts_Inr [OF this(1)] this(2) show False by (auto simp: speed_server_parts_def Cons_eq_map_conv)
  qed
  assume "tunnel_server_setup E tcli = Some (Inl e)"
  then obtain r where "all_parts (tunnel_server_parts E tcli) = Some r" "some_transport ''No listening transports.'' r = Inl e"
    by (auto simp: tunnel_server_setup_def)
  moreover have "Some (Inl x) \<notin> set (tunnel_server_parts E tcli)" for x
    using serve_parts_Inr(1) [symmetric] by (auto simp: tunnel_server_parts_def serve_rfcomm_def serve_usb_def split: option.splits)
  ultimately obtain ts where "all_parts (tunnel_server_parts E tcli) = Some (Inr ts)" "ts = []"
    using all_parts_Inl by (cases r) (fastforce simp: some_transport_def split: if_splits)+
  from all_parts_Inr [OF this(1)] this(2)
  obtain a b c where "(case tv_tcp tcli of None \<Rightarrow> Some (Inr []) | Some port \<Rightarrow> serve_tcp E (tcp_acceptor_new (se_sockets E) [SocketAddr (V6 0) port])) = Some (Inr a)"
    "serve_usb E (tv_usb tcli) = Some (Inr c)" "a @ b @ c = []" by (auto simp: tunnel_server_parts_def Cons_eq_map_conv)
  then show "(\<forall>port. tv_tcp tcli = Some port \<longrightarrow> (\<exists>err. tcp_acceptor_new (se_sockets E) [SocketAddr (V6 0) port] = Inl err)) \<and>
     serve_usb E (tv_usb tcli) = Some (Inr [])" using serve_parts_Inr(2) by auto
qed

end
