(* ===== verification/Spec2Isabelle.thy ===== *)
theory Spec2Isabelle
  imports Task_Pair Task_Races Owned_Id Connector Acceptor Simple_Tcp Browser Handles Dump
    Js_Task Tool_Setup
begin

text \<open>
  Aggligator: aggregation of several links into one connection.

  \<^bold>\<open>The program.\<close>  A connection carries a reliable, ordered stream of packets over any number of links,
  which may be slow, lose their transport or come and go.  A task per connection distributes numbered
  messages over its links, keeps them until they are acknowledged, moves the messages of a link that
  does not answer to others, reorders what it receives and hands it to the user.  Links are added by a
  handshake: the connecting side uses a control handle, the accepting side a server that assigns links
  to connections.  The user sends and receives through handles and byte streams.  Stream transports
  are turned into packet transports by a codec with checksums.

  \<^bold>\<open>Theories and sources\<close> (paths below \<open>src/aggligator/src\<close>).

  \<^item> \<open>Agg_Prelude\<close>: machine types, errors, panics as \<open>None\<close>, list lemmas, and the interface \<open>step_system\<close>
    of a step relation with an invariant.
  \<^item> \<open>Seq_Num\<close> (\<open>seq.rs\<close>): wrapping 32-bit sequence numbers and their comparison; the interface
    \<open>wrap_numbering\<close> says on which windows the comparison is the order of the messages.
  \<^item> \<open>Ids\<close> (\<open>id.rs\<close>), \<open>Cfg\<close> (\<open>cfg.rs\<close>), \<open>Wire_Msg\<close> (\<open>msg.rs\<close>): identifiers, configuration, and the
    encoding of all messages; readers are functions on byte lists.
  \<^item> \<open>Io_Codec\<close> (\<open>io/codec.rs\<close>, \<open>io/mod.rs\<close>): the integrity codec (\<open>incremental_decoder\<close> is its interface to
    a stream that arrives in chunks) and the flush filter.
  \<^item> \<open>Control_Data\<close> (\<open>control.rs\<close>, \<open>alc\<close>, \<open>agg/task.rs\<close>): public errors, reasons and statistics.
  \<^item> \<open>Peekable\<close> (\<open>peekable_mpsc.rs\<close>): a queue receiver with one message of look-ahead.
  \<^item> \<open>Link_Int\<close> (\<open>agg/link_int.rs\<close>): the state of a link, one poll of its transmit loop, the events it
    reports, sending, flushing, link tests, statistics, forceful termination.
  \<^item> \<open>Task_State\<close>, \<open>Task_Tx\<close>, \<open>Task_Limits\<close>, \<open>Task_Rx\<close>, \<open>Task_Run\<close> (\<open>agg/task.rs\<close>): the state of the task; sending,
    resending, acknowledgements, adding, unconfirming and removing links; ping and data limits,
    deadlines and link tests; reception and reordering; the main loop as phases (\<open>Top\<close>, \<open>Waiting\<close>,
    \<open>Stopped\<close>, \<open>Panicked\<close>) and a step relation over all events the \<open>select!\<close> of the source can deliver.
  \<^item> \<open>Ledger\<close>, \<open>Task_Ledger\<close>, \<open>Task_Limits_Inv\<close>, \<open>Task_Order\<close>, \<open>Task_Safe\<close>, \<open>Task_Loop\<close>, \<open>Task_Reach\<close>: the
    invariant of the task.  A ledger abstracts the packets in flight, the counters of unacknowledged
    data and the queues; every operation is a change of the ledger and keeps its invariant.
  \<^item> \<open>Task_Spec\<close>: the ledger as an abstract specification of the sender (\<open>reliable_sender\<close>) and the
    transmit operations as its refinement.  \<open>Task_Delivery\<close>: in-order delivery.  \<open>Task_Races\<close>: deadlines,
    progress of resending, and a race of the main loop.  \<open>Task_Pair\<close>: the main loops of both endpoints,
    joined by links that are not trusted.
  \<^item> \<open>Alc\<close> (\<open>alc/sender.rs\<close>, \<open>alc/receiver.rs\<close>, \<open>alc/channel.rs\<close>): sender, sink, receiver, stream, channel.
  \<^item> \<open>Handshake\<close> (\<open>control.rs\<close>, \<open>connect.rs\<close>, \<open>agg/mod.rs\<close>): both sides of the handshake, concurrent calls
    that add links to one connection, construction of the parts of a connection.
  \<^item> \<open>Connect\<close> (\<open>connect.rs\<close>): the server with its registry, concurrent calls that add incoming links,
    listeners, incoming and outgoing connections.  \<open>Owned_Id\<close> (\<open>id.rs\<close>, \<open>connect.rs\<close>): identifiers as texts, identifiers
    with an owner, and the life of connections in the registry.
  \<^item> \<open>Transport\<close> (\<open>transport/mod.rs\<close>, \<open>io/mod.rs\<close>): link tags and their order, link errors, boxed streams, the
    configuration of a new link and the link filter over all transports.
  \<^item> \<open>Connector\<close> (\<open>transport/connector.rs\<close>): attempts to connect link tags, the task of a transport as a step
    relation with its surroundings, and the task that manages all transports.
  \<^item> \<open>Acceptor\<close> (\<open>transport/acceptor.rs\<close>): the streams a transport accepts on their way into the server, the
    task that manages all transports, and accepting with a time limit.
  \<^item> \<open>Derived_Ord\<close>: comparisons as the compiler derives them (\<open>total_cmp\<close> is the interface of a total order).
    \<open>Net_Addr\<close> (\<open>aggligator-transport-tcp/src/util.rs\<close>): addresses, interfaces, resolution of host names.  \<open>Link_Tags\<close>:
    the link tags of all transport crates and their implementations of the trait \<open>LinkTag\<close>.
  \<^item> \<open>Tcp_Transport\<close>, \<open>Web_Socket\<close>, \<open>Socks\<close>, \<open>Usb_Transport\<close>, \<open>Bluetooth\<close> (the crates \<open>aggligator-transport-tcp\<close>,
    \<open>-websocket\<close>, \<open>-socks\<close>, \<open>-usb\<close> and \<open>-bluer\<close>): construction, discovery of link tags, connecting, link
    filters, accepting.  \<open>Tls\<close> (\<open>aggligator-wrapper-tls\<close>): the wrappers, over all these transports.  \<open>Browser\<close>
    (\<open>aggligator-transport-websocket-web\<close>, \<open>-webusb\<close>): the transports of web browsers.  \<open>Simple_Tcp\<close>
    (\<open>aggligator-transport-tcp/src/simple.rs\<close>): connecting and serving in one call.
  \<^item> \<open>Handles\<close> (\<open>control.rs\<close>, \<open>agg/link_int.rs\<close>): what users read and request through the handles of connections and
    links.  \<open>Dump\<close> (\<open>agg/dump.rs\<close>): the diagnostic dump.  \<open>Js_Time\<close> (\<open>exec/js/time.rs\<close>), \<open>Js_Task\<close>
    (\<open>exec/js/task.rs\<close>, \<open>exec/js/runtime.rs\<close>, \<open>src/shared/thread_bound.rs\<close>): time and tasks in web browsers.
    \<open>Speed_Test\<close> (\<open>aggligator-monitor/src/speed.rs\<close>), \<open>Tools\<close>, \<open>Raw_Speed\<close>, \<open>Tool_Setup\<close> (\<open>aggligator-util\<close>,
    \<open>aggligator-monitor/src/monitor.rs\<close>): the speed tests, the tunnel, their setup and helpers of the tools.

  \<^bold>\<open>Correspondence.\<close>  Structs are records with the fields of the source (prefixed where a name is
  shared), enums are datatypes, 32-bit and 64-bit counters on the wire are words, \<open>usize\<close> and times are
  natural numbers.  A function that may panic returns an option, a fallible function a sum.  Shared
  packets (\<open>Rc\<close> and \<open>Weak\<close> in the source) live in a store and are known by their position.  An
  asynchronous function is cut at its awaits and locks into steps; the methods of user-provided transports, tags
  and wrappers are relations or functions in records.  The current time, random numbers
  and the outcomes of awaiting other tasks are arguments.

  \<^bold>\<open>Parameters.\<close>  Code of other packages is a parameter with named hypotheses on its documented
  behaviour: the transport of a link (\<open>sink\<close>), the checksum, the queues of \<open>tokio\<close> (\<open>mpsc_law\<close>,
  \<open>sender_law\<close>, \<open>queue_law\<close>) and the key exchange (\<open>dh_law\<close>).  Each has a concrete instance on which the
  witnesses evaluate.

  \<^bold>\<open>What is shown.\<close>  The task does not panic in any run in which the conditions of \<open>phase_env\<close> hold: the
  timeouts of each link are ordered, at most 2 ^ 32 packets are in flight when an event occurs, and an
  idle link remains when consumed data is acknowledged over one.  No message is lost between sending
  and acknowledgement; what is received is delivered in order, once and without gaps, while the
  arrivals stay within a quarter of the number space; the transmit operations refine the ledger;
  two main loops, over links that lose, delay, repeat and reorder messages, deliver to the user of one endpoint a
  beginning of what the other sent, and hold what has not arrived (copies of messages and acknowledgements must
  not be late by more than a quarter of the number space);
  acknowledgements, resending, removal of links, buffer limits, deadlines and the choice of links do
  what they should.  Encodings, codec and byte streams are round trips.  Both sides of a handshake
  agree, links never join another connection, and a connection that is handed out is usable; the registry of a server
  holds the connections that live, and forgets those that ended at its next call.
  A connector makes at most one attempt per link tag and keeps the delay between attempts; it starts exactly the
  attempts that are needed.  An acceptor gives up only after its time limit without transports.
  The link tags of all transports are totally ordered; discovery publishes exactly the tags that the answers of
  the system give, and the connector and the transports accept them; link filters keep one link per pair of interfaces.
  Requests through handles are not lost; the tunnel and the speed test are transparent.  What joining a task in a browser
  gives is what ended it; the tags of USB devices in a browser keep their device.
  The first two conditions of \<open>phase_env\<close> follow from sane configurations and buffer sizes; the third
  is not guaranteed by the code (\<open>consumed_ack_race\<close>).  Further theorems state where the code does not do
  what it means to: \<open>failed_link_never_terminates\<close>, \<open>new_link_overtaken_panics\<close>, \<open>write_too_big_iff\<close>,
  \<open>empty_packet_reads_as_end\<close>, \<open>rejected_tag_stuck\<close>, \<open>ws_timeouts_disordered\<close>, and for the tools \<open>raw_limit_unit\<close>,
  \<open>dead_links_shown\<close>, \<open>websocket_host_taken_for_url\<close>, \<open>speed_server_never_fails\<close>.

  \<^bold>\<open>Loops.\<close>  Every loop is total.  \<open>drain\<close> is a partial function because it depends on the queue that is
  its parameter; \<open>drain_all\<close> shows that it returns.  The waiting loops of forceful termination are
  inductive, since they need not end.  No fuel is used.

  \<^bold>\<open>Not modelled.\<close>  The native execution environment, which re-exports the asynchronous runtime, and the methods of boxed
  streams (\<open>io/mod.rs\<close>), which only forward.  The interactive monitor, and the command lines and certificates of the tools.  Of the transports,
  socket options whose failure has no consequence, log messages and the waiting between two rounds of discovery.  Floating
  point numbers.
\<close>

text \<open>
  C39.  An outgoing WebSocket link raises the lower limit of its acknowledgement timeout by three seconds and leaves the
  upper limit alone: computing the deadline of a packet over such a link panics exactly if the configured limits
  are less than three seconds apart, although they are in order, while a TCP link of the same configuration works.
\<close>

theorem ws_timeouts_disordered:
  assumes "ack_timeout_min (cfg_link c) \<le> ack_timeout_max (cfg_link c)"
  shows "(confirm_duration resent (link_new lid now cid x c rc
        (snd (tag_link_cfg (link_tag_ops tid S) (\<lambda>_ lc. lc) (WsOut t) c)) Outgoing rt ud) = None \<longleftrightarrow>
      ack_timeout_max (cfg_link c) < ack_timeout_min (cfg_link c) + from_secs 3) \<and>
    confirm_duration resent (link_new lid now cid x c rc
      (snd (tag_link_cfg (link_tag_ops tid S) (\<lambda>_ lc. lc) (Tcp t') c)) Outgoing rt ud) \<noteq> None"
proof -
  have "dyn_link_cfg (WsOut t) (cfg_link c) \<noteq> cfg_link c"
  proof
    assume "dyn_link_cfg (WsOut t) (cfg_link c) = cfg_link c"
    then have "ack_timeout_min (dyn_link_cfg (WsOut t) (cfg_link c)) = ack_timeout_min (cfg_link c)" by simp
    then show False by (simp add: from_secs_def)
  qed
  then have "snd (tag_link_cfg (link_tag_ops tid S) (\<lambda>_ lc. lc) (WsOut t) c) = Some (dyn_link_cfg (WsOut t) (cfg_link c))"
    by (simp add: tag_link_cfg_def link_tag_ops_def Let_def)
  moreover have "snd (tag_link_cfg (link_tag_ops tid S) (\<lambda>_ lc. lc) (Tcp t') c) = None"
    by (simp add: tag_link_cfg_def link_tag_ops_def Let_def)
  ultimately show ?thesis using assms
    by (simp add: confirm_duration_def clamp_def assert_that_def lcfg_def link_new_def Let_def not_le)
qed

theorem ws_timeouts_disordered_witness:
  "confirm_duration False (link_new (LinkId 1) 0 (ConnId 2) ()
     (default_cfg\<lparr>cfg_link := default_link_cfg\<lparr>ack_timeout_max := from_secs 2\<rparr>\<rparr>) (exchanged_from_cfg default_cfg)
     (snd (tag_link_cfg (link_tag_ops id undefined) (\<lambda>_ lc. lc) (WsOut undefined)
       (default_cfg\<lparr>cfg_link := default_link_cfg\<lparr>ack_timeout_max := from_secs 2\<rparr>\<rparr>))) Outgoing 0 []) = None"
  by (subst ws_timeouts_disordered [THEN conjunct1]) (simp_all add: default_link_cfg_def from_secs_def)

end
